(* ===== verification/Lwip_Prelude.thy ===== *)
theory Lwip_Prelude
  imports Main "HOL-Library.Word" "HOL-Library.Monad_Syntax"
begin

text \<open>
  Shared material of the development: the fixed-width integer types of
  \<^verbatim>\<open>core/c/include/lwip/arch.h\<close>, the byte-order helpers of
  \<^verbatim>\<open>core/c/core/def.c\<close> and \<^verbatim>\<open>core/c/include/lwip/def.h\<close>, the error
  codes of \<^verbatim>\<open>core/c/include/lwip/err.h\<close>, and generic lemmas on words and lists
  that every component uses. The port is little-endian
  (\<^verbatim>\<open>core/custom/arch/cc_others.h\<close>).
\<close>

unbundle bit_operations_syntax

named_theorems chksum_rep \<open>facts on numbers that represent a ones-complement sum\<close>
named_theorems unat_simps \<open>reading wrap-around arithmetic on words as arithmetic on nat\<close>
named_theorems cmem \<open>rewriting rules of the C memory model\<close>

type_synonym u8 = "8 word"
type_synonym u16 = "16 word"
type_synonym u32 = "32 word"

section \<open>Error codes (err.h)\<close>

datatype err_t =
    ERR_OK | ERR_MEM | ERR_BUF | ERR_TIMEOUT | ERR_RTE | ERR_INPROGRESS | ERR_VAL
  | ERR_WOULDBLOCK | ERR_USE | ERR_ALREADY | ERR_ISCONN | ERR_CONN | ERR_IF | ERR_ABRT
  | ERR_RST | ERR_CLSD | ERR_ARG

section \<open>Byte order (def.h, def.c)\<close>

definition lwip_htons :: "u16 \<Rightarrow> u16" where
  "lwip_htons x = push_bit 8 (x AND 0x00ff) OR drop_bit 8 (x AND 0xff00)"

definition lwip_htonl :: "u32 \<Rightarrow> u32" where
  "lwip_htonl x =
     push_bit 24 (x AND 0x000000ff) OR push_bit 8 (x AND 0x0000ff00)
     OR drop_bit 8 (x AND 0x00ff0000) OR drop_bit 24 (x AND 0xff000000)"

text \<open>Reading two and four consecutive bytes of memory as a little-endian integer.\<close>

definition le16 :: "u8 \<Rightarrow> u8 \<Rightarrow> u16" where
  "le16 a b = ucast a OR push_bit 8 (ucast b)"

definition le32 :: "u8 \<Rightarrow> u8 \<Rightarrow> u8 \<Rightarrow> u8 \<Rightarrow> u32" where
  "le32 a b c d = ucast (le16 a b) OR push_bit 16 (ucast (le16 c d))"

section \<open>Words\<close>

lemma unat_push_bit_small:
  "unat x * 2 ^ n < 2 ^ LENGTH('a) \<Longrightarrow> unat (push_bit n (x :: 'a::len word)) = unat x * 2 ^ n"
  unfolding unsigned_push_bit_eq
  unfolding push_bit_eq_mult by (simp add: take_bit_nat_eq_self)

lemma unat_take_bit_word: "unat (take_bit n (x :: 'a::len word)) = unat x mod 2 ^ n"
  unfolding unsigned_take_bit_eq 
  unfolding take_bit_eq_mod by simp

lemma and_mask_lit:
  "(x :: 'a::len word) AND 0xff = take_bit 8 x" "x AND 0xffff = take_bit 16 x"
  by (simp_all add: take_bit_eq_mask mask_numeral)

lemma drop_lits: "drop_bit 8 (0xff00 :: u16) = 0xff" "drop_bit 8 (0xff00 :: u32) = 0xff"
  "drop_bit 8 (0xff0000 :: u32) = 0xff00"  "drop_bit 24 (0xff000000 :: u32) = 0xff"
  by (simp_all add: drop_bit_eq_div)


lemma unat_drop_bit_word: "unat (drop_bit n (x :: 'a::len word)) = unat x div 2 ^ n"
  unfolding unat_drop_bit_eq
  unfolding drop_bit_eq_div by simp

lemma unat_u8_lt: "unat (x :: u8) < 256" using unsigned_less [of x] by simp
lemma unat_u16_lt: "unat (x :: u16) < 65536" using unsigned_less [of x] by simp
lemma unat_u32_lt: "unat (x :: u32) < 4294967296" using unsigned_less [of x] by simp

lemma unat_ucast_up: 
  "LENGTH('a) \<le> LENGTH('b) \<Longrightarrow> unat (ucast (x :: 'a::len word) :: 'b::len word) = unat x"
proof -
  assume "LENGTH('a) \<le> LENGTH('b)"
  then have "(2 :: nat) ^ LENGTH('a) \<le> 2 ^ LENGTH('b)" by (rule power_increasing) simp
  then have "unat x < 2 ^ LENGTH('b)" using unsigned_less [of x] by (rule order.strict_trans2 [rotated])
  then show ?thesis by (simp add: unsigned_ucast_eq take_bit_nat_eq_self)
qed
lemma unat_of_nat_small: "n < 2 ^ LENGTH('a) \<Longrightarrow> unat (of_nat n :: 'a::len word) = n"
  by (simp add: unat_of_nat take_bit_nat_eq_self)

lemma unat_of_nat_u16: "n < 65536 \<Longrightarrow> unat (of_nat n :: u16) = n"
  by (rule unat_of_nat_small) simp

lemma of_nat_unat_diff: "b \<le> a \<Longrightarrow> of_nat (unat a - unat b) = (a - b :: 'a::len word)"
  by (simp add: word_le_nat_alt)

lemma unat_OR_disj: "a AND b = 0 \<Longrightarrow> unat a + unat b < 2 ^ LENGTH('a) \<Longrightarrow> unat ((a :: 'a::len word) OR b) = unat a + unat b"
  by (metis disjunctive_add_eq_or unat_add_lem)

lemma unat_le16: "unat (le16 a b) = unat a + 256 * unat b"
proof -
  have d: "(ucast a :: u16) AND push_bit 8 (ucast b) = 0"
    by (auto simp add: bit_eq_iff bit_simps dest: bit_imp_le_length)
  have a: "unat (ucast a :: u16) = unat a" by (simp add: unat_ucast_up)
  have bb: "unat b < 256" using unsigned_less [of b] by simp
  have aa: "unat a < 256" using unsigned_less [of a] by simp
  have b: "unat (push_bit 8 (ucast b :: u16)) = 256 * unat b" 
    using bb by (subst unat_push_bit_small) (simp_all add: unat_ucast_up)
  show ?thesis unfolding le16_def
    using aa bb by (subst unat_OR_disj [OF d]) (simp_all add: a b)
qed
lemma unat_le32: "unat (le32 a b c d) = unat (le16 a b) + 65536 * unat (le16 c d)"
proof -
  have dj: "(ucast (le16 a b) :: u32) AND push_bit 16 (ucast (le16 c d)) = 0"
    by (auto simp add: bit_eq_iff bit_simps dest: bit_imp_le_length)
  have lo: "unat (ucast (le16 a b) :: u32) = unat (le16 a b)"
    by (simp add: unat_ucast_up)
  have bl: "unat (le16 a b) < 65536" and bh: "unat (le16 c d) < 65536"
    using unsigned_less [of "le16 a b"] unsigned_less [of "le16 c d"] by simp_all
  have hi: "unat (push_bit 16 (ucast (le16 c d) :: u32)) = 65536 * unat (le16 c d)"
    using bh by (subst unat_push_bit_small) (simp_all add: unat_ucast_up)
  show ?thesis unfolding le32_def
    using bl bh by (subst unat_OR_disj [OF dj]) (simp_all add: lo hi)
qed
lemma unat_lwip_htons: "unat (lwip_htons x) = 256 * (unat x mod 256) + unat x div 256"
proof -
  have x: "unat x < 65536" using unsigned_less [of x] by simp
  have e: "lwip_htons x = push_bit 8 (take_bit 8 x) OR drop_bit 8 x"
   unfolding lwip_htons_def and_mask_lit drop_bit_and drop_lits
    by (auto simp add: bit_eq_iff bit_simps dest: bit_imp_le_length)
  have dj: "push_bit 8 (take_bit 8 x) AND drop_bit 8 x = 0"
    by (auto simp add: bit_eq_iff bit_simps dest: bit_imp_le_length)
  have h: "unat (push_bit 8 (take_bit 8 x)) = 256 * (unat x mod 256)"
    by (subst unat_push_bit_small) (simp_all add: unat_take_bit_word)
  have l: "unat (drop_bit 8 x) = unat x div 256" 
    by (simp add: unat_drop_bit_word)
  have "unat x div 256 < 256" "unat x mod 256 < 256" using x by simp_all
  then show ?thesis unfolding e by (subst unat_OR_disj [OF dj]) (simp_all add: h l)
qed

lemma lwip_htons_invol: "lwip_htons (lwip_htons x) = x"
proof -
  have "unat (lwip_htons (lwip_htons x)) = unat x"
    using unat_u16_lt [of x] by (simp add: unat_lwip_htons)
  then show ?thesis by (simp add: word_unat_eq_iff)
qed

section \<open>Writing into a list\<close>

definition overlay :: "nat \<Rightarrow> 'a list \<Rightarrow> 'a list \<Rightarrow> 'a list" where
  "overlay i ys old = take i old @ ys @ drop (i + length ys) old"

lemma overlay_overlay:
  assumes "i + length ys + length zs \<le> length old"
  shows "overlay (i + length ys) zs (overlay i ys old) = overlay i (ys @ zs) old"
  using assms by (simp add: overlay_def min_absorb2 ac_simps)

lemma overlay_Nil [simp]: "overlay i [] old = old"
  by (simp add: overlay_def)

end
