(* ===== verification/C_Memory.thy ===== *)
theory C_Memory
  imports Lwip_Prelude
begin

text \<open>
  The part of C's memory the packet buffers live in, and the allocator of
  \<^verbatim>\<open>core/c/core/mem.c\<close> and \<^verbatim>\<open>memp.c\<close> in the configuration of
  \<^verbatim>\<open>core/custom/lwipopts.h\<close> (\<^verbatim>\<open>MEM_LIBC_MALLOC\<close>, \<^verbatim>\<open>MEMP_MEM_MALLOC\<close>:
  everything comes from \<^verbatim>\<open>malloc\<close>).

  Memory is a set of allocated blocks, each a list of bytes. A pointer is a block and an
  offset, or NULL. A \<^verbatim>\<open>struct pbuf\<close> that carries its own data is one allocation in
  C: the structure, followed by the data area; here the structure is a record stored under
  the block's number and the block holds the data area only, so offset 0 is the first byte
  behind the structure and a payload pointer in front of that byte has a negative offset.
  Whether a \<^verbatim>\<open>malloc\<close> succeeds, what a fresh block contains and where it lies in the
  machine's address space are fields of the state that no operation can predict.

  Operations return \<open>None\<close> where the C program stops (a failed \<^verbatim>\<open>LWIP_ASSERT\<close> or
  \<^verbatim>\<open>LWIP_ERROR\<close>, both \<^verbatim>\<open>abort()\<close> in \<^verbatim>\<open>arch/cc_others.h\<close>), dereferences
  something that is not allocated, or does not terminate.
\<close>

type_synonym cptr = "(nat \<times> int) option"

text \<open>
  The function a custom pbuf carries: \<^verbatim>\<open>struct pbuf_custom\<close> of \<^verbatim>\<open>pbuf.h\<close> and
  \<^verbatim>\<open>struct pbuf_custom_ref\<close> of \<^verbatim>\<open>ip4_frag.h\<close>, whose
  \<^verbatim>\<open>ipfrag_free_pbuf_custom\<close> releases the original pbuf.
\<close>

datatype custom_fn = No_Custom_Fn | Ipfrag_Free_Pbuf_Custom "nat option"

record pbuf =
  pnext :: "nat option"
  payload :: cptr
  tot_len :: u16
  plen :: u16
  type_internal :: u8
  pflags :: u8
  pref :: u8
  if_idx :: u8
  custom_free_function :: custom_fn

record pheap =
  pbufs :: "nat \<Rightarrow> pbuf option"
  mem :: "nat \<Rightarrow> u8 list option"
  base :: "nat \<Rightarrow> nat"
  garbage :: "nat \<Rightarrow> nat \<Rightarrow> u8"
  fresh :: nat
  mallocs :: "bool list"
  free_ooseq_pending :: bool

section \<open>Pointers, loads and stores\<close>

fun ptr_add :: "cptr \<Rightarrow> int \<Rightarrow> cptr" where
  "ptr_add None i = None"
| "ptr_add (Some (b, off)) i = Some (b, off + i)"

definition in_block :: "pheap \<Rightarrow> nat \<Rightarrow> int \<Rightarrow> nat \<Rightarrow> bool" where
  "in_block h b off n \<longleftrightarrow>
     (case mem h b of None \<Rightarrow> False | Some bs \<Rightarrow> 0 \<le> off \<and> nat off + n \<le> length bs)"

fun load :: "pheap \<Rightarrow> cptr \<Rightarrow> nat \<Rightarrow> u8 list option" where
  "load h None n = (if n = 0 then Some [] else None)"
| "load h (Some (b, off)) n =
     (if n = 0 then Some []
      else if in_block h b off n then Some (take n (drop (nat off) (the (mem h b))))
      else None)"

fun store :: "cptr \<Rightarrow> u8 list \<Rightarrow> pheap \<Rightarrow> pheap option" where
  "store None xs h = (if xs = [] then Some h else None)"
| "store (Some (b, off)) xs h =
     (if xs = [] then Some h
      else if in_block h b off (length xs)
      then let bs = the (mem h b); i = nat off
           in Some (h\<lparr>mem := (mem h)(b \<mapsto> take i bs @ xs @ drop (i + length xs) bs)\<rparr>)
      else None)"

definition MEMCPY :: "cptr \<Rightarrow> cptr \<Rightarrow> nat \<Rightarrow> pheap \<Rightarrow> pheap option" where
  "MEMCPY dst src n h = do { bs \<leftarrow> load h src n; store dst bs h }"

text \<open>The machine address of a pointer; only its alignment is ever looked at.\<close>

fun address :: "pheap \<Rightarrow> cptr \<Rightarrow> nat" where
  "address h None = 0"
| "address h (Some (b, off)) = nat (int (base h b) + off)"

definition get_pbuf :: "nat \<Rightarrow> pheap \<Rightarrow> pbuf option" where
  "get_pbuf a h = pbufs h a"

definition upd_pbuf :: "nat \<Rightarrow> (pbuf \<Rightarrow> pbuf) \<Rightarrow> pheap \<Rightarrow> pheap option" where
  "upd_pbuf a f h =
     (case pbufs h a of None \<Rightarrow> None | Some pb \<Rightarrow> Some (h\<lparr>pbufs := (pbufs h)(a \<mapsto> f pb)\<rparr>))"

text \<open>\<^verbatim>\<open>LWIP_ASSERT\<close> and \<^verbatim>\<open>LWIP_ERROR\<close>: the program goes on only when the condition holds.\<close>

definition LWIP_ASSERT :: "bool \<Rightarrow> unit option" where
  "LWIP_ASSERT c = (if c then Some () else None)"

section \<open>Allocation (mem.c, memp.c)\<close>

text \<open>
  The argument is the size of the data area behind the structure. The next element of
  \<open>mallocs\<close> says whether \<^verbatim>\<open>malloc\<close> finds memory; when the list is used up it does.
\<close>

definition mem_malloc :: "nat \<Rightarrow> pheap \<Rightarrow> nat option \<times> pheap" where
  "mem_malloc n h =
     (case mallocs h of
        False # ms \<Rightarrow> (None, h\<lparr>mallocs := ms\<rparr>)
      | ms \<Rightarrow> (Some (fresh h),
               h\<lparr>mem := (mem h)(fresh h \<mapsto> map (garbage h (fresh h)) [0..<n]),
                 fresh := Suc (fresh h), mallocs := tl ms\<rparr>))"

definition mem_free :: "nat \<Rightarrow> pheap \<Rightarrow> pheap option" where
  "mem_free a h =
     (case mem h a of
        None \<Rightarrow> None
      | Some _ \<Rightarrow> Some (h\<lparr>mem := (mem h)(a := None), pbufs := (pbufs h)(a := None)\<rparr>))"

text \<open>With \<^verbatim>\<open>MEM_LIBC_MALLOC\<close> trimming keeps the block and returns it unchanged.\<close>

definition mem_trim :: "nat \<Rightarrow> nat \<Rightarrow> nat" where
  "mem_trim a new_size = a"

text \<open>
  The pools used by the packet buffers, with the data area of one element: an element of
  \<^verbatim>\<open>MEMP_PBUF\<close> is a bare structure, one of \<^verbatim>\<open>MEMP_PBUF_POOL\<close> is followed by
  \<^verbatim>\<open>PBUF_POOL_BUFSIZE\<close> bytes (\<^verbatim>\<open>TCP_MSS + 40 + 0 + 14\<close>).
\<close>

datatype memp_t = MEMP_PBUF | MEMP_PBUF_POOL | MEMP_FRAG_PBUF | MEMP_REASSDATA

abbreviation (input) PBUF_POOL_BUFSIZE :: nat where "PBUF_POOL_BUFSIZE \<equiv> 1514"

fun memp_data_size :: "memp_t \<Rightarrow> nat" where
  "memp_data_size MEMP_PBUF_POOL = PBUF_POOL_BUFSIZE"
| "memp_data_size _ = 0"

definition do_memp_malloc_pool :: "memp_t \<Rightarrow> pheap \<Rightarrow> nat option \<times> pheap" where
  "do_memp_malloc_pool desc h = mem_malloc (memp_data_size desc) h"

definition memp_malloc :: "memp_t \<Rightarrow> pheap \<Rightarrow> nat option \<times> pheap" where
  "memp_malloc ty h = do_memp_malloc_pool ty h"

definition do_memp_free_pool :: "memp_t \<Rightarrow> nat \<Rightarrow> pheap \<Rightarrow> pheap option" where
  "do_memp_free_pool desc a h = mem_free a h"

definition memp_free :: "memp_t \<Rightarrow> nat option \<Rightarrow> pheap \<Rightarrow> pheap option" where
  "memp_free ty m h = (case m of None \<Rightarrow> Some h | Some a \<Rightarrow> do_memp_free_pool ty a h)"

lemmas alloc_defs = memp_malloc_def do_memp_malloc_pool_def memp_free_def do_memp_free_pool_def

section \<open>Rules of the memory\<close>

lemma bind_weak_cong: "m = m' \<Longrightarrow> Option.bind m f = Option.bind m' f"
  by simp

lemma LWIP_ASSERT_simps [simp]:
  "LWIP_ASSERT True = Some ()" "LWIP_ASSERT False = None"
  "LWIP_ASSERT c = Some u \<longleftrightarrow> c" "LWIP_ASSERT c = None \<longleftrightarrow> \<not> c"
  by (simp_all add: LWIP_ASSERT_def)

lemma load_length: "load h p n = Some bs \<Longrightarrow> length bs = n"
  by (cases "(h, p, n)" rule: load.cases)
     (auto simp: in_block_def split: if_splits option.splits)

lemma ptr_add_0 [simp]: "ptr_add p 0 = p"
  by (cases p) auto

lemma ptr_add_add [simp]: "ptr_add (ptr_add p i) j = ptr_add p (i + j)"
  by (cases p) (auto simp: add.assoc)

lemma load_0 [simp]: "load h p 0 = Some []"
  by (cases p) auto

lemma store_Nil [simp]: "store p [] h = Some h"
  by (cases p) auto

text \<open>Reading back what was stored, at the same place and at a disjoint one.\<close>

lemma load_store_same:
  "store p xs h = Some h' \<Longrightarrow> load h' p (length xs) = Some xs"
  by (cases p) (auto simp: in_block_def Let_def split: if_splits option.splits)

lemma load_store_other_block:
  "store (Some (b, off)) xs h = Some h' \<Longrightarrow> b' \<noteq> b \<Longrightarrow> load h' (Some (b', off')) n = load h (Some (b', off')) n"
  by (auto simp: in_block_def Let_def split: if_splits option.splits)

end
