(* ===== verification/Chksum_Algorithms.thy ===== *)
theory Chksum_Algorithms
  imports Lwip_Prelude
begin

text \<open>
  The Internet checksum over one contiguous buffer: the macros of
  \<^verbatim>\<open>core/c/include/lwip/inet_chksum.h\<close> and the three versions of
  \<^verbatim>\<open>lwip_standard_chksum\<close> in \<^verbatim>\<open>core/c/core/inet_chksum.c\<close>. Version 2 is
  the one this port compiles; the other two are selected by
  \<^verbatim>\<open>LWIP_CHKSUM_ALGORITHM\<close>. A buffer is its machine address (only its parity and its
  residue modulo four matter) and its bytes. The locale at the end is the contract that
  \<^verbatim>\<open>LWIP_CHKSUM\<close> has to satisfy for its callers, and the three versions are shown to
  satisfy it.
\<close>

unbundle bit_operations_syntax

section \<open>The macros\<close>

definition FOLD_U32T :: "u32 \<Rightarrow> u32" where
  "FOLD_U32T u = drop_bit 16 u + (u AND 0x0000ffff)"

definition SWAP_BYTES_IN_WORD :: "u32 \<Rightarrow> u32" where
  "SWAP_BYTES_IN_WORD w = push_bit 8 (w AND 0xff) OR drop_bit 8 (w AND 0xff00)"

section \<open>Version 1: big-endian words, one final byte swap\<close>

text \<open>The loop returns the accumulator and the zero or one byte that is left over.\<close>

fun chksum1_loop :: "u32 \<Rightarrow> u8 list \<Rightarrow> u32 \<times> u8 list" where
  "chksum1_loop acc (a # b # bs) = chksum1_loop (acc + ucast (le16 b a)) bs"
| "chksum1_loop acc bs = (acc, bs)"

definition lwip_standard_chksum1 :: "nat \<Rightarrow> u8 list \<Rightarrow> u16" where
  "lwip_standard_chksum1 dataptr bs =
     (let (acc, left) = chksum1_loop 0 bs;
          acc = (case left of [] \<Rightarrow> acc | a # _ \<Rightarrow> acc + ucast (le16 0 a));
          acc = drop_bit 16 acc + (acc AND 0x0000ffff);
          acc = (if acc AND 0xffff0000 \<noteq> 0
                 then drop_bit 16 acc + (acc AND 0x0000ffff) else acc)
      in lwip_htons (ucast acc))"

section \<open>Version 2: host-order words, swap when the buffer starts at an odd address\<close>

fun chksum2_loop :: "u32 \<Rightarrow> u8 list \<Rightarrow> u32 \<times> u8 list" where
  "chksum2_loop acc (a # b # bs) = chksum2_loop (acc + ucast (le16 a b)) bs"
| "chksum2_loop acc bs = (acc, bs)"

text \<open>The two bytes of the variable \<open>t\<close> are \<open>t0\<close> and \<open>t1\<close>.\<close>

definition lwip_standard_chksum :: "nat \<Rightarrow> u8 list \<Rightarrow> u16" where
  "lwip_standard_chksum dataptr bs =
     (let odd_start = odd dataptr;
          (t1, bs) = (case bs of b # r \<Rightarrow> if odd_start then (b, r) else (0, bs) | [] \<Rightarrow> (0, bs));
          (acc, left) = chksum2_loop 0 bs;
          t0 = (case left of [] \<Rightarrow> 0 | b # _ \<Rightarrow> b);
          acc = acc + ucast (le16 t0 t1);
          acc = FOLD_U32T acc;
          acc = FOLD_U32T acc;
          acc = (if odd_start then SWAP_BYTES_IN_WORD acc else acc)
      in ucast acc)"

section \<open>Version 3: 32-bit words with end-around carry\<close>

fun chksum3_loop :: "u32 \<Rightarrow> u8 list \<Rightarrow> u32 \<times> u8 list" where
  "chksum3_loop acc (a # b # c # d # e # f # g # h # bs) =
     (let tmp = acc + le32 a b c d;
          tmp = (if tmp < acc then tmp + 1 else tmp);
          acc = tmp + le32 e f g h;
          acc = (if acc < tmp then acc + 1 else acc)
      in chksum3_loop acc bs)"
| "chksum3_loop acc bs = (acc, bs)"

definition lwip_standard_chksum3 :: "nat \<Rightarrow> u8 list \<Rightarrow> u16" where
  "lwip_standard_chksum3 dataptr bs =
     (let odd_start = odd dataptr;
          (t1, pb, bs) = (case bs of b # r \<Rightarrow> if odd_start then (b, Suc dataptr, r) else (0, dataptr, bs)
                          | [] \<Rightarrow> (0, dataptr, bs));
          (acc, bs) = (case bs of a # b # r \<Rightarrow> if pb mod 4 \<noteq> 0 then (ucast (le16 a b), r) else (0, bs)
                       | _ \<Rightarrow> (0, bs));
          (acc, bs) = chksum3_loop acc bs;
          acc = FOLD_U32T acc;
          (acc, left) = chksum2_loop acc bs;
          t0 = (case left of [] \<Rightarrow> 0 | b # _ \<Rightarrow> b);
          acc = acc + ucast (le16 t0 t1);
          acc = FOLD_U32T acc;
          acc = FOLD_U32T acc;
          acc = (if odd_start then SWAP_BYTES_IN_WORD acc else acc)
      in ucast acc)"

section \<open>Reference: the ones-complement sum of a byte sequence\<close>

text \<open>
  The bytes of a buffer count alternately with weight one and weight 256, which is the
  sum of its 16-bit little-endian words with a zero byte appended to an odd buffer.
\<close>

fun le_sum :: "u8 list \<Rightarrow> nat"
  and be_sum :: "u8 list \<Rightarrow> nat" where
  "le_sum [] = 0"
| "le_sum (a # bs) = unat a + be_sum bs"
| "be_sum [] = 0"
| "be_sum (a # bs) = 256 * unat a + le_sum bs"

text \<open>
  A number represents a sum when it is congruent to it modulo \<open>2 ^ 16 - 1\<close> and is zero
  exactly when the sum is; among the 16-bit numbers one and only one represents it.
\<close>

definition ocrep :: "nat \<Rightarrow> nat \<Rightarrow> bool" where
  "ocrep v S \<longleftrightarrow> v mod 65535 = S mod 65535 \<and> (v = 0 \<longleftrightarrow> S = 0)"

definition ocval :: "nat \<Rightarrow> nat" where
  "ocval S = (if S = 0 then 0 else (S - 1) mod 65535 + 1)"

lemma ocrep_refl [simp]: "ocrep v v"
  by (simp add: ocrep_def)

lemma ocrep_trans [chksum_rep]: "ocrep u v \<Longrightarrow> ocrep v w \<Longrightarrow> ocrep u w"
  by (simp add: ocrep_def)

lemma ocrep_add [chksum_rep]: "ocrep u S \<Longrightarrow> ocrep v T \<Longrightarrow> ocrep (u + v) (S + T)"
  unfolding ocrep_def by (metis add_is_0 mod_add_eq)

lemma ocrep_mult: "ocrep u S \<Longrightarrow> ocrep (256 * u) (256 * S)"
  unfolding ocrep_def by (metis mod_mult_right_eq mult_eq_0_iff)

lemma ocrep_carry: "ocrep (q + r) (65536 * q + r)"
proof -
  have "65536 * q + r = (q + r) + 65535 * q" by simp
  then have "(65536 * q + r) mod 65535 = (q + r) mod 65535" by (simp only: mod_mult_self2)
  then show ?thesis by (auto simp add: ocrep_def)
qed

lemma ocrep_fold: "ocrep (x div 65536 + x mod 65536) x"
  using ocrep_carry [of "x div 65536" "x mod 65536"] by simp

lemma ocrep_swap: "ocrep (256 * (v mod 256) + v div 256) (256 * v)"
proof -
  have "256 * v = 65536 * (v div 256) + 256 * (v mod 256)"
    using div_mult_mod_eq [of v 256] by linarith
  then show ?thesis using ocrep_carry [of "v div 256" "256 * (v mod 256)"] by (simp add: add.commute)
qed

lemma ocrep_unique: "ocrep v S \<Longrightarrow> v < 65536 \<Longrightarrow> v = ocval S"
proof -
  assume rep: "ocrep v S" and v: "v < 65536"
  show ?thesis
  proof (cases "S = 0")
    case True
    with rep show ?thesis by (simp add: ocrep_def ocval_def)
  next
    case False
    with rep have pos: "0 < v" and eq: "v mod 65535 = S mod 65535" by (simp_all add: ocrep_def)
    let ?k = "S div 65535"
    have S: "S = S mod 65535 + 65535 * ?k" by simp
    show ?thesis
    proof (cases "v = 65535")
      case True
      then have "S mod 65535 = 0" using eq by simp
      then have "S = 65535 * ?k" using S by (metis add_0)
      then obtain k where "S = 65535 * Suc k" using False by (metis mult_0_right not0_implies_Suc)
      then have "S - 1 = 65534 + 65535 * k" by simp
      then have "(S - 1) mod 65535 = 65534" by (simp only: mod_mult_self2) simp
      then show ?thesis using True False by (simp add: ocval_def)
    next
      case False2: False
      then have "S = v + 65535 * ?k" using S eq v by simp
      then have "S - 1 = (v - 1) + 65535 * ?k" using pos by linarith
      then have "(S - 1) mod 65535 = (v - 1) mod 65535" by (simp only: mod_mult_self2)
      then show ?thesis using False2 pos v \<open>S \<noteq> 0\<close> by (simp add: ocval_def)
    qed
  qed
qed


lemma ocrep_ocval: "ocrep (ocval S) S"
proof (cases "S = 0")
  case False
  then have "S mod 65535 = ((S - 1) mod 65535 + 1) mod 65535" by (simp add: mod_Suc_eq)
  then show ?thesis using False by (simp add: ocrep_def ocval_def)
qed (simp add: ocval_def)

lemma unat_FOLD_U32T: "unat (FOLD_U32T u) = unat u div 65536 + unat u mod 65536"
proof -
  have u: "unat u < 4294967296" by (rule unat_u32_lt)
  then have "unat u div 65536 < 65536" by simp
  then have "unat (drop_bit 16 u) + unat (take_bit 16 u) < 2 ^ LENGTH(32)"
    by (simp add: unat_drop_bit_word unat_take_bit_word)
  then show ?thesis
    unfolding FOLD_U32T_def and_mask_lit
    by (subst unat_add_lem [THEN iffD1]) (simp_all add: unat_drop_bit_word unat_take_bit_word)
qed

lemma unat_SWAP_BYTES_IN_WORD:
  "unat (SWAP_BYTES_IN_WORD w) = 256 * (unat w mod 256) + (unat w div 256) mod 256"
proof -
  have dj: "push_bit 8 (take_bit 8 w) AND take_bit 8 (drop_bit 8 w) = 0"
    by (auto simp add: bit_eq_iff bit_simps dest: bit_imp_le_length)
  have h: "unat (push_bit 8 (take_bit 8 w)) = 256 * (unat w mod 256)"
    by (subst unat_push_bit_small) (simp_all add: unat_take_bit_word)
  have l: "unat (take_bit 8 (drop_bit 8 w)) = unat w div 256 mod 256"
    by (simp add: unat_take_bit_word unat_drop_bit_word)
  have "unat w div 256 mod 256 < 256" "unat w mod 256 < 256" by simp_all
  then show ?thesis unfolding SWAP_BYTES_IN_WORD_def and_mask_lit drop_bit_and drop_lits
    by (subst unat_OR_disj [OF dj]) (simp_all add: h l)
qed

lemma ocrep_FOLD [chksum_rep]: "ocrep (unat (FOLD_U32T u)) (unat u)"
  by (simp add: unat_FOLD_U32T ocrep_fold)

lemma fold_lt: "x \<le> 131070 \<Longrightarrow> x div 65536 + x mod 65536 < (65536 :: nat)"
proof -
  assume x: "x \<le> 131070"
  have d: "x = 65536 * (x div 65536) + x mod 65536" and r: "x mod 65536 < 65536" by simp_all
  show ?thesis
  proof (cases "x div 65536 = 0")
    case True
    then show ?thesis using r by simp
  next
    case False
    then show ?thesis using d r x by linarith
  qed
qed

lemma FOLD_lt: "unat u \<le> 131070 \<Longrightarrow> unat (FOLD_U32T u) < 65536"
  unfolding unat_FOLD_U32T by (rule fold_lt)

lemma FOLD_FOLD_lt: "unat (FOLD_U32T (FOLD_U32T u)) < 65536"
proof -
  have "unat u div 65536 < 65536" using unat_u32_lt [of u] by simp
  then have "unat (FOLD_U32T u) \<le> 131070" by (simp add: unat_FOLD_U32T)
  then show ?thesis by (rule FOLD_lt)
qed

lemma ocrep_SWAP [chksum_rep]:
  "unat w < 65536 \<Longrightarrow> ocrep (unat (SWAP_BYTES_IN_WORD w)) (256 * unat w)"
  using ocrep_swap [of "unat w"] by (simp add: unat_SWAP_BYTES_IN_WORD)

lemma SWAP_lt: "unat (SWAP_BYTES_IN_WORD w) < 65536"
proof -
  have "unat w div 256 mod 256 < 256" "unat w mod 256 < 256" by simp_all
  then show ?thesis unfolding unat_SWAP_BYTES_IN_WORD by linarith
qed

lemma ocrep_htons [chksum_rep]: "ocrep (unat (lwip_htons w)) (256 * unat w)"
  by (simp add: unat_lwip_htons ocrep_swap)

lemma ocrep_swap_sums: "ocrep (256 * be_sum bs) (le_sum bs)" "ocrep (256 * le_sum bs) (be_sum bs)"
proof (induction bs)
  case (Cons a bs)
  { case 1
    have "256 * be_sum (a # bs) = 65536 * unat a + 256 * le_sum bs" by simp
    then show ?case using ocrep_carry ocrep_add [OF ocrep_refl Cons(2)] by (metis (no_types) le_sum.simps(2) ocrep_def) }
  { case 2
    show ?case using ocrep_add [OF ocrep_refl Cons(1), of "256 * unat a"] by (simp add: algebra_simps) }
qed simp_all


section \<open>The three versions compute the reference\<close>

lemma le_sum_pair: "le_sum (a # b # bs) = unat (le16 a b) + le_sum bs"
  by (simp add: unat_le16)

lemma be_sum_pair: "be_sum (a # b # bs) = unat (le16 b a) + be_sum bs"
  by (simp add: unat_le16)

lemma sum_bounds:
  "2 * le_sum bs \<le> 65535 * (length bs + 1)" "2 * be_sum bs \<le> 65535 * (length bs + 1)"
proof (induction bs rule: induct_list012)
  case (2 a)
  { case 1 show ?case using unat_u8_lt [of a] by simp }
  { case 2 show ?case using unat_u8_lt [of a] by simp }
next
  case (3 a b bs)
  { case 1
    show ?case using "3.IH"(1) unat_u16_lt [of "le16 a b"] unfolding le_sum_pair by simp }
  { case 2
    show ?case using "3.IH"(2) unat_u16_lt [of "le16 b a"] unfolding be_sum_pair by simp }
qed simp_all

lemma sum_lt_u32:
  assumes "length bs \<le> 0x20000"
  shows "le_sum bs < 4294967296" "be_sum bs < 4294967296"
proof -
  have "65535 * (length bs + 1) \<le> 65535 * (0x20000 + 1)" using assms by (intro mult_left_mono) simp_all
  then show "le_sum bs < 4294967296" "be_sum bs < 4294967296"
    using sum_bounds [of bs] by simp_all
qed

lemma unat_add_u32: "unat x + unat y < 4294967296 \<Longrightarrow> unat (x + y :: u32) = unat x + unat y"
  by (subst unat_add_lem [THEN iffD1]) simp_all

lemma chksum2_loop_sum:
  assumes "unat acc + le_sum bs < 4294967296" and "chksum2_loop acc bs = (acc', left)"
  shows "unat acc' + le_sum left = unat acc + le_sum bs \<and> length left \<le> 1"
  using assms
proof (induction acc bs rule: chksum2_loop.induct)
  case (1 acc a b bs)
  let ?w = "ucast (le16 a b) :: u32"
  have w: "unat ?w = unat (le16 a b)" by (simp add: unat_ucast_up)
  have "unat (acc + ?w) = unat acc + unat (le16 a b)"
    using "1.prems"(1) w by (subst unat_add_u32) (simp_all add: unat_le16)
  with "1.prems" "1.IH" show ?case by (simp add: add.assoc unat_le16)
qed auto

lemma chksum1_loop_sum:
  assumes "unat acc + be_sum bs < 4294967296" and "chksum1_loop acc bs = (acc', left)"
  shows "unat acc' + be_sum left = unat acc + be_sum bs \<and> length left \<le> 1"
  using assms
proof (induction acc bs rule: chksum1_loop.induct)
  case (1 acc a b bs)
  let ?w = "ucast (le16 b a) :: u32"
  have w: "unat ?w = unat (le16 b a)" by (simp add: unat_ucast_up)
  have "unat (acc + ?w) = unat acc + unat (le16 b a)"
    using "1.prems"(1) w by (subst unat_add_u32) (simp_all add: unat_le16)
  with "1.prems" "1.IH" show ?case by (simp add: add.assoc unat_le16)
qed auto

lemma ocrep_end_around:
  fixes x y :: u32
  defines "t \<equiv> (if x + y < x then x + y + 1 else x + y)"
  shows "ocrep (unat t) (unat x + unat y)"
proof (cases "unat x + unat y < 4294967296")
  case True
  then have "unat (x + y) = unat x + unat y" by (rule unat_add_u32)
  then have "\<not> x + y < x" by (simp add: word_less_nat_alt)
  then show ?thesis using \<open>unat (x + y) = _\<close> by (simp add: t_def)
next
  case False
  have b: "unat x < 4294967296" "unat y < 4294967296" by (rule unat_u32_lt)+
  have s: "unat (x + y) = unat x + unat y - 4294967296"
    using False b by (simp add: unat_word_ariths mod_if)
  then have lt: "x + y < x" using False b by (simp add: word_less_nat_alt)
  have "unat (x + y + 1) = unat (x + y) + 1"
    using s b by (subst unat_add_u32) simp_all
  then have "unat x + unat y = unat t + 65535 * 65537" "0 < unat t"
    using s b False lt by (simp_all add: t_def)
  then show ?thesis by (simp only: ocrep_def mod_mult_self2) simp
qed


lemma ocrep_le32: "ocrep (unat (le32 a b c d)) (le_sum [a, b, c, d])"
proof -
  have "ocrep (65536 * unat (le16 c d) + unat (le16 a b)) (unat (le16 c d) + unat (le16 a b))"
    using ocrep_carry [of "unat (le16 c d)" "unat (le16 a b)"] by (simp add: ocrep_def)
  then show ?thesis by (simp add: unat_le32 unat_le16 add.commute add.left_commute)
qed

lemma chksum3_loop_sum:
  assumes "chksum3_loop acc bs = (acc', left)"
  shows "ocrep (unat acc' + le_sum left) (unat acc + le_sum bs) \<and> length left < 8"
  using assms
proof (induction acc bs rule: chksum3_loop.induct)
  case (1 acc a b c d e f g h bs)
  define tmp where "tmp = (if acc + le32 a b c d < acc then acc + le32 a b c d + 1 else acc + le32 a b c d)"
  define acc2 where "acc2 = (if tmp + le32 e f g h < tmp then tmp + le32 e f g h + 1 else tmp + le32 e f g h)"
  have t: "ocrep (unat tmp) (unat acc + le_sum [a, b, c, d])"
    unfolding tmp_def by (rule ocrep_trans [OF ocrep_end_around ocrep_add [OF ocrep_refl ocrep_le32]])
  have "ocrep (unat acc2) (unat tmp + le_sum [e, f, g, h])"
    unfolding acc2_def by (rule ocrep_trans [OF ocrep_end_around ocrep_add [OF ocrep_refl ocrep_le32]])
  then have "ocrep (unat acc2) ((unat acc + le_sum [a, b, c, d]) + le_sum [e, f, g, h])"
    using ocrep_add [OF t ocrep_refl] by (rule ocrep_trans)
  then have "ocrep (unat acc2 + le_sum bs)
      ((unat acc + le_sum [a, b, c, d]) + le_sum [e, f, g, h] + le_sum bs)"
    by (rule ocrep_add [OF _ ocrep_refl])
  then have r: "ocrep (unat acc2 + le_sum bs) (unat acc + le_sum (a # b # c # d # e # f # g # h # bs))"
    by (simp add: add.assoc)
  have eq: "chksum3_loop acc (a # b # c # d # e # f # g # h # bs) = chksum3_loop acc2 bs"
    by (simp add: tmp_def acc2_def Let_def)
  from "1.prems" have "chksum3_loop acc2 bs = (acc', left)" unfolding eq .
  then have "ocrep (unat acc' + le_sum left) (unat acc2 + le_sum bs) \<and> length left < 8"
    using "1.IH" [OF refl refl refl refl] unfolding tmp_def [symmetric] acc2_def [symmetric] by blast
  then show ?case using r by (blast intro: ocrep_trans)
qed auto


text \<open>
  The common tail of versions 2 and 3: the end bytes are added, the sum is folded twice and
  swapped when the buffer started at an odd address.
\<close>

lemma finish_rep:
  fixes acc :: u32
  assumes "ocrep (unat acc) S"
    and "r = (if sw then SWAP_BYTES_IN_WORD (FOLD_U32T (FOLD_U32T acc)) else FOLD_U32T (FOLD_U32T acc))"
  shows "unat (ucast r :: u16) = unat r"
    and "ocrep (unat r) (if sw then 256 * S else S)"
proof -
  let ?f = "FOLD_U32T (FOLD_U32T acc)"
  have f: "ocrep (unat ?f) S" using assms(1) by (blast intro: ocrep_trans ocrep_FOLD)
  have "unat r < 65536" using assms(2) FOLD_FOLD_lt [of acc] SWAP_lt [of ?f] by simp
  then show "unat (ucast r :: u16) = unat r"
    by (simp add: unsigned_ucast_eq take_bit_nat_eq_self)
  show "ocrep (unat r) (if sw then 256 * S else S)"
    using assms(2) f ocrep_trans [OF ocrep_SWAP [OF FOLD_FOLD_lt] ocrep_mult [OF f]] by simp
qed

lemma left_byte: "length left \<le> 1 \<Longrightarrow> le_sum left = unat (case left of [] \<Rightarrow> 0 | b # _ \<Rightarrow> b)"
  by (cases left) simp_all

lemma odd_start_sum: "ocrep (256 * (256 * unat b + le_sum bs)) (le_sum (b # bs))"
proof -
  have "ocrep (65536 * unat b + 256 * le_sum bs) (unat b + be_sum bs)"
    using ocrep_add [OF _ ocrep_swap_sums(2), of "65536 * unat b" "unat b" bs]
      ocrep_carry [of "unat b" 0] by (simp add: ocrep_def)
  then show ?thesis by (simp add: algebra_simps)
qed

lemma start_split:
  assumes "(t1, rest) = (case bs of b # r \<Rightarrow> if sw then (b, r) else (0, bs) | [] \<Rightarrow> (0 :: u8, bs))"
  shows "ocrep (if sw then 256 * (le_sum rest + 256 * unat t1) else le_sum rest + 256 * unat t1) (le_sum bs)"
    and "length rest \<le> length bs" and "le_sum rest + 256 * unat t1 \<le> le_sum rest + 65280"
    and "length rest + (if t1 = 0 then 0 else 1) \<le> length bs"
  using assms odd_start_sum unat_u8_lt [of t1]
  by (auto simp: add.commute split: list.splits if_splits)

lemma finish_value:
  fixes acc :: u32
  assumes st: "(t1, rest) = (case bs of b # r \<Rightarrow> if sw then (b, r) else (0, bs) | [] \<Rightarrow> (0 :: u8, bs))"
    and acc: "ocrep (unat acc) (le_sum rest + 256 * unat t1)"
  shows "unat (ucast (if sw then SWAP_BYTES_IN_WORD (FOLD_U32T (FOLD_U32T acc))
                      else FOLD_U32T (FOLD_U32T acc)) :: u16) = ocval (le_sum bs)" (is "unat (ucast ?r :: u16) = _")
proof -
  have "ocrep (unat ?r) (le_sum bs)"
    using finish_rep(2) [OF acc refl] start_split(1) [OF st] by (rule ocrep_trans)
  moreover have "unat (ucast ?r :: u16) = unat ?r" by (rule finish_rep(1) [OF acc refl])
  ultimately show ?thesis using ocrep_unique unat_u16_lt by metis
qed

lemma chksum2_value:
  assumes "length bs \<le> 0x20000"
  shows "unat (lwip_standard_chksum a bs) = ocval (le_sum bs)"
proof -
  obtain t1 rest where st: "(t1, rest) = (case bs of b # r \<Rightarrow> if odd a then (b, r) else (0, bs) | [] \<Rightarrow> (0 :: u8, bs))"
    by (metis surj_pair)
  obtain acc left where lp: "chksum2_loop 0 rest = (acc, left)" by fastforce
  define t where "t = (ucast (le16 (case left of [] \<Rightarrow> 0 | b # _ \<Rightarrow> b) t1) :: u32)"
  have len: "length rest + (if t1 = 0 then 0 else 1) \<le> 0x20000"
    using start_split(4) [OF st] assms by simp
  have "unat acc + le_sum left = le_sum rest" "length left \<le> 1"
    using chksum2_loop_sum [OF _ lp] sum_lt_u32(1) [of rest] len by simp_all
  then have tot: "unat acc + unat t = le_sum rest + 256 * unat t1"
    by (simp add: t_def unat_ucast_up unat_le16 left_byte)
  have "le_sum rest + 256 * unat t1 < 4294967296"
    using sum_bounds(1) [of rest] len unat_u8_lt [of t1] by (cases "t1 = 0") simp_all
  then have "ocrep (unat (acc + t)) (le_sum rest + 256 * unat t1)"
    using tot by (simp add: unat_add_u32)
  from finish_value [OF st this] show ?thesis
    unfolding lwip_standard_chksum_def Let_def st [symmetric] by (simp add: lp t_def split: if_splits)
qed

lemma chksum3_value: "unat (lwip_standard_chksum3 a bs) = ocval (le_sum bs)"
proof -
  obtain t1 rest where st: "(t1, rest) = (case bs of b # r \<Rightarrow> if odd a then (b, r) else (0, bs) | [] \<Rightarrow> (0 :: u8, bs))"
    by (metis surj_pair)
  define pb where "pb = (if odd a \<and> bs \<noteq> [] then Suc a else a)"
  have st3: "(case bs of b # r \<Rightarrow> if odd a then (b, Suc a, r) else (0, a, bs) | [] \<Rightarrow> (0, a, bs)) = (t1, pb, rest)"
    using st by (auto simp: pb_def split: list.splits if_splits)
  obtain s2 rest2 where al: "(s2, rest2) = (case rest of a # b # r \<Rightarrow>
      if pb mod 4 \<noteq> 0 then (ucast (le16 a b) :: u32, r) else (0, rest) | _ \<Rightarrow> (0, rest))"
    by (metis surj_pair)
  have s2: "unat s2 + le_sum rest2 = le_sum rest"
    using al by (auto simp: unat_ucast_up unat_le16 split: list.splits if_splits)
  obtain acc rest3 where lp3: "chksum3_loop s2 rest2 = (acc, rest3)" by fastforce
  obtain acc' left where lp: "chksum2_loop (FOLD_U32T acc) rest3 = (acc', left)" by fastforce
  define t where "t = (ucast (le16 (case left of [] \<Rightarrow> 0 | b # _ \<Rightarrow> b) t1) :: u32)"
  have r3: "ocrep (unat acc + le_sum rest3) (le_sum rest)" "length rest3 < 8"
    using chksum3_loop_sum [OF lp3] s2 by simp_all
  have fb: "unat (FOLD_U32T acc) \<le> 131070"
    using unat_u32_lt [of acc] by (simp add: unat_FOLD_U32T)
  have small: "unat (FOLD_U32T acc) + le_sum rest3 < 1000000"
    using fb r3(2) sum_bounds(1) [of rest3] by simp
  then have l2: "unat acc' + le_sum left = unat (FOLD_U32T acc) + le_sum rest3" "length left \<le> 1"
    using chksum2_loop_sum [OF _ lp] by simp_all
  then have tot: "unat acc' + unat t = unat (FOLD_U32T acc) + le_sum rest3 + 256 * unat t1"
    by (simp add: t_def unat_ucast_up unat_le16 left_byte)
  then have "unat (acc' + t) = unat (FOLD_U32T acc) + le_sum rest3 + 256 * unat t1"
    using small unat_u8_lt [of t1] by (simp add: unat_add_u32)
  moreover have "ocrep (unat (FOLD_U32T acc) + le_sum rest3 + 256 * unat t1) (le_sum rest + 256 * unat t1)"
    using r3(1) by (intro ocrep_add ocrep_refl) (rule ocrep_trans [OF ocrep_add [OF ocrep_FOLD ocrep_refl]])
  ultimately have "ocrep (unat (acc' + t)) (le_sum rest + 256 * unat t1)" by simp
  from finish_value [OF st this] show ?thesis
    unfolding lwip_standard_chksum3_def Let_def st3
    by (simp add: al [symmetric] lp lp3 t_def split: if_splits)
qed

lemma drop_bit_16_high: "drop_bit 16 (x AND 0xffff0000 :: u32) = drop_bit 16 x"
proof -
  have "drop_bit 16 (0xffff0000 :: u32) = 0xffff" by (simp add: drop_bit_eq_div)
  then show ?thesis
    by (auto simp add: drop_bit_and and_mask_lit bit_eq_iff bit_simps dest: bit_imp_le_length)
qed

lemma FOLD_small: "drop_bit 16 u = 0 \<Longrightarrow> FOLD_U32T u = u"
proof -
  assume "drop_bit 16 u = 0"
  then have "unat u div 65536 = 0" using unat_drop_bit_word [of 16 u] by simp
  then have "unat u mod 65536 = unat u" by (simp add: div_eq_0_iff)
  with \<open>unat u div 65536 = 0\<close> have "unat (FOLD_U32T u) = unat u" by (simp add: unat_FOLD_U32T)
  then show ?thesis by (simp add: word_unat_eq_iff)
qed

lemma chksum1_value:
  assumes "length bs \<le> 0x20000"
  shows "unat (lwip_standard_chksum1 a bs) = ocval (le_sum bs)"
proof -
  obtain acc left where lp: "chksum1_loop 0 bs = (acc, left)" by fastforce
  define acc' where "acc' = (case left of [] \<Rightarrow> acc | x # _ \<Rightarrow> acc + ucast (le16 0 x))"
  have l1: "unat acc + be_sum left = be_sum bs" "length left \<le> 1"
    using chksum1_loop_sum [OF _ lp] sum_lt_u32(2) [OF assms] by simp_all
  then have acc': "unat acc' = be_sum bs"
    using sum_lt_u32(2) [OF assms]
    by (cases left) (simp_all add: acc'_def unat_add_u32 unat_ucast_up unat_le16)
  define v where "v = (if FOLD_U32T acc' AND 0xffff0000 \<noteq> 0 then FOLD_U32T (FOLD_U32T acc') else FOLD_U32T acc')"
  have v_eq: "v = FOLD_U32T (FOLD_U32T acc')"
  proof (cases "FOLD_U32T acc' AND 0xffff0000 = 0")
    case True
    then have "drop_bit 16 (FOLD_U32T acc') = 0"
      by (metis drop_bit_16_high drop_bit_of_0)
    then have "FOLD_U32T (FOLD_U32T acc') = FOLD_U32T acc'" by (rule FOLD_small)
    then show ?thesis using True by (simp add: v_def)
  qed (simp add: v_def)
  have "ocrep (unat v) (be_sum bs)" "unat v < 65536"
    using acc' v_eq FOLD_FOLD_lt by (simp_all add: ocrep_trans [OF ocrep_FOLD ocrep_FOLD] flip: acc')
  then have "ocrep (unat (lwip_htons (ucast v))) (le_sum bs)"
    using ocrep_trans [OF ocrep_htons ocrep_trans [OF ocrep_mult ocrep_swap_sums(1)], of "ucast v" bs]
    by (simp add: unsigned_ucast_eq take_bit_nat_eq_self)
  moreover have "lwip_standard_chksum1 a bs = lwip_htons (ucast v)"
    unfolding lwip_standard_chksum1_def Let_def lp prod.case acc'_def [symmetric]
      FOLD_U32T_def [symmetric] v_def ..
  ultimately show ?thesis using ocrep_unique unat_u16_lt by metis
qed


section \<open>The contract of LWIP\_CHKSUM\<close>

text \<open>
  \<^verbatim>\<open>LWIP_CHKSUM\<close> is a macro a port may redefine. What its callers rely on is that the
  value is the 16-bit representation of the sum of the buffer; they pass buffers of at most
  64 KiB. The address of the buffer does not influence the value.
\<close>

locale lwip_chksum =
  fixes chk :: "nat \<Rightarrow> u8 list \<Rightarrow> u16"
  assumes chk_value: "length bs \<le> 0x20000 \<Longrightarrow> unat (chk a bs) = ocval (le_sum bs)"
begin

lemma chk_rep: "length bs \<le> 0x20000 \<Longrightarrow> ocrep (unat (chk a bs)) (le_sum bs)"
  by (simp add: chk_value ocrep_ocval)

lemma chk_align: "length bs \<le> 0x20000 \<Longrightarrow> chk a bs = chk b bs"
  by (simp add: word_unat_eq_iff chk_value)

end

interpretation chksum1: lwip_chksum lwip_standard_chksum1
  by unfold_locales (rule chksum1_value)

interpretation chksum2: lwip_chksum lwip_standard_chksum
  by unfold_locales (rule chksum2_value)

interpretation chksum3: lwip_chksum lwip_standard_chksum3
  by unfold_locales (rule chksum3_value)

text \<open>
  C32: the three selectable versions of \<^verbatim>\<open>lwip_standard_chksum\<close> agree on every buffer of
  at most 128 KiB, at whatever addresses the buffer is placed.
\<close>

theorem chksum_versions_agree:
  assumes "length bs \<le> 0x20000"
  shows "lwip_standard_chksum a bs = lwip_standard_chksum1 b bs
       \<and> lwip_standard_chksum a bs = lwip_standard_chksum3 c bs"
  by (simp add: word_unat_eq_iff chksum1.chk_value [OF assms] chksum2.chk_value [OF assms]
      chksum3.chk_value [OF assms])

theorem chksum_versions_agree_witness:
  "lwip_standard_chksum 1 [1, 2, 3] = lwip_standard_chksum1 0 [1, 2, 3]
   \<and> lwip_standard_chksum 1 [1, 2, 3] = lwip_standard_chksum3 2 [1, 2, 3]"
  by (rule chksum_versions_agree) simp

end
