(* ===== verification/Pbuf.thy ===== *)
theory Pbuf
  imports C_Memory Chksum_Algorithms
begin

text \<open>
  The operations of \<^verbatim>\<open>core/c/core/pbuf.c\<close>, in the order of the file except that
  \<^verbatim>\<open>pbuf_free\<close> comes before its callers. Each function takes the memory last and
  returns its result with the changed memory; \<open>None\<close> is a stop of the program, see
  \<^verbatim>\<open>C_Memory\<close>. Loops over \<^verbatim>\<open>next\<close> pointers are defined for every memory, also
  for a cyclic one, where they do not terminate.
\<close>

unbundle bit_operations_syntax

section \<open>Layers, types and flags (pbuf.h)\<close>

datatype pbuf_layer = PBUF_TRANSPORT | PBUF_IP | PBUF_LINK | PBUF_RAW_TX | PBUF_RAW

fun layer_offset :: "pbuf_layer \<Rightarrow> u16" where
  "layer_offset PBUF_TRANSPORT = 0 + 14 + 40 + 20"
| "layer_offset PBUF_IP = 0 + 14 + 40"
| "layer_offset PBUF_LINK = 0 + 14"
| "layer_offset PBUF_RAW_TX = 0"
| "layer_offset PBUF_RAW = 0"

abbreviation (input) PBUF_TYPE_FLAG_STRUCT_DATA_CONTIGUOUS :: u8 where
  "PBUF_TYPE_FLAG_STRUCT_DATA_CONTIGUOUS \<equiv> 0x80"

abbreviation (input) PBUF_TYPE_ALLOC_SRC_MASK :: u8 where "PBUF_TYPE_ALLOC_SRC_MASK \<equiv> 0x0f"
abbreviation (input) SRC_STD_HEAP :: u8 where "SRC_STD_HEAP \<equiv> 0x00"
abbreviation (input) SRC_STD_MEMP_PBUF :: u8 where "SRC_STD_MEMP_PBUF \<equiv> 0x01"
abbreviation (input) SRC_STD_MEMP_PBUF_POOL :: u8 where "SRC_STD_MEMP_PBUF_POOL \<equiv> 0x02"
abbreviation (input) PBUF_FLAG_IS_CUSTOM :: u8 where "PBUF_FLAG_IS_CUSTOM \<equiv> 0x02"
abbreviation (input) PBUF_FLAG_TCP_FIN :: u8 where "PBUF_FLAG_TCP_FIN \<equiv> 0x20"

datatype pbuf_type = PBUF_RAM | PBUF_ROM | PBUF_REF | PBUF_POOL

fun pbuf_type_code :: "pbuf_type \<Rightarrow> u16" where
  "pbuf_type_code PBUF_RAM = 0x0200 OR 0x80 OR 0x00"
| "pbuf_type_code PBUF_ROM = 0x01"
| "pbuf_type_code PBUF_REF = 0x40 OR 0x01"
| "pbuf_type_code PBUF_POOL = 0x0100 OR 0x80 OR 0x02"

definition pbuf_get_allocsrc :: "pbuf \<Rightarrow> u8" where
  "pbuf_get_allocsrc pb = type_internal pb AND PBUF_TYPE_ALLOC_SRC_MASK"

definition pbuf_match_allocsrc :: "pbuf \<Rightarrow> u8 \<Rightarrow> bool" where
  "pbuf_match_allocsrc pb ty \<longleftrightarrow> pbuf_get_allocsrc pb = ty AND PBUF_TYPE_ALLOC_SRC_MASK"

section \<open>Freeing\<close>

text \<open>
  \<open>pbuf_free_loop p count h\<close> is the \<^verbatim>\<open>while\<close> loop of \<^verbatim>\<open>pbuf_free\<close>. A custom
  pbuf calls the function it carries; the only such function of the stack,
  \<^verbatim>\<open>ipfrag_free_pbuf_custom\<close> (\<^verbatim>\<open>ip4_frag.c\<close>), frees the original pbuf and the
  structure.
\<close>

partial_function (option) pbuf_free_loop :: "nat option \<Rightarrow> u8 \<Rightarrow> pheap \<Rightarrow> (u8 \<times> pheap) option" where
  "pbuf_free_loop p count h =
     (case p of
        None \<Rightarrow> Some (count, h)
      | Some a \<Rightarrow> do {
          pb \<leftarrow> get_pbuf a h;
          LWIP_ASSERT (pref pb > 0);
          let ref = pref pb - 1;
          h \<leftarrow> upd_pbuf a (\<lambda>pb. pb\<lparr>pref := ref\<rparr>) h;
          if ref = 0 then do {
            let q = pnext pb;
            let alloc_src = pbuf_get_allocsrc pb;
            h \<leftarrow> (if pflags pb AND PBUF_FLAG_IS_CUSTOM \<noteq> 0 then
                   (case custom_free_function pb of
                      No_Custom_Fn \<Rightarrow> None
                    | Ipfrag_Free_Pbuf_Custom original \<Rightarrow> do {
                        (_, h) \<leftarrow> (case original of None \<Rightarrow> Some (0, h)
                                   | Some orig \<Rightarrow> pbuf_free_loop (Some orig) 0 h);
                        memp_free MEMP_FRAG_PBUF (Some a) h })
                 else if alloc_src = SRC_STD_MEMP_PBUF_POOL then memp_free MEMP_PBUF_POOL (Some a) h
                 else if alloc_src = SRC_STD_MEMP_PBUF then memp_free MEMP_PBUF (Some a) h
                 else if alloc_src = SRC_STD_HEAP then mem_free a h
                 else None);
            pbuf_free_loop q (count + 1) h }
          else Some (count, h) })"

definition pbuf_free :: "nat option \<Rightarrow> pheap \<Rightarrow> (u8 \<times> pheap) option" where
  "pbuf_free p h = (case p of None \<Rightarrow> None | Some a \<Rightarrow> pbuf_free_loop (Some a) 0 h)"

section \<open>Allocation\<close>

definition pbuf_pool_is_empty :: "pheap \<Rightarrow> pheap" where
  "pbuf_pool_is_empty h = h\<lparr>free_ooseq_pending := True\<rparr>"

definition pbuf_init_alloced_pbuf ::
    "nat \<Rightarrow> cptr \<Rightarrow> u16 \<Rightarrow> u16 \<Rightarrow> pbuf_type \<Rightarrow> u8 \<Rightarrow> custom_fn \<Rightarrow> pheap \<Rightarrow> pheap" where
  "pbuf_init_alloced_pbuf a pl tlen l ty fl cf h =
     h\<lparr>pbufs := (pbufs h)(a \<mapsto>
         \<lparr>pnext = None, payload = pl, tot_len = tlen, plen = l,
          type_internal = ucast (pbuf_type_code ty), pflags = fl, pref = 1, if_idx = 0,
          custom_free_function = cf\<rparr>)\<rparr>"

definition pbuf_alloc_reference :: "cptr \<Rightarrow> u16 \<Rightarrow> pbuf_type \<Rightarrow> pheap \<Rightarrow> (nat option \<times> pheap) option" where
  "pbuf_alloc_reference pl l ty h = do {
     LWIP_ASSERT (ty = PBUF_REF \<or> ty = PBUF_ROM);
     (case memp_malloc MEMP_PBUF h of
        (None, h) \<Rightarrow> Some (None, h)
      | (Some a, h) \<Rightarrow> Some (Some a, pbuf_init_alloced_pbuf a pl l l ty 0 No_Custom_Fn h)) }"

text \<open>
  The \<^verbatim>\<open>do\<close> loop of the \<^verbatim>\<open>PBUF_POOL\<close> case. \<open>p\<close> is the head of the chain so
  far and \<open>lst\<close> its last pbuf, both NULL at the start.
\<close>

partial_function (option) pbuf_alloc_pool ::
    "nat option \<Rightarrow> nat option \<Rightarrow> u16 \<Rightarrow> u16 \<Rightarrow> pheap \<Rightarrow> (nat option \<times> pheap) option" where
  "pbuf_alloc_pool p lst rem_len offset h =
     (case memp_malloc MEMP_PBUF_POOL h of
        (None, h) \<Rightarrow> do {
          let h = pbuf_pool_is_empty h;
          case p of None \<Rightarrow> Some (None, h)
          | Some _ \<Rightarrow> do { (_, h) \<leftarrow> pbuf_free p h; Some (None, h) } }
      | (Some q, h) \<Rightarrow> do {
          let qlen = min rem_len (of_nat PBUF_POOL_BUFSIZE - offset);
          let h = pbuf_init_alloced_pbuf q (Some (q, uint offset)) rem_len qlen PBUF_POOL 0 No_Custom_Fn h;
          LWIP_ASSERT (int PBUF_POOL_BUFSIZE - uint offset > 0);
          (p, h) \<leftarrow> (case p of None \<Rightarrow> Some (Some q, h)
                    | Some _ \<Rightarrow> (case lst of None \<Rightarrow> None
                        | Some l \<Rightarrow> do { h \<leftarrow> upd_pbuf l (\<lambda>pb. pb\<lparr>pnext := Some q\<rparr>) h; Some (p, h) }));
          let rem_len = rem_len - qlen;
          if rem_len > 0 then pbuf_alloc_pool p (Some q) rem_len 0 h else Some (p, h) })"

text \<open>\<^verbatim>\<open>MEM_ALIGNMENT\<close> is 1, so \<^verbatim>\<open>LWIP_MEM_ALIGN_SIZE\<close> is the identity. The
  size of the structure is that of an LP64 machine; it only enters the overflow check.\<close>

abbreviation (input) SIZEOF_STRUCT_PBUF :: nat where "SIZEOF_STRUCT_PBUF \<equiv> 24"

definition pbuf_alloc :: "pbuf_layer \<Rightarrow> u16 \<Rightarrow> pbuf_type \<Rightarrow> pheap \<Rightarrow> (nat option \<times> pheap) option" where
  "pbuf_alloc l len ty h =
     (let offset = layer_offset l in
      case ty of
        PBUF_REF \<Rightarrow> pbuf_alloc_reference None len ty h
      | PBUF_ROM \<Rightarrow> pbuf_alloc_reference None len ty h
      | PBUF_POOL \<Rightarrow> pbuf_alloc_pool None None len offset h
      | PBUF_RAM \<Rightarrow>
          (let payload_len = offset + len;
               alloc_len = SIZEOF_STRUCT_PBUF + unat payload_len
           in if payload_len < len \<or> alloc_len < unat len then Some (None, h)
              else case mem_malloc (unat payload_len) h of
                     (None, h) \<Rightarrow> Some (None, h)
                   | (Some a, h) \<Rightarrow> Some (Some a,
                       pbuf_init_alloced_pbuf a (Some (a, uint offset)) len len PBUF_RAM 0 No_Custom_Fn h)))"

text \<open>
  \<^verbatim>\<open>pbuf_alloced_custom\<close> initialises a structure its caller has allocated (block
  \<open>a\<close>). The caller sets the free function afterwards; it is the argument \<open>cf\<close> here.
\<close>

definition pbuf_alloced_custom ::
    "pbuf_layer \<Rightarrow> u16 \<Rightarrow> pbuf_type \<Rightarrow> nat \<Rightarrow> custom_fn \<Rightarrow> cptr \<Rightarrow> u16 \<Rightarrow> pheap \<Rightarrow> nat option \<times> pheap" where
  "pbuf_alloced_custom l len ty a cf payload_mem payload_mem_len h =
     (let offset = layer_offset l in
      if unat offset + unat len > unat payload_mem_len then (None, h)
      else (Some a, pbuf_init_alloced_pbuf a (ptr_add payload_mem (uint offset)) len len ty
              PBUF_FLAG_IS_CUSTOM cf h))"

section \<open>Shrinking and headers\<close>

text \<open>The loop of \<^verbatim>\<open>pbuf_realloc\<close>: the pbuf that becomes the last, and what is left for it.\<close>

partial_function (option) pbuf_realloc_loop :: "nat \<Rightarrow> u16 \<Rightarrow> u16 \<Rightarrow> pheap \<Rightarrow> (nat \<times> u16 \<times> pheap) option" where
  "pbuf_realloc_loop q rem_len shrink h = do {
     pb \<leftarrow> get_pbuf q h;
     if rem_len > plen pb then do {
       let rem_len = rem_len - plen pb;
       h \<leftarrow> upd_pbuf q (\<lambda>pb. pb\<lparr>tot_len := tot_len pb - shrink\<rparr>) h;
       case pnext pb of None \<Rightarrow> None | Some q' \<Rightarrow> pbuf_realloc_loop q' rem_len shrink h }
     else Some (q, rem_len, h) }"

definition pbuf_realloc :: "nat \<Rightarrow> u16 \<Rightarrow> pheap \<Rightarrow> pheap option" where
  "pbuf_realloc p new_len h = do {
     pb \<leftarrow> get_pbuf p h;
     if new_len \<ge> tot_len pb then Some h
     else do {
       let shrink = tot_len pb - new_len;
       (q, rem_len, h) \<leftarrow> pbuf_realloc_loop p new_len shrink h;
       qb \<leftarrow> get_pbuf q h;
       let q = (if pbuf_match_allocsrc qb SRC_STD_HEAP \<and> rem_len \<noteq> plen qb
                   \<and> pflags qb AND PBUF_FLAG_IS_CUSTOM = 0
                then mem_trim q (unat rem_len) else q);
       h \<leftarrow> upd_pbuf q (\<lambda>pb. pb\<lparr>plen := rem_len, tot_len := rem_len\<rparr>) h;
       h \<leftarrow> (case pnext qb of None \<Rightarrow> Some h
              | Some n \<Rightarrow> do { (_, h) \<leftarrow> pbuf_free (Some n) h; Some h });
       upd_pbuf q (\<lambda>pb. pb\<lparr>pnext := None\<rparr>) h } }"

text \<open>
  A payload pointer of a pbuf with its data behind the structure lies in the pbuf's own
  block; the structure ends at offset 0 of it. The result is \<open>True\<close> for the C value 1,
  failure.
\<close>

definition pbuf_add_header_impl :: "nat \<Rightarrow> nat \<Rightarrow> bool \<Rightarrow> pheap \<Rightarrow> (bool \<times> pheap) option" where
  "pbuf_add_header_impl p header_size_increment force h =
     (if header_size_increment > 0xFFFF then Some (True, h)
      else if header_size_increment = 0 then Some (False, h)
      else do {
        pb \<leftarrow> get_pbuf p h;
        let increment_magnitude = (of_nat header_size_increment :: u16);
        if increment_magnitude + tot_len pb < increment_magnitude then Some (True, h)
        else do {
          let pl = ptr_add (payload pb) (- int header_size_increment);
          ok \<leftarrow> (if type_internal pb AND PBUF_TYPE_FLAG_STRUCT_DATA_CONTIGUOUS \<noteq> 0
                 then (case pl of Some (b, off) \<Rightarrow> if b = p then Some (0 \<le> off) else None
                       | None \<Rightarrow> None)
                 else Some force);
          if \<not> ok then Some (True, h)
          else do {
            h \<leftarrow> upd_pbuf p (\<lambda>pb. pb\<lparr>payload := pl, plen := plen pb + increment_magnitude,
                                       tot_len := tot_len pb + increment_magnitude\<rparr>) h;
            Some (False, h) } } })"

definition pbuf_add_header :: "nat \<Rightarrow> nat \<Rightarrow> pheap \<Rightarrow> (bool \<times> pheap) option" where
  "pbuf_add_header p n h = pbuf_add_header_impl p n False h"

definition pbuf_add_header_force :: "nat \<Rightarrow> nat \<Rightarrow> pheap \<Rightarrow> (bool \<times> pheap) option" where
  "pbuf_add_header_force p n h = pbuf_add_header_impl p n True h"

definition pbuf_remove_header :: "nat \<Rightarrow> nat \<Rightarrow> pheap \<Rightarrow> (bool \<times> pheap) option" where
  "pbuf_remove_header p header_size_decrement h =
     (if header_size_decrement > 0xFFFF then Some (True, h)
      else if header_size_decrement = 0 then Some (False, h)
      else do {
        pb \<leftarrow> get_pbuf p h;
        let increment_magnitude = (of_nat header_size_decrement :: u16);
        LWIP_ASSERT (increment_magnitude \<le> plen pb);
        h \<leftarrow> upd_pbuf p (\<lambda>pb. pb\<lparr>payload := ptr_add (payload pb) (int header_size_decrement),
                                   plen := plen pb - increment_magnitude,
                                   tot_len := tot_len pb - increment_magnitude\<rparr>) h;
        Some (False, h) })"

definition pbuf_header_impl :: "nat \<Rightarrow> 16 word \<Rightarrow> bool \<Rightarrow> pheap \<Rightarrow> (bool \<times> pheap) option" where
  "pbuf_header_impl p header_size_increment force h =
     (if sint header_size_increment < 0
      then pbuf_remove_header p (nat (- sint header_size_increment)) h
      else pbuf_add_header_impl p (nat (sint header_size_increment)) force h)"

definition pbuf_header :: "nat \<Rightarrow> 16 word \<Rightarrow> pheap \<Rightarrow> (bool \<times> pheap) option" where
  "pbuf_header p n h = pbuf_header_impl p n False h"

definition pbuf_header_force :: "nat \<Rightarrow> 16 word \<Rightarrow> pheap \<Rightarrow> (bool \<times> pheap) option" where
  "pbuf_header_force p n h = pbuf_header_impl p n True h"

partial_function (option) pbuf_free_header :: "nat option \<Rightarrow> u16 \<Rightarrow> pheap \<Rightarrow> (nat option \<times> pheap) option" where
  "pbuf_free_header p free_left h =
     (case p of
        None \<Rightarrow> Some (None, h)
      | Some a \<Rightarrow>
          if free_left = 0 then Some (p, h)
          else do {
            pb \<leftarrow> get_pbuf a h;
            if free_left \<ge> plen pb then do {
              h \<leftarrow> upd_pbuf a (\<lambda>pb. pb\<lparr>pnext := None\<rparr>) h;
              (_, h) \<leftarrow> pbuf_free (Some a) h;
              pbuf_free_header (pnext pb) (free_left - plen pb) h }
            else do {
              (_, h) \<leftarrow> pbuf_remove_header a (unat free_left) h;
              pbuf_free_header p 0 h } })"

section \<open>Chains\<close>

partial_function (option) pbuf_clen_loop :: "nat option \<Rightarrow> u16 \<Rightarrow> pheap \<Rightarrow> u16 option" where
  "pbuf_clen_loop p len h =
     (case p of None \<Rightarrow> Some len
      | Some a \<Rightarrow> do { pb \<leftarrow> get_pbuf a h; pbuf_clen_loop (pnext pb) (len + 1) h })"

definition pbuf_clen :: "nat option \<Rightarrow> pheap \<Rightarrow> u16 option" where
  "pbuf_clen p h = pbuf_clen_loop p 0 h"

definition pbuf_ref :: "nat option \<Rightarrow> pheap \<Rightarrow> pheap option" where
  "pbuf_ref p h =
     (case p of None \<Rightarrow> Some h
      | Some a \<Rightarrow> do {
          h \<leftarrow> upd_pbuf a (\<lambda>pb. pb\<lparr>pref := pref pb + 1\<rparr>) h;
          pb \<leftarrow> get_pbuf a h;
          LWIP_ASSERT (pref pb > 0);
          Some h })"

text \<open>The \<^verbatim>\<open>for\<close> loop of \<^verbatim>\<open>pbuf_cat\<close> reads \<^verbatim>\<open>t->tot_len\<close> in every step.\<close>

partial_function (option) pbuf_cat_loop :: "nat \<Rightarrow> nat \<Rightarrow> pheap \<Rightarrow> (nat \<times> pheap) option" where
  "pbuf_cat_loop p t h = do {
     pb \<leftarrow> get_pbuf p h;
     (case pnext pb of
        None \<Rightarrow> Some (p, h)
      | Some n \<Rightarrow> do {
          tb \<leftarrow> get_pbuf t h;
          h \<leftarrow> upd_pbuf p (\<lambda>pb. pb\<lparr>tot_len := tot_len pb + tot_len tb\<rparr>) h;
          pbuf_cat_loop n t h }) }"

definition pbuf_cat :: "nat option \<Rightarrow> nat option \<Rightarrow> pheap \<Rightarrow> pheap option" where
  "pbuf_cat hd_p tl_p h =
     (case (hd_p, tl_p) of
        (Some hp, Some t) \<Rightarrow> do {
          (p, h) \<leftarrow> pbuf_cat_loop hp t h;
          pb \<leftarrow> get_pbuf p h;
          LWIP_ASSERT (tot_len pb = plen pb);
          LWIP_ASSERT (pnext pb = None);
          tb \<leftarrow> get_pbuf t h;
          h \<leftarrow> upd_pbuf p (\<lambda>pb. pb\<lparr>tot_len := tot_len pb + tot_len tb\<rparr>) h;
          upd_pbuf p (\<lambda>pb. pb\<lparr>pnext := Some t\<rparr>) h }
      | _ \<Rightarrow> None)"

definition pbuf_chain :: "nat option \<Rightarrow> nat option \<Rightarrow> pheap \<Rightarrow> pheap option" where
  "pbuf_chain hd_p tl_p h = do { h \<leftarrow> pbuf_cat hd_p tl_p h; pbuf_ref tl_p h }"

definition pbuf_dechain :: "nat \<Rightarrow> pheap \<Rightarrow> (nat option \<times> pheap) option" where
  "pbuf_dechain p h = do {
     pb \<leftarrow> get_pbuf p h;
     (tail_gone, h) \<leftarrow> (case pnext pb of
        None \<Rightarrow> Some (1 :: u8, h)
      | Some q \<Rightarrow> do {
          qb \<leftarrow> get_pbuf q h;
          LWIP_ASSERT (uint (tot_len qb) = uint (tot_len pb) - uint (plen pb));
          h \<leftarrow> upd_pbuf q (\<lambda>qb. qb\<lparr>tot_len := tot_len pb - plen pb\<rparr>) h;
          h \<leftarrow> upd_pbuf p (\<lambda>pb. pb\<lparr>pnext := None, tot_len := plen pb\<rparr>) h;
          pbuf_free (Some q) h });
     pb' \<leftarrow> get_pbuf p h;
     LWIP_ASSERT (tot_len pb' = plen pb');
     Some (if tail_gone > 0 then None else pnext pb, h) }"

end
