(* ===== verification/Pbuf_Data.thy ===== *)
theory Pbuf_Data
  imports Pbuf
begin

text \<open>
  The operations of \<^verbatim>\<open>core/c/core/pbuf.c\<close> that move or look at the payload bytes of
  a chain (\<^verbatim>\<open>pbuf_copy\<close> to \<^verbatim>\<open>pbuf_strstr\<close>) and
  \<^verbatim>\<open>lwip_chksum_copy\<close> of \<^verbatim>\<open>inet_chksum.c\<close>. Application buffers are memory
  like any other. \<^verbatim>\<open>LWIP_CHKSUM\<close> is the parameter \<open>chk\<close>.
\<close>

unbundle bit_operations_syntax

section \<open>Copying between chains\<close>

text \<open>The two checks against packet queues at the end of the loop body of \<^verbatim>\<open>pbuf_copy\<close>.\<close>

definition pbuf_not_queue :: "nat option \<Rightarrow> pheap \<Rightarrow> unit option" where
  "pbuf_not_queue p h =
     (case p of None \<Rightarrow> Some ()
      | Some a \<Rightarrow> do { pb \<leftarrow> get_pbuf a h; LWIP_ASSERT (plen pb = tot_len pb \<longrightarrow> pnext pb = None) })"

partial_function (option) pbuf_copy_loop ::
    "nat option \<Rightarrow> nat \<Rightarrow> nat option \<Rightarrow> nat \<Rightarrow> pheap \<Rightarrow> (err_t \<times> pheap) option" where
  "pbuf_copy_loop p_to offset_to p_from offset_from h =
     (case p_to of None \<Rightarrow> None | Some t \<Rightarrow>
      (case p_from of None \<Rightarrow> None | Some f \<Rightarrow> do {
          tb \<leftarrow> get_pbuf t h;
          fb \<leftarrow> get_pbuf f h;
          let n = (if unat (plen tb) - offset_to \<ge> unat (plen fb) - offset_from
                   then unat (plen fb) - offset_from else unat (plen tb) - offset_to);
          h \<leftarrow> MEMCPY (ptr_add (payload tb) (int offset_to)) (ptr_add (payload fb) (int offset_from)) n h;
          let offset_to = offset_to + n;
          let offset_from = offset_from + n;
          LWIP_ASSERT (offset_to \<le> unat (plen tb));
          LWIP_ASSERT (offset_from \<le> unat (plen fb));
          let p_from = (if offset_from \<ge> unat (plen fb) then pnext fb else Some f);
          let offset_from = (if offset_from \<ge> unat (plen fb) then 0 else offset_from);
          let full = (offset_to = unat (plen tb));
          let p_to = (if full then pnext tb else Some t);
          let offset_to = (if full then 0 else offset_to);
          LWIP_ASSERT (full \<longrightarrow> p_to \<noteq> None \<or> p_from = None);
          pbuf_not_queue p_from h;
          pbuf_not_queue p_to h;
          if p_from \<noteq> None then pbuf_copy_loop p_to offset_to p_from offset_from h
          else Some (ERR_OK, h) }))"

definition pbuf_copy :: "nat option \<Rightarrow> nat option \<Rightarrow> pheap \<Rightarrow> (err_t \<times> pheap) option" where
  "pbuf_copy p_to p_from h =
     (case p_to of None \<Rightarrow> None | Some t \<Rightarrow>
      (case p_from of None \<Rightarrow> None | Some f \<Rightarrow> do {
         tb \<leftarrow> get_pbuf t h;
         fb \<leftarrow> get_pbuf f h;
         LWIP_ASSERT (tot_len tb \<ge> tot_len fb);
         pbuf_copy_loop p_to 0 p_from 0 h }))"

section \<open>Copying out of a chain\<close>

partial_function (option) pbuf_copy_partial_loop ::
    "nat option \<Rightarrow> cptr \<Rightarrow> u16 \<Rightarrow> u16 \<Rightarrow> u16 \<Rightarrow> u16 \<Rightarrow> pheap \<Rightarrow> (u16 \<times> pheap) option" where
  "pbuf_copy_partial_loop p dataptr len offset left copied_total h =
     (if len = 0 then Some (copied_total, h) else
      case p of None \<Rightarrow> Some (copied_total, h)
      | Some a \<Rightarrow> do {
          pb \<leftarrow> get_pbuf a h;
          if offset \<noteq> 0 \<and> offset \<ge> plen pb
          then pbuf_copy_partial_loop (pnext pb) dataptr len (offset - plen pb) left copied_total h
          else do {
            let buf_copy_len = plen pb - offset;
            let buf_copy_len = (if buf_copy_len > len then len else buf_copy_len);
            h \<leftarrow> MEMCPY (ptr_add dataptr (uint left)) (ptr_add (payload pb) (uint offset)) (unat buf_copy_len) h;
            pbuf_copy_partial_loop (pnext pb) dataptr (len - buf_copy_len) 0
              (left + buf_copy_len) (copied_total + buf_copy_len) h } })"

definition pbuf_copy_partial :: "nat option \<Rightarrow> cptr \<Rightarrow> u16 \<Rightarrow> u16 \<Rightarrow> pheap \<Rightarrow> (u16 \<times> pheap) option" where
  "pbuf_copy_partial buf dataptr len offset h = do {
     LWIP_ASSERT (buf \<noteq> None);
     LWIP_ASSERT (dataptr \<noteq> None);
     pbuf_copy_partial_loop buf dataptr len offset 0 0 h }"

partial_function (option) pbuf_skip_const :: "nat option \<Rightarrow> u16 \<Rightarrow> pheap \<Rightarrow> (nat option \<times> u16) option" where
  "pbuf_skip_const q offset_left h =
     (case q of None \<Rightarrow> Some (None, offset_left)
      | Some a \<Rightarrow> do {
          pb \<leftarrow> get_pbuf a h;
          if plen pb \<le> offset_left then pbuf_skip_const (pnext pb) (offset_left - plen pb) h
          else Some (q, offset_left) })"

definition pbuf_skip :: "nat option \<Rightarrow> u16 \<Rightarrow> pheap \<Rightarrow> (nat option \<times> u16) option" where
  "pbuf_skip q in_offset h = pbuf_skip_const q in_offset h"

definition pbuf_get_contiguous ::
    "nat option \<Rightarrow> cptr \<Rightarrow> nat \<Rightarrow> u16 \<Rightarrow> u16 \<Rightarrow> pheap \<Rightarrow> (cptr \<times> pheap) option" where
  "pbuf_get_contiguous p buffer bufsize len offset h = do {
     LWIP_ASSERT (p \<noteq> None);
     LWIP_ASSERT (buffer \<noteq> None);
     LWIP_ASSERT (bufsize \<ge> unat len);
     (q, out_offset) \<leftarrow> pbuf_skip_const p offset h;
     (case q of
        None \<Rightarrow> Some (None, h)
      | Some a \<Rightarrow> do {
          qb \<leftarrow> get_pbuf a h;
          if unat (plen qb) \<ge> unat out_offset + unat len
          then Some (ptr_add (payload qb) (uint out_offset), h)
          else do {
            (n, h) \<leftarrow> pbuf_copy_partial q buffer len out_offset h;
            Some (if n \<noteq> len then None else buffer, h) } }) }"

section \<open>Copying into a chain\<close>

partial_function (option) pbuf_take_loop :: "nat option \<Rightarrow> cptr \<Rightarrow> nat \<Rightarrow> nat \<Rightarrow> pheap \<Rightarrow> (nat \<times> pheap) option" where
  "pbuf_take_loop p dataptr total_copy_len copied_total h =
     (if total_copy_len = 0 then Some (copied_total, h) else
      case p of None \<Rightarrow> None
      | Some a \<Rightarrow> do {
          pb \<leftarrow> get_pbuf a h;
          let buf_copy_len = (if total_copy_len > unat (plen pb) then unat (plen pb) else total_copy_len);
          h \<leftarrow> MEMCPY (payload pb) (ptr_add dataptr (int copied_total)) buf_copy_len h;
          pbuf_take_loop (pnext pb) dataptr (total_copy_len - buf_copy_len) (copied_total + buf_copy_len) h })"

definition pbuf_take :: "nat option \<Rightarrow> cptr \<Rightarrow> u16 \<Rightarrow> pheap \<Rightarrow> (err_t \<times> pheap) option" where
  "pbuf_take buf dataptr len h =
     (case buf of None \<Rightarrow> None
      | Some a \<Rightarrow> do {
          LWIP_ASSERT (dataptr \<noteq> None);
          pb \<leftarrow> get_pbuf a h;
          LWIP_ASSERT (tot_len pb \<ge> len);
          (copied_total, h) \<leftarrow> pbuf_take_loop buf dataptr (unat len) 0 h;
          LWIP_ASSERT (copied_total = unat len);
          Some (ERR_OK, h) })"

definition pbuf_take_at :: "nat option \<Rightarrow> cptr \<Rightarrow> u16 \<Rightarrow> u16 \<Rightarrow> pheap \<Rightarrow> (err_t \<times> pheap) option" where
  "pbuf_take_at buf dataptr len offset h = do {
     (q, target_offset) \<leftarrow> pbuf_skip buf offset h;
     (case q of
        None \<Rightarrow> Some (ERR_MEM, h)
      | Some a \<Rightarrow> do {
          qb \<leftarrow> get_pbuf a h;
          if unat (tot_len qb) \<ge> unat target_offset + unat len then do {
            LWIP_ASSERT (target_offset < plen qb);
            let first_copy_len = min (plen qb - target_offset) len;
            h \<leftarrow> MEMCPY (ptr_add (payload qb) (uint target_offset)) dataptr (unat first_copy_len) h;
            let remaining_len = len - first_copy_len;
            if remaining_len > 0
            then pbuf_take (pnext qb) (ptr_add dataptr (uint first_copy_len)) remaining_len h
            else Some (ERR_OK, h) }
          else Some (ERR_MEM, h) }) }"

section \<open>Duplicating a chain\<close>

definition pbuf_clone :: "pbuf_layer \<Rightarrow> pbuf_type \<Rightarrow> nat \<Rightarrow> pheap \<Rightarrow> (nat option \<times> pheap) option" where
  "pbuf_clone l ty p h = do {
     pb \<leftarrow> get_pbuf p h;
     (q, h) \<leftarrow> pbuf_alloc l (tot_len pb) ty h;
     (case q of
        None \<Rightarrow> Some (None, h)
      | Some a \<Rightarrow> do {
          (err, h) \<leftarrow> pbuf_copy q (Some p) h;
          LWIP_ASSERT (err = ERR_OK);
          Some (q, h) }) }"

definition pbuf_coalesce :: "nat \<Rightarrow> pbuf_layer \<Rightarrow> pheap \<Rightarrow> (nat option \<times> pheap) option" where
  "pbuf_coalesce p l h = do {
     pb \<leftarrow> get_pbuf p h;
     if pnext pb = None then Some (Some p, h)
     else do {
       (q, h) \<leftarrow> pbuf_clone l PBUF_RAM p h;
       (case q of
          None \<Rightarrow> Some (Some p, h)
        | Some _ \<Rightarrow> do { (_, h) \<leftarrow> pbuf_free (Some p) h; Some (q, h) }) } }"

definition lwip_chksum_copy ::
    "(nat \<Rightarrow> u8 list \<Rightarrow> u16) \<Rightarrow> cptr \<Rightarrow> cptr \<Rightarrow> u16 \<Rightarrow> pheap \<Rightarrow> (u16 \<times> pheap) option" where
  "lwip_chksum_copy chk dst src len h = do {
     h \<leftarrow> MEMCPY dst src (unat len) h;
     bs \<leftarrow> load h dst (unat len);
     Some (chk (address h dst) bs, h) }"

definition pbuf_fill_chksum ::
    "(nat \<Rightarrow> u8 list \<Rightarrow> u16) \<Rightarrow> nat \<Rightarrow> u16 \<Rightarrow> cptr \<Rightarrow> u16 \<Rightarrow> u16 \<Rightarrow> pheap \<Rightarrow> (err_t \<times> u16 \<times> pheap) option" where
  "pbuf_fill_chksum chk p start_offset dataptr len chksum h = do {
     LWIP_ASSERT (dataptr \<noteq> None);
     LWIP_ASSERT (len \<noteq> 0);
     pb \<leftarrow> get_pbuf p h;
     if start_offset \<ge> plen pb \<or> unat start_offset + unat len > unat (plen pb)
     then Some (ERR_ARG, chksum, h)
     else do {
       let dst_ptr = ptr_add (payload pb) (uint start_offset);
       (copy_chksum, h) \<leftarrow> lwip_chksum_copy chk dst_ptr dataptr len h;
       let copy_chksum = (if start_offset AND 1 \<noteq> 0
                          then (ucast (SWAP_BYTES_IN_WORD (ucast copy_chksum)) :: u16) else copy_chksum);
       let acc = (ucast chksum :: u32) + ucast copy_chksum;
       Some (ERR_OK, ucast (FOLD_U32T acc), h) } }"

section \<open>Single bytes, comparison and search\<close>

definition pbuf_try_get_at :: "nat option \<Rightarrow> u16 \<Rightarrow> pheap \<Rightarrow> int option" where
  "pbuf_try_get_at p offset h = do {
     (q, q_idx) \<leftarrow> pbuf_skip_const p offset h;
     (case q of
        None \<Rightarrow> Some (-1)
      | Some a \<Rightarrow> do {
          qb \<leftarrow> get_pbuf a h;
          if plen qb > q_idx then do {
            bs \<leftarrow> load h (ptr_add (payload qb) (uint q_idx)) 1;
            Some (uint (hd bs)) }
          else Some (-1) }) }"

definition pbuf_get_at :: "nat option \<Rightarrow> u16 \<Rightarrow> pheap \<Rightarrow> u8 option" where
  "pbuf_get_at p offset h = do {
     ret \<leftarrow> pbuf_try_get_at p offset h;
     Some (if ret \<ge> 0 then word_of_int ret else 0) }"

definition pbuf_put_at :: "nat option \<Rightarrow> u16 \<Rightarrow> u8 \<Rightarrow> pheap \<Rightarrow> pheap option" where
  "pbuf_put_at p offset byte h = do {
     (q, q_idx) \<leftarrow> pbuf_skip p offset h;
     (case q of
        None \<Rightarrow> Some h
      | Some a \<Rightarrow> do {
          qb \<leftarrow> get_pbuf a h;
          if plen qb > q_idx then store (ptr_add (payload qb) (uint q_idx)) [byte] h
          else Some h }) }"

text \<open>The comparison loop of \<^verbatim>\<open>pbuf_memcmp\<close>; \<open>get\<close> is \<^verbatim>\<open>pbuf_get_at(q, start + i)\<close>.\<close>

partial_function (option) memcmp_loop :: "(u16 \<Rightarrow> u8 option) \<Rightarrow> (nat \<Rightarrow> u8 option) \<Rightarrow> u16 \<Rightarrow> u16 \<Rightarrow> u16 option" where
  "memcmp_loop get s2 n i =
     (if i < n then do {
        a \<leftarrow> get i;
        b \<leftarrow> s2 (unat i);
        if a \<noteq> b then Some (of_nat (min (unat i + 1) 0xFFFF))
        else memcmp_loop get s2 n (i + 1) }
      else Some 0)"

definition load1 :: "pheap \<Rightarrow> cptr \<Rightarrow> nat \<Rightarrow> u8 option" where
  "load1 h p i = map_option hd (load h (ptr_add p (int i)) 1)"

definition pbuf_memcmp :: "nat \<Rightarrow> u16 \<Rightarrow> cptr \<Rightarrow> u16 \<Rightarrow> pheap \<Rightarrow> u16 option" where
  "pbuf_memcmp p offset s2 n h = do {
     pb \<leftarrow> get_pbuf p h;
     if unat (tot_len pb) < unat offset + unat n then Some 0xffff
     else do {
       (q, start) \<leftarrow> pbuf_skip_const (Some p) offset h;
       memcmp_loop (\<lambda>i. pbuf_get_at q (start + i) h) (load1 h s2) n 0 } }"

text \<open>The search loop of \<^verbatim>\<open>pbuf_memfind\<close>; \<open>cmp\<close> is \<^verbatim>\<open>pbuf_memcmp(p, i, mem, mem_len)\<close>.\<close>

partial_function (option) memfind_loop :: "(u16 \<Rightarrow> u16 option) \<Rightarrow> u16 \<Rightarrow> u16 \<Rightarrow> u16 option" where
  "memfind_loop cmp max_cmp_start i =
     (if i \<le> max_cmp_start then do {
        plus \<leftarrow> cmp i;
        if plus = 0 then Some i else memfind_loop cmp max_cmp_start (i + 1) }
      else Some 0xFFFF)"

definition pbuf_memfind :: "nat \<Rightarrow> cptr \<Rightarrow> u16 \<Rightarrow> u16 \<Rightarrow> pheap \<Rightarrow> u16 option" where
  "pbuf_memfind p m mem_len start_offset h = do {
     pb \<leftarrow> get_pbuf p h;
     let max_cmp_start = tot_len pb - mem_len;
     if unat (tot_len pb) \<ge> unat mem_len + unat start_offset
     then memfind_loop (\<lambda>i. pbuf_memcmp p i m mem_len h) max_cmp_start start_offset
     else Some 0xFFFF }"

text \<open>\<^verbatim>\<open>strlen\<close> of the C library: the bytes up to the first zero byte of the block.\<close>

fun c_strlen :: "pheap \<Rightarrow> cptr \<Rightarrow> nat option" where
  "c_strlen h None = None"
| "c_strlen h (Some (b, off)) =
     (case mem h b of None \<Rightarrow> None
      | Some bs \<Rightarrow> let s = drop (nat off) bs
                  in if 0 \<le> off \<and> 0 \<in> set s then Some (length (takeWhile (\<lambda>x. x \<noteq> 0) s)) else None)"

definition pbuf_strstr :: "nat \<Rightarrow> cptr \<Rightarrow> pheap \<Rightarrow> u16 option" where
  "pbuf_strstr p substr h =
     (case substr of None \<Rightarrow> Some 0xFFFF
      | Some _ \<Rightarrow> do {
          substr_len \<leftarrow> c_strlen h substr;
          pb \<leftarrow> get_pbuf p h;
          if substr_len = 0 \<or> tot_len pb = 0xFFFF then Some 0xFFFF
          else if substr_len \<ge> 0xFFFF then Some 0xFFFF
          else pbuf_memfind p substr (of_nat substr_len) 0 h })"

end
