(* ===== verification/Pbuf_Chain.thy ===== *)
theory Pbuf_Chain
  imports Pbuf_Data
begin

text \<open>
  What a pbuf chain means: the list of its structures, the bytes it holds and when it is a
  well-formed packet, that is the invariant \<^verbatim>\<open>pbuf.h\<close> states for
  \<^verbatim>\<open>struct pbuf\<close> (\<^verbatim>\<open>p->tot_len == p->len + (p->next? p->next->tot_len: 0)\<close>)
  together with the payload pointer being readable for \<^verbatim>\<open>len\<close> bytes. Frame lemmas
  say which writes leave a chain alone.
\<close>

section \<open>Chains, bytes and packets\<close>

fun chain :: "pheap \<Rightarrow> nat option \<Rightarrow> nat list \<Rightarrow> bool" where
  "chain h p [] \<longleftrightarrow> p = None"
| "chain h p (a # as) \<longleftrightarrow>
     p = Some a \<and> (case pbufs h a of None \<Rightarrow> False | Some pb \<Rightarrow> chain h (pnext pb) as)"

definition pbytes :: "pheap \<Rightarrow> nat \<Rightarrow> u8 list" where
  "pbytes h a =
     (case pbufs h a of None \<Rightarrow> []
      | Some pb \<Rightarrow> (case load h (payload pb) (unat (plen pb)) of None \<Rightarrow> [] | Some bs \<Rightarrow> bs))"

definition pblock :: "pheap \<Rightarrow> nat \<Rightarrow> nat option" where
  "pblock h a = Option.bind (pbufs h a) (\<lambda>pb. map_option fst (payload pb))"

definition content :: "pheap \<Rightarrow> nat list \<Rightarrow> u8 list" where
  "content h as = concat (map (pbytes h) as)"

fun packet :: "pheap \<Rightarrow> nat option \<Rightarrow> nat list \<Rightarrow> bool" where
  "packet h p [] \<longleftrightarrow> p = None"
| "packet h p (a # as) \<longleftrightarrow>
     p = Some a \<and>
     (case pbufs h a of None \<Rightarrow> False
      | Some pb \<Rightarrow> load h (payload pb) (unat (plen pb)) \<noteq> None
                 \<and> unat (tot_len pb) = length (content h (a # as))
                 \<and> packet h (pnext pb) as)"

lemma content_Nil [simp]: "content h [] = []"
  by (simp add: content_def)

lemma content_Cons [simp]: "content h (a # as) = pbytes h a @ content h as"
  by (simp add: content_def)

lemma content_append [simp]: "content h (as @ bs) = content h as @ content h bs"
  by (simp add: content_def)

lemma packet_chain: "packet h p as \<Longrightarrow> chain h p as"
  by (induction h p as rule: packet.induct) (auto split: option.splits)

lemma packet_None [simp]: "packet h None as \<longleftrightarrow> as = []"
  by (cases as) auto

lemma chain_None [simp]: "chain h None as \<longleftrightarrow> as = []"
  by (cases as) auto

lemma packet_SomeE:
  assumes "packet h (Some a) as"
  obtains pb rest where "as = a # rest" and "pbufs h a = Some pb"
    and "load h (payload pb) (unat (plen pb)) = Some (pbytes h a)"
    and "length (pbytes h a) = unat (plen pb)"
    and "unat (tot_len pb) = length (content h as)"
    and "packet h (pnext pb) rest"
  using assms
  by (cases as) (auto simp: pbytes_def dest: load_length split: option.splits)

lemma packet_ConsE:
  assumes "packet h p (a # as)"
  obtains pb where "p = Some a" and "pbufs h a = Some pb"
    and "load h (payload pb) (unat (plen pb)) = Some (pbytes h a)"
    and "length (pbytes h a) = unat (plen pb)"
    and "unat (tot_len pb) = length (content h (a # as))"
    and "packet h (pnext pb) as"
  using assms by (auto simp: pbytes_def dest: load_length split: option.splits)

lemma chain_unique: "chain h p as \<Longrightarrow> chain h p bs \<Longrightarrow> as = bs"
proof (induction as arbitrary: p bs)
  case (Cons a as)
  then show ?case by (cases bs) (auto split: option.splits)
qed simp

lemma chain_appendD:
  "chain h p (as @ bs) \<Longrightarrow> \<exists>q. chain h q bs \<and> (bs \<noteq> [] \<longrightarrow> q = Some (hd bs))"
proof (induction as arbitrary: p)
  case Nil
  then show ?case by (cases bs) auto
next
  case (Cons a as)
  then show ?case by (auto split: option.splits)
qed

lemma chain_distinct: "chain h p as \<Longrightarrow> distinct as"
proof (induction as arbitrary: p)
  case (Cons a as)
  then obtain pb where pb: "pbufs h a = Some pb" and ch: "chain h (pnext pb) as" and "distinct as"
    by (auto split: option.splits)
  moreover have "a \<notin> set as"
  proof
    assume "a \<in> set as"
    then obtain xs ys where as: "as = xs @ a # ys" by (meson split_list)
    then have "chain h (Some a) (a # ys)" using chain_appendD [of h _ xs "a # ys"] ch by auto
    moreover have "chain h (Some a) (a # as)" using pb ch by simp
    ultimately have "ys = as" using chain_unique by blast
    with as show False by simp
  qed
  ultimately show ?case by simp
qed simp

lemmas packet_distinct = packet_chain [THEN chain_distinct]

lemma packet_in_pbufs: "packet h p as \<Longrightarrow> a \<in> set as \<Longrightarrow> \<exists>pb. pbufs h a = Some pb"
  by (induction h p as rule: packet.induct) (auto split: option.splits)

section \<open>Frames\<close>

text \<open>A chain depends only on the structures and the blocks it uses.\<close>

lemma load_cong: "(\<And>b off. p = Some (b, off) \<Longrightarrow> mem h' b = mem h b) \<Longrightarrow> load h' p n = load h p n"
  by (cases p) (auto simp: in_block_def)

lemma pbytes_cong:
  assumes "pbufs h' a = pbufs h a" and "\<And>b. pblock h a = Some b \<Longrightarrow> mem h' b = mem h b"
  shows "pbytes h' a = pbytes h a"
proof (cases "pbufs h a")
  case (Some pb)
  then have "load h' (payload pb) n = load h (payload pb) n" for n
    using assms(2) by (intro load_cong) (simp add: pblock_def)
  then show ?thesis using Some assms(1) by (simp add: pbytes_def)
qed (simp add: pbytes_def assms(1))

lemma content_cong:
  assumes "\<And>a. a \<in> set as \<Longrightarrow> pbufs h' a = pbufs h a"
    and "\<And>a b. a \<in> set as \<Longrightarrow> pblock h a = Some b \<Longrightarrow> mem h' b = mem h b"
  shows "content h' as = content h as"
proof -
  have "map (pbytes h') as = map (pbytes h) as"
    using assms by (intro map_cong refl pbytes_cong) blast+
  then show ?thesis by (simp only: content_def)
qed

lemma packet_cong:
  assumes "\<And>a. a \<in> set as \<Longrightarrow> pbufs h' a = pbufs h a"
    and "\<And>a b. a \<in> set as \<Longrightarrow> pblock h a = Some b \<Longrightarrow> mem h' b = mem h b"
  shows "packet h' p as = packet h p as"
  using assms
proof (induction as arbitrary: p)
  case (Cons a as)
  have c: "content h' (a # as) = content h (a # as)" using Cons.prems by (rule content_cong)
  have "load h' (payload pb) n = load h (payload pb) n" if "pbufs h a = Some pb" for pb n
    using Cons.prems(2) [of a] that by (intro load_cong) (simp add: pblock_def)
  moreover have "packet h' q as = packet h q as" for q
    using Cons.prems by (intro Cons.IH) auto
  ultimately show ?case using Cons.prems(1) [of a] c
    by (simp split: option.splits del: content_Cons)
qed simp


text \<open>Reading inside the bytes of one pbuf.\<close>

lemma load_sub:
  assumes "load h p n = Some bs" and "i + k \<le> n"
  shows "load h (ptr_add p (int i)) k = Some (take k (drop i bs))"
proof (cases p)
  case None
  then show ?thesis using assms by (auto split: if_splits)
next
  case (Some q)
  obtain b off where q: "q = (b, off)" by fastforce
  show ?thesis using assms Some q
    by (auto simp: in_block_def nat_add_distrib ac_simps take_drop min_def split: if_splits option.splits)
qed

section \<open>Walking to an offset\<close>

fun skip_to :: "pheap \<Rightarrow> nat list \<Rightarrow> nat \<Rightarrow> nat option \<times> nat" where
  "skip_to h [] n = (None, n)"
| "skip_to h (a # as) n =
     (if length (pbytes h a) \<le> n then skip_to h as (n - length (pbytes h a)) else (Some a, n))"

lemma pbuf_skip_const_eq:
  assumes "packet h p as"
  shows "pbuf_skip_const p off h
         = (let (q, i) = skip_to h as (unat off) in Some (q, of_nat i))"
  using assms
proof (induction as arbitrary: p off)
  case Nil
  then show ?case by (simp add: pbuf_skip_const.simps)
next
  case (Cons a as)
  from Cons.prems obtain pb where p: "p = Some a" and pb: "pbufs h a = Some pb"
    and len: "length (pbytes h a) = unat (plen pb)" and rest: "packet h (pnext pb) as"
    by (rule packet_ConsE)
  show ?case
  proof (cases "plen pb \<le> off")
    case True
    then have u: "unat (off - plen pb) = unat off - unat (plen pb)" by (simp add: unat_sub)
    show ?thesis
      using True pb len Cons.IH [OF rest, of "off - plen pb"] u
      by (subst pbuf_skip_const.simps) (simp add: p get_pbuf_def word_le_nat_alt)
  next
    case False
    then show ?thesis using pb len
      by (subst pbuf_skip_const.simps) (simp add: p get_pbuf_def word_le_nat_alt)
  qed
qed

lemma skip_to_Some:
  "skip_to h as n = (Some a, i) \<Longrightarrow>
   \<exists>pre post. as = pre @ a # post \<and> n = length (content h pre) + i \<and> i < length (pbytes h a)"
proof (induction h as n rule: skip_to.induct)
  case (2 h x as n)
  show ?case
  proof (cases "length (pbytes h x) \<le> n")
    case True
    with 2 obtain pre post where "as = pre @ a # post"
      "n - length (pbytes h x) = length (content h pre) + i" "i < length (pbytes h a)" by auto
    with True show ?thesis by (intro exI [of _ "x # pre"] exI [of _ post]) simp
  next
    case False
    with "2.prems" show ?thesis by (intro exI [of _ "[]"] exI [of _ as]) simp
  qed
qed simp

lemma skip_to_None: "skip_to h as n = (None, i) \<Longrightarrow> length (content h as) \<le> n"
  by (induction h as n rule: skip_to.induct) (auto split: if_splits)

lemma skip_to_cases:
  obtains (inside) pre a post i where "as = pre @ a # post" "n = length (content h pre) + i"
      "i < length (pbytes h a)" "skip_to h as n = (Some a, i)" "n < length (content h as)"
  | (outside) i where "skip_to h as n = (None, i)" "length (content h as) \<le> n"
proof (cases "skip_to h as n")
  case (Pair q i)
  show ?thesis
  proof (cases q)
    case None
    with Pair skip_to_None show ?thesis by (metis outside)
  next
    case (Some a)
    with Pair skip_to_Some obtain pre post where
      "as = pre @ a # post" "n = length (content h pre) + i" "i < length (pbytes h a)" by blast
    with Pair Some show ?thesis by (intro inside [of pre a post i]) simp_all
  qed
qed

lemma packet_member:
  assumes "packet h p as" and "a \<in> set as"
  shows "\<exists>pb. pbufs h a = Some pb \<and> load h (payload pb) (unat (plen pb)) = Some (pbytes h a)
            \<and> length (pbytes h a) = unat (plen pb)"
  using assms
proof (induction as arbitrary: p)
  case (Cons x xs)
  from Cons.prems(1) show ?case
    by (rule packet_ConsE) (use Cons in auto)
qed simp


lemma packet_suffix: "packet h p (pre @ a # post) \<Longrightarrow> packet h (Some a) (a # post)"
proof (induction pre arbitrary: p)
  case (Cons x pre)
  from Cons.prems have "packet h p (x # (pre @ a # post))" by simp
  then show ?case by (rule packet_ConsE) (rule Cons.IH)
qed simp

lemma packet_length: "packet h p as \<Longrightarrow> length (content h as) < 65536"
proof (cases as)
  case (Cons a rest)
  moreover assume "packet h p as"
  ultimately have "packet h p (a # rest)" by simp
  then show ?thesis
  proof (rule packet_ConsE)
    fix pb assume "unat (tot_len pb) = length (content h (a # rest))"
    then show ?thesis using unat_u16_lt [of "tot_len pb"] Cons by simp
  qed
qed simp

lemma load1_nth: "load h p n = Some bs \<Longrightarrow> i < n \<Longrightarrow> load1 h p i = Some (bs ! i)"
  using load_sub [of h p n bs i 1] load_length [of h p n bs]
  by (simp add: load1_def take_Suc hd_drop_conv_nth)

section \<open>Reading\<close>

lemma pbuf_clen_loop_eq:
  "chain h p as \<Longrightarrow> pbuf_clen_loop p n h = Some (n + of_nat (length as))"
proof (induction as arbitrary: p n)
  case Nil
  then show ?case by (simp add: pbuf_clen_loop.simps)
next
  case (Cons a as)
  then show ?case
    by (subst pbuf_clen_loop.simps) (auto simp: get_pbuf_def split: option.splits)
qed

lemma pbuf_try_get_at_eq:
  assumes pk: "packet h p as"
  shows "pbuf_try_get_at p off h
         = Some (if unat off < length (content h as) then uint (content h as ! unat off) else -1)"
proof (cases rule: skip_to_cases [where as = as and n = "unat off" and h = h])
  case (inside pre a post i)
  then obtain pb where pb: "pbufs h a = Some pb" "length (pbytes h a) = unat (plen pb)"
    and ld: "load h (payload pb) (unat (plen pb)) = Some (pbytes h a)"
    using packet_member [OF pk, of a] by auto
  have i: "unat (of_nat i :: u16) = i"
    using inside(2) unat_u16_lt [of off] by (simp add: unat_of_nat_u16)
  have ui: "uint (of_nat i :: u16) = int i" unfolding uint_nat i ..
  have "load h (ptr_add (payload pb) (int i)) 1 = Some (take 1 (drop i (pbytes h a)))"
    using inside(3) pb(2) by (intro load_sub [OF ld]) simp
  also have "\<dots> = Some [pbytes h a ! i]" using inside(3) by (simp add: take_Suc hd_drop_conv_nth)
  finally have ld1: "load h (ptr_add (payload pb) (int i)) 1 = Some [pbytes h a ! i]" .
  have "content h as ! unat off = pbytes h a ! i"
    unfolding inside(1,2) using inside(3) by (simp add: nth_append)
  then show ?thesis
    using inside(3,4,5) pb i ld1 ui
    by (simp add: pbuf_try_get_at_def pbuf_skip_const_eq [OF pk] get_pbuf_def word_less_nat_alt)
next
  case (outside i)
  then show ?thesis by (simp add: pbuf_try_get_at_def pbuf_skip_const_eq [OF pk])
qed

lemma pbuf_get_at_eq:
  assumes "packet h p as"
  shows "pbuf_get_at p off h
         = Some (if unat off < length (content h as) then content h as ! unat off else 0)"
  by (simp add: pbuf_get_at_def pbuf_try_get_at_eq [OF assms])

end
