(* ===== verification/Pbuf_Search.thy ===== *)
theory Pbuf_Search
  imports Pbuf_Chain
begin

text \<open>
  Comparison and search in a chain (\<^verbatim>\<open>pbuf_memcmp\<close>, \<^verbatim>\<open>pbuf_memfind\<close>,
  \<^verbatim>\<open>pbuf_strstr\<close>). They rely on one thing only: a byte can be fetched by its
  offset. The locale \<open>byte_source\<close> states that contract, its lemmas carry the loops,
  and the pbuf accessor \<^verbatim>\<open>pbuf_get_at\<close> is an instance.
\<close>

section \<open>Reference: first difference, first occurrence\<close>

text \<open>Zero when one list is a prefix of the other, otherwise the position, from 1, of the first difference.\<close>

fun mismatch :: "u8 list \<Rightarrow> u8 list \<Rightarrow> nat" where
  "mismatch (x # xs) (y # ys) =
     (if x \<noteq> y then 1 else if mismatch xs ys = 0 then 0 else Suc (mismatch xs ys))"
| "mismatch _ _ = 0"

lemma mismatch_0_iff: "length xs = length ys \<Longrightarrow> mismatch xs ys = 0 \<longleftrightarrow> xs = ys"
  by (induction xs ys rule: list_induct2) auto

lemma mismatch_le: "mismatch xs ys \<le> length xs"
  by (induction xs ys rule: mismatch.induct) auto

definition occurs_at :: "u8 list \<Rightarrow> u8 list \<Rightarrow> nat \<Rightarrow> bool" where
  "occurs_at xs pat i \<longleftrightarrow> i + length pat \<le> length xs \<and> take (length pat) (drop i xs) = pat"

section \<open>Anything bytes can be fetched from\<close>

locale byte_source =
  fixes inv :: "'s \<Rightarrow> bool"
    and bytes :: "'s \<Rightarrow> u8 list"
    and get :: "'s \<Rightarrow> u16 \<Rightarrow> u8 option"
  assumes get_ok: "inv s \<Longrightarrow> unat i < length (bytes s) \<Longrightarrow> get s i = Some (bytes s ! unat i)"
    and bytes_bound: "inv s \<Longrightarrow> length (bytes s) < 65536"
begin

lemma memcmp_loop_eq:
  assumes inv: "inv s" and rng: "unat start + unat n \<le> length (bytes s)"
    and s2: "\<And>j. j < unat n \<Longrightarrow> s2 j = Some (pat ! j)" and pat: "length pat = unat n"
    and i: "i \<le> n"
  defines "xs \<equiv> take (unat n) (drop (unat start) (bytes s))"
  defines "m \<equiv> mismatch (drop (unat i) xs) (drop (unat i) pat)"
  shows "memcmp_loop (\<lambda>j. get s (start + j)) s2 n i = Some (if m = 0 then 0 else of_nat (unat i + m))"
  using i unfolding m_def
proof (induction "unat n - unat i" arbitrary: i)
  case 0
  then have "i = n" by (simp add: word_le_nat_alt word_unat_eq_iff)
  then show ?case using pat by (simp add: memcmp_loop.simps)
next
  case (Suc k)
  then have lt: "unat i < unat n" by simp
  have st: "unat (start + i) = unat start + unat i"
    using rng lt bytes_bound [OF inv] by (subst unat_add_lem [THEN iffD1]) simp_all
  have xi: "bytes s ! unat (start + i) = xs ! unat i"
    using rng lt by (simp add: xs_def st)
  have g: "get s (start + i) = Some (xs ! unat i)"
    using get_ok [OF inv, of "start + i"] rng lt st xi by simp
  have s: "unat (i + 1) = Suc (unat i)"
    using lt unat_u16_lt [of n] by (subst unat_add_lem [THEN iffD1]) simp_all
  have lx: "length xs = unat n" using rng by (simp add: xs_def)
  have d: "drop (unat i) xs = xs ! unat i # drop (Suc (unat i)) xs"
    "drop (unat i) pat = pat ! unat i # drop (Suc (unat i)) pat"
    using lt lx pat by (simp_all add: Cons_nth_drop_Suc)
  have IH: "memcmp_loop (\<lambda>j. get s (start + j)) s2 n (i + 1) =
      Some (if mismatch (drop (Suc (unat i)) xs) (drop (Suc (unat i)) pat) = 0 then 0
            else of_nat (Suc (unat i) + mismatch (drop (Suc (unat i)) xs) (drop (Suc (unat i)) pat)))"
    using Suc.hyps(1) [of "i + 1"] Suc.hyps(2) s lt by (simp add: word_le_nat_alt)
  have un: "memcmp_loop (\<lambda>j. get s (start + j)) s2 n i =
      (if xs ! unat i \<noteq> pat ! unat i then Some (of_nat (min (unat i + 1) 0xFFFF))
       else memcmp_loop (\<lambda>j. get s (start + j)) s2 n (i + 1))"
    using lt g s2 [of "unat i"] by (subst memcmp_loop.simps) (simp add: word_less_nat_alt)
  show ?case
  proof (cases "xs ! unat i = pat ! unat i")
    case True
    then show ?thesis unfolding un IH d by simp
  next
    case False
    have "min (unat i + 1) 0xFFFF = unat i + 1" using lt unat_u16_lt [of n] by simp
    then show ?thesis using False unfolding un d by simp
  qed
qed

end

lemma memfind_loop_eq:
  assumes cmp: "\<And>j. j \<le> mx \<Longrightarrow> \<exists>r. cmp j = Some r \<and> (r = 0 \<longleftrightarrow> P (unat j))"
    and i: "unat i \<le> Suc (unat mx)" and bd: "mx < 0xFFFF \<or> P (unat i)"
  shows "memfind_loop cmp mx i = Some (case find P [unat i..<Suc (unat mx)] of None \<Rightarrow> 0xFFFF | Some j \<Rightarrow> of_nat j)"
  using i bd
proof (induction "Suc (unat mx) - unat i" arbitrary: i)
  case 0
  then show ?case by (subst memfind_loop.simps) (simp add: word_le_nat_alt)
next
  case (Suc k)
  then have le: "i \<le> mx" by (simp add: word_le_nat_alt)
  then obtain r where r: "cmp i = Some r" "r = 0 \<longleftrightarrow> P (unat i)" using cmp by blast
  have up: "[unat i..<Suc (unat mx)] = unat i # [Suc (unat i)..<Suc (unat mx)]"
    using le by (simp add: upt_conv_Cons word_le_nat_alt)
  show ?case
  proof (cases "P (unat i)")
    case True
    then show ?thesis using r le up by (subst memfind_loop.simps) simp
  next
    case False
    then have mx: "mx < 0xFFFF" using Suc.prems by simp
    have s: "unat (i + 1) = Suc (unat i)"
      using le mx by (subst unat_add_lem [THEN iffD1]) (simp_all add: word_le_nat_alt word_less_nat_alt)
    have "memfind_loop cmp mx (i + 1) =
      Some (case find P [Suc (unat i)..<Suc (unat mx)] of None \<Rightarrow> 0xFFFF | Some j \<Rightarrow> of_nat j)"
      using Suc.hyps(1) [of "i + 1"] Suc.hyps(2) s mx le by (simp add: word_le_nat_alt)
    then show ?thesis using False r le up by (subst memfind_loop.simps) simp
  qed
qed


section \<open>The instance for pbuf chains\<close>

interpretation pbuf_src: byte_source "\<lambda>(h, p, as). packet h p as" "\<lambda>(h, p, as). content h as"
    "\<lambda>(h, p, as) i. pbuf_get_at p i h"
  by unfold_locales (auto simp: pbuf_get_at_eq packet_length)

lemma pbuf_memcmp_eq:
  assumes pk: "packet h (Some p) as" and s2: "load h s2 (unat n) = Some pat"
  shows "pbuf_memcmp p off s2 n h =
    Some (if length (content h as) < unat off + unat n then 0xffff
          else of_nat (mismatch (take (unat n) (drop (unat off) (content h as))) pat))"
proof (cases "length (content h as) < unat off + unat n")
  case True
  then show ?thesis using pk by (auto elim!: packet_SomeE simp: pbuf_memcmp_def get_pbuf_def)
next
  case False
  obtain pb where pb: "pbufs h p = Some pb" "unat (tot_len pb) = length (content h as)"
    using pk by (auto elim: packet_SomeE)
  have pl: "length pat = unat n" using s2 by (rule load_length)
  show ?thesis
  proof (cases rule: skip_to_cases [where as = as and n = "unat off" and h = h])
    case (inside pre a post i)
    have sk: "pbuf_skip_const (Some p) off h = Some (Some a, of_nat i)"
      using inside(4) by (simp add: pbuf_skip_const_eq [OF pk])
    have i: "unat (of_nat i :: u16) = i"
      using inside(2) unat_u16_lt [of off] by (simp add: unat_of_nat_u16)
    have suf: "packet h (Some a) (a # post)" using pk inside(1) packet_suffix by blast
    have dr: "drop (unat off) (content h as) = drop i (content h (a # post))"
      using inside(1,2) by simp
    have rng: "unat (of_nat i :: u16) + unat n \<le> length (content h (a # post))"
      using False inside(1,2) i by simp
    show ?thesis
      using pbuf_src.memcmp_loop_eq [of "(h, Some a, a # post)" "of_nat i" n "load1 h s2" pat 0]
        suf rng s2 pl i pb False sk
      by (simp add: pbuf_memcmp_def get_pbuf_def load1_nth dr del: content_Cons)
  next
    case (outside i)
    then have "n = 0" using False by (simp add: word_unat_eq_iff)
    then show ?thesis using outside pb False pl
      by (simp add: pbuf_memcmp_def get_pbuf_def pbuf_skip_const_eq [OF pk] memcmp_loop.simps)
  qed
qed

lemma pbuf_memfind_eq:
  assumes pk: "packet h (Some p) as" and m: "load h m (unat mem_len) = Some pat"
  shows "pbuf_memfind p m mem_len start h =
    Some (case find (occurs_at (content h as) pat) [unat start..<Suc (length (content h as) - length pat)]
          of None \<Rightarrow> 0xFFFF | Some j \<Rightarrow> of_nat j)"
proof -
  let ?c = "content h as"
  obtain pb where pb: "pbufs h p = Some pb" "unat (tot_len pb) = length ?c"
    using pk by (auto elim: packet_SomeE)
  have pl: "length pat = unat mem_len" using m by (rule load_length)
  show ?thesis
  proof (cases "length ?c \<ge> unat mem_len + unat start")
    case True
    let ?mx = "tot_len pb - mem_len"
    have mx: "unat ?mx = length ?c - length pat"
      using True pb(2) pl by (simp add: unat_sub word_le_nat_alt)
    have cmp: "\<exists>r. pbuf_memcmp p j m mem_len h = Some r \<and> (r = 0 \<longleftrightarrow> occurs_at ?c pat (unat j))"
      if "j \<le> ?mx" for j
    proof -
      have r: "unat j + unat mem_len \<le> length ?c" using that mx True pl by (simp add: word_le_nat_alt)
      have "mismatch (take (unat mem_len) (drop (unat j) ?c)) pat < 65536"
        using mismatch_le [of "take (unat mem_len) (drop (unat j) ?c)" pat] unat_u16_lt [of mem_len] by simp
      then have "(of_nat (mismatch (take (unat mem_len) (drop (unat j) ?c)) pat) = (0 :: u16))
          \<longleftrightarrow> mismatch (take (unat mem_len) (drop (unat j) ?c)) pat = 0"
        by (simp add: word_unat_eq_iff unat_of_nat_u16)
      then show ?thesis
        using r pl by (simp add: pbuf_memcmp_eq [OF pk m] occurs_at_def mismatch_0_iff)
    qed
    have "?mx < 0xFFFF \<or> occurs_at ?c pat (unat start)"
    proof (cases "mem_len = 0")
      case True
      then show ?thesis using pl \<open>length ?c \<ge> _\<close> by (simp add: occurs_at_def)
    next
      case False
      then have "0 < length pat" using pl by (simp add: word_unat_eq_iff)
      then have "unat ?mx < 0xFFFF" using mx packet_length [OF pk] by linarith
      then show ?thesis by (simp add: word_less_nat_alt)
    qed
    then have "memfind_loop (\<lambda>i. pbuf_memcmp p i m mem_len h) ?mx start =
      Some (case find (occurs_at ?c pat) [unat start..<Suc (unat ?mx)] of None \<Rightarrow> 0xFFFF | Some j \<Rightarrow> of_nat j)"
      using True mx pl by (intro memfind_loop_eq cmp) simp_all
    then show ?thesis using True pb mx by (simp add: pbuf_memfind_def get_pbuf_def)
  next
    case False
    then have "find (occurs_at ?c pat) [unat start..<Suc (length ?c - length pat)] = None"
      using pl by (auto simp: find_None_iff occurs_at_def)
    then show ?thesis using False pb by (simp add: pbuf_memfind_def get_pbuf_def)
  qed
qed

end
