(* ===== verification/Pbuf_Write.thy ===== *)
theory Pbuf_Write
  imports Pbuf_Chain
begin

text \<open>
  The operations that copy bytes into and out of a chain: \<^verbatim>\<open>pbuf_put_at\<close>,
  \<^verbatim>\<open>pbuf_take\<close>, \<^verbatim>\<open>pbuf_take_at\<close>, \<^verbatim>\<open>pbuf_copy_partial\<close> and
  \<^verbatim>\<open>pbuf_get_contiguous\<close>. On a well-formed packet whose pbufs use different memory
  blocks they behave as list operations on its bytes and never stop the program.
\<close>

section \<open>Writes that keep the shape of memory\<close>

definition writes_only :: "nat option set \<Rightarrow> pheap \<Rightarrow> pheap \<Rightarrow> bool" where
  "writes_only B h h' \<longleftrightarrow>
     h' = h\<lparr>mem := mem h'\<rparr>
     \<and> (\<forall>b. map_option length (mem h' b) = map_option length (mem h b))
     \<and> (\<forall>b. Some b \<notin> B \<longrightarrow> mem h' b = mem h b)"

definition ptr_block :: "cptr \<Rightarrow> nat option" where
  "ptr_block p = map_option fst p"

lemma writes_only_refl [simp]: "writes_only B h h"
  by (simp add: writes_only_def)

lemma writes_only_mono: "writes_only B h h' \<Longrightarrow> B \<subseteq> C \<Longrightarrow> writes_only C h h'"
  by (auto simp: writes_only_def)

lemma writes_only_trans: "writes_only B h h' \<Longrightarrow> writes_only B h' h'' \<Longrightarrow> writes_only B h h''"
  unfolding writes_only_def by (metis pheap.surjective pheap.update_convs(2))

lemma writes_only_pbufs: "writes_only B h h' \<Longrightarrow> pbufs h' = pbufs h"
  unfolding writes_only_def by (metis pheap.ext_inject pheap.surjective pheap.update_convs(2))

lemma writes_only_pblock: "writes_only B h h' \<Longrightarrow> pblock h' a = pblock h a"
  by (simp add: pblock_def writes_only_pbufs)

lemma shape_load:
  assumes "\<And>b. map_option length (mem h' b) = map_option length (mem h b)"
  shows "load h' p n \<noteq> None \<longleftrightarrow> load h p n \<noteq> None"
proof (cases p)
  case (Some q)
  obtain b off where "q = (b, off)" by fastforce
  then show ?thesis using Some assms [of b] by (auto simp: in_block_def split: option.splits)
qed simp

lemma writes_only_load: "writes_only B h h' \<Longrightarrow> load h' p n \<noteq> None \<longleftrightarrow> load h p n \<noteq> None"
  by (rule shape_load) (simp add: writes_only_def)

lemma writes_only_load_other:
  "writes_only B h h' \<Longrightarrow> ptr_block p \<notin> B \<Longrightarrow> load h' p n = load h p n"
  by (cases p) (auto simp: writes_only_def ptr_block_def intro!: load_cong)

lemma writes_only_length_pbytes:
  assumes w: "writes_only B h h'" shows "length (pbytes h' a) = length (pbytes h a)"
proof (cases "pbufs h a")
  case (Some pb)
  have *: "load h' (payload pb) (unat (plen pb)) = None \<longleftrightarrow> load h (payload pb) (unat (plen pb)) = None"
    using writes_only_load [OF w] by blast
  show ?thesis
  proof (cases "load h (payload pb) (unat (plen pb))")
    case None
    then show ?thesis using * Some by (simp add: pbytes_def writes_only_pbufs [OF w])
  next
    case (Some bs)
    then obtain bs' where "load h' (payload pb) (unat (plen pb)) = Some bs'" using * by fastforce
    then show ?thesis using Some \<open>pbufs h a = Some pb\<close>
      by (simp add: pbytes_def writes_only_pbufs [OF w] load_length)
  qed
qed (simp add: pbytes_def writes_only_pbufs [OF w])

lemma writes_only_length_content:
  "writes_only B h h' \<Longrightarrow> length (content h' as) = length (content h as)"
  by (induction as) (simp_all add: writes_only_length_pbytes)

lemma writes_only_packet:
  assumes w: "writes_only B h h'" shows "packet h' p as = packet h p as"
proof (induction as arbitrary: p)
  case (Cons a as)
  then show ?case
    using writes_only_load [OF w] writes_only_pbufs [OF w] writes_only_length_content [OF w, of "a # as"]
    by (simp split: option.splits del: content_Cons)
qed simp

lemma writes_only_content:
  assumes w: "writes_only B h h'" and B: "\<And>a. a \<in> set as \<Longrightarrow> pblock h a \<notin> B"
  shows "content h' as = content h as"
proof (rule content_cong)
  fix a b assume "a \<in> set as" "pblock h a = Some b"
  then show "mem h' b = mem h b" using w B [of a] by (simp add: writes_only_def)
qed (simp add: writes_only_pbufs [OF w])

text \<open>Overwriting part of a readable region.\<close>

lemma overwrite_sub:
  assumes "j + n \<le> length m" and "i + length xs \<le> n"
  shows "take n (drop j (take (j + i) m @ xs @ drop (j + i + length xs) m))
       = take i (take n (drop j m)) @ xs @ drop (i + length xs) (take n (drop j m))"
proof -
  have a: "drop j (take (j + i) m) = take i (drop j m)" by (simp add: drop_take)
  have b: "drop j (take (j + i) m @ xs @ drop (j + i + length xs) m)
         = take i (drop j m) @ xs @ drop (j + i + length xs) m"
    using assms by (simp add: a)
  have c: "drop (i + length xs) (take n (drop j m)) = take (n - (i + length xs)) (drop (j + i + length xs) m)"
    by (simp add: drop_take add.commute add.left_commute)
  have d: "take i (take n (drop j m)) = take i (drop j m)" using assms by simp
  have l: "length (take i (drop j m)) = i" using assms by simp
  show ?thesis unfolding b c d using assms by (simp add: min_absorb2)
qed

lemma store_sub:
  assumes "load h p n = Some bs" and "i + length xs \<le> n"
  shows "\<exists>h'. store (ptr_add p (int i)) xs h = Some h'
           \<and> load h' p n = Some (take i bs @ xs @ drop (i + length xs) bs)
           \<and> writes_only {ptr_block p} h h'"
proof (cases "xs = []")
  case True
  then show ?thesis using assms by simp
next
  case False
  then obtain b off where p: "p = Some (b, off)" using assms by (cases p) (auto split: if_splits)
  with assms False obtain m where m: "mem h b = Some m" and o: "0 \<le> off" "nat off + n \<le> length m"
    and bs: "bs = take n (drop (nat off) m)"
    by (auto simp: in_block_def split: if_splits option.splits)
  define h' where "h' = h\<lparr>mem := (mem h)(b \<mapsto> take (nat off + i) m @ xs @ drop (nat off + i + length xs) m)\<rparr>"
  have st: "store (ptr_add p (int i)) xs h = Some h'"
    using False assms(2) m o by (simp add: p in_block_def h'_def nat_add_distrib Let_def)
  have "take n (drop (nat off) (take (nat off + i) m @ xs @ drop (nat off + i + length xs) m))
      = take i bs @ xs @ drop (i + length xs) bs"
    unfolding bs by (rule overwrite_sub [OF o(2) assms(2)])
  then have "load h' p n = Some (take i bs @ xs @ drop (i + length xs) bs)"
    using False assms(2) o by (cases xs) (simp_all add: p in_block_def h'_def)
  moreover have "writes_only {ptr_block p} h h'"
    using assms(2) m o by (auto simp: writes_only_def h'_def p ptr_block_def)
  ultimately show ?thesis using st by blast
qed

lemma MEMCPY_sub:
  assumes "load h src n = Some xs" and "load h p m = Some bs" and "i + n \<le> m"
  shows "\<exists>h'. MEMCPY (ptr_add p (int i)) src n h = Some h'
           \<and> load h' p m = Some (take i bs @ xs @ drop (i + n) bs)
           \<and> writes_only {ptr_block p} h h'"
  using store_sub [OF assms(2), of i xs] assms load_length [OF assms(1)] by (auto simp: MEMCPY_def)

section \<open>Writing into a packet\<close>

definition blocks :: "pheap \<Rightarrow> nat list \<Rightarrow> nat option set" where
  "blocks h as = set (map (pblock h) as)"

definition separate :: "pheap \<Rightarrow> nat list \<Rightarrow> bool" where
  "separate h as \<longleftrightarrow> distinct (map (pblock h) as)"

lemma blocks_Cons [simp]: "blocks h (a # as) = insert (pblock h a) (blocks h as)"
  by (simp add: blocks_def)

lemma separate_Cons [simp]: "separate h (a # as) \<longleftrightarrow> pblock h a \<notin> blocks h as \<and> separate h as"
  by (auto simp: separate_def blocks_def)

lemma writes_only_blocks: "writes_only B h h' \<Longrightarrow> blocks h' as = blocks h as"
  by (simp add: blocks_def writes_only_pblock)

lemma writes_only_separate: "writes_only B h h' \<Longrightarrow> separate h' as = separate h as"
  using writes_only_pblock [of B h h'] by (simp add: separate_def cong: map_cong)

lemma pblock_payload: "pbufs h a = Some pb \<Longrightarrow> ptr_block (payload pb) = pblock h a"
  by (simp add: ptr_block_def pblock_def)

lemma writes_only_one_content:
  "writes_only {B} h h' \<Longrightarrow> B \<notin> blocks h as \<Longrightarrow> content h' as = content h as"
  by (rule writes_only_content) (auto simp: blocks_def image_iff)

lemma packet_write_one:
  assumes as: "as = pre @ a # post" and sep: "separate h as" and pb: "pbufs h a = Some pb"
    and w: "writes_only {pblock h a} h h'" and ld: "load h' (payload pb) (unat (plen pb)) = Some bs"
  shows "content h' as = content h pre @ bs @ content h post"
proof -
  have "pbytes h' a = bs" using pb ld by (simp add: pbytes_def writes_only_pbufs [OF w])
  moreover have "content h' pre = content h pre" "content h' post = content h post"
    using sep by (simp_all add: as separate_def blocks_def writes_only_one_content [OF w])
  ultimately show ?thesis by (simp add: as)
qed

lemma pbuf_put_at_eq:
  assumes pk: "packet h p as" and sep: "separate h as"
  shows "\<exists>h'. pbuf_put_at p off b h = Some h' \<and> writes_only (blocks h as) h h'
            \<and> content h' as = (content h as)[unat off := b]"
proof (cases rule: skip_to_cases [where as = as and n = "unat off" and h = h])
  case (inside pre a post i)
  then obtain pb where pb: "pbufs h a = Some pb" "length (pbytes h a) = unat (plen pb)"
    and ld: "load h (payload pb) (unat (plen pb)) = Some (pbytes h a)"
    using packet_member [OF pk, of a] by auto
  have i: "unat (of_nat i :: u16) = i"
    using inside(2) unat_u16_lt [of off] by (simp add: unat_of_nat_u16)
  have ui: "uint (of_nat i :: u16) = int i" unfolding uint_nat i ..
  from store_sub [OF ld, of i "[b]"] inside(3) pb
  obtain h' where st: "store (ptr_add (payload pb) (int i)) [b] h = Some h'"
    and ld': "load h' (payload pb) (unat (plen pb)) = Some ((pbytes h a)[i := b])"
    and w: "writes_only {pblock h a} h h'"
    by (auto simp: pblock_payload upd_conv_take_nth_drop)
  have "pbuf_put_at p off b h = Some h'"
    using inside(3,4) pb i st ui
    by (simp add: pbuf_put_at_def pbuf_skip_def pbuf_skip_const_eq [OF pk] get_pbuf_def word_less_nat_alt)
  moreover have "content h' as = (content h as)[unat off := b]"
    using packet_write_one [OF inside(1) sep pb(1) w ld'] inside(3)
    by (simp add: inside(1,2) list_update_append)
  moreover have "writes_only (blocks h as) h h'"
    using w by (rule writes_only_mono) (simp add: inside(1) blocks_def)
  ultimately show ?thesis by blast
next
  case (outside i)
  then show ?thesis
    by (simp add: pbuf_put_at_def pbuf_skip_def pbuf_skip_const_eq [OF pk] list_update_beyond)
qed

lemma pbuf_take_loop_eq:
  assumes "packet h p as" and "separate h as" and "ptr_block d \<notin> blocks h as"
    and "load h (ptr_add d (int c)) n = Some xs" and "n \<le> length (content h as)"
  shows "\<exists>h'. pbuf_take_loop p d n c h = Some (c + n, h') \<and> writes_only (blocks h as) h h'
            \<and> content h' as = xs @ drop n (content h as)"
  using assms
proof (induction as arbitrary: p n c h xs)
  case Nil
  then show ?case by (auto simp: pbuf_take_loop.simps dest: load_length)
next
  case (Cons a as)
  show ?case
  proof (cases "n = 0")
    case True
    then show ?thesis using Cons.prems(4) by (simp add: pbuf_take_loop.simps)
  next
    case False
    from Cons.prems(1) obtain pb where p: "p = Some a" and pb: "pbufs h a = Some pb"
      and ld: "load h (payload pb) (unat (plen pb)) = Some (pbytes h a)"
      and len: "length (pbytes h a) = unat (plen pb)" and rest: "packet h (pnext pb) as"
      by (rule packet_ConsE)
    define k where "k = min n (unat (plen pb))"
    have kn: "k \<le> n" by (simp add: k_def)
    have lx: "length xs = n" using Cons.prems(4) by (rule load_length)
    have "load h (ptr_add d (int c)) k = Some (take k xs)"
      using load_sub [OF Cons.prems(4), of 0 k] kn by simp
    from MEMCPY_sub [OF this ld, of 0] obtain h1
      where cp: "MEMCPY (payload pb) (ptr_add d (int c)) k h = Some h1"
        and ld1: "load h1 (payload pb) (unat (plen pb)) = Some (take k xs @ drop k (pbytes h a))"
        and w1: "writes_only {pblock h a} h h1"
      by (auto simp: pblock_payload [OF pb] k_def)
    have rest1: "packet h1 (pnext pb) as" using rest by (simp add: writes_only_packet [OF w1])
    have "ptr_block (ptr_add d j) = ptr_block d" for j by (cases d) (auto simp: ptr_block_def)
    then have "load h1 (ptr_add d (int c)) n = Some xs"
      using Cons.prems(3,4) writes_only_load_other [OF w1, of "ptr_add d (int c)" n] by simp
    then have ldr: "load h1 (ptr_add d (int (c + k))) (n - k) = Some (drop k xs)"
      using load_sub [of h1 "ptr_add d (int c)" n xs k "n - k"] kn lx by simp
    have eqc: "content h1 as = content h as"
      using Cons.prems(2) by (simp add: writes_only_one_content [OF w1])
    have "n - k \<le> length (content h1 as)" using Cons.prems(5) len by (simp add: eqc k_def)
    from Cons.IH [OF rest1 _ _ ldr this] Cons.prems(2,3) obtain h2
      where lp: "pbuf_take_loop (pnext pb) d (n - k) (c + k) h1 = Some (c + n, h2)"
        and w2: "writes_only (blocks h as) h1 h2" and c2: "content h2 as = drop k xs @ drop (n - k) (content h as)"
      using kn by (auto simp: writes_only_blocks [OF w1] writes_only_separate [OF w1] eqc)
    have "pbuf_take_loop p d n c h = Some (c + n, h2)"
    proof -
      have "(if n > unat (plen pb) then unat (plen pb) else n) = k" by (simp add: k_def)
      then show ?thesis
        using False pb cp lp by (subst pbuf_take_loop.simps) (simp add: p get_pbuf_def Let_def)
    qed
    moreover have "writes_only (blocks h (a # as)) h h2"
      by (rule writes_only_trans [OF writes_only_mono [OF w1] writes_only_mono [OF w2]]) auto
    moreover have "pbytes h2 a = pbytes h1 a"
      using writes_only_load_other [OF w2, of "payload pb"] Cons.prems(2) pb pblock_payload [OF pb]
      by (simp add: pbytes_def writes_only_pbufs [OF w1] writes_only_pbufs [OF w2])
    moreover have "pbytes h1 a = take k xs @ drop k (pbytes h a)"
      using ld1 pb by (simp add: pbytes_def writes_only_pbufs [OF w1])
    ultimately show ?thesis using len lx by (auto simp: c2 k_def min_def)
  qed
qed

lemma pbuf_take_eq:
  assumes pk: "packet h (Some a) as" and sep: "separate h as" and d: "ptr_block d \<notin> blocks h as"
    and ld: "load h d (unat len) = Some xs" and nn: "d \<noteq> None" and n: "unat len \<le> length (content h as)"
  shows "\<exists>h'. pbuf_take (Some a) d len h = Some (ERR_OK, h') \<and> writes_only (blocks h as) h h'
            \<and> content h' as = xs @ drop (unat len) (content h as)"
proof -
  obtain pb where "pbufs h a = Some pb" "unat (tot_len pb) = length (content h as)"
    using pk by (rule packet_SomeE)
  moreover obtain h' where "pbuf_take_loop (Some a) d (unat len) 0 h = Some (unat len, h')"
      "writes_only (blocks h as) h h'" "content h' as = xs @ drop (unat len) (content h as)"
    using pbuf_take_loop_eq [OF pk sep d _ n, of 0 xs] ld by auto
  ultimately show ?thesis using nn n by (auto simp: pbuf_take_def get_pbuf_def word_le_nat_alt)
qed

section \<open>Reading out of a packet\<close>

lemma unat_min: "unat (min a b) = min (unat a) (unat b)"
  by (simp add: min_def word_le_nat_alt)

lemma ptr_block_add [simp]: "ptr_block (ptr_add p i) = ptr_block p"
  by (cases p) (auto simp: ptr_block_def)

lemma take_drop_split: "take n xs @ drop n xs @ ys = xs @ ys"
  by (metis append_assoc append_take_drop_id)

lemma take_drop_append:
  assumes "j \<le> length xs" and "k = min (length xs - j) n"
  shows "take n (drop j (xs @ ys)) = take k (drop j xs) @ take (n - k) ys"
  using assms by (auto simp: min_def)

lemma pbuf_copy_partial_loop_eq:
  assumes "packet h p as" and "ptr_block d \<notin> blocks h as"
    and "load h d m = Some old" and "unat left + unat len \<le> m" and "unat left + unat len < 65536"
  shows "\<exists>h'. pbuf_copy_partial_loop p d len off left copied h
                = Some (copied + of_nat (min (unat len) (length (content h as) - unat off)), h')
            \<and> writes_only {ptr_block d} h h'
            \<and> load h' d m = Some (overlay (unat left) (take (unat len) (drop (unat off) (content h as))) old)"
  using assms
proof (induction as arbitrary: p off left len copied h old)
  case Nil
  then show ?case by (simp add: pbuf_copy_partial_loop.simps)
next
  case (Cons a as)
  show ?case
  proof (cases "len = 0")
    case True
    then show ?thesis using Cons.prems(3) by (simp add: pbuf_copy_partial_loop.simps)
  next
    case False
    from Cons.prems(1) obtain pb where p: "p = Some a" and pb: "pbufs h a = Some pb"
      and ld: "load h (payload pb) (unat (plen pb)) = Some (pbytes h a)"
      and len: "length (pbytes h a) = unat (plen pb)" and rest: "packet h (pnext pb) as"
      by (rule packet_ConsE)
    show ?thesis
    proof (cases "off \<noteq> 0 \<and> off \<ge> plen pb")
      case True
      then have u: "unat (off - plen pb) = unat off - unat (plen pb)"
        and le: "unat (plen pb) \<le> unat off" by (simp_all add: unat_sub word_le_nat_alt)
      show ?thesis
        using Cons.IH [OF rest _ Cons.prems(3-5), of "off - plen pb" copied] Cons.prems(2) True False pb le len
        by (subst pbuf_copy_partial_loop.simps) (simp add: p get_pbuf_def u Let_def add.commute)
    next
      case F2: False
      then have off: "unat off \<le> unat (plen pb)" by (auto simp: word_le_nat_alt)
      define k where "k = min (plen pb - off) len"
      have uk: "unat k = min (unat (plen pb) - unat off) (unat len)"
        using off by (simp add: k_def unat_min unat_sub word_le_nat_alt)
      have kl: "unat (len - k) = unat len - unat k"
        by (rule unat_sub) (simp add: k_def)
      have lk: "unat (left + k) = unat left + unat k"
        using Cons.prems(5) uk by (subst unat_add_lem [THEN iffD1]) auto
      have cpl: "load h (ptr_add (payload pb) (uint off)) (unat k)
            = Some (take (unat k) (drop (unat off) (pbytes h a)))"
        unfolding uint_nat using uk off by (intro load_sub [OF ld]) simp
      have ly: "length (take (unat k) (drop (unat off) (pbytes h a))) = unat k"
        using uk len by simp
      have "unat left + unat k \<le> m" using Cons.prems(4) uk by simp
      from MEMCPY_sub [OF cpl Cons.prems(3) this] obtain h1
        where cp: "MEMCPY (ptr_add d (uint left)) (ptr_add (payload pb) (uint off)) (unat k) h = Some h1"
          and ld1: "load h1 d m = Some (overlay (unat left) (take (unat k) (drop (unat off) (pbytes h a))) old)"
          and w1: "writes_only {ptr_block d} h h1"
        unfolding uint_nat overlay_def using ly by auto
      have rest1: "packet h1 (pnext pb) as" using rest by (simp add: writes_only_packet [OF w1])
      have eqc: "content h1 as = content h as"
        using Cons.prems(2) by (intro writes_only_one_content [OF w1]) simp
      from Cons.IH [OF rest1 _ ld1, of "left + k" "len - k" 0 "copied + k"] Cons.prems(2,4,5)
      obtain h2 where lp: "pbuf_copy_partial_loop (pnext pb) d (len - k) 0 (left + k) (copied + k) h1
                = Some (copied + k + of_nat (min (unat (len - k)) (length (content h as))), h2)"
        and w2: "writes_only {ptr_block d} h1 h2"
        and ld2: "load h2 d m = Some (overlay (unat (left + k)) (take (unat (len - k)) (content h as))
              (overlay (unat left) (take (unat k) (drop (unat off) (pbytes h a))) old))"
        using kl lk uk by (auto simp: writes_only_blocks [OF w1] eqc)
      have "pbuf_copy_partial_loop p d len off left copied h
            = Some (copied + k + of_nat (min (unat (len - k)) (length (content h as))), h2)"
        using False F2 pb cp lp
        by (subst pbuf_copy_partial_loop.simps) (auto simp: p get_pbuf_def k_def min_def Let_def)
      moreover have "copied + k + of_nat (min (unat (len - k)) (length (content h as)))
            = copied + of_nat (min (unat len) (length (content h (a # as)) - unat off))"
      proof -
        have "min (unat len) (length (content h (a # as)) - unat off)
              = unat k + min (unat (len - k)) (length (content h as))"
          using len off uk kl unfolding content_Cons length_append min_def
          by (auto split: if_splits)
        then show ?thesis by (simp only: of_nat_add) simp
      qed
      moreover have "load h2 d m = Some (overlay (unat left) (take (unat len) (drop (unat off) (content h (a # as)))) old)"
      proof -
        have "take (unat len) (drop (unat off) (content h (a # as)))
              = take (unat k) (drop (unat off) (pbytes h a)) @ take (unat (len - k)) (content h as)"
          using off len uk kl by (simp add: take_drop_append del: drop_append take_append)
        moreover have "unat left + length (take (unat k) (drop (unat off) (pbytes h a)))
            + length (take (unat (len - k)) (content h as)) \<le> length old"
        proof -
          have "unat k \<le> unat len" using uk by simp
          moreover have "length (take (unat (len - k)) (content h as)) \<le> unat len - unat k" using kl by simp
          ultimately show ?thesis
            using Cons.prems(4) load_length [OF Cons.prems(3)] unfolding ly by linarith
        qed
        ultimately show ?thesis
          using overlay_overlay [of "unat left" "take (unat k) (drop (unat off) (pbytes h a))"] ld2 ly lk by simp
      qed
      ultimately show ?thesis using writes_only_trans [OF w1 w2] by auto
    qed
  qed
qed

lemma pbuf_copy_partial_eq:
  fixes off :: u16
  assumes pk: "packet h (Some a) as" and d: "ptr_block d \<notin> blocks h as" and nn: "d \<noteq> None"
    and ld: "load h d (unat len) = Some old"
  defines "ys \<equiv> take (unat len) (drop (unat off) (content h as))"
  shows "\<exists>h'. pbuf_copy_partial (Some a) d len off h = Some (of_nat (length ys), h')
            \<and> writes_only {ptr_block d} h h' \<and> load h' d (length ys) = Some ys"
proof -
  have len: "length ys \<le> unat len" by (simp add: ys_def)
  obtain h' where lp: "pbuf_copy_partial_loop (Some a) d len off 0 0 h = Some (of_nat (length ys), h')"
      and w: "writes_only {ptr_block d} h h'" and ld': "load h' d (unat len) = Some (overlay 0 ys old)"
    using pbuf_copy_partial_loop_eq [OF pk d ld, of 0 len off 0]
    unat_u16_lt [of len] by (auto simp: ys_def min.commute)
  have "load h' d (length ys) = Some ys"
    using load_sub [OF ld', of 0 "length ys"] len by (simp add: overlay_def)
  then show ?thesis using nn lp w by (auto simp: pbuf_copy_partial_def)
qed

section \<open>Writing and reading at an offset\<close>

lemma pbuf_take_at_eq:
  assumes pk: "packet h p as" and sep: "separate h as" and d: "ptr_block d \<notin> blocks h as"
    and nn: "d \<noteq> None" and ld: "load h d (unat len) = Some xs"
    and n: "unat off + unat len \<le> length (content h as)" and lt: "unat off < length (content h as)"
  shows "\<exists>h'. pbuf_take_at p d len off h = Some (ERR_OK, h') \<and> writes_only (blocks h as) h h'
            \<and> content h' as = overlay (unat off) xs (content h as)"
proof (cases rule: skip_to_cases [where as = as and n = "unat off" and h = h])
  case (inside pre a post i)
  have lx: "length xs = unat len" using ld by (rule load_length)
  have "packet h (Some a) (a # post)" using pk unfolding inside(1) by (rule packet_suffix)
  then obtain pb where pb: "pbufs h a = Some pb"
    and lda: "load h (payload pb) (unat (plen pb)) = Some (pbytes h a)"
    and len: "length (pbytes h a) = unat (plen pb)"
    and tot: "unat (tot_len pb) = length (content h (a # post))" and rest: "packet h (pnext pb) post"
    by (rule packet_ConsE)
  have i: "unat (of_nat i :: u16) = i"
    using inside(2) unat_u16_lt [of off] by (simp add: unat_of_nat_u16)
  have ui: "uint (of_nat i :: u16) = int i" unfolding uint_nat i ..
  define k where "k = min (plen pb - of_nat i) len"
  have uk: "unat k = min (unat (plen pb) - i) (unat len)"
    using inside(3) i len by (simp add: k_def unat_min unat_sub word_le_nat_alt)
  have kl: "unat (len - k) = unat len - unat k" by (rule unat_sub) (simp add: k_def)
  have "load h d (unat k) = Some (take (unat k) xs)"
    using load_sub [OF ld, of 0 "unat k"] uk by simp
  moreover have "i + unat k \<le> unat (plen pb)" using uk inside(3) len by simp
  ultimately obtain h1
    where cp: "MEMCPY (ptr_add (payload pb) (int i)) d (unat k) h = Some h1"
      and ld1: "load h1 (payload pb) (unat (plen pb)) = Some (take i (pbytes h a) @ take (unat k) xs @ drop (i + unat k) (pbytes h a))"
      and w1: "writes_only {pblock h a} h h1"
    using MEMCPY_sub [OF _ lda, of d "unat k"] by (auto simp: pblock_payload [OF pb])
  have c1: "content h1 as = content h pre @ (take i (pbytes h a) @ take (unat k) xs @ drop (i + unat k) (pbytes h a)) @ content h post"
    by (rule packet_write_one [OF inside(1) sep pb w1 ld1])
  have enough: "unat (tot_len pb) \<ge> unat (of_nat i :: u16) + unat len"
    using n by (simp add: tot i inside(1,2))
  have run: "pbuf_take_at p d len off h
      = (if len - k > 0 then pbuf_take (pnext pb) (ptr_add d (uint k)) (len - k) h1 else Some (ERR_OK, h1))"
    using inside(3,4) pb enough len i cp ui
    by (simp add: pbuf_take_at_def pbuf_skip_def pbuf_skip_const_eq [OF pk] get_pbuf_def word_less_nat_alt
        flip: k_def)
  have cont: "content h as = content h pre @ pbytes h a @ content h post" by (simp add: inside(1))
  show ?thesis
  proof (cases "len - k > 0")
    case False
    then have k: "unat k = unat len" using kl uk by (simp add: word_less_nat_alt)
    then have "content h1 as = overlay (unat off) xs (content h as)"
      using lx inside(2,3) uk len by (simp add: c1 cont overlay_def)
    moreover have "writes_only (blocks h as) h h1"
      using w1 by (rule writes_only_mono) (simp add: inside(1) blocks_def)
    ultimately show ?thesis using run False by simp
  next
    case True
    then have k: "unat k = unat (plen pb) - i" "unat k < unat len" using kl uk by (auto simp: word_less_nat_alt)
    have sep': "pblock h a \<notin> blocks h post" "separate h post" "separate h (a # post)"
      "blocks h pre \<inter> blocks h (a # post) = {}" "blocks h post \<subseteq> blocks h as"
      using sep by (auto simp: inside(1) separate_def blocks_def)
    have eqp: "content h1 post = content h post" by (rule writes_only_one_content [OF w1 sep'(1)])
    have le: "unat (len - k) \<le> length (content h1 post)"
      using n kl k inside(2,3) len by (simp add: cont eqp)
    then obtain b rest' where post: "post = b # rest'" using kl k by (cases post) auto
    have nx: "pnext pb = Some b" using rest unfolding post by (rule packet_ConsE)
    have pk1: "packet h1 (Some b) post" using rest unfolding writes_only_packet [OF w1] nx .
    have dd: "ptr_block (ptr_add d (uint k)) \<notin> blocks h1 post"
      using d sep'(5) by (auto simp: writes_only_blocks [OF w1])
    have "load h1 d (unat len) = Some xs"
      using ld d writes_only_load_other [OF w1, of d] by (auto simp: inside(1) blocks_def)
    then have ldr: "load h1 (ptr_add d (uint k)) (unat (len - k)) = Some (drop (unat k) xs)"
      using load_sub [of h1 d "unat len" xs "unat k" "unat (len - k)"] kl k lx by (simp add: uint_nat)
    have "ptr_add d (uint k) \<noteq> None" using nn by (cases d) auto
    from pbuf_take_eq [OF pk1 _ dd ldr this le] sep'(2) obtain h2
      where tk: "pbuf_take (pnext pb) (ptr_add d (uint k)) (len - k) h1 = Some (ERR_OK, h2)"
        and w2: "writes_only (blocks h post) h1 h2"
        and c2: "content h2 post = drop (unat k) xs @ drop (unat (len - k)) (content h post)"
      by (auto simp: nx writes_only_separate [OF w1] writes_only_blocks [OF w1] eqp)
    have "content h2 (pre @ [a]) = content h1 (pre @ [a])"
      using sep'(1,4) by (intro writes_only_content [OF w2]) (auto simp: writes_only_pblock [OF w1] blocks_def)
    then have "content h2 as = content h pre @ (take i (pbytes h a) @ take (unat k) xs @ drop (i + unat k) (pbytes h a))
        @ drop (unat k) xs @ drop (unat (len - k)) (content h post)"
      using c1 c2 eqp by (simp add: inside(1))
    then have "content h2 as = overlay (unat off) xs (content h as)"
      using lx inside(2,3) k len kl
      by (simp add: cont overlay_def add.commute take_drop_split)
    moreover have "writes_only (blocks h as) h h2"
      by (rule writes_only_trans [OF writes_only_mono [OF w1] writes_only_mono [OF w2 sep'(5)]])
         (simp add: inside(1) blocks_def)
    ultimately show ?thesis using run True tk by auto
  qed
next
  case (outside i)
  then show ?thesis using lt by simp
qed

lemma pbuf_get_contiguous_eq:
  assumes pk: "packet h (Some a) as" and d: "ptr_block d \<notin> blocks h as" and nn: "d \<noteq> None"
    and sz: "unat len \<le> bufsize" and ld: "load h d (unat len) = Some old"
    and n: "unat off + unat len \<le> length (content h as)" and lt: "unat off < length (content h as)"
  shows "\<exists>r h'. pbuf_get_contiguous (Some a) d bufsize len off h = Some (r, h')
            \<and> writes_only {ptr_block d} h h' \<and> r \<noteq> None
            \<and> load h' r (unat len) = Some (take (unat len) (drop (unat off) (content h as)))"
proof (cases rule: skip_to_cases [where as = as and n = "unat off" and h = h])
  case (inside pre x post i)
  have sfx: "packet h (Some x) (x # post)" using pk unfolding inside(1) by (rule packet_suffix)
  then obtain pb where pb: "pbufs h x = Some pb"
    and ldx: "load h (payload pb) (unat (plen pb)) = Some (pbytes h x)"
    and len: "length (pbytes h x) = unat (plen pb)"
    by (rule packet_ConsE)
  have i: "unat (of_nat i :: u16) = i"
    using inside(2) unat_u16_lt [of off] by (simp add: unat_of_nat_u16)
  have ui: "uint (of_nat i :: u16) = int i" unfolding uint_nat i ..
  have dr: "drop (unat off) (content h as) = drop i (content h (x # post))" by (simp add: inside(1,2))
  show ?thesis
  proof (cases "i + unat len \<le> unat (plen pb)")
    case True
    moreover have "payload pb \<noteq> None" using ldx inside(3) len by (cases "payload pb") (auto split: if_splits)
    then have "ptr_add (payload pb) (int i) \<noteq> None" by (cases "payload pb") auto
    moreover have "take (unat len) (drop (unat off) (content h as)) = take (unat len) (drop i (pbytes h x))"
      using True inside(3) len by (simp add: dr)
    ultimately show ?thesis
      using nn sz pb inside(4) i ui load_sub [OF ldx True]
      by (simp add: pbuf_get_contiguous_def pbuf_skip_const_eq [OF pk] get_pbuf_def)
  next
    case False
    have "ptr_block d \<notin> blocks h (x # post)" using d by (auto simp: inside(1) blocks_def)
    from pbuf_copy_partial_eq [OF sfx this nn ld, of "of_nat i"] obtain h'
      where "pbuf_copy_partial (Some x) d len (of_nat i) h
               = Some (of_nat (length (take (unat len) (drop (unat off) (content h as)))), h')"
        and w: "writes_only {ptr_block d} h h'"
        and ld': "load h' d (length (take (unat len) (drop (unat off) (content h as))))
               = Some (take (unat len) (drop (unat off) (content h as)))"
      unfolding i dr by blast
    moreover have "length (take (unat len) (drop (unat off) (content h as))) = unat len" using n by simp
    ultimately show ?thesis
      using False nn sz pb inside(4) i
      by (simp add: pbuf_get_contiguous_def pbuf_skip_const_eq [OF pk] get_pbuf_def)
  qed
next
  case (outside i)
  then show ?thesis using lt by simp
qed

end
