(* ===== verification/Pbuf_Struct.thy ===== *)
theory Pbuf_Struct
  imports Pbuf_Chain
begin

text \<open>
  The operations that change the shape of a chain: releasing a reference, joining and
  separating chains, shrinking and moving the payload pointer over a header.
\<close>

unbundle bit_operations_syntax

section \<open>Releasing a reference\<close>

text \<open>A pbuf the allocator can take back: not a custom one, and its allocation is still there.\<close>

definition freeable :: "pheap \<Rightarrow> nat \<Rightarrow> bool" where
  "freeable h a \<longleftrightarrow>
     (case pbufs h a of None \<Rightarrow> False
      | Some pb \<Rightarrow> pref pb > 0 \<and> pflags pb AND PBUF_FLAG_IS_CUSTOM = 0
                 \<and> pbuf_get_allocsrc pb \<in> {SRC_STD_HEAP, SRC_STD_MEMP_PBUF, SRC_STD_MEMP_PBUF_POOL}
                 \<and> mem h a \<noteq> None)"

definition forget :: "nat \<Rightarrow> pheap \<Rightarrow> pheap" where
  "forget a h = h\<lparr>mem := (mem h)(a := None), pbufs := (pbufs h)(a := None)\<rparr>"

definition set_pbuf :: "nat \<Rightarrow> pbuf \<Rightarrow> pheap \<Rightarrow> pheap" where
  "set_pbuf a pb h = h\<lparr>pbufs := (pbufs h)(a \<mapsto> pb)\<rparr>"

text \<open>What releasing one reference to a chain does: see \<open>pbuf_free_loop_eq\<close>.\<close>

fun release :: "nat list \<Rightarrow> pheap \<Rightarrow> nat \<times> pheap" where
  "release [] h = (0, h)"
| "release (a # as) h =
     (let pb = the (pbufs h a) in
      if pref pb = 1 then (let (n, h') = release as (forget a h) in (Suc n, h'))
      else (0, set_pbuf a (pb\<lparr>pref := pref pb - 1\<rparr>) h))"

lemma forget_simps [simp]:
  "pbufs (forget a h) = (pbufs h)(a := None)" "mem (forget a h) = (mem h)(a := None)"
  by (simp_all add: forget_def)

lemma set_pbuf_simps [simp]:
  "pbufs (set_pbuf a pb h) = (pbufs h)(a \<mapsto> pb)" "mem (set_pbuf a pb h) = mem h"
  by (simp_all add: set_pbuf_def)

lemma chain_forget: "a \<notin> set as \<Longrightarrow> chain (forget a h) p as = chain h p as"
  by (induction as arbitrary: p) (auto split: option.splits)

lemma freeable_forget: "b \<noteq> a \<Longrightarrow> freeable (forget a h) b = freeable h b"
  by (simp add: freeable_def split: option.splits)

lemma pbuf_free_loop_eq:
  assumes "chain h p as" and "\<forall>a \<in> set as. freeable h a"
  shows "pbuf_free_loop p count h = Some (case release as h of (n, h') \<Rightarrow> (count + of_nat n, h'))"
  using assms
proof (induction as arbitrary: p count h)
  case Nil
  then show ?case by (simp add: pbuf_free_loop.simps)
next
  case (Cons a as)
  then obtain pb where p: "p = Some a" and pb: "pbufs h a = Some pb" and ch: "chain h (pnext pb) as"
    by (auto split: option.splits)
  have dist: "a \<notin> set as" using chain_distinct [OF Cons.prems(1)] by simp
  have fr: "pref pb > 0" "pflags pb AND PBUF_FLAG_IS_CUSTOM = 0" "mem h a \<noteq> None"
    "pbuf_get_allocsrc pb \<in> {SRC_STD_HEAP, SRC_STD_MEMP_PBUF, SRC_STD_MEMP_PBUF_POOL}"
    using Cons.prems(2) pb by (auto simp: freeable_def)
  show ?case
  proof (cases "pref pb = 1")
    case True
    have "chain (forget a h) (pnext pb) as" using ch by (simp add: chain_forget [OF dist])
    moreover have "\<forall>b \<in> set as. freeable (forget a h) b"
      using Cons.prems(2) dist freeable_forget [of _ a h] by (metis list.set_intros(2))
    ultimately have "pbuf_free_loop (pnext pb) (count + 1) (forget a h)
        = Some (case release as (forget a h) of (n, h') \<Rightarrow> (count + 1 + of_nat n, h'))"
      by (rule Cons.IH)
    moreover obtain m where m: "mem h a = Some m" using fr by auto
    have "pbuf_free_loop p count h = pbuf_free_loop (pnext pb) (count + 1) (forget a h)"
      using True pb fr m
      by (subst pbuf_free_loop.simps)
         (auto simp: p get_pbuf_def upd_pbuf_def alloc_defs mem_free_def forget_def)
    ultimately show ?thesis using True pb
      by (simp add: ac_simps split: prod.splits)
  next
    case False
    then have "pref pb - 1 \<noteq> 0" by simp
    then show ?thesis using False pb fr
      by (subst pbuf_free_loop.simps) (simp add: p get_pbuf_def upd_pbuf_def set_pbuf_def)
  qed
qed

lemma release_frame:
  assumes "release as h = (n, h')" and "distinct as"
  shows "n = length (takeWhile (\<lambda>a. pref (the (pbufs h a)) = 1) as)
    \<and> (\<forall>x \<in> set (take n as). pbufs h' x = None \<and> mem h' x = None)
    \<and> (\<forall>x. x \<notin> set (take n as) \<longrightarrow> mem h' x = mem h x)
    \<and> (\<forall>x. x \<notin> set (take (Suc n) as) \<longrightarrow> pbufs h' x = pbufs h x)
    \<and> (n < length as \<longrightarrow> pbufs h' (as ! n)
         = Some ((the (pbufs h (as ! n)))\<lparr>pref := pref (the (pbufs h (as ! n))) - 1\<rparr>))"
  using assms
proof (induction as arbitrary: h n)
  case (Cons a as)
  show ?case
  proof (cases "pref (the (pbufs h a)) = 1")
    case False
    then show ?thesis using Cons.prems(1) by (auto simp: Let_def)
  next
    case True
    then obtain k where k: "release as (forget a h) = (k, h')" "n = Suc k"
      using Cons.prems(1) by (auto simp: Let_def split: prod.splits)
    have tw: "takeWhile (\<lambda>x. pref (the (pbufs (forget a h) x)) = 1) as
            = takeWhile (\<lambda>x. pref (the (pbufs h x)) = 1) as"
      using Cons.prems(2) by (intro takeWhile_cong) auto
    have nth: "as ! k \<noteq> a" if "k < length as" using Cons.prems(2) that by (metis distinct.simps(2) nth_mem)
    have na: "a \<notin> set (take j as)" for j using Cons.prems(2) by (auto dest: in_set_takeD)
    show ?thesis
      using Cons.IH [OF k(1)] Cons.prems(2) True k(2) nth na
      unfolding tw by auto
  qed
qed simp

lemma release_own:
  assumes "release as h = (n, h')" and "distinct as" and "x \<notin> set as"
  shows "pbufs h' x = pbufs h x" "mem h' x = mem h x"
  using release_frame [OF assms(1,2)] assms(3) by (meson in_set_takeD)+

section \<open>Joining two chains\<close>

text \<open>The state in which the loop of \<^verbatim>\<open>pbuf_cat\<close> leaves the pbufs it has passed.\<close>

definition grow_tot :: "nat set \<Rightarrow> u16 \<Rightarrow> pheap \<Rightarrow> pheap" where
  "grow_tot A n h = h\<lparr>pbufs := \<lambda>x. if x \<in> A then map_option (\<lambda>pb. pb\<lparr>tot_len := tot_len pb + n\<rparr>) (pbufs h x)
                              else pbufs h x\<rparr>"

lemma grow_tot_simps [simp]:
  "mem (grow_tot A n h) = mem h"
  "pbufs (grow_tot A n h) x = (if x \<in> A then map_option (\<lambda>pb. pb\<lparr>tot_len := tot_len pb + n\<rparr>) (pbufs h x) else pbufs h x)"
  by (simp_all add: grow_tot_def)

lemma grow_tot_empty [simp]: "grow_tot {} n h = h"
  by (simp add: grow_tot_def)

lemma grow_tot_insert:
  "pbufs h a = Some pb \<Longrightarrow> a \<notin> A \<Longrightarrow>
   grow_tot A n (h\<lparr>pbufs := (pbufs h)(a \<mapsto> pb\<lparr>tot_len := tot_len pb + n\<rparr>)\<rparr>) = grow_tot (insert a A) n h"
  by (auto simp: grow_tot_def fun_eq_iff)

lemma chain_upd:
  "a \<notin> set as \<Longrightarrow> chain (h\<lparr>pbufs := (pbufs h)(a \<mapsto> pb)\<rparr>) p as = chain h p as"
  by (induction as arbitrary: p) (auto split: option.splits)

lemma pbuf_cat_loop_eq:
  assumes "chain h (Some a) as" and "pbufs h t = Some tb" and "t \<notin> set as"
  shows "pbuf_cat_loop a t h = Some (last as, grow_tot (set (butlast as)) (tot_len tb) h)"
  using assms
proof (induction as arbitrary: a h)
  case (Cons x as)
  then obtain pb where x: "x = a" and pb: "pbufs h a = Some pb" and ch: "chain h (pnext pb) as"
    by (auto split: option.splits)
  have dist: "a \<notin> set as" "distinct as" using chain_distinct [OF Cons.prems(1)] by (simp_all add: x)
  show ?case
  proof (cases as)
    case Nil
    then show ?thesis using pb ch by (subst pbuf_cat_loop.simps) (simp add: x get_pbuf_def)
  next
    case (Cons b as')
    then have nx: "pnext pb = Some b" using ch by simp
    define h1 where "h1 = h\<lparr>pbufs := (pbufs h)(a \<mapsto> pb\<lparr>tot_len := tot_len pb + tot_len tb\<rparr>)\<rparr>"
    have "pbuf_cat_loop b t h1 = Some (last as, grow_tot (set (butlast as)) (tot_len tb) h1)"
    proof (rule Cons.IH)
      show "chain h1 (Some b) as" using ch dist by (simp add: h1_def chain_upd nx)
      show "pbufs h1 t = Some tb" "t \<notin> set as" using Cons.prems by (auto simp: h1_def x)
    qed
    moreover have "a \<notin> set (butlast as)" using dist(1) by (auto dest: in_set_butlastD)
    ultimately have "pbuf_cat_loop b t h1 = Some (last as, grow_tot (insert a (set (butlast as))) (tot_len tb) h)"
      using grow_tot_insert [OF pb] by (simp add: h1_def)
    then show ?thesis
      using pb nx Cons.prems(2) Cons
      by (subst pbuf_cat_loop.simps) (simp add: x get_pbuf_def upd_pbuf_def h1_def)
  qed
qed simp

text \<open>Packets whose pbufs got a longer total and whose last pbuf points to a second packet.\<close>

lemma packet_link:
  assumes "packet h p as" and "as \<noteq> []" and "packet h' q bs"
    and "unat n = length (content h' bs)" and "length (content h as) + unat n < 65536"
    and "mem h' = mem h"
    and "\<And>x pb. x \<in> set as \<Longrightarrow> pbufs h x = Some pb \<Longrightarrow>
           pbufs h' x = Some (pb\<lparr>tot_len := tot_len pb + n, pnext := if x = last as then q else pnext pb\<rparr>)"
  shows "packet h' p (as @ bs) \<and> content h' as = content h as"
  using assms
proof (induction as arbitrary: p)
  case (Cons a as)
  from Cons.prems(1) obtain pb where p: "p = Some a" and pb: "pbufs h a = Some pb"
    and ld: "load h (payload pb) (unat (plen pb)) = Some (pbytes h a)"
    and tot: "unat (tot_len pb) = length (content h (a # as))" and rest: "packet h (pnext pb) as"
    by (rule packet_ConsE)
  define pb' where "pb' = pb\<lparr>tot_len := tot_len pb + n, pnext := if a = last (a # as) then q else pnext pb\<rparr>"
  have pb': "pbufs h' a = Some pb'" using Cons.prems(7) [of a pb] pb by (simp add: pb'_def)
  have ld': "load h' (payload pb') (unat (plen pb')) = Some (pbytes h a)"
    using ld load_cong [of "payload pb" h' h] Cons.prems(6) by (simp add: pb'_def)
  then have bytes: "pbytes h' a = pbytes h a" using pb' by (simp add: pbytes_def)
  have tot': "unat (tot_len pb') = length (content h (a # as)) + length (content h' bs)"
    using Cons.prems(4,5) tot by (simp add: pb'_def unat_word_ariths)
  show ?case
  proof (cases "as = []")
    case True
    have "packet h' (pnext pb') bs" using True Cons.prems(3) by (simp add: pb'_def)
    then show ?thesis using p pb' ld' tot' bytes True by simp
  next
    case False
    have "a \<notin> set as" using packet_distinct [OF Cons.prems(1)] by simp
    then have nl: "a \<noteq> last as" using False by (metis last_in_set)
    have "packet h' (pnext pb) (as @ bs) \<and> content h' as = content h as"
    proof (rule Cons.IH [OF rest False Cons.prems(3,4) _ Cons.prems(6)])
      show "length (content h as) + unat n < 65536" using Cons.prems(5) by simp
      fix x xb assume "x \<in> set as" "pbufs h x = Some xb"
      then show "pbufs h' x = Some (xb\<lparr>tot_len := tot_len xb + n, pnext := if x = last as then q else pnext xb\<rparr>)"
        using Cons.prems(7) [of x xb] False by simp
    qed
    then show ?thesis using p pb' ld' tot' bytes False nl by (simp add: pb'_def)
  qed
qed simp

lemma pbuf_cat_eq:
  assumes pa: "packet h (Some a) as" and pt: "packet h (Some t) bs" and dj: "set as \<inter> set bs = {}"
    and fits: "length (content h as) + length (content h bs) < 65536"
  shows "\<exists>h'. pbuf_cat (Some a) (Some t) h = Some h' \<and> packet h' (Some a) (as @ bs)
           \<and> content h' (as @ bs) = content h as @ content h bs
           \<and> mem h' = mem h \<and> (\<forall>x. x \<notin> set as \<longrightarrow> pbufs h' x = pbufs h x)
           \<and> (\<forall>x. map_option pref (pbufs h' x) = map_option pref (pbufs h x))
           \<and> (\<forall>x. map_option payload (pbufs h' x) = map_option payload (pbufs h x))"
proof -
  obtain tb where tb: "pbufs h t = Some tb" "unat (tot_len tb) = length (content h bs)" "t \<in> set bs"
    using pt by (rule packet_SomeE) auto
  have "as \<noteq> []" using pa by (cases as) auto
  define l where "l = last as"
  have split: "as = butlast as @ [l]" using \<open>as \<noteq> []\<close> by (simp add: l_def)
  have t: "t \<notin> set as" using tb(3) dj by blast
  have la: "l \<in> set as" using \<open>as \<noteq> []\<close> by (simp add: l_def)
  have "distinct (butlast as @ [l])" using packet_distinct [OF pa] split by simp
  then have "l \<notin> set (butlast as)" by simp
  then have l: "l \<in> set as" "l \<notin> set (butlast as)" "l \<noteq> t" "t \<notin> set as" using t la by auto
  have "packet h (Some l) [l]" using pa packet_suffix [of h "Some a" "butlast as" l "[]"] split by simp
  then obtain lb where lb: "pbufs h l = Some lb" "pnext lb = None" and "unat (tot_len lb) = unat (plen lb)"
    by (rule packet_ConsE) auto
  then have lt: "tot_len lb = plen lb" by (simp add: word_unat_eq_iff)
  define h1 where "h1 = grow_tot (set (butlast as)) (tot_len tb) h"
  define h2 where "h2 = set_pbuf l (lb\<lparr>tot_len := tot_len lb + tot_len tb, pnext := Some t\<rparr>) h1"
  have "pbuf_cat_loop a t h = Some (l, h1)"
    using pbuf_cat_loop_eq [OF packet_chain [OF pa] tb(1) l(4)] by (simp add: l_def h1_def)
  moreover have "pbufs h1 l = Some lb" "pbufs h1 t = Some tb"
    using lb tb l by (auto simp: h1_def dest: in_set_butlastD)
  ultimately have run: "pbuf_cat (Some a) (Some t) h = Some h2"
    using lb lt l(3) by (simp add: pbuf_cat_def get_pbuf_def upd_pbuf_def h2_def set_pbuf_def)
  have m2: "mem h2 = mem h" by (simp add: h2_def h1_def)
  have other: "pbufs h2 x = pbufs h x" if "x \<notin> set as" for x
    using that l(1) by (auto simp: h2_def h1_def dest: in_set_butlastD)
  have ob: "pbufs h2 x = pbufs h x" if "x \<in> set bs" for x using that dj by (intro other) auto
  have pt2: "packet h2 (Some t) bs" "content h2 bs = content h bs"
    using pt packet_cong [of bs h2 h "Some t", OF ob] content_cong [of bs h2 h, OF ob] m2 by simp_all
  have upd: "pbufs h2 x = Some (pb\<lparr>tot_len := tot_len pb + tot_len tb, pnext := if x = last as then Some t else pnext pb\<rparr>)"
    if "x \<in> set as" "pbufs h x = Some pb" for x pb
  proof (cases "x = l")
    case True
    then show ?thesis using that lb by (simp add: h2_def l_def)
  next
    case False
    moreover have "set as = insert l (set (butlast as))" using arg_cong [OF split, of set] by simp
    ultimately have "x \<in> set (butlast as)" using that(1) by simp
    then show ?thesis using False that by (simp add: h2_def h1_def l_def)
  qed
  have "packet h2 (Some a) (as @ bs) \<and> content h2 as = content h as"
    using packet_link [OF pa \<open>as \<noteq> []\<close> pt2(1), of "tot_len tb"] tb fits pt2(2) m2 upd by simp
  moreover have "\<forall>x. map_option pref (pbufs h2 x) = map_option pref (pbufs h x)"
    "\<forall>x. map_option payload (pbufs h2 x) = map_option payload (pbufs h x)"
    using lb by (auto simp: h2_def h1_def option.map_comp comp_def)
  ultimately show ?thesis using run m2 other pt2(2) by auto
qed

section \<open>Headers\<close>

lemma load_append:
  assumes "load h p n = Some xs" and "load h (ptr_add p (int n)) k = Some ys"
  shows "load h p (n + k) = Some (xs @ ys)"
proof (cases p)
  case None
  then show ?thesis using assms by (auto split: if_splits)
next
  case (Some q)
  obtain b off where q: "q = (b, off)" by fastforce
  show ?thesis
  proof (cases "n = 0 \<or> k = 0")
    case True
    then show ?thesis using assms by auto
  next
    case False
    then obtain m where m: "mem h b = Some m" "0 \<le> off" "nat off + n + k \<le> length m"
      "xs = take n (drop (nat off) m)" "ys = take k (drop (nat off + n) m)"
      using assms Some q by (auto simp: in_block_def nat_add_distrib split: if_splits option.splits)
    then have "xs @ ys = take (n + k) (drop (nat off) m)" unfolding take_add by (simp add: add.commute)
    then show ?thesis using False m(1-3) Some q by (simp add: in_block_def)
  qed
qed

lemma packet_set_head:
  assumes pk: "packet h p (a # as)" and pb: "pbufs h a = Some pb"
    and ld: "load h (payload pb') (unat (plen pb')) = Some bs" and nx: "pnext pb' = pnext pb"
    and tot: "unat (tot_len pb') = length bs + length (content h as)"
  shows "packet (set_pbuf a pb' h) p (a # as) \<and> content (set_pbuf a pb' h) (a # as) = bs @ content h as"
proof -
  from pk obtain pb0 where p: "p = Some a" "pbufs h a = Some pb0" "packet h (pnext pb0) as" by (rule packet_ConsE)
  then have rest: "packet h (pnext pb) as" using pb by simp
  have a: "a \<notin> set as" using packet_distinct [OF pk] by simp
  have keep: "pbufs (set_pbuf a pb' h) x = pbufs h x" if "x \<in> set as" for x using that a by auto
  have rest': "packet (set_pbuf a pb' h) (pnext pb) as" "content (set_pbuf a pb' h) as = content h as"
    using rest packet_cong [of as "set_pbuf a pb' h" h, OF keep] content_cong [of as "set_pbuf a pb' h" h, OF keep]
    by simp_all
  have ld': "load (set_pbuf a pb' h) (payload pb') (unat (plen pb')) = Some bs"
    using ld load_cong [of "payload pb'" "set_pbuf a pb' h" h] by simp
  then have "pbytes (set_pbuf a pb' h) a = bs" by (simp add: pbytes_def)
  then show ?thesis using p(1) ld' nx tot rest' by simp
qed

lemma pbuf_remove_header_eq:
  assumes pk: "packet h p (a # as)" and n: "n \<le> length (pbytes h a)"
  shows "\<exists>h'. pbuf_remove_header a n h = Some (False, h') \<and> packet h' p (a # as)
           \<and> content h' (a # as) = drop n (content h (a # as)) \<and> mem h' = mem h"
proof (cases "n = 0")
  case True
  then show ?thesis using pk by (simp add: pbuf_remove_header_def)
next
  case False
  from pk obtain pb where pb: "pbufs h a = Some pb"
    and ld: "load h (payload pb) (unat (plen pb)) = Some (pbytes h a)"
    and len: "length (pbytes h a) = unat (plen pb)"
    and tot: "unat (tot_len pb) = length (content h (a # as))" by (rule packet_ConsE)
  have lt: "n < 65536" using n len unat_u16_lt [of "plen pb"] by simp
  then have un: "unat (of_nat n :: u16) = n" by (simp add: unat_of_nat_u16)
  then have le: "of_nat n \<le> plen pb" "of_nat n \<le> tot_len pb"
    using n len tot by (simp_all add: word_le_nat_alt)
  define pb' where "pb' = pb\<lparr>payload := ptr_add (payload pb) (int n), plen := plen pb - of_nat n,
                             tot_len := tot_len pb - of_nat n\<rparr>"
  have "load h (payload pb') (unat (plen pb')) = Some (drop n (pbytes h a))"
    using load_sub [OF ld, of n "unat (plen pb) - n"] n len by (simp add: pb'_def unat_sub [OF le(1)] un)
  moreover have "unat (tot_len pb') = length (drop n (pbytes h a)) + length (content h as)"
    using tot n by (simp add: pb'_def unat_sub [OF le(2)] un)
  ultimately have "packet (set_pbuf a pb' h) p (a # as)
      \<and> content (set_pbuf a pb' h) (a # as) = drop n (pbytes h a) @ content h as"
    by (intro packet_set_head [OF pk pb]) (simp_all add: pb'_def)
  moreover have "pbuf_remove_header a n h = Some (False, set_pbuf a pb' h)"
    using False lt le pb by (simp add: pbuf_remove_header_def get_pbuf_def upd_pbuf_def set_pbuf_def pb'_def Let_def)
  moreover have "drop n (content h (a # as)) = drop n (pbytes h a) @ content h as" using n by simp
  ultimately show ?thesis
    by (intro exI [of _ "set_pbuf a pb' h"]) (simp del: packet.simps content_Cons)
qed

text \<open>
  A header of \<open>n\<close> bytes fits in front of the payload: either the pbuf carries its data and
  has the room, or the caller insists on a pbuf that refers to foreign memory.
\<close>

definition headroom :: "pheap \<Rightarrow> nat \<Rightarrow> nat \<Rightarrow> bool \<Rightarrow> bool" where
  "headroom h a n force \<longleftrightarrow>
     (case pbufs h a of None \<Rightarrow> False
      | Some pb \<Rightarrow> if type_internal pb AND PBUF_TYPE_FLAG_STRUCT_DATA_CONTIGUOUS \<noteq> 0
                 then (case payload pb of Some (b, off) \<Rightarrow> b = a \<and> int n \<le> off | None \<Rightarrow> False)
                 else force)"

lemma pbuf_add_header_eq:
  assumes pk: "packet h p (a # as)" and pb: "pbufs h a = Some pb" and room: "headroom h a n force"
    and hd: "load h (ptr_add (payload pb) (- int n)) n = Some bs"
    and fits: "length (content h (a # as)) + n < 65536"
  shows "\<exists>h'. pbuf_add_header_impl a n force h = Some (False, h') \<and> packet h' p (a # as)
           \<and> content h' (a # as) = bs @ content h (a # as) \<and> mem h' = mem h
           \<and> pbuf_remove_header a n h' = Some (False, h)"
proof (cases "n = 0")
  case True
  then show ?thesis using pk hd by (simp add: pbuf_add_header_impl_def pbuf_remove_header_def)
next
  case False
  from pk obtain pb0 where "pbufs h a = Some pb0"
    "load h (payload pb0) (unat (plen pb0)) = Some (pbytes h a)"
    "length (pbytes h a) = unat (plen pb0)" "unat (tot_len pb0) = length (content h (a # as))"
    by (rule packet_ConsE)
  then have ld: "load h (payload pb) (unat (plen pb)) = Some (pbytes h a)"
    and len: "length (pbytes h a) = unat (plen pb)"
    and tot: "unat (tot_len pb) = length (content h (a # as))" using pb by auto
  have un: "unat (of_nat n :: u16) = n" using fits by (simp add: unat_of_nat_u16)
  define pb' where "pb' = pb\<lparr>payload := ptr_add (payload pb) (- int n), plen := plen pb + of_nat n,
                             tot_len := tot_len pb + of_nat n\<rparr>"
  have ut: "unat (tot_len pb + of_nat n) = unat (tot_len pb) + n"
    and up: "unat (plen pb + of_nat n) = unat (plen pb) + n"
    using fits tot len un by (simp_all add: unat_word_ariths)
  have "load h (payload pb') (unat (plen pb')) = Some (bs @ pbytes h a)"
    using load_append [OF hd, of "unat (plen pb)" "pbytes h a"] ld by (simp add: pb'_def up add.commute)
  moreover have "unat (tot_len pb') = length (bs @ pbytes h a) + length (content h as)"
    using tot load_length [OF hd] by (simp add: pb'_def ut)
  ultimately have "packet (set_pbuf a pb' h) p (a # as)
      \<and> content (set_pbuf a pb' h) (a # as) = (bs @ pbytes h a) @ content h as"
    by (intro packet_set_head [OF pk pb]) (simp_all add: pb'_def)
  moreover have "\<not> of_nat n + tot_len pb < of_nat n"
    using ut un by (simp add: word_less_nat_alt add.commute)
  then have "pbuf_add_header_impl a n force h = Some (False, set_pbuf a pb' h)"
    using False fits pb room
    by (auto simp: pbuf_add_header_impl_def get_pbuf_def upd_pbuf_def set_pbuf_def pb'_def headroom_def Let_def
        split: option.splits prod.splits if_splits)
  moreover have "pbuf_remove_header a n (set_pbuf a pb' h) = Some (False, h)"
  proof -
    have "of_nat n \<le> plen pb'" using up un by (simp add: pb'_def word_le_nat_alt)
    moreover have "h\<lparr>pbufs := (pbufs h)(a \<mapsto> pb)\<rparr> = h" using pb by (simp add: map_upd_triv)
    ultimately show ?thesis
      using False fits by (simp add: pbuf_remove_header_def get_pbuf_def upd_pbuf_def set_pbuf_def pb'_def Let_def)
  qed
  moreover have "bs @ content h (a # as) = (bs @ pbytes h a) @ content h as" by simp
  ultimately show ?thesis
    by (intro exI [of _ "set_pbuf a pb' h"]) (simp del: packet.simps content_Cons append_assoc)
qed

section \<open>Shrinking\<close>

lemma pbuf_realloc_loop_eq:
  assumes "packet h (Some a) as" and "unat rem \<le> length (content h as)"
  shows "\<exists>pre q post. as = pre @ q # post \<and> length (content h pre) \<le> unat rem
           \<and> unat rem \<le> length (content h (pre @ [q]))
           \<and> pbuf_realloc_loop a rem s h
               = Some (q, of_nat (unat rem - length (content h pre)), grow_tot (set pre) (- s) h)"
  using assms
proof (induction as arbitrary: a rem h)
  case (Cons x as)
  from Cons.prems(1) obtain pb where x: "x = a" and pb: "pbufs h a = Some pb"
    and len: "length (pbytes h a) = unat (plen pb)" and rest: "packet h (pnext pb) as"
    by (rule packet_ConsE) auto
  show ?case
  proof (cases "rem > plen pb")
    case False
    then show ?thesis using pb len
      by (intro exI [of _ "[]"] exI [of _ x] exI [of _ as])
         (simp add: x pbuf_realloc_loop.simps get_pbuf_def word_less_nat_alt)
  next
    case True
    then have ur: "unat (rem - plen pb) = unat rem - unat (plen pb)"
      by (simp add: unat_sub word_less_nat_alt word_le_nat_alt)
    obtain b as' where as: "as = b # as'" using Cons.prems(2) True len by (cases as) (auto simp: x word_less_nat_alt)
    have nx: "pnext pb = Some b" using rest unfolding as by (rule packet_ConsE)
    define h1 where "h1 = h\<lparr>pbufs := (pbufs h)(a \<mapsto> pb\<lparr>tot_len := tot_len pb + - s\<rparr>)\<rparr>"
    have a: "a \<notin> set as" using packet_distinct [OF Cons.prems(1)] by (simp add: x)
    have keep: "pbufs h1 y = pbufs h y" if "y \<in> set as" for y using that a by (auto simp: h1_def)
    have m1: "mem h1 = mem h" by (simp add: h1_def)
    have rest1: "packet h1 (Some b) as"
      using rest packet_cong [of as h1 h, OF keep] m1 nx by simp
    have c1: "content h1 zs = content h zs" if "set zs \<subseteq> set as" for zs
      using that keep m1 by (intro content_cong) auto
    have "unat (rem - plen pb) \<le> length (content h1 as)"
      using Cons.prems(2) len by (simp add: c1 ur x)
    from Cons.IH [OF rest1 this] obtain pre q post where
      split: "as = pre @ q # post" and lo: "length (content h1 pre) \<le> unat (rem - plen pb)"
      and hi: "unat (rem - plen pb) \<le> length (content h1 (pre @ [q]))"
      and run: "pbuf_realloc_loop b (rem - plen pb) s h1
          = Some (q, of_nat (unat (rem - plen pb) - length (content h1 pre)), grow_tot (set pre) (- s) h1)"
      by blast
    have "set pre \<subseteq> set as" "set (pre @ [q]) \<subseteq> set as" by (auto simp: split)
    note cp = this [THEN c1]
    have gt: "grow_tot (set pre) (- s) h1 = grow_tot (set (x # pre)) (- s) h"
      using a split unfolding h1_def list.set x by (intro grow_tot_insert [OF pb]) auto
    have "pbuf_realloc_loop x rem s h = pbuf_realloc_loop b (rem - plen pb) s h1"
      using True pb nx by (subst pbuf_realloc_loop.simps) (simp add: x get_pbuf_def upd_pbuf_def h1_def)
    then have "pbuf_realloc_loop a rem s h
        = Some (q, of_nat (unat rem - length (content h (x # pre))), grow_tot (set (x # pre)) (- s) h)"
      using run len by (simp add: gt cp ur x diff_diff_left)
    moreover have "length (content h (x # pre)) \<le> unat rem" "unat rem \<le> length (content h ((x # pre) @ [q]))"
      using lo hi len True unfolding cp by (simp_all add: ur x word_less_nat_alt)
    ultimately show ?thesis
      by (intro exI [of _ "x # pre"] exI [of _ q] exI [of _ post]) (simp add: split)
  qed
qed simp

text \<open>A packet cut inside its last kept pbuf.\<close>

lemma packet_cut:
  fixes n s :: u16
  assumes "packet h p (pre @ q # post)" and "pbufs h q = Some qb"
    and "k \<le> length (pbytes h q)" and "unat n = length (content h pre) + k"
    and "unat s + unat n = length (content h (pre @ q # post))"
    and "\<And>x pb. x \<in> set pre \<Longrightarrow> pbufs h x = Some pb \<Longrightarrow> pbufs h' x = Some (pb\<lparr>tot_len := tot_len pb + - s\<rparr>)"
    and "pbufs h' q = Some (qb\<lparr>plen := of_nat k, tot_len := of_nat k, pnext := None\<rparr>)"
    and "\<And>x b. x \<in> set (pre @ [q]) \<Longrightarrow> pblock h x = Some b \<Longrightarrow> mem h' b = mem h b"
  shows "packet h' p (pre @ [q]) \<and> content h' (pre @ [q]) = content h pre @ take k (pbytes h q)"
  using assms
proof (induction pre arbitrary: p n)
  case Nil
  from Nil.prems(1) have p: "p = Some q" "load h (payload qb) (unat (plen qb)) = Some (pbytes h q)"
      "length (pbytes h q) = unat (plen qb)"
    using Nil.prems(2) by (auto elim!: packet_ConsE simp del: packet.simps)
  have uk: "unat (of_nat k :: u16) = k"
    using Nil.prems(3) p(3) unat_u16_lt [of "plen qb"] by (simp add: unat_of_nat_u16)
  have "load h' (payload qb) k = load h (payload qb) k"
    using Nil.prems(8) [of q] Nil.prems(2) by (intro load_cong) (simp add: pblock_def)
  also have "\<dots> = Some (take k (pbytes h q))" using load_sub [OF p(2), of 0 k] Nil.prems(3) p(3) by simp
  finally have "load h' (payload qb) k = Some (take k (pbytes h q))" .
  then show ?case using p(1) Nil.prems(3,7) uk by (simp add: pbytes_def)
next
  case (Cons a pre)
  from Cons.prems(1) have "packet h p (a # (pre @ q # post))" by simp
  then obtain pb where p: "p = Some a" and pb: "pbufs h a = Some pb"
    and ld: "load h (payload pb) (unat (plen pb)) = Some (pbytes h a)"
    and len: "length (pbytes h a) = unat (plen pb)"
    and tot: "unat (tot_len pb) = length (content h (a # (pre @ q # post)))"
    and rest: "packet h (pnext pb) (pre @ q # post)"
    by (rule packet_ConsE)
  have n: "unat (n - plen pb) = unat n - unat (plen pb)" "unat (plen pb) \<le> unat n"
    using Cons.prems(4) len by (simp_all add: unat_sub word_le_nat_alt)
  have "packet h' (pnext pb) (pre @ [q]) \<and> content h' (pre @ [q]) = content h pre @ take k (pbytes h q)"
  proof (rule Cons.IH [OF rest Cons.prems(2,3)])
    show "unat (n - plen pb) = length (content h pre) + k" using Cons.prems(4) n len by simp
    show "unat s + unat (n - plen pb) = length (content h (pre @ q # post))"
      using Cons.prems(5) n len by simp
  qed (use Cons.prems(6-8) in auto)
  moreover have pb': "pbufs h' a = Some (pb\<lparr>tot_len := tot_len pb + - s\<rparr>)"
    using Cons.prems(6) pb by simp
  moreover have ld': "load h' (payload pb) (unat (plen pb)) = Some (pbytes h a)"
    using Cons.prems(8) [of a] pb ld load_cong [of "payload pb" h' h] by (simp add: pblock_def)
  moreover have "pbytes h' a = pbytes h a" using pb' ld' by (simp add: pbytes_def)
  moreover have "unat (tot_len pb + - s) = unat n"
  proof -
    have "unat s \<le> unat (tot_len pb)" using tot Cons.prems(5) by simp
    then have "unat (tot_len pb - s) = unat (tot_len pb) - unat s" by (simp add: unat_sub word_le_nat_alt)
    then show ?thesis using tot Cons.prems(5) by simp
  qed
  ultimately show ?case using p Cons.prems(3,4) by simp
qed

text \<open>No pbuf of the chain keeps its payload inside another pbuf of the chain.\<close>

definition own_payload :: "pheap \<Rightarrow> nat list \<Rightarrow> bool" where
  "own_payload h as \<longleftrightarrow> (\<forall>x \<in> set as. \<forall>y \<in> set as. pblock h x = Some y \<longrightarrow> x = y)"

lemma pbuf_free_tail:
  assumes "chain h p as" and "\<forall>x \<in> set as. freeable h x"
  shows "(case p of None \<Rightarrow> Some h | Some b \<Rightarrow> do { (_, h) \<leftarrow> pbuf_free (Some b) h; Some h })
       = Some (snd (release as h))"
proof (cases p)
  case None
  then show ?thesis using assms(1) by simp
next
  case (Some b)
  then show ?thesis using pbuf_free_loop_eq [OF assms, of 0] by (simp add: pbuf_free_def split: prod.splits)
qed

lemma freeable_cong:
  "pbufs h' x = pbufs h x \<Longrightarrow> mem h' x = mem h x \<Longrightarrow> freeable h' x = freeable h x"
  by (simp add: freeable_def split: option.splits)

lemma chain_cong: "(\<And>x. x \<in> set as \<Longrightarrow> pbufs h' x = pbufs h x) \<Longrightarrow> chain h' p as = chain h p as"
  by (induction as arbitrary: p) (auto split: option.splits)

lemma pbuf_realloc_eq:
  assumes pk: "packet h (Some a) as" and fr: "\<forall>x \<in> set as. freeable h x" and own: "own_payload h as"
    and n: "unat n \<le> length (content h as)"
  shows "\<exists>h' pre post. pbuf_realloc a n h = Some h' \<and> as = pre @ post \<and> packet h' (Some a) pre
           \<and> content h' pre = take (unat n) (content h as)
           \<and> (\<forall>x. x \<notin> set as \<longrightarrow> pbufs h' x = pbufs h x \<and> mem h' x = mem h x)"
proof -
  from pk obtain pb where pb: "pbufs h a = Some pb" and tot: "unat (tot_len pb) = length (content h as)"
    by (rule packet_SomeE)
  show ?thesis
  proof (cases "n \<ge> tot_len pb")
    case True
    then show ?thesis using pb tot n pk
      by (intro exI [of _ h] exI [of _ as] exI [of _ "[]"])
         (simp add: pbuf_realloc_def get_pbuf_def word_le_nat_alt)
  next
    case False
    define s where "s = tot_len pb - n"
    have s: "unat s + unat n = length (content h as)"
      using False tot by (simp add: s_def unat_sub word_le_nat_alt)
    from pbuf_realloc_loop_eq [OF pk n, of s] obtain pre q post where
      as: "as = pre @ q # post" and lo: "length (content h pre) \<le> unat n"
      and hi: "unat n \<le> length (content h (pre @ [q]))"
      and run: "pbuf_realloc_loop a n s h
          = Some (q, of_nat (unat n - length (content h pre)), grow_tot (set pre) (- s) h)" by blast
    define k where "k = unat n - length (content h pre)"
    define h1 where "h1 = grow_tot (set pre) (- s) h"
    have dist: "distinct as" by (rule packet_distinct [OF pk])
    have "packet h (Some q) (q # post)" using pk unfolding as by (rule packet_suffix)
    then obtain qb where qb: "pbufs h q = Some qb" and post: "packet h (pnext qb) post" by (rule packet_ConsE)
    define h2 where "h2 = set_pbuf q (qb\<lparr>plen := of_nat k, tot_len := of_nat k\<rparr>) h1"
    define h3 where "h3 = snd (release post h2)"
    define h4 where "h4 = set_pbuf q (qb\<lparr>plen := of_nat k, tot_len := of_nat k, pnext := None\<rparr>) h3"
    have q1: "pbufs h1 q = Some qb" using dist qb by (simp add: as h1_def)
    have keep2: "pbufs h2 x = pbufs h x" if "x \<in> set post" for x
      using that dist by (auto simp: as h2_def h1_def)
    have m2: "mem h2 = mem h" by (simp add: h2_def h1_def)
    have "chain h2 (pnext qb) post" using packet_chain [OF post] chain_cong [of post h2 h, OF keep2] by simp
    moreover have "\<forall>x \<in> set post. freeable h2 x"
      using fr keep2 m2 by (auto simp: as freeable_cong [of h2 _ h])
    ultimately have free: "(case pnext qb of None \<Rightarrow> Some h2
          | Some b \<Rightarrow> do { (_, h) \<leftarrow> pbuf_free (Some b) h2; Some h }) = Some h3"
      unfolding h3_def by (rule pbuf_free_tail)
    have rel: "release post h2 = (fst (release post h2), h3)" by (simp add: h3_def)
    have dpost: "distinct post" "q \<notin> set post" using dist by (simp_all add: as)
    have own3: "pbufs h3 x = pbufs h2 x" "mem h3 x = mem h x" if "x \<notin> set post" for x
      using release_own [OF rel dpost(1) that] m2 by auto
    have "pbuf_realloc a n h = Some h4"
    proof -
      have "upd_pbuf q (\<lambda>pb. pb\<lparr>plen := of_nat k, tot_len := of_nat k\<rparr>) h1 = Some h2"
        using q1 by (simp add: upd_pbuf_def h2_def set_pbuf_def)
      moreover have "upd_pbuf q (\<lambda>pb. pb\<lparr>pnext := None\<rparr>) h3 = Some h4"
        using own3(1) [OF dpost(2)] by (simp add: upd_pbuf_def h4_def set_pbuf_def h2_def)
      ultimately show ?thesis
        using False pb run q1 free
        by (simp add: pbuf_realloc_def get_pbuf_def mem_trim_def Let_def flip: s_def k_def h1_def)
    qed
    moreover have "packet h4 (Some a) (pre @ [q]) \<and> content h4 (pre @ [q]) = content h pre @ take k (pbytes h q)"
    proof (rule packet_cut [OF pk [unfolded as] qb])
      show "k \<le> length (pbytes h q)" "unat n = length (content h pre) + k" using lo hi by (simp_all add: k_def)
      show "unat s + unat n = length (content h (pre @ q # post))" using s by (simp add: as)
      show "pbufs h4 q = Some (qb\<lparr>plen := of_nat k, tot_len := of_nat k, pnext := None\<rparr>)" by (simp add: h4_def)
      show "pbufs h4 x = Some (xb\<lparr>tot_len := tot_len xb + - s\<rparr>)" if "x \<in> set pre" "pbufs h x = Some xb" for x xb
      proof -
        have "x \<notin> set post" "x \<noteq> q" using that(1) dist by (auto simp: as)
        then show ?thesis using that own3(1) [of x] by (simp add: h4_def h2_def h1_def)
      qed
      show "mem h4 b = mem h b" if "x \<in> set (pre @ [q])" "pblock h x = Some b" for x b
      proof -
        have "b \<notin> set post" using own that dist unfolding own_payload_def as by fastforce
        then show ?thesis by (simp add: h4_def own3(2))
      qed
    qed
    moreover have "content h pre @ take k (pbytes h q) = take (unat n) (content h as)"
      using lo hi by (simp add: as k_def)
    moreover have "pbufs h4 x = pbufs h x \<and> mem h4 x = mem h x" if "x \<notin> set as" for x
      using that own3 [of x] by (auto simp: as h4_def h2_def h1_def)
    ultimately show ?thesis using as
      by (intro exI [of _ h4] exI [of _ "pre @ [q]"] exI [of _ post]) simp
  qed
qed

section \<open>Chaining and unchaining\<close>

text \<open>A packet does not depend on the reference counts and flags of its pbufs.\<close>

definition view :: "pbuf \<Rightarrow> nat option \<times> cptr \<times> u16 \<times> u16" where
  "view pb = (pnext pb, payload pb, tot_len pb, plen pb)"

lemma packet_view:
  assumes "mem h' = mem h"
    and "\<And>x. x \<in> set as \<Longrightarrow> map_option view (pbufs h' x) = map_option view (pbufs h x)"
  shows "packet h' p as = packet h p as \<and> content h' as = content h as"
  using assms(2)
proof (induction as arbitrary: p)
  case (Cons a as)
  have ld: "load h' q n = load h q n" for q n by (rule load_cong) (simp add: assms(1))
  show ?case
  proof (cases "pbufs h a")
    case None
    then have "pbufs h' a = None" using Cons.prems [of a] by simp
    then show ?thesis using None Cons by (simp add: pbytes_def)
  next
    case (Some pb)
    then obtain pb' where "pbufs h' a = Some pb'" "view pb' = view pb" using Cons.prems [of a] by auto
    then show ?thesis using Some Cons ld by (simp add: view_def pbytes_def)
  qed
qed simp

lemma pbuf_chain_dechain_eq:
  assumes pa: "packet h (Some a) [a]" and pt: "packet h (Some t) bs" and na: "a \<notin> set bs"
    and fits: "length (content h [a]) + length (content h bs) < 65536"
    and tb: "pbufs h t = Some tb" and ref: "0 < pref tb" "pref tb < 0xff"
  shows "\<exists>h1. pbuf_chain (Some a) (Some t) h = Some h1 \<and> packet h1 (Some a) (a # bs)
           \<and> content h1 (a # bs) = content h [a] @ content h bs
           \<and> pbuf_dechain a h1 = Some (Some t, h)"
proof -
  obtain pb where pb: "pbufs h a = Some pb" "pnext pb = None" "unat (tot_len pb) = unat (plen pb)"
    and lb: "length (pbytes h a) = unat (plen pb)"
    using pa by (simp add: pbytes_def split: option.splits) (metis load_length)
  then have tl: "tot_len pb = plen pb" by (simp add: word_unat_eq_iff)
  obtain rest where bs: "bs = t # rest" using pt by (cases bs) auto
  have t: "t \<noteq> a" using na bs by auto
  have ut: "unat (tot_len tb) = length (content h bs)" using pt tb unfolding bs by (auto elim!: packet_ConsE simp del: packet.simps content_Cons)
  obtain h' where cat: "pbuf_cat (Some a) (Some t) h = Some h'" "packet h' (Some a) ([a] @ bs)"
      "content h' ([a] @ bs) = content h [a] @ content h bs"
    using pbuf_cat_eq [OF pa pt] na fits by auto
  define pb1 where "pb1 = pb\<lparr>tot_len := tot_len pb + tot_len tb, pnext := Some t\<rparr>"
  have h': "h' = set_pbuf a pb1 h"
    using cat(1) pb t tb by (auto simp: pbuf_cat_def pbuf_cat_loop.simps get_pbuf_def upd_pbuf_def tl set_pbuf_def pb1_def)
  define tb1 where "tb1 = tb\<lparr>pref := pref tb + 1\<rparr>"
  define h1 where "h1 = set_pbuf t tb1 h'"
  have "pref tb + 1 \<noteq> 0"
  proof
    assume "pref tb + 1 = 0"
    then have "pref tb = - 1" by (simp add: eq_neg_iff_add_eq_0)
    then show False using ref(2) by simp
  qed
  then have run: "pbuf_chain (Some a) (Some t) h = Some h1"
    using cat(1) tb t by (simp add: pbuf_chain_def pbuf_ref_def upd_pbuf_def get_pbuf_def h1_def h' set_pbuf_def tb1_def word_neq_0_conv)
  have "map_option view (pbufs h1 x) = map_option view (pbufs h' x)" for x
    using tb t by (simp add: h1_def h' view_def tb1_def)
  moreover have "mem h1 = mem h'" by (simp add: h1_def)
  ultimately have pk1: "packet h1 (Some a) (a # bs)" "content h1 (a # bs) = content h [a] @ content h bs"
    using packet_view [of h1 h' "[a] @ bs" "Some a"] cat(2,3) by (simp_all del: packet.simps content_Cons)
  have "unat (tot_len pb + tot_len tb) = unat (plen pb) + unat (tot_len tb)"
    using fits ut pb(3) lb by (simp add: unat_word_ariths)
  then have "uint (tot_len tb) = uint (tot_len pb + tot_len tb) - uint (plen pb)"
    unfolding uint_nat by simp
  moreover have "h\<lparr>pbufs := (pbufs h)(a \<mapsto> pb\<lparr>pnext := None, tot_len := plen pb\<rparr>, t \<mapsto> tb)\<rparr> = h"
  proof -
    have "pb\<lparr>pnext := None, tot_len := plen pb\<rparr> = pb" using pb tl by simp
    then show ?thesis using pb tb by (simp only:) (simp add: map_upd_triv fun_upd_twist [OF t [symmetric]])
  qed
  moreover have "pref tb \<noteq> 0" using ref(1) by auto
  ultimately have "pbuf_dechain a h1 = Some (Some t, h)"
    using pb tb t tl ref \<open>pref tb + 1 \<noteq> 0\<close> word_neq_0_conv [of "pref tb + 1"]
    by (simp add: pbuf_dechain_def get_pbuf_def upd_pbuf_def h1_def h' set_pbuf_def pb1_def tb1_def
        pbuf_free_def pbuf_free_loop.simps Let_def fun_upd_twist [OF t])
  with run pk1 show ?thesis by blast
qed

end
