(* ===== verification/Pbuf_Alloc.thy ===== *)
theory Pbuf_Alloc
  imports Pbuf_Struct
begin

text \<open>
  \<^verbatim>\<open>pbuf_alloc\<close> for pbufs that carry their data: the result is a well-formed packet of
  fresh pbufs of the requested length, or NULL with every pbuf already taken given back.
\<close>

unbundle bit_operations_syntax

section \<open>Packets under construction\<close>

text \<open>\<open>r\<close> bytes are still to come behind the last pbuf.\<close>

fun pre_packet :: "pheap \<Rightarrow> nat option \<Rightarrow> nat list \<Rightarrow> nat \<Rightarrow> bool" where
  "pre_packet h p [] r \<longleftrightarrow> p = None"
| "pre_packet h p (a # as) r \<longleftrightarrow>
     p = Some a \<and>
     (case pbufs h a of None \<Rightarrow> False
      | Some pb \<Rightarrow> load h (payload pb) (unat (plen pb)) \<noteq> None
                 \<and> unat (tot_len pb) = length (content h (a # as)) + r
                 \<and> pre_packet h (pnext pb) as r)"

lemma pre_packet_0: "pre_packet h p as 0 = packet h p as"
  by (induction as arbitrary: p) (auto split: option.splits)

lemma pre_packet_chain: "pre_packet h p as r \<Longrightarrow> chain h p as"
  by (induction as arbitrary: p) (auto split: option.splits)

lemma pre_packet_extend:
  assumes "pre_packet h p as r" and "as \<noteq> []" and "q \<notin> set as"
    and "pbufs h' q = Some qb" and "pnext qb = None" and "load h' (payload qb) (unat (plen qb)) \<noteq> None"
    and "unat (tot_len qb) = r" and "unat (plen qb) \<le> r"
    and "\<And>x. x \<in> set as \<Longrightarrow> pbufs h' x = map_option (\<lambda>pb. if x = last as then pb\<lparr>pnext := Some q\<rparr> else pb) (pbufs h x)"
    and "\<And>x b. x \<in> set as \<Longrightarrow> pblock h x = Some b \<Longrightarrow> mem h' b = mem h b"
  shows "pre_packet h' p (as @ [q]) (r - unat (plen qb)) \<and> content h' as = content h as"
  using assms
proof (induction as arbitrary: p)
  case (Cons a as)
  then obtain pb where p: "p = Some a" and pb: "pbufs h a = Some pb"
    and ld: "load h (payload pb) (unat (plen pb)) \<noteq> None"
    and tot: "unat (tot_len pb) = length (content h (a # as)) + r"
    and rest: "pre_packet h (pnext pb) as r" by (auto split: option.splits)
  have lq: "length (pbytes h' q) = unat (plen qb)"
    using Cons.prems(4,6) by (auto simp: pbytes_def dest: load_length)
  have ld': "load h' (payload pb) n = load h (payload pb) n" for n
    using Cons.prems(10) [of a] pb by (intro load_cong) (simp add: pblock_def)
  have bytes: "pbytes h' a = pbytes h a"
    using Cons.prems(9) [of a] pb ld' by (simp add: pbytes_def)
  show ?case
  proof (cases "as = []")
    case True
    then show ?thesis
      using p pb ld tot rest bytes lq ld' Cons.prems(4-9) by (simp split: option.splits)
  next
    case False
    have "a \<notin> set as" using chain_distinct [OF pre_packet_chain [OF Cons.prems(1)]] by simp
    then have "a \<noteq> last as" using False last_in_set by blast
    then have pb': "pbufs h' a = Some pb" using Cons.prems(9) [of a] pb False by simp
    have "pre_packet h' (pnext pb) (as @ [q]) (r - unat (plen qb)) \<and> content h' as = content h as"
      using Cons.prems(3,9,10) False by (intro Cons.IH [OF rest False _ Cons.prems(4-8)]) auto
    then show ?thesis using p pb' ld tot bytes lq ld' Cons.prems(8) by simp
  qed
qed simp

section \<open>Fresh pbufs\<close>

definition heap_ok :: "pheap \<Rightarrow> bool" where
  "heap_ok h \<longleftrightarrow> (\<forall>a. fresh h \<le> a \<longrightarrow> pbufs h a = None \<and> mem h a = None)"

definition new_pbuf :: "u16 \<Rightarrow> u16 \<Rightarrow> u16 \<Rightarrow> pbuf_type \<Rightarrow> nat \<Rightarrow> pbuf" where
  "new_pbuf off tot len ty a =
     \<lparr>pnext = None, payload = Some (a, uint off), tot_len = tot, plen = len,
      type_internal = ucast (pbuf_type_code ty), pflags = 0, pref = 1, if_idx = 0,
      custom_free_function = No_Custom_Fn\<rparr>"

lemma mem_malloc_cases:
  obtains (fail) ms where "mem_malloc n h = (None, h\<lparr>mallocs := ms\<rparr>)"
  | (succ) ms where "mem_malloc n h = (Some (fresh h),
      h\<lparr>mem := (mem h)(fresh h \<mapsto> map (garbage h (fresh h)) [0..<n]), fresh := Suc (fresh h), mallocs := ms\<rparr>)"
proof (cases "mallocs h")
  case (Cons b ms)
  then show ?thesis using fail succ by (cases b) (auto simp: mem_malloc_def)
qed (auto simp: mem_malloc_def intro: succ)

lemma type_codes: "ucast (pbuf_type_code PBUF_POOL) = (0x82 :: u8)" "ucast (pbuf_type_code PBUF_RAM) = (0x80 :: u8)"
  by simp_all

text \<open>A pbuf with one reference whose payload lies in its own allocation.\<close>

definition own_pbuf :: "pheap \<Rightarrow> nat \<Rightarrow> bool" where
  "own_pbuf h x \<longleftrightarrow> freeable h x \<and> map_option pref (pbufs h x) = Some 1 \<and> pblock h x = Some x"

definition grown :: "pheap \<Rightarrow> pheap \<Rightarrow> nat list \<Rightarrow> bool" where
  "grown h0 h as \<longleftrightarrow> fresh h0 \<le> fresh h \<and> set as = {fresh h0..<fresh h} \<and> heap_ok h
     \<and> (\<forall>x \<in> set as. own_pbuf h x)
     \<and> (\<forall>x < fresh h0. pbufs h x = pbufs h0 x \<and> mem h x = mem h0 x)"

lemma grown_refl: "heap_ok h \<Longrightarrow> grown h h []"
  by (simp add: grown_def)

text \<open>The memory after a successful allocation of a pbuf with \<open>n\<close> bytes behind it.\<close>

definition alloced :: "pheap \<Rightarrow> nat \<Rightarrow> pbuf \<Rightarrow> bool list \<Rightarrow> pheap" where
  "alloced h n pb ms = h\<lparr>mem := (mem h)(fresh h \<mapsto> map (garbage h (fresh h)) [0..<n]),
     fresh := Suc (fresh h), mallocs := ms, pbufs := (pbufs h)(fresh h \<mapsto> pb)\<rparr>"

lemma alloced_simps [simp]:
  "fresh (alloced h n pb ms) = Suc (fresh h)"
  "mem (alloced h n pb ms) = (mem h)(fresh h \<mapsto> map (garbage h (fresh h)) [0..<n])"
  "pbufs (alloced h n pb ms) = (pbufs h)(fresh h \<mapsto> pb)"
  by (simp_all add: alloced_def)

lemma alloced_block: "\<exists>m. mem (alloced h n pb ms) (fresh h) = Some m \<and> length m = n"
  by simp

lemma own_pbuf_cong:
  "map_option (\<lambda>pb. (payload pb, pref pb, pflags pb, type_internal pb)) (pbufs h' x)
     = map_option (\<lambda>pb. (payload pb, pref pb, pflags pb, type_internal pb)) (pbufs h x) \<Longrightarrow>
   mem h' x = mem h x \<Longrightarrow> own_pbuf h' x = own_pbuf h x"
  by (cases "pbufs h x"; cases "pbufs h' x") (simp_all add: own_pbuf_def freeable_def pblock_def pbuf_get_allocsrc_def)

lemma own_pbuf_new:
  assumes "pbufs h a = Some pb" and "payload pb = Some (a, off)" and "pref pb = 1" and "pflags pb = 0"
    and "type_internal pb = ucast (pbuf_type_code ty)" and "ty = PBUF_POOL \<or> ty = PBUF_RAM" and "mem h a \<noteq> None"
  shows "own_pbuf h a"
  using assms by (auto simp: own_pbuf_def freeable_def pblock_def pbuf_get_allocsrc_def)

lemma load_fresh:
  "unat off + unat len \<le> n \<Longrightarrow> mem h a = Some m \<Longrightarrow> length m = n \<Longrightarrow> load h (Some (a, uint off)) (unat len) \<noteq> None"
  by (simp add: in_block_def)

lemma release_all:
  "distinct as \<Longrightarrow> \<forall>x \<in> set as. map_option pref (pbufs h x) = Some 1 \<Longrightarrow> fst (release as h) = length as"
proof (induction as arbitrary: h)
  case (Cons a as)
  then have "fst (release as (forget a h)) = length as" by (intro Cons.IH) auto
  then show ?case using Cons.prems by (auto simp: Let_def split: prod.splits)
qed simp

lemma grown_release:
  assumes g: "grown h0 h as" and h0: "heap_ok h0" and dist: "distinct as" and ch: "chain h p as"
  shows "\<exists>n h'. pbuf_free_loop p 0 h = Some (n, h') \<and> pbufs h' = pbufs h0 \<and> mem h' = mem h0"
proof -
  obtain n h' where rel: "release as h = (n, h')" by fastforce
  have own: "\<forall>x \<in> set as. own_pbuf h x" using g by (simp add: grown_def)
  then have n: "n = length as" using release_all [OF dist, of h] rel by (simp add: own_pbuf_def)
  have gone: "pbufs h' x = None \<and> mem h' x = None" if "x \<in> set as" for x
    using release_frame [OF rel dist] that by (simp add: n)
  have "pbufs h' x = pbufs h0 x \<and> mem h' x = mem h0 x" for x
  proof (cases "x \<in> set as")
    case True
    then show ?thesis using gone [OF True] g h0 by (simp add: grown_def heap_ok_def)
  next
    case False
    then have "x < fresh h0 \<or> fresh h \<le> x" using g by (auto simp: grown_def)
    then show ?thesis using release_own [OF rel dist False] g h0 by (auto simp: grown_def heap_ok_def)
  qed
  moreover have "pbuf_free_loop p 0 h = Some (of_nat n, h')"
    using pbuf_free_loop_eq [OF ch] own rel by (simp add: own_pbuf_def)
  ultimately show ?thesis by (auto simp: fun_eq_iff)
qed

section \<open>The pool loop\<close>

text \<open>One round of the loop: the new pbuf is linked behind the last one.\<close>

lemma pool_round:
  fixes ms :: "bool list"
  assumes g: "grown h0 h as" and pp: "as \<noteq> [] \<Longrightarrow> pre_packet h (Some (hd as)) as (unat rem)"
    and dist: "distinct as" and len: "len \<le> rem" and fits: "unat off + unat len \<le> PBUF_POOL_BUFSIZE"
  defines "q \<equiv> fresh h"
  defines "h1 \<equiv> alloced h PBUF_POOL_BUFSIZE (new_pbuf off rem len PBUF_POOL q) ms"
  defines "h2 \<equiv> if as = [] then h1 else set_pbuf (last as) ((the (pbufs h (last as)))\<lparr>pnext := Some q\<rparr>) h1"
  shows "grown h0 h2 (as @ [q]) \<and> distinct (as @ [q])
       \<and> pre_packet h2 (Some (hd (as @ [q]))) (as @ [q]) (unat (rem - len))
       \<and> length (content h2 (as @ [q])) = length (content h as) + unat len
       \<and> (as \<noteq> [] \<longrightarrow> upd_pbuf (last as) (\<lambda>pb. pb\<lparr>pnext := Some q\<rparr>) h1 = Some h2)"
proof -
  have asset: "x < q" if "x \<in> set as" for x using g that by (auto simp: grown_def q_def)
  then have qn: "q \<notin> set as" by blast
  have le: "unat len \<le> unat rem" "unat (rem - len) = unat rem - unat len"
    using len by (simp_all add: word_le_nat_alt unat_sub)
  have q2: "pbufs h2 q = Some (new_pbuf off rem len PBUF_POOL q)" "mem h2 = mem h1"
    using asset [of "last as"] by (auto simp: h2_def h1_def q_def)
  have ldq: "load h2 (Some (q, uint off)) (unat len) \<noteq> None"
    using load_fresh [OF fits] alloced_block [of h PBUF_POOL_BUFSIZE "new_pbuf off rem len PBUF_POOL q" ms] q2(2)
    unfolding h1_def q_def by metis
  have lq: "length (pbytes h2 q) = unat len"
  proof -
    obtain bs where "load h2 (Some (q, uint off)) (unat len) = Some bs" using ldq by blast
    then show ?thesis using q2 load_length by (simp add: pbytes_def new_pbuf_def del: load.simps)
  qed
  have m2: "mem h2 b = mem h b" if "b \<noteq> q" for b using that by (simp add: q2 h1_def q_def)
  have other: "pbufs h2 x = map_option (\<lambda>pb. if x = last as then pb\<lparr>pnext := Some q\<rparr> else pb) (pbufs h x)"
    if "x \<in> set as" for x
  proof -
    have "own_pbuf h x" using g that by (simp add: grown_def)
    then obtain pb where "pbufs h x = Some pb" by (auto simp: own_pbuf_def)
    then show ?thesis using that asset [OF that] by (auto simp: h2_def h1_def q_def)
  qed
  have own: "own_pbuf h2 x" if "x \<in> set as" for x
  proof -
    have "own_pbuf h x" using g that by (simp add: grown_def)
    then show ?thesis
      using own_pbuf_cong [of h2 x h] other [OF that] m2 [of x] asset [OF that]
      by (simp add: option.map_comp comp_def if_distrib cong: if_cong)
  qed
  have ownq: "own_pbuf h2 q"
    by (rule own_pbuf_new [where ty = PBUF_POOL and off = "uint off", OF q2(1)])
       (simp_all add: new_pbuf_def q2 h1_def q_def)
  have keep: "pbufs h2 x = pbufs h x" if "x \<notin> set as" "x \<noteq> q" for x
    using that by (auto simp: h2_def h1_def q_def)
  have fr: "fresh h2 = Suc (fresh h)" by (simp add: h2_def h1_def set_pbuf_def)
  have "set (as @ [q]) = {fresh h0..<Suc (fresh h)}" "fresh h0 \<le> fresh h"
    using g by (auto simp: grown_def q_def)
  moreover have "heap_ok h2"
    using g keep m2 fr by (auto simp: grown_def heap_ok_def q_def)
  moreover have "pbufs h2 x = pbufs h0 x \<and> mem h2 x = mem h0 x" if "x < fresh h0" for x
    using g that keep [of x] m2 [of x] by (auto simp: grown_def q_def)
  moreover have "\<forall>x \<in> set (as @ [q]). own_pbuf h2 x" using own ownq by auto
  ultimately have g2: "grown h0 h2 (as @ [q])" unfolding grown_def fr by simp
  have blk: "mem h2 b = mem h b" if "x \<in> set as" "pblock h x = Some b" for x b
  proof -
    have "pblock h x = Some x" using g that(1) by (simp add: grown_def own_pbuf_def)
    then show ?thesis using that asset [OF that(1)] m2 by simp
  qed
  have pk: "pre_packet h2 (Some (hd (as @ [q]))) (as @ [q]) (unat (rem - len))
      \<and> length (content h2 (as @ [q])) = length (content h as) + unat len"
  proof (cases "as = []")
    case True
    then show ?thesis using q2(1) ldq lq le by (simp add: new_pbuf_def)
  next
    case False
    have "pre_packet h2 (Some (hd as)) (as @ [q]) (unat rem - unat len) \<and> content h2 as = content h as"
      using pre_packet_extend [OF pp [OF False] False qn q2(1) _ _ _ _ other blk] ldq le
      by (simp add: new_pbuf_def)
    then show ?thesis using False lq le by simp
  qed
  moreover have "as \<noteq> [] \<longrightarrow> upd_pbuf (last as) (\<lambda>pb. pb\<lparr>pnext := Some q\<rparr>) h1 = Some h2"
  proof
    assume ne: "as \<noteq> []"
    have "own_pbuf h (last as)" using g last_in_set [OF ne] unfolding grown_def by blast
    then obtain pb where "pbufs h (last as) = Some pb" by (auto simp: own_pbuf_def)
    then show "upd_pbuf (last as) (\<lambda>pb. pb\<lparr>pnext := Some q\<rparr>) h1 = Some h2"
      using ne asset [of "last as"] by (simp add: upd_pbuf_def h2_def h1_def q_def set_pbuf_def)
  qed
  ultimately show ?thesis using g2 qn dist by simp
qed

lemma pbuf_alloc_pool_eq:
  assumes "grown h0 h as" and "heap_ok h0" and "distinct as"
    and "as \<noteq> [] \<Longrightarrow> pre_packet h (Some (hd as)) as (unat rem)"
    and "as \<noteq> [] \<Longrightarrow> off = 0" and "unat off \<le> 74"
  defines "p \<equiv> if as = [] then None else Some (hd as)" and "l \<equiv> if as = [] then None else Some (last as)"
  shows "\<exists>r h'. pbuf_alloc_pool p l rem off h = Some (r, h') \<and>
      (case r of
         None \<Rightarrow> pbufs h' = pbufs h0 \<and> mem h' = mem h0
       | Some a \<Rightarrow> \<exists>bs. packet h' (Some a) bs \<and> grown h0 h' bs
                    \<and> length (content h' bs) = length (content h as) + unat rem)"
  using assms(1,3-6) unfolding p_def l_def
proof (induction "unat rem" arbitrary: h as rem off rule: less_induct)
  case less
  let ?p = "if as = [] then None else Some (hd as)" and ?l = "if as = [] then None else Some (last as)"
  show ?case
  proof (cases rule: mem_malloc_cases [where n = PBUF_POOL_BUFSIZE and h = h])
    case (fail ms)
    define h1 where "h1 = h\<lparr>mallocs := ms, free_ooseq_pending := True\<rparr>"
    have g1: "grown h0 h1 as"
    proof -
      have "own_pbuf h1 x = own_pbuf h x" for x by (rule own_pbuf_cong) (simp_all add: h1_def)
      then show ?thesis using less.prems(1) by (simp add: grown_def heap_ok_def h1_def)
    qed
    show ?thesis
    proof (cases "as = []")
      case True
      have "pbufs h = pbufs h0 \<and> mem h = mem h0"
        using less.prems(1) True assms(2) unfolding grown_def heap_ok_def fun_eq_iff
        by (metis atLeastLessThan_empty_iff2 le_less_linear le_trans list.set(1) nle_le)
      then show ?thesis using fail True
        by (subst pbuf_alloc_pool.simps) (simp add: alloc_defs pbuf_pool_is_empty_def h1_def)
    next
      case False
      have "chain h (Some (hd as)) as" using less.prems(3) False by (blast intro: pre_packet_chain)
      then have "chain h1 (Some (hd as)) as" using chain_cong [of as h1 h] by (simp add: h1_def)
      from grown_release [OF g1 assms(2) less.prems(2) this] show ?thesis
        using fail False
        by (subst pbuf_alloc_pool.simps) (auto simp: alloc_defs pbuf_pool_is_empty_def h1_def pbuf_free_def)
    qed
  next
    case (succ ms)
    define len where "len = min rem (1514 - off)"
    have uo: "unat (1514 - off) = 1514 - unat off"
      using less.prems(5) by (simp add: unat_sub word_le_nat_alt)
    have len: "len \<le> rem" "unat off + unat len \<le> PBUF_POOL_BUFSIZE" "rem \<noteq> 0 \<Longrightarrow> unat len > 0"
      using less.prems(5) uo
      by (auto simp: len_def min_def word_le_nat_alt unat_gt_0)
    define h1 where "h1 = alloced h PBUF_POOL_BUFSIZE (new_pbuf off rem len PBUF_POOL (fresh h)) ms"
    define h2 where "h2 = (if as = [] then h1 else set_pbuf (last as) ((the (pbufs h (last as)))\<lparr>pnext := Some (fresh h)\<rparr>) h1)"
    define as2 where "as2 = as @ [fresh h]"
    have rd: "grown h0 h2 as2" "distinct as2" "pre_packet h2 (Some (hd as2)) as2 (unat (rem - len))"
      "length (content h2 as2) = length (content h as) + unat len"
      "as \<noteq> [] \<Longrightarrow> upd_pbuf (last as) (\<lambda>pb. pb\<lparr>pnext := Some (fresh h)\<rparr>) h1 = Some h2"
      using pool_round [OF less.prems(1,3,2) len(1,2), of ms] by (auto simp: h2_def h1_def as2_def)
    have run: "pbuf_alloc_pool ?p ?l rem off h =
        (if rem - len > 0 then pbuf_alloc_pool (Some (hd as2)) (Some (last as2)) (rem - len) 0 h2
         else Some (Some (hd as2), h2))"
    proof -
      define h1' where "h1' = h\<lparr>mem := (mem h)(fresh h \<mapsto> map (garbage h (fresh h)) [0..<PBUF_POOL_BUFSIZE]),
        fresh := Suc (fresh h), mallocs := ms\<rparr>"
      have init: "pbuf_init_alloced_pbuf (fresh h) (Some (fresh h, uint off)) rem len PBUF_POOL 0 No_Custom_Fn h1' = h1"
        by (simp add: pbuf_init_alloced_pbuf_def h1'_def h1_def alloced_def new_pbuf_def)
      have al: "memp_malloc MEMP_PBUF_POOL h = (Some (fresh h), h1')"
        using succ by (simp add: alloc_defs h1'_def)
      have off: "uint off < 1514" using less.prems(5) unfolding uint_nat by linarith
      show ?thesis
        using init off rd(5)
        by (subst pbuf_alloc_pool.simps)
           (auto simp: al Let_def as2_def h2_def simp flip: len_def)
    qed
    show ?thesis
    proof (cases "rem - len > 0")
      case False
      then have "unat (rem - len) = 0" "unat rem = unat len"
        using len(1) by (auto simp: word_le_nat_alt word_less_nat_alt unat_sub)
      then show ?thesis using run False rd by (auto simp: pre_packet_0 intro!: exI [of _ as2])
    next
      case True
      have "rem \<noteq> 0" using True len(1) by auto
      then have dec: "unat (rem - len) < unat rem" and sub: "unat (rem - len) = unat rem - unat len"
        using len by (simp_all add: unat_sub word_le_nat_alt)
      have ne: "as2 \<noteq> []" by (simp add: as2_def)
      have "\<exists>r h'. pbuf_alloc_pool (Some (hd as2)) (Some (last as2)) (rem - len) 0 h2 = Some (r, h') \<and>
        (case r of None \<Rightarrow> pbufs h' = pbufs h0 \<and> mem h' = mem h0
         | Some a \<Rightarrow> \<exists>bs. packet h' (Some a) bs \<and> grown h0 h' bs
                      \<and> length (content h' bs) = length (content h2 as2) + unat (rem - len))"
        using less.hyps [OF dec rd(1,2,3), of 0] ne by simp
      moreover have "length (content h2 as2) + unat (rem - len) = length (content h as) + unat rem"
        using rd(4) sub len(1) by (simp add: word_le_nat_alt)
      ultimately show ?thesis unfolding run using True by (simp only: if_True)
    qed
  qed
qed

section \<open>Allocation\<close>

lemma layer_offset_le: "unat (layer_offset l) \<le> 74"
  by (cases l) simp_all

text \<open>
  What \<^verbatim>\<open>pbuf_alloc\<close> gives for \<^verbatim>\<open>PBUF_RAM\<close> and \<^verbatim>\<open>PBUF_POOL\<close>.
\<close>

lemma pbuf_alloc_eq:
  assumes ok: "heap_ok h" and ty: "ty = PBUF_RAM \<or> ty = PBUF_POOL"
  shows "\<exists>r h'. pbuf_alloc l len ty h = Some (r, h') \<and>
      (case r of
         None \<Rightarrow> pbufs h' = pbufs h \<and> mem h' = mem h
       | Some a \<Rightarrow> \<exists>bs. packet h' (Some a) bs \<and> grown h h' bs \<and> length (content h' bs) = unat len)"
  using ty
proof
  assume ty: "ty = PBUF_POOL"
  show ?thesis
    using pbuf_alloc_pool_eq [OF grown_refl [OF ok] ok, of len "layer_offset l"] layer_offset_le [of l]
    by (simp add: pbuf_alloc_def ty cong: option.case_cong)
next
  assume ty: "ty = PBUF_RAM"
  define off where "off = layer_offset l"
  show ?thesis
  proof (cases "off + len < len")
    case True
    then show ?thesis by (simp add: pbuf_alloc_def ty off_def Let_def)
  next
    case False
    then have un: "unat (off + len) = unat off + unat len"
      using unat_plus_simple [of len off] by (simp add: add.commute not_less)
    show ?thesis
    proof (cases rule: mem_malloc_cases [where n = "unat (off + len)" and h = h])
      case (fail ms)
      then show ?thesis using False un by (simp add: pbuf_alloc_def ty Let_def flip: off_def)
    next
      case (succ ms)
      define a where "a = fresh h"
      define pb where "pb = new_pbuf off len len PBUF_RAM a"
      define h1 where "h1 = alloced h (unat (off + len)) pb ms"
      have run: "pbuf_alloc l len ty h = Some (Some a, h1)"
        using succ False un
        by (simp add: pbuf_alloc_def ty Let_def h1_def alloced_def pb_def new_pbuf_def a_def
            pbuf_init_alloced_pbuf_def flip: off_def)
      have pb: "pbufs h1 a = Some pb" by (simp add: h1_def a_def)
      have "load h1 (Some (a, uint off)) (unat len) \<noteq> None"
        using load_fresh [of off len "unat (off + len)"] alloced_block [of h "unat (off + len)" pb ms] un
        unfolding h1_def a_def by auto
      then obtain bs where ld: "load h1 (Some (a, uint off)) (unat len) = Some bs" by blast
      have pk: "packet h1 (Some a) [a]" "length (content h1 [a]) = unat len"
        using pb ld load_length [OF ld] by (simp_all add: pb_def new_pbuf_def pbytes_def del: load.simps)
      have "own_pbuf h1 a"
        by (rule own_pbuf_new [where ty = PBUF_RAM and off = "uint off", OF pb])
           (simp_all add: pb_def new_pbuf_def h1_def a_def)
      then have "grown h h1 [a]"
        using ok by (auto simp: grown_def heap_ok_def h1_def a_def)
      with pk have "\<exists>bs. packet h1 (Some a) bs \<and> grown h h1 bs \<and> length (content h1 bs) = unat len" by blast
      with run show ?thesis by simp
    qed
  qed
qed

end
