(* ===== verification/Pbuf_Theorems.thy ===== *)
theory Pbuf_Theorems
  imports Pbuf_Search Pbuf_Write Pbuf_Alloc
begin

text \<open>
  What the packet buffers promise to the protocol layers: searching, comparing, reading and
  writing at an offset of a packet do not depend on how the packet is cut into pbufs. Each
  theorem is applied to a small heap with a packet of two pbufs.
\<close>

section \<open>A packet of two pbufs\<close>

text \<open>
  Pbuf 0 has room for a header of two bytes in front of the bytes 1, 2, 3; pbuf 1 holds
  2, 3, 9, 4. Block 2 is an application buffer.
\<close>

definition sample_heap :: pheap where
  "sample_heap = \<lparr>
     pbufs = [0 \<mapsto> \<lparr>pnext = Some 1, payload = Some (0, 2), tot_len = 7, plen = 3, type_internal = 0x80,
                      pflags = 0, pref = 1, if_idx = 0, custom_free_function = No_Custom_Fn\<rparr>,
              1 \<mapsto> \<lparr>pnext = None, payload = Some (1, 0), tot_len = 4, plen = 4, type_internal = 0x80,
                      pflags = 0, pref = 1, if_idx = 0, custom_free_function = No_Custom_Fn\<rparr>],
     mem = [0 \<mapsto> [0, 0, 1, 2, 3], 1 \<mapsto> [2, 3, 9, 4], 2 \<mapsto> [3, 2, 3, 7]],
     base = (\<lambda>b. 64 * b), garbage = (\<lambda>_ _. 0xcc), fresh = 3, mallocs = [], free_ooseq_pending = False\<rparr>"

lemma sample_packet: "packet sample_heap (Some 0) [0, 1]"
  by (simp add: sample_heap_def content_def pbytes_def in_block_def)

lemma sample_content: "content sample_heap [0, 1] = [1, 2, 3, 2, 3, 9, 4]"
  by (simp add: sample_heap_def content_def pbytes_def in_block_def)

lemma sample_separate: "separate sample_heap [0, 1]" "blocks sample_heap [0, 1] = {Some 0, Some 1}"
  by (simp_all add: separate_def blocks_def pblock_def sample_heap_def)

lemma sample_buffer: "load sample_heap (Some (2, 0)) (unat (3 :: u16)) = Some [3, 2, 3]"
  by (simp add: sample_heap_def in_block_def)

lemma sample_freeable: "\<forall>x \<in> set [0, 1]. freeable sample_heap x" "own_payload sample_heap [0, 1]"
  by (auto simp: sample_heap_def freeable_def own_payload_def pblock_def pbuf_get_allocsrc_def)

lemma sample_ok: "heap_ok sample_heap"
  by (simp add: heap_ok_def sample_heap_def)

text \<open>The same two pbufs as two separate packets.\<close>

definition split_heap :: pheap where
  "split_heap = set_pbuf 0 ((the (pbufs sample_heap 0))\<lparr>pnext := None, tot_len := 3\<rparr>) sample_heap"

lemma split_packets: "packet split_heap (Some 0) [0]" "packet split_heap (Some 1) [1]"
  by (simp_all add: split_heap_def sample_heap_def pbytes_def in_block_def)

lemma split_contents: "content split_heap [0] = [1, 2, 3]" "content split_heap [1] = [2, 3, 9, 4]"
  by (simp_all add: split_heap_def sample_heap_def pbytes_def in_block_def)

lemmas sample = sample_packet sample_content sample_separate sample_buffer

section \<open>Searching\<close>

lemma nat_cases5: "((n :: nat) = 0 \<Longrightarrow> Q) \<Longrightarrow> (n = 1 \<Longrightarrow> Q) \<Longrightarrow> (n = 2 \<Longrightarrow> Q) \<Longrightarrow> (n = 3 \<Longrightarrow> Q) \<Longrightarrow> (n = 4 \<Longrightarrow> Q)
    \<Longrightarrow> (5 \<le> n \<Longrightarrow> Q) \<Longrightarrow> (Q :: bool)"
proof -
  have "n = 0 \<or> n = 1 \<or> n = 2 \<or> n = 3 \<or> n = 4 \<or> 5 \<le> n" by arith
  then show "((n :: nat) = 0 \<Longrightarrow> Q) \<Longrightarrow> (n = 1 \<Longrightarrow> Q) \<Longrightarrow> (n = 2 \<Longrightarrow> Q) \<Longrightarrow> (n = 3 \<Longrightarrow> Q) \<Longrightarrow> (n = 4 \<Longrightarrow> Q)
    \<Longrightarrow> (5 \<le> n \<Longrightarrow> Q) \<Longrightarrow> Q" by blast
qed

lemma find_upt_Some:
  assumes "find P [a..<b] = Some j"
  shows "a \<le> j \<and> j < b \<and> P j \<and> (\<forall>k. a \<le> k \<and> k < j \<longrightarrow> \<not> P k)"
proof -
  from assms obtain i where i: "i < b - a" "P (a + i)" "j = a + i" and no: "\<forall>k<i. \<not> P ([a..<b] ! k)"
    unfolding find_Some_iff by auto
  have "\<not> P k" if "a \<le> k" "k < j" for k
    using no [rule_format, of "k - a"] that i by simp
  then show ?thesis using i by simp
qed

lemma find_upt_None: "find P [a..<b] = None \<longleftrightarrow> (\<forall>k. a \<le> k \<and> k < b \<longrightarrow> \<not> P k)"
  by (auto simp: find_None_iff)

text \<open>
  C28. \<^verbatim>\<open>pbuf_memfind\<close> returns the first offset from \<open>start\<close> on at which the bytes
  occur in the packet, or \<open>0xFFFF\<close> when they occur nowhere; it always returns.
\<close>

theorem pbuf_memfind_first:
  assumes "packet h (Some p) as" and "load h m (unat mem_len) = Some pat"
  shows "\<exists>r. pbuf_memfind p m mem_len start h = Some r \<and>
           (if \<exists>j \<ge> unat start. occurs_at (content h as) pat j
            then unat r = (LEAST j. unat start \<le> j \<and> occurs_at (content h as) pat j)
            else r = 0xFFFF)"
proof (cases "find (occurs_at (content h as) pat) [unat start..<Suc (length (content h as) - length pat)]")
  case None
  then have "\<not> (\<exists>j \<ge> unat start. occurs_at (content h as) pat j)"
    unfolding find_upt_None by (auto simp: occurs_at_def)
  then show ?thesis unfolding pbuf_memfind_eq [OF assms] None by auto
next
  case (Some j)
  then have "unat start \<le> j" "j < 65536" "occurs_at (content h as) pat j"
    and least: "\<forall>k. unat start \<le> k \<and> k < j \<longrightarrow> \<not> occurs_at (content h as) pat k"
    using find_upt_Some [OF Some] packet_length [OF assms(1)] by auto
  moreover have "(LEAST j. unat start \<le> j \<and> occurs_at (content h as) pat j) = j"
    using calculation by (intro Least_equality) (auto simp: not_less [symmetric])
  ultimately show ?thesis using Some by (auto simp: pbuf_memfind_eq [OF assms] unat_of_nat_u16)
qed

theorem pbuf_memfind_first_witness: "pbuf_memfind 0 (Some (2, 0)) 3 0 sample_heap = Some 2"
proof -
  have occ: "occurs_at (content sample_heap [0, 1]) [3, 2, 3] j \<longleftrightarrow> j = 2" for j
    unfolding sample_content by (cases j rule: nat_cases5) (simp_all add: occurs_at_def)
  then have "(LEAST j. unat (0 :: u16) \<le> j \<and> occurs_at (content sample_heap [0, 1]) [3, 2, 3] j) = 2"
    by (intro Least_equality) auto
  then obtain r where "pbuf_memfind 0 (Some (2, 0)) 3 0 sample_heap = Some r" "unat r = 2"
    using pbuf_memfind_first [OF sample_packet sample_buffer, of 0] occ by auto
  then show ?thesis by (simp add: word_unat_eq_iff)
qed

section \<open>Comparing\<close>

lemma mismatch_first:
  "length xs = length ys \<Longrightarrow> mismatch xs ys \<noteq> 0 \<Longrightarrow>
   xs ! (mismatch xs ys - 1) \<noteq> ys ! (mismatch xs ys - 1)
   \<and> take (mismatch xs ys - 1) xs = take (mismatch xs ys - 1) ys"
proof (induction xs ys rule: list_induct2)
  case (Cons x xs y ys)
  then show ?case by (cases "mismatch xs ys") (auto split: if_splits)
qed simp

text \<open>
  C29. \<^verbatim>\<open>pbuf_memcmp\<close> compares a range of the packet with a buffer: it returns 0 exactly
  when all bytes are equal, the position of the first difference, counted from 1, otherwise,
  and \<open>0xffff\<close> when the range does not fit into the packet.
\<close>

theorem pbuf_memcmp_first_difference:
  assumes "packet h (Some p) as" and "load h s2 (unat n) = Some pat"
  shows "\<exists>r. pbuf_memcmp p off s2 n h = Some r \<and>
           (if unat off + unat n > length (content h as) then r = 0xffff
            else let xs = take (unat n) (drop (unat off) (content h as)) in
                 (r = 0 \<longleftrightarrow> xs = pat) \<and>
                 (r \<noteq> 0 \<longrightarrow> xs ! (unat r - 1) \<noteq> pat ! (unat r - 1) \<and> take (unat r - 1) xs = take (unat r - 1) pat))"
proof (cases "length (content h as) < unat off + unat n")
  case True
  then show ?thesis by (simp add: pbuf_memcmp_eq [OF assms])
next
  case False
  define xs where "xs = take (unat n) (drop (unat off) (content h as))"
  define m where "m = mismatch xs pat"
  have len: "length xs = length pat" using False load_length [OF assms(2)] by (simp add: xs_def)
  have "m < 65536" using mismatch_le [of xs pat] len load_length [OF assms(2)] unat_u16_lt [of n] by (simp add: m_def)
  then have um: "unat (of_nat m :: u16) = m" by (simp add: unat_of_nat_u16)
  then have "of_nat m = (0 :: u16) \<longleftrightarrow> m = 0" by (metis unat_0 unat_eq_zero)
  then show ?thesis
    using False mismatch_0_iff [OF len] mismatch_first [OF len] um
    unfolding pbuf_memcmp_eq [OF assms] xs_def [symmetric] m_def [symmetric] by (auto simp: Let_def m_def)
qed

theorem pbuf_memcmp_first_difference_witness:
  "pbuf_memcmp 0 2 (Some (2, 0)) 3 sample_heap = Some 0"
  using pbuf_memcmp_first_difference [OF sample_packet sample_buffer, of 2]
  unfolding sample_content by (auto simp: Let_def)

section \<open>Writing and reading at an offset\<close>



text \<open>
  C30. \<^verbatim>\<open>pbuf_get_contiguous\<close> gives a pointer through which the requested range of the
  packet can be read in one piece, copying it into the caller's buffer only when needed and
  leaving the packet as it is.
\<close>

theorem pbuf_get_contiguous_reads:
  assumes "packet h (Some a) as" and "d \<noteq> None" and "ptr_block d \<notin> blocks h as"
    and "load h d (unat len) \<noteq> None" and "unat len \<le> bufsize"
    and "unat off < length (content h as)" and "unat off + unat len \<le> length (content h as)"
  shows "\<exists>r h'. pbuf_get_contiguous (Some a) d bufsize len off h = Some (r, h') \<and> r \<noteq> None
           \<and> load h' r (unat len) = Some (take (unat len) (drop (unat off) (content h as)))
           \<and> content h' as = content h as"
proof -
  obtain old where ld: "load h d (unat len) = Some old" using assms(4) by auto
  obtain r h' where g: "pbuf_get_contiguous (Some a) d bufsize len off h = Some (r, h')" "r \<noteq> None"
      "load h' r (unat len) = Some (take (unat len) (drop (unat off) (content h as)))"
    and w: "writes_only {ptr_block d} h h'"
    using pbuf_get_contiguous_eq [OF assms(1,3,2,5) ld assms(7,6)] by blast
  have "content h' as = content h as" by (rule writes_only_one_content [OF w assms(3)])
  with g show ?thesis by blast
qed

theorem pbuf_get_contiguous_reads_witness:
  "\<exists>r h'. pbuf_get_contiguous (Some 0) (Some (2, 0)) 4 3 1 sample_heap = Some (r, h') \<and> r \<noteq> None
     \<and> load h' r (unat (3 :: u16)) = Some (take (unat (3 :: u16)) (drop (unat (1 :: u16)) (content sample_heap [0, 1])))
     \<and> content h' [0, 1] = content sample_heap [0, 1]"
proof -
  have "ptr_block (Some (2, 0)) \<notin> blocks sample_heap [0, 1]"
    unfolding sample_separate(2) by (simp add: ptr_block_def)
  moreover have "unat (1 :: u16) < length (content sample_heap [0, 1])"
    "unat (1 :: u16) + unat (3 :: u16) \<le> length (content sample_heap [0, 1])"
    unfolding sample_content by simp_all
  moreover have "load sample_heap (Some (2, 0)) (unat (3 :: u16)) \<noteq> None" unfolding sample_buffer by simp
  moreover have "unat (3 :: u16) \<le> 4" by simp
  ultimately show ?thesis
    using pbuf_get_contiguous_reads [OF sample_packet, of "Some (2, 0)" 3 4 1] by blast
qed

section \<open>Joining and separating packets\<close>

text \<open>
  C26. \<^verbatim>\<open>pbuf_cat\<close> of two disjoint packets of together less than 64 KiB gives one
  well-formed packet that holds the bytes of the first followed by those of the second; no
  payload byte, reference count or pbuf outside the head packet changes.
\<close>

theorem pbuf_cat_appends:
  assumes "packet h (Some a) as" and "packet h (Some t) bs" and "set as \<inter> set bs = {}"
    and "length (content h as) + length (content h bs) < 65536"
  shows "\<exists>h'. pbuf_cat (Some a) (Some t) h = Some h' \<and> packet h' (Some a) (as @ bs)
           \<and> content h' (as @ bs) = content h as @ content h bs
           \<and> mem h' = mem h \<and> (\<forall>x. x \<notin> set as \<longrightarrow> pbufs h' x = pbufs h x)
           \<and> (\<forall>x. map_option pref (pbufs h' x) = map_option pref (pbufs h x))"
  using pbuf_cat_eq [OF assms] by blast

theorem pbuf_cat_appends_witness:
  "\<exists>h'. pbuf_cat (Some 0) (Some 1) split_heap = Some h' \<and> packet h' (Some 0) ([0] @ [1])
     \<and> content h' ([0] @ [1]) = [1, 2, 3] @ [2, 3, 9, 4]
     \<and> mem h' = mem split_heap \<and> (\<forall>x. x \<notin> set [0] \<longrightarrow> pbufs h' x = pbufs split_heap x)
     \<and> (\<forall>x. map_option pref (pbufs h' x) = map_option pref (pbufs split_heap x))"
  using pbuf_cat_appends [OF split_packets] unfolding split_contents by simp

text \<open>
  C27. \<^verbatim>\<open>pbuf_dechain\<close> undoes \<^verbatim>\<open>pbuf_chain\<close>: chaining a packet behind a single
  pbuf and taking it off again restores the memory exactly, reference counts included, and
  returns the tail, which is not freed.
\<close>

theorem pbuf_chain_dechain:
  assumes "packet h (Some a) [a]" and "packet h (Some t) bs" and "a \<notin> set bs"
    and "length (content h [a]) + length (content h bs) < 65536"
    and "pbufs h t = Some tb" and "0 < pref tb" and "pref tb < 0xff"
  shows "\<exists>h1. pbuf_chain (Some a) (Some t) h = Some h1 \<and> packet h1 (Some a) (a # bs)
           \<and> content h1 (a # bs) = content h [a] @ content h bs
           \<and> pbuf_dechain a h1 = Some (Some t, h)"
  by (rule pbuf_chain_dechain_eq [OF assms])

theorem pbuf_chain_dechain_witness:
  "\<exists>h1. pbuf_chain (Some 0) (Some 1) split_heap = Some h1 \<and> packet h1 (Some 0) [0, 1]
     \<and> content h1 [0, 1] = [1, 2, 3] @ [2, 3, 9, 4] \<and> pbuf_dechain 0 h1 = Some (Some 1, split_heap)"
proof -
  obtain tb where "pbufs split_heap 1 = Some tb" "pref tb = 1"
    by (simp add: split_heap_def sample_heap_def)
  then show ?thesis using pbuf_chain_dechain [OF split_packets, of tb] unfolding split_contents by simp
qed

section \<open>Reference counts\<close>

text \<open>
  C37. \<^verbatim>\<open>pbuf_free\<close> drops one reference: it gives back the leading pbufs of the chain
  that nobody else refers to, takes one reference from the first pbuf that is still shared,
  leaves the rest and everything else in memory alone, and returns the number of pbufs freed.
\<close>

theorem pbuf_free_releases:
  assumes "chain h (Some a) as" and "\<forall>x \<in> set as. freeable h x"
  shows "\<exists>n h'. pbuf_free (Some a) h = Some (of_nat n, h')
           \<and> n = length (takeWhile (\<lambda>x. pref (the (pbufs h x)) = 1) as)
           \<and> (\<forall>x \<in> set (take n as). pbufs h' x = None \<and> mem h' x = None)
           \<and> (n < length as \<longrightarrow> pbufs h' (as ! n)
                = Some ((the (pbufs h (as ! n)))\<lparr>pref := pref (the (pbufs h (as ! n))) - 1\<rparr>))
           \<and> (\<forall>x. x \<notin> set (take (Suc n) as) \<longrightarrow> pbufs h' x = pbufs h x)
           \<and> (\<forall>x. x \<notin> set (take n as) \<longrightarrow> mem h' x = mem h x)"
proof -
  obtain n h' where rel: "release as h = (n, h')" by fastforce
  have "pbuf_free (Some a) h = Some (of_nat n, h')"
    using pbuf_free_loop_eq [OF assms, of 0] rel by (simp add: pbuf_free_def)
  with release_frame [OF rel chain_distinct [OF assms(1)]] show ?thesis by blast
qed

theorem pbuf_free_releases_witness:
  "\<exists>n h'. pbuf_free (Some 0) sample_heap = Some (of_nat n, h')
     \<and> n = length (takeWhile (\<lambda>x. pref (the (pbufs sample_heap x)) = 1) [0, 1])
     \<and> (\<forall>x \<in> set (take n [0, 1]). pbufs h' x = None \<and> mem h' x = None)
     \<and> (n < length [0, 1 :: nat] \<longrightarrow> pbufs h' ([0, 1] ! n)
          = Some ((the (pbufs sample_heap ([0, 1] ! n)))\<lparr>pref := pref (the (pbufs sample_heap ([0, 1] ! n))) - 1\<rparr>))
     \<and> (\<forall>x. x \<notin> set (take (Suc n) [0, 1]) \<longrightarrow> pbufs h' x = pbufs sample_heap x)
     \<and> (\<forall>x. x \<notin> set (take n [0, 1]) \<longrightarrow> mem h' x = mem sample_heap x)"
  by (rule pbuf_free_releases [OF packet_chain [OF sample_packet] sample_freeable(1)])

text \<open>
  C36. \<^verbatim>\<open>pbuf_alloc\<close> of a pbuf that carries its data either returns a well-formed packet
  of the requested length that consists of fresh pbufs with one reference each, or returns
  NULL and leaks nothing: all structures and blocks are as before the call. Existing memory
  is never touched.
\<close>

theorem pbuf_alloc_fresh_or_nothing:
  assumes "heap_ok h" and "ty = PBUF_RAM \<or> ty = PBUF_POOL"
  shows "\<exists>r h'. pbuf_alloc l len ty h = Some (r, h') \<and>
      (case r of
         None \<Rightarrow> pbufs h' = pbufs h \<and> mem h' = mem h
       | Some a \<Rightarrow> \<exists>bs. packet h' (Some a) bs \<and> length (content h' bs) = unat len
                    \<and> set bs = {fresh h..<fresh h'} \<and> (\<forall>x \<in> set bs. own_pbuf h' x)
                    \<and> (\<forall>x < fresh h. pbufs h' x = pbufs h x \<and> mem h' x = mem h x))"
proof -
  obtain r h' where run: "pbuf_alloc l len ty h = Some (r, h')"
    and res: "case r of None \<Rightarrow> pbufs h' = pbufs h \<and> mem h' = mem h
       | Some a \<Rightarrow> \<exists>bs. packet h' (Some a) bs \<and> grown h h' bs \<and> length (content h' bs) = unat len"
    using pbuf_alloc_eq [OF assms] by blast
  show ?thesis
  proof (cases r)
    case None
    then show ?thesis using run res by simp
  next
    case (Some a)
    then show ?thesis using run res by (auto simp: grown_def)
  qed
qed

theorem pbuf_alloc_fresh_or_nothing_witness:
  "\<exists>r h'. pbuf_alloc PBUF_RAW 2000 PBUF_POOL sample_heap = Some (r, h') \<and>
      (case r of
         None \<Rightarrow> pbufs h' = pbufs sample_heap \<and> mem h' = mem sample_heap
       | Some a \<Rightarrow> \<exists>bs. packet h' (Some a) bs \<and> length (content h' bs) = unat (2000 :: u16)
                    \<and> set bs = {fresh sample_heap..<fresh h'} \<and> (\<forall>x \<in> set bs. own_pbuf h' x)
                    \<and> (\<forall>x < fresh sample_heap. pbufs h' x = pbufs sample_heap x \<and> mem h' x = mem sample_heap x))"
  by (rule pbuf_alloc_fresh_or_nothing [OF sample_ok]) simp

section \<open>Headers and shrinking\<close>

text \<open>
  When there is room in front of the payload, \<^verbatim>\<open>pbuf_add_header\<close> makes the packet
  start with those bytes, and \<^verbatim>\<open>pbuf_remove_header\<close> of the same size restores the
  memory exactly.
\<close>

theorem pbuf_header_roundtrip:
  assumes "packet h p (a # as)" and "pbufs h a = Some pb" and "headroom h a n False"
    and "load h (ptr_add (payload pb) (- int n)) n = Some bs"
    and "length (content h (a # as)) + n < 65536"
  shows "\<exists>h'. pbuf_add_header a n h = Some (False, h') \<and> packet h' p (a # as)
           \<and> content h' (a # as) = bs @ content h (a # as)
           \<and> pbuf_remove_header a n h' = Some (False, h)"
  using pbuf_add_header_eq [OF assms] unfolding pbuf_add_header_def by blast

theorem pbuf_header_roundtrip_witness:
  "\<exists>h'. pbuf_add_header 0 2 sample_heap = Some (False, h') \<and> packet h' (Some 0) [0, 1]
     \<and> content h' [0, 1] = [0, 0] @ [1, 2, 3, 2, 3, 9, 4]
     \<and> pbuf_remove_header 0 2 h' = Some (False, sample_heap)"
proof -
  obtain pb where "pbufs sample_heap 0 = Some pb" "headroom sample_heap 0 2 False"
      "load sample_heap (ptr_add (payload pb) (- int 2)) 2 = Some [0, 0]"
    by (simp add: sample_heap_def headroom_def in_block_def)
  then show ?thesis using pbuf_header_roundtrip [OF sample_packet, of pb 2 "[0, 0]"] unfolding sample_content by simp
qed

text \<open>
  C34. \<^verbatim>\<open>pbuf_realloc\<close> shrinks a packet to its first \<open>n\<close> bytes: the result is a
  well-formed packet made of a prefix of the pbufs, the others are given up, and memory
  outside the packet does not change.
\<close>

theorem pbuf_realloc_truncates:
  assumes "packet h (Some a) as" and "\<forall>x \<in> set as. freeable h x" and "own_payload h as"
    and "unat n \<le> length (content h as)"
  shows "\<exists>h' pre post. pbuf_realloc a n h = Some h' \<and> as = pre @ post \<and> packet h' (Some a) pre
           \<and> content h' pre = take (unat n) (content h as)
           \<and> (\<forall>x. x \<notin> set as \<longrightarrow> pbufs h' x = pbufs h x \<and> mem h' x = mem h x)"
  by (rule pbuf_realloc_eq [OF assms])

theorem pbuf_realloc_truncates_witness:
  "\<exists>h' pre post. pbuf_realloc 0 2 sample_heap = Some h' \<and> [0, 1] = pre @ post \<and> packet h' (Some 0) pre
     \<and> content h' pre = take (unat (2 :: u16)) (content sample_heap [0, 1])
     \<and> (\<forall>x. x \<notin> set [0, 1] \<longrightarrow> pbufs h' x = pbufs sample_heap x \<and> mem h' x = mem sample_heap x)"
proof (rule pbuf_realloc_truncates [OF sample_packet sample_freeable])
  show "unat (2 :: u16) \<le> length (content sample_heap [0, 1])" unfolding sample_content by simp
qed

end
