(* ===== verification/Ip_Addr.thy ===== *)
theory Ip_Addr
  imports Lwip_Prelude
begin

text \<open>
  The address types of \<^verbatim>\<open>ip4_addr.h\<close>, \<^verbatim>\<open>ip6_addr.h\<close> and
  \<^verbatim>\<open>ip_addr.h\<close>. Addresses are kept in network byte order, so on this little-endian
  port the first byte on the wire is the low byte of the word. A dual-stack address is a
  union of both with a type tag; the IPv4 word is the first word of the IPv6 address.
\<close>

unbundle bit_operations_syntax

type_synonym ip4_addr_t = u32

record ip6_addr_t =
  addr0 :: u32
  addr1 :: u32
  addr2 :: u32
  addr3 :: u32
  zone :: u8

record ip_addr_t =
  u_addr :: ip6_addr_t
  iptype :: u8

abbreviation (input) IPADDR_TYPE_V4 :: u8 where "IPADDR_TYPE_V4 \<equiv> 0"
abbreviation (input) IPADDR_TYPE_V6 :: u8 where "IPADDR_TYPE_V6 \<equiv> 6"
abbreviation (input) IPADDR_TYPE_ANY :: u8 where "IPADDR_TYPE_ANY \<equiv> 46"

definition IP_IS_V6 :: "ip_addr_t \<Rightarrow> bool" where
  "IP_IS_V6 a \<longleftrightarrow> iptype a = IPADDR_TYPE_V6"

definition IP_IS_V4 :: "ip_addr_t \<Rightarrow> bool" where
  "IP_IS_V4 a \<longleftrightarrow> iptype a = IPADDR_TYPE_V4"

definition IP_IS_ANY_TYPE :: "ip_addr_t \<Rightarrow> bool" where
  "IP_IS_ANY_TYPE a \<longleftrightarrow> iptype a = IPADDR_TYPE_ANY"

definition ip_2_ip4 :: "ip_addr_t \<Rightarrow> ip4_addr_t" where
  "ip_2_ip4 a = addr0 (u_addr a)"

definition ip_2_ip6 :: "ip_addr_t \<Rightarrow> ip6_addr_t" where
  "ip_2_ip6 a = u_addr a"

definition ip6_words :: "ip6_addr_t \<Rightarrow> u32 list" where
  "ip6_words a = [addr0 a, addr1 a, addr2 a, addr3 a]"

text \<open>The four bytes of a word as they lie in memory.\<close>

definition bytes32 :: "u32 \<Rightarrow> u8 list" where
  "bytes32 w = [ucast w, ucast (drop_bit 8 w), ucast (drop_bit 16 w), ucast (drop_bit 24 w)]"

definition bytes16 :: "u16 \<Rightarrow> u8 list" where
  "bytes16 w = [ucast w, ucast (drop_bit 8 w)]"

lemma length_bytes [simp]: "length (bytes32 w) = 4" "length (bytes16 v) = 2"
  by (simp_all add: bytes32_def bytes16_def)

lemma le32_bytes32: "le32 (ucast w) (ucast (drop_bit 8 w)) (ucast (drop_bit 16 w)) (ucast (drop_bit 24 w)) = (w :: u32)"
proof (rule bit_word_eqI)
  fix n assume "n < LENGTH(32)"
  then show "bit (le32 (ucast w) (ucast (drop_bit 8 w)) (ucast (drop_bit 16 w)) (ucast (drop_bit 24 w))) n = bit w n"
    by (cases "n < 16") (auto simp: le32_def le16_def bit_simps)
qed

lemma le16_bytes16: "le16 (ucast v) (ucast (drop_bit 8 v)) = (v :: u16)"
  by (auto simp: le16_def bit_eq_iff bit_simps)

lemma mask_lits: "(0xff :: u32) = mask 8" "(0xff00 :: u32) = push_bit 8 (mask 8)" "(0xff0000 :: u32) = push_bit 16 (mask 8)"
  "(0xff000000 :: u32) = push_bit 24 (mask 8)" by (simp_all add: mask_eq_exp_minus_1 push_bit_eq_mult)

lemma bytes32_htonl: "bytes32 (lwip_htonl x) = rev (bytes32 x)"
  unfolding bytes32_def lwip_htonl_def mask_lits rev.simps append.simps list.inject
  by (intro conjI bit_word_eqI) (auto simp: bit_simps)

lemma bytes32_inject: "bytes32 x = bytes32 y \<Longrightarrow> x = y"
  unfolding bytes32_def list.inject by (metis le32_bytes32)

end
