(* ===== verification/Inet_Chksum.thy ===== *)
theory Inet_Chksum
  imports Pbuf_Chain Ip_Addr
begin

text \<open>
  The checksum entry points of \<^verbatim>\<open>core/c/core/inet_chksum.c\<close>: over a buffer, over a
  pbuf chain, and with the pseudo header of TCP and UDP over IPv4 and IPv6, for the whole
  payload or a part of it. \<^verbatim>\<open>LWIP_CHKSUM\<close> is the parameter \<open>chk\<close>; what is proved
  of the callers rests only on the contract \<open>lwip_chksum\<close>.
\<close>

unbundle bit_operations_syntax

section \<open>Operations\<close>

definition inet_chksum :: "(nat \<Rightarrow> u8 list \<Rightarrow> u16) \<Rightarrow> cptr \<Rightarrow> u16 \<Rightarrow> pheap \<Rightarrow> u16 option" where
  "inet_chksum chk dataptr len h = do {
     bs \<leftarrow> load h dataptr (unat len);
     Some (NOT (chk (address h dataptr) bs)) }"

text \<open>The loop over the chain in \<^verbatim>\<open>inet_cksum_pseudo_base\<close> and \<^verbatim>\<open>inet_chksum_pbuf\<close>.\<close>

partial_function (option) chksum_pbuf_loop ::
    "(nat \<Rightarrow> u8 list \<Rightarrow> u16) \<Rightarrow> nat option \<Rightarrow> u32 \<Rightarrow> bool \<Rightarrow> pheap \<Rightarrow> (u32 \<times> bool) option" where
  "chksum_pbuf_loop chk q acc swapped h =
     (case q of None \<Rightarrow> Some (acc, swapped)
      | Some a \<Rightarrow> do {
          qb \<leftarrow> get_pbuf a h;
          bs \<leftarrow> load h (payload qb) (unat (plen qb));
          let acc = FOLD_U32T (acc + ucast (chk (address h (payload qb)) bs));
          if unat (plen qb) mod 2 \<noteq> 0
          then chksum_pbuf_loop chk (pnext qb) (SWAP_BYTES_IN_WORD acc) (\<not> swapped) h
          else chksum_pbuf_loop chk (pnext qb) acc swapped h })"

definition inet_chksum_pbuf :: "(nat \<Rightarrow> u8 list \<Rightarrow> u16) \<Rightarrow> nat option \<Rightarrow> pheap \<Rightarrow> u16 option" where
  "inet_chksum_pbuf chk p h = do {
     (acc, swapped) \<leftarrow> chksum_pbuf_loop chk p 0 False h;
     let acc = (if swapped then SWAP_BYTES_IN_WORD acc else acc);
     Some (ucast (NOT (acc AND 0xffff))) }"

definition inet_cksum_pseudo_base ::
    "(nat \<Rightarrow> u8 list \<Rightarrow> u16) \<Rightarrow> nat option \<Rightarrow> u8 \<Rightarrow> u16 \<Rightarrow> u32 \<Rightarrow> pheap \<Rightarrow> u16 option" where
  "inet_cksum_pseudo_base chk p proto proto_len acc h = do {
     (acc, swapped) \<leftarrow> chksum_pbuf_loop chk p acc False h;
     let acc = (if swapped then SWAP_BYTES_IN_WORD acc else acc);
     let acc = acc + ucast (lwip_htons (ucast proto));
     let acc = acc + ucast (lwip_htons proto_len);
     let acc = FOLD_U32T (FOLD_U32T acc);
     Some (ucast (NOT (acc AND 0xffff))) }"

definition pseudo4_acc :: "ip4_addr_t \<Rightarrow> ip4_addr_t \<Rightarrow> u32" where
  "pseudo4_acc src dest =
     (let acc = src AND 0xffff;
          acc = acc + (drop_bit 16 src AND 0xffff);
          acc = acc + (dest AND 0xffff);
          acc = acc + (drop_bit 16 dest AND 0xffff)
      in FOLD_U32T (FOLD_U32T acc))"

definition inet_chksum_pseudo ::
    "(nat \<Rightarrow> u8 list \<Rightarrow> u16) \<Rightarrow> nat option \<Rightarrow> u8 \<Rightarrow> u16 \<Rightarrow> ip4_addr_t \<Rightarrow> ip4_addr_t \<Rightarrow> pheap \<Rightarrow> u16 option" where
  "inet_chksum_pseudo chk p proto proto_len src dest h =
     inet_cksum_pseudo_base chk p proto proto_len (pseudo4_acc src dest) h"

text \<open>The \<^verbatim>\<open>for\<close> loop over the four words of both IPv6 addresses.\<close>

fun pseudo6_loop :: "u32 \<Rightarrow> u32 list \<Rightarrow> u32 list \<Rightarrow> u32" where
  "pseudo6_loop acc (s # ss) (d # ds) =
     (let acc = acc + (s AND 0xffff);
          acc = acc + (drop_bit 16 s AND 0xffff);
          acc = acc + (d AND 0xffff);
          acc = acc + (drop_bit 16 d AND 0xffff)
      in pseudo6_loop acc ss ds)"
| "pseudo6_loop acc _ _ = acc"

definition pseudo6_acc :: "ip6_addr_t \<Rightarrow> ip6_addr_t \<Rightarrow> u32" where
  "pseudo6_acc src dest = FOLD_U32T (FOLD_U32T (pseudo6_loop 0 (ip6_words src) (ip6_words dest)))"

definition ip6_chksum_pseudo ::
    "(nat \<Rightarrow> u8 list \<Rightarrow> u16) \<Rightarrow> nat option \<Rightarrow> u8 \<Rightarrow> u16 \<Rightarrow> ip6_addr_t \<Rightarrow> ip6_addr_t \<Rightarrow> pheap \<Rightarrow> u16 option" where
  "ip6_chksum_pseudo chk p proto proto_len src dest h =
     inet_cksum_pseudo_base chk p proto proto_len (pseudo6_acc src dest) h"

definition ip_chksum_pseudo ::
    "(nat \<Rightarrow> u8 list \<Rightarrow> u16) \<Rightarrow> nat option \<Rightarrow> u8 \<Rightarrow> u16 \<Rightarrow> ip_addr_t \<Rightarrow> ip_addr_t \<Rightarrow> pheap \<Rightarrow> u16 option" where
  "ip_chksum_pseudo chk p proto proto_len src dest h =
     (if IP_IS_V6 dest then ip6_chksum_pseudo chk p proto proto_len (ip_2_ip6 src) (ip_2_ip6 dest) h
      else inet_chksum_pseudo chk p proto proto_len (ip_2_ip4 src) (ip_2_ip4 dest) h)"

partial_function (option) chksum_partial_loop ::
    "(nat \<Rightarrow> u8 list \<Rightarrow> u16) \<Rightarrow> nat option \<Rightarrow> u16 \<Rightarrow> u32 \<Rightarrow> bool \<Rightarrow> pheap \<Rightarrow> (u32 \<times> bool) option" where
  "chksum_partial_loop chk q chksum_len acc swapped h =
     (case q of None \<Rightarrow> Some (acc, swapped)
      | Some a \<Rightarrow>
          if chksum_len > 0 then do {
            qb \<leftarrow> get_pbuf a h;
            let chklen = (if plen qb > chksum_len then chksum_len else plen qb);
            bs \<leftarrow> load h (payload qb) (unat chklen);
            let acc = acc + ucast (chk (address h (payload qb)) bs);
            let chksum_len = chksum_len - chklen;
            LWIP_ASSERT (chksum_len < 0x7fff);
            let acc = FOLD_U32T acc;
            if unat (plen qb) mod 2 \<noteq> 0
            then chksum_partial_loop chk (pnext qb) chksum_len (SWAP_BYTES_IN_WORD acc) (\<not> swapped) h
            else chksum_partial_loop chk (pnext qb) chksum_len acc swapped h }
          else Some (acc, swapped))"

definition inet_cksum_pseudo_partial_base ::
    "(nat \<Rightarrow> u8 list \<Rightarrow> u16) \<Rightarrow> nat option \<Rightarrow> u8 \<Rightarrow> u16 \<Rightarrow> u16 \<Rightarrow> u32 \<Rightarrow> pheap \<Rightarrow> u16 option" where
  "inet_cksum_pseudo_partial_base chk p proto proto_len chksum_len acc h = do {
     (acc, swapped) \<leftarrow> chksum_partial_loop chk p chksum_len acc False h;
     let acc = (if swapped then SWAP_BYTES_IN_WORD acc else acc);
     let acc = acc + ucast (lwip_htons (ucast proto));
     let acc = acc + ucast (lwip_htons proto_len);
     let acc = FOLD_U32T (FOLD_U32T acc);
     Some (ucast (NOT (acc AND 0xffff))) }"

definition inet_chksum_pseudo_partial ::
    "(nat \<Rightarrow> u8 list \<Rightarrow> u16) \<Rightarrow> nat option \<Rightarrow> u8 \<Rightarrow> u16 \<Rightarrow> u16 \<Rightarrow> ip4_addr_t \<Rightarrow> ip4_addr_t \<Rightarrow> pheap \<Rightarrow> u16 option" where
  "inet_chksum_pseudo_partial chk p proto proto_len chksum_len src dest h =
     inet_cksum_pseudo_partial_base chk p proto proto_len chksum_len (pseudo4_acc src dest) h"

definition ip6_chksum_pseudo_partial ::
    "(nat \<Rightarrow> u8 list \<Rightarrow> u16) \<Rightarrow> nat option \<Rightarrow> u8 \<Rightarrow> u16 \<Rightarrow> u16 \<Rightarrow> ip6_addr_t \<Rightarrow> ip6_addr_t \<Rightarrow> pheap \<Rightarrow> u16 option" where
  "ip6_chksum_pseudo_partial chk p proto proto_len chksum_len src dest h =
     inet_cksum_pseudo_partial_base chk p proto proto_len chksum_len (pseudo6_acc src dest) h"

definition ip_chksum_pseudo_partial ::
    "(nat \<Rightarrow> u8 list \<Rightarrow> u16) \<Rightarrow> nat option \<Rightarrow> u8 \<Rightarrow> u16 \<Rightarrow> u16 \<Rightarrow> ip_addr_t \<Rightarrow> ip_addr_t \<Rightarrow> pheap \<Rightarrow> u16 option" where
  "ip_chksum_pseudo_partial chk p proto proto_len chksum_len src dest h =
     (if IP_IS_V6 dest
      then ip6_chksum_pseudo_partial chk p proto proto_len chksum_len (ip_2_ip6 src) (ip_2_ip6 dest) h
      else inet_chksum_pseudo_partial chk p proto proto_len chksum_len (ip_2_ip4 src) (ip_2_ip4 dest) h)"

section \<open>Sums over pieces\<close>

lemma sums_append:
  "le_sum (xs @ ys) = le_sum xs + (if even (length xs) then le_sum ys else be_sum ys)"
  "be_sum (xs @ ys) = be_sum xs + (if even (length xs) then be_sum ys else le_sum ys)"
  by (induction xs) auto

definition side_sum :: "bool \<Rightarrow> u8 list \<Rightarrow> nat" where
  "side_sum swapped bs = (if swapped then be_sum bs else le_sum bs)"

definition side :: "bool \<Rightarrow> nat \<Rightarrow> nat" where
  "side swapped S = (if swapped then 256 * S else S)"

lemma side_sum_Nil [simp]: "side_sum s [] = 0"
  by (simp add: side_sum_def)

lemma side_sum_append:
  "side_sum s (xs @ ys) = side_sum s xs + side_sum (if odd (length xs) then \<not> s else s) ys"
  by (simp add: side_sum_def sums_append)

lemma ocrep_sym: "ocrep u v \<Longrightarrow> ocrep v u"
  by (simp add: ocrep_def)

lemma ocrep_side_swap:
  assumes "ocrep v (side s S)" shows "ocrep (256 * v) (side (\<not> s) S)"
proof (cases s)
  case True
  have "ocrep (65536 * S) S" using ocrep_carry [of S 0] by (simp add: ocrep_sym)
  then show ?thesis using ocrep_trans [OF ocrep_mult [OF assms]] True by (simp add: side_def)
next
  case False
  then show ?thesis using ocrep_mult [OF assms] by (simp add: side_def)
qed

lemma ocrep_side_chunk: "ocrep (le_sum ys) (side s (side_sum s ys))"
  using ocrep_swap_sums(1) by (auto simp: side_def side_sum_def intro: ocrep_sym)

lemma side_add: "side s (S + T) = side s S + side s T"
  by (simp add: side_def)

lemma ucast_complement:
  "unat acc < 65536 \<Longrightarrow> ucast (NOT (acc AND 0xffff)) = (NOT (ucast acc) :: u16)" for acc :: u32
  by (rule bit_word_eqI) (auto simp: bit_simps and_mask_lit)

lemma unat_not16: "unat (NOT w) = 65535 - unat (w :: u16)"
proof -
  have "NOT w = - 1 - w" by (simp add: not_eq_complement)
  moreover have "w \<le> - 1" by simp
  ultimately show ?thesis using unat_sub [of w "- 1"]
    by (simp add: unsigned_minus_1_eq_mask mask_eq_exp_minus_1)
qed

lemma chunk_step:
  assumes acc: "unat acc < 65536" "ocrep (unat acc) (side s S)"
    and v: "unat v < 65536" "ocrep (unat v) (side s T)"
  shows "unat (FOLD_U32T (acc + v)) < 65536 \<and> ocrep (unat (FOLD_U32T (acc + v))) (side s (S + T))"
proof -
  have u: "unat (acc + v) = unat acc + unat v" using acc(1) v(1) by (intro unat_add_u32) simp
  have "unat (FOLD_U32T (acc + v)) < 65536" using acc(1) v(1) by (intro FOLD_lt) (simp add: u)
  moreover have "ocrep (unat (FOLD_U32T (acc + v))) (side s S + side s T)"
    using ocrep_trans [OF ocrep_FOLD, of "acc + v"] ocrep_add [OF acc(2) v(2)] by (simp add: u)
  ultimately show ?thesis by (simp add: side_add)
qed

lemma swap_step:
  assumes "unat acc < 65536" "ocrep (unat acc) (side s S)"
  shows "unat (SWAP_BYTES_IN_WORD acc) < 65536 \<and> ocrep (unat (SWAP_BYTES_IN_WORD acc)) (side (\<not> s) S)"
  using assms ocrep_trans [OF ocrep_SWAP ocrep_side_swap] SWAP_lt by blast

lemma unswap:
  assumes "unat acc < 65536" "ocrep (unat acc) (side s S)"
  defines "r \<equiv> if s then SWAP_BYTES_IN_WORD acc else acc"
  shows "unat r < 65536 \<and> ocrep (unat r) S"
  using assms swap_step [OF assms(1,2)] by (auto simp: side_def split: if_splits)

lemma pbuf_bytes_lt: "packet h p as \<Longrightarrow> a \<in> set as \<Longrightarrow> length (pbytes h a) < 65536"
  using packet_member [of h p as a] unat_u16_lt by fastforce

section \<open>Pseudo headers\<close>

text \<open>The pseudo headers of RFC 793 and RFC 8200 as they would lie in memory.\<close>

definition pseudo4_header :: "ip4_addr_t \<Rightarrow> ip4_addr_t \<Rightarrow> u8 \<Rightarrow> u16 \<Rightarrow> u8 list" where
  "pseudo4_header src dest proto len = bytes32 src @ bytes32 dest @ [0, proto] @ bytes16 (lwip_htons len)"

definition pseudo6_header :: "ip6_addr_t \<Rightarrow> ip6_addr_t \<Rightarrow> u8 \<Rightarrow> u16 \<Rightarrow> u8 list" where
  "pseudo6_header src dest proto len =
     concat (map bytes32 (ip6_words src)) @ concat (map bytes32 (ip6_words dest))
     @ [0, 0] @ bytes16 (lwip_htons len) @ [0, 0, 0, proto]"

lemma le_sum_bytes16: "le_sum (bytes16 w) = unat w"
  using le_sum_pair [of "ucast w" "ucast (drop_bit 8 w)" "[]"] by (simp add: bytes16_def le16_bytes16)

lemma le_sum_bytes32: "le_sum (bytes32 w) = unat (w AND 0xffff) + unat (drop_bit 16 w AND 0xffff)"
proof -
  have lo: "le16 (ucast w) (ucast (drop_bit 8 w)) = ucast w"
    by (auto simp: le16_def bit_eq_iff bit_simps)
  have hi: "le16 (ucast (drop_bit 16 w)) (ucast (drop_bit 24 w)) = ucast (drop_bit 16 w)"
    by (auto simp: le16_def bit_eq_iff bit_simps)
  have "unat (ucast v :: u16) = unat (v AND 0xffff)" for v :: u32
    by (simp add: and_mask_lit unat_take_bit_word unsigned_ucast_eq take_bit_nat_def)
  then show ?thesis unfolding bytes32_def le_sum_pair lo hi by simp
qed

lemma unat_and16: "unat (w AND 0xffff :: u32) < 65536"
  by (simp add: and_mask_lit unat_take_bit_word)

lemma htons_proto: "unat (lwip_htons (ucast (proto :: u8))) = le_sum [0, proto]"
  using unat_u8_lt [of proto] by (simp add: unat_lwip_htons unat_ucast_up)

lemma pseudo4_acc_rep:
  "unat (pseudo4_acc src dest) < 65536
   \<and> ocrep (unat (pseudo4_acc src dest)) (le_sum (bytes32 src @ bytes32 dest))"
proof -
  define acc where "acc = (src AND 0xffff) + (drop_bit 16 src AND 0xffff) + (dest AND 0xffff) + (drop_bit 16 dest AND 0xffff)"
  have "unat acc = le_sum (bytes32 src @ bytes32 dest)"
    using unat_and16 [of src] unat_and16 [of "drop_bit 16 src"] unat_and16 [of dest] unat_and16 [of "drop_bit 16 dest"]
    by (simp add: acc_def sums_append le_sum_bytes32 unat_add_u32)
  then show ?thesis
    using ocrep_trans [OF ocrep_FOLD ocrep_FOLD, of acc] FOLD_FOLD_lt [of acc]
    by (simp add: pseudo4_acc_def acc_def)
qed

lemma pseudo6_loop_sum:
  assumes "unat acc + 262140 * length ss < 4294967296" and "length ss = length ds"
  shows "unat (pseudo6_loop acc ss ds)
       = unat acc + le_sum (concat (map bytes32 ss)) + le_sum (concat (map bytes32 ds))"
  using assms
proof (induction acc ss ds rule: pseudo6_loop.induct)
  case (1 acc s ss d ds)
  let ?acc = "acc + (s AND 0xffff) + (drop_bit 16 s AND 0xffff) + (d AND 0xffff) + (drop_bit 16 d AND 0xffff)"
  have b: "unat (s AND 0xffff) < 65536" "unat (drop_bit 16 s AND 0xffff) < 65536"
    "unat (d AND 0xffff) < 65536" "unat (drop_bit 16 d AND 0xffff) < 65536" by (rule unat_and16)+
  then have "unat ?acc = unat acc + le_sum (bytes32 s) + le_sum (bytes32 d)"
    using "1.prems"(1) by (simp add: le_sum_bytes32 unat_add_u32)
  moreover from this have "unat ?acc + 262140 * length ss < 4294967296"
    using "1.prems"(1) b by (simp add: le_sum_bytes32)
  ultimately show ?case using "1.IH" [OF refl refl refl refl] "1.prems"(2)
    by (simp add: Let_def sums_append)
qed simp_all

lemma pseudo6_acc_rep:
  "unat (pseudo6_acc src dest) < 65536
   \<and> ocrep (unat (pseudo6_acc src dest))
       (le_sum (concat (map bytes32 (ip6_words src)) @ concat (map bytes32 (ip6_words dest))))"
proof -
  define acc where "acc = pseudo6_loop 0 (ip6_words src) (ip6_words dest)"
  have "unat acc = le_sum (concat (map bytes32 (ip6_words src)) @ concat (map bytes32 (ip6_words dest)))"
    unfolding acc_def by (subst pseudo6_loop_sum) (simp_all add: ip6_words_def sums_append)
  then show ?thesis
    using ocrep_trans [OF ocrep_FOLD ocrep_FOLD, of acc] FOLD_FOLD_lt [of acc]
    by (simp add: pseudo6_acc_def acc_def)
qed

lemma pseudo_finish:
  fixes proto :: u8 and len :: u16
  assumes r: "unat r < 65536" "ocrep (unat r) S"
  defines "v \<equiv> FOLD_U32T (FOLD_U32T (r + ucast (lwip_htons (ucast proto)) + ucast (lwip_htons len)))"
  shows "unat v < 65536 \<and> ocrep (unat v) (S + le_sum ([0, proto] @ bytes16 (lwip_htons len)))"
proof -
  define w where "w = r + ucast (lwip_htons (ucast proto)) + ucast (lwip_htons len)"
  have "unat w = unat r + unat (lwip_htons (ucast proto)) + unat (lwip_htons len)"
    using r(1) unat_u16_lt [of "lwip_htons (ucast proto)"] unat_u16_lt [of "lwip_htons len"]
    by (simp add: w_def unat_add_u32 unat_ucast_up)
  then have "ocrep (unat w) (S + le_sum ([0, proto] @ bytes16 (lwip_htons len)))"
    using ocrep_add [OF r(2) ocrep_refl] by (simp add: htons_proto sums_append le_sum_bytes16 add.assoc)
  then show ?thesis
    using ocrep_trans [OF ocrep_trans [OF ocrep_FOLD ocrep_FOLD], of w] FOLD_FOLD_lt [of w]
    by (simp add: v_def w_def)
qed

section \<open>The chain loops\<close>

context lwip_chksum
begin

lemma chunk_rep:
  assumes "length bs \<le> 0x20000"
  shows "unat (ucast (chk a bs) :: u32) < 65536 \<and> ocrep (unat (ucast (chk a bs) :: u32)) (side s (side_sum s bs))"
  using chk_rep [OF assms, of a] ocrep_trans [OF _ ocrep_side_chunk] unat_u16_lt [of "chk a bs"]
  by (simp add: unat_ucast_up)

lemma chksum_pbuf_loop_eq:
  assumes "packet h p as" and "unat acc < 65536" and "ocrep (unat acc) (side s S)"
  shows "\<exists>acc' s'. chksum_pbuf_loop chk p acc s h = Some (acc', s') \<and> unat acc' < 65536
           \<and> ocrep (unat acc') (side s' (S + side_sum s (content h as)))"
  using assms
proof (induction as arbitrary: p acc s S)
  case Nil
  then show ?case by (simp add: chksum_pbuf_loop.simps)
next
  case (Cons a as)
  from Cons.prems(1) obtain pb where p: "p = Some a" and pb: "pbufs h a = Some pb"
    and ld: "load h (payload pb) (unat (plen pb)) = Some (pbytes h a)"
    and len: "length (pbytes h a) = unat (plen pb)" and rest: "packet h (pnext pb) as"
    by (rule packet_ConsE)
  define acc1 where "acc1 = FOLD_U32T (acc + ucast (chk (address h (payload pb)) (pbytes h a)))"
  define odd_len where "odd_len = odd (length (pbytes h a))"
  have "length (pbytes h a) \<le> 0x20000" using len unat_u16_lt [of "plen pb"] by simp
  from chunk_step [OF Cons.prems(2,3) chunk_rep [OF this, THEN conjunct1] chunk_rep [OF this, THEN conjunct2]]
  have a1: "unat acc1 < 65536" "ocrep (unat acc1) (side s (S + side_sum s (pbytes h a)))"
    by (simp_all add: acc1_def)
  define acc2 where "acc2 = (if odd_len then SWAP_BYTES_IN_WORD acc1 else acc1)"
  define s2 where "s2 = (if odd_len then \<not> s else s)"
  have "unat acc2 < 65536" "ocrep (unat acc2) (side s2 (S + side_sum s (pbytes h a)))"
    using a1 swap_step [OF a1] by (simp_all add: acc2_def s2_def)
  from Cons.IH [OF rest this] obtain acc' s'
    where "chksum_pbuf_loop chk (pnext pb) acc2 s2 h = Some (acc', s')" "unat acc' < 65536"
      "ocrep (unat acc') (side s' (S + side_sum s (pbytes h a) + side_sum s2 (content h as)))" by blast
  moreover have "chksum_pbuf_loop chk p acc s h = chksum_pbuf_loop chk (pnext pb) acc2 s2 h"
    using pb ld by (subst chksum_pbuf_loop.simps)
      (simp add: p get_pbuf_def acc2_def s2_def odd_len_def len Let_def acc1_def odd_iff_mod_2_eq_one)
  moreover have "S + side_sum s (pbytes h a) + side_sum s2 (content h as) = S + side_sum s (content h (a # as))"
    by (simp add: side_sum_append s2_def odd_len_def)
  ultimately show ?case by auto
qed

lemma chksum_partial_loop_eq:
  assumes "packet h p as" and "unat acc < 65536" and "ocrep (unat acc) (side s S)"
    and "as \<noteq> [] \<Longrightarrow> unat n < 0x7fff + length (pbytes h (hd as))"
  shows "\<exists>acc' s'. chksum_partial_loop chk p n acc s h = Some (acc', s') \<and> unat acc' < 65536
           \<and> ocrep (unat acc') (side s' (S + side_sum s (take (unat n) (content h as))))"
  using assms
proof (induction as arbitrary: p n acc s S)
  case Nil
  then show ?case by (simp add: chksum_partial_loop.simps)
next
  case (Cons a as)
  from Cons.prems(1) obtain pb where p: "p = Some a" and pb: "pbufs h a = Some pb"
    and ld: "load h (payload pb) (unat (plen pb)) = Some (pbytes h a)"
    and len: "length (pbytes h a) = unat (plen pb)" and rest: "packet h (pnext pb) as"
    by (rule packet_ConsE)
  show ?case
  proof (cases "n = 0")
    case True
    then show ?thesis using Cons.prems(2,3) by (auto simp: p chksum_partial_loop.simps)
  next
    case False
    define k where "k = (if plen pb > n then n else plen pb)"
    define bs where "bs = take (unat k) (pbytes h a)"
    have uk: "unat k \<le> unat (plen pb)" and nk: "unat (n - k) = unat n - unat k"
      by (auto simp: k_def word_less_nat_alt word_le_nat_alt unat_sub)
    have ldk: "load h (payload pb) (unat k) = Some bs"
      using load_sub [OF ld, of 0 "unat k"] uk by (simp add: bs_def)
    define acc1 where "acc1 = FOLD_U32T (acc + ucast (chk (address h (payload pb)) bs))"
    define acc2 where "acc2 = (if odd (unat (plen pb)) then SWAP_BYTES_IN_WORD acc1 else acc1)"
    define s2 where "s2 = (if odd (unat (plen pb)) then \<not> s else s)"
    have "length bs \<le> 0x20000" using load_length [OF ldk] unat_u16_lt [of k] by simp
    from chunk_step [OF Cons.prems(2,3) chunk_rep [OF this, THEN conjunct1] chunk_rep [OF this, THEN conjunct2]]
    have a1: "unat acc1 < 65536" "ocrep (unat acc1) (side s (S + side_sum s bs))"
      by (simp_all add: acc1_def)
    have a2: "unat acc2 < 65536" "ocrep (unat acc2) (side s2 (S + side_sum s bs))"
      using a1 swap_step [OF a1] by (simp_all add: acc2_def s2_def)
    have small: "n - k < 0x7fff"
      using Cons.prems(4) nk len by (auto simp: word_less_nat_alt k_def split: if_splits)
    then have "unat (n - k) < 0x7fff" by (simp add: word_less_nat_alt)
    with Cons.IH [OF rest a2, of "n - k"] obtain acc' s'
      where "chksum_partial_loop chk (pnext pb) (n - k) acc2 s2 h = Some (acc', s')" "unat acc' < 65536"
        "ocrep (unat acc') (side s' (S + side_sum s bs + side_sum s2 (take (unat (n - k)) (content h as))))"
      by auto
    moreover have "chksum_partial_loop chk p n acc s h = chksum_partial_loop chk (pnext pb) (n - k) acc2 s2 h"
    proof -
      have "0 < n" using False by (simp add: word_gt_0)
      then show ?thesis
        using pb ldk small by (subst chksum_partial_loop.simps)
          (simp add: p get_pbuf_def Let_def acc2_def s2_def acc1_def odd_iff_mod_2_eq_one flip: k_def)
    qed
    moreover have "side_sum s bs + side_sum s2 (take (unat (n - k)) (content h as))
        = side_sum s (take (unat n) (content h (a # as)))"
    proof (cases "plen pb > n")
      case True
      then show ?thesis using len nk by (simp add: k_def bs_def side_sum_def word_less_nat_alt)
    next
      case False
      then have "bs = pbytes h a" "take (unat n) (content h (a # as)) = bs @ take (unat (n - k)) (content h as)"
        using len nk by (auto simp: k_def bs_def word_less_nat_alt)
      then show ?thesis using len by (simp add: side_sum_append s2_def)
    qed
    ultimately show ?thesis by (auto simp: add.assoc)
  qed
qed

lemma chk_unique:
  fixes r :: u32
  assumes "unat r < 65536" "ocrep (unat r) (le_sum bs)" "length bs \<le> 0x20000"
  shows "ucast (NOT (r AND 0xffff)) = NOT (chk a bs)"
proof -
  have "unat (ucast r :: u16) = unat r"
    using assms(1) by (simp add: unsigned_ucast_eq take_bit_nat_eq_self)
  then have "ucast r = chk a bs"
    using ocrep_unique [OF assms(2,1)] by (simp add: word_unat_eq_iff chk_value [OF assms(3)])
  then show ?thesis using ucast_complement [OF assms(1)] by simp
qed

lemma inet_chksum_pbuf_eq:
  assumes pk: "packet h p as"
  shows "inet_chksum_pbuf chk p h = Some (NOT (chk a (content h as)))"
proof -
  obtain acc s where lp: "chksum_pbuf_loop chk p 0 False h = Some (acc, s)" and "unat acc < 65536"
      "ocrep (unat acc) (side s (side_sum False (content h as)))"
    using chksum_pbuf_loop_eq [OF pk, of 0 False 0] by (auto simp: side_def)
  from unswap [OF this(2,3)] have "unat (if s then SWAP_BYTES_IN_WORD acc else acc) < 65536"
      "ocrep (unat (if s then SWAP_BYTES_IN_WORD acc else acc)) (le_sum (content h as))"
    by (simp_all add: side_sum_def)
  from chk_unique [OF this] lp packet_length [OF pk] show ?thesis
    by (simp add: inet_chksum_pbuf_def Let_def)
qed

lemma pseudo_base_eq:
  assumes pk: "packet h p as" and acc: "unat acc < 65536" "ocrep (unat acc) (le_sum hdr)"
    and hdr: "even (length hdr)" "length hdr \<le> 64"
  shows "inet_cksum_pseudo_base chk p proto len acc h
       = Some (NOT (chk a (hdr @ [0, proto] @ bytes16 (lwip_htons len) @ content h as)))"
proof -
  obtain acc' s where lp: "chksum_pbuf_loop chk p acc False h = Some (acc', s)" and "unat acc' < 65536"
      "ocrep (unat acc') (side s (le_sum hdr + side_sum False (content h as)))"
    using chksum_pbuf_loop_eq [OF pk acc(1), of False "le_sum hdr"] acc(2) by (auto simp: side_def)
  from pseudo_finish [OF unswap [OF this(2,3), THEN conjunct1] unswap [OF this(2,3), THEN conjunct2], of proto len]
  have "unat (FOLD_U32T (FOLD_U32T ((if s then SWAP_BYTES_IN_WORD acc' else acc')
        + ucast (lwip_htons (ucast proto)) + ucast (lwip_htons len)))) < 65536"
    "ocrep (unat (FOLD_U32T (FOLD_U32T ((if s then SWAP_BYTES_IN_WORD acc' else acc')
        + ucast (lwip_htons (ucast proto)) + ucast (lwip_htons len)))))
      (le_sum (hdr @ [0, proto] @ bytes16 (lwip_htons len) @ content h as))"
    using hdr(1) by (simp_all add: side_sum_def sums_append bytes16_def ac_simps)
  from chk_unique [OF this] lp packet_length [OF pk] hdr(2) show ?thesis
    by (simp add: inet_cksum_pseudo_base_def Let_def)
qed

lemma pseudo_partial_base_eq:
  assumes pk: "packet h p as" and acc: "unat acc < 65536" "ocrep (unat acc) (le_sum hdr)"
    and hdr: "even (length hdr)" "length hdr \<le> 64"
    and n: "as \<noteq> [] \<Longrightarrow> unat n < 0x7fff + length (pbytes h (hd as))"
  shows "inet_cksum_pseudo_partial_base chk p proto len n acc h
       = Some (NOT (chk a (hdr @ [0, proto] @ bytes16 (lwip_htons len) @ take (unat n) (content h as))))"
proof -
  obtain acc' s where lp: "chksum_partial_loop chk p n acc False h = Some (acc', s)" and "unat acc' < 65536"
      "ocrep (unat acc') (side s (le_sum hdr + side_sum False (take (unat n) (content h as))))"
    using chksum_partial_loop_eq [OF pk acc(1) _ n, of False "le_sum hdr"] acc(2) by (auto simp: side_def)
  from pseudo_finish [OF unswap [OF this(2,3), THEN conjunct1] unswap [OF this(2,3), THEN conjunct2], of proto len]
  have "unat (FOLD_U32T (FOLD_U32T ((if s then SWAP_BYTES_IN_WORD acc' else acc')
        + ucast (lwip_htons (ucast proto)) + ucast (lwip_htons len)))) < 65536"
    "ocrep (unat (FOLD_U32T (FOLD_U32T ((if s then SWAP_BYTES_IN_WORD acc' else acc')
        + ucast (lwip_htons (ucast proto)) + ucast (lwip_htons len)))))
      (le_sum (hdr @ [0, proto] @ bytes16 (lwip_htons len) @ take (unat n) (content h as)))"
    using hdr(1) by (simp_all add: side_sum_def sums_append bytes16_def ac_simps)
  from chk_unique [OF this] lp packet_length [OF pk] hdr(2) show ?thesis
    by (simp add: inet_cksum_pseudo_partial_base_def Let_def)
qed

lemma inet_chksum_pseudo_eq:
  "packet h p as \<Longrightarrow> inet_chksum_pseudo chk p proto len src dest h
     = Some (NOT (chk a (pseudo4_header src dest proto len @ content h as)))"
  using pseudo_base_eq [of h p as "pseudo4_acc src dest" "bytes32 src @ bytes32 dest" proto len a]
    pseudo4_acc_rep [of src dest]
  by (simp add: inet_chksum_pseudo_def pseudo4_header_def)

lemma chk_cong: "le_sum xs = le_sum ys \<Longrightarrow> length xs \<le> 0x20000 \<Longrightarrow> length ys \<le> 0x20000 \<Longrightarrow> chk a xs = chk b ys"
  by (simp add: word_unat_eq_iff chk_value)

lemma pseudo6_header_chk:
  "length bs < 65536 \<Longrightarrow>
   chk a (concat (map bytes32 (ip6_words src)) @ concat (map bytes32 (ip6_words dest))
     @ [0, proto] @ bytes16 (lwip_htons len) @ bs) = chk a (pseudo6_header src dest proto len @ bs)"
  by (rule chk_cong)
     (simp_all add: pseudo6_header_def ip6_words_def sums_append bytes16_def bytes32_def ac_simps)

lemma ip6_chksum_pseudo_eq:
  "packet h p as \<Longrightarrow> ip6_chksum_pseudo chk p proto len src dest h
     = Some (NOT (chk a (pseudo6_header src dest proto len @ content h as)))"
  using pseudo_base_eq [of h p as "pseudo6_acc src dest" "concat (map bytes32 (ip6_words src)) @ concat (map bytes32 (ip6_words dest))" proto len a]
    pseudo6_acc_rep [of src dest] pseudo6_header_chk [OF packet_length]
  by (simp add: ip6_chksum_pseudo_def) (simp add: ip6_words_def)

lemma inet_chksum_pseudo_partial_eq:
  "packet h p as \<Longrightarrow> (as \<noteq> [] \<Longrightarrow> unat n < 0x7fff + length (pbytes h (hd as))) \<Longrightarrow>
   inet_chksum_pseudo_partial chk p proto len n src dest h
     = Some (NOT (chk a (pseudo4_header src dest proto len @ take (unat n) (content h as))))"
  using pseudo_partial_base_eq [of h p as "pseudo4_acc src dest" "bytes32 src @ bytes32 dest" n proto len a]
    pseudo4_acc_rep [of src dest]
  by (simp add: inet_chksum_pseudo_partial_def pseudo4_header_def)

lemma ip6_chksum_pseudo_partial_eq:
  "packet h p as \<Longrightarrow> (as \<noteq> [] \<Longrightarrow> unat n < 0x7fff + length (pbytes h (hd as))) \<Longrightarrow>
   ip6_chksum_pseudo_partial chk p proto len n src dest h
     = Some (NOT (chk a (pseudo6_header src dest proto len @ take (unat n) (content h as))))"
  using pseudo_partial_base_eq [of h p as "pseudo6_acc src dest" "concat (map bytes32 (ip6_words src)) @ concat (map bytes32 (ip6_words dest))" n proto len a]
    pseudo6_acc_rep [of src dest] pseudo6_header_chk [of "take (unat n) (content h as)" a src dest proto len]
    packet_length [of h p as]
  by (simp add: ip6_chksum_pseudo_partial_def) (simp add: ip6_words_def)

text \<open>A packet whose zero checksum field is filled in with the computed value sums up to \<open>0xffff\<close>.\<close>

lemma chk_complement:
  assumes "even (length xs)" and "length (xs @ 0 # 0 # ys) \<le> 0x20000"
    and v: "v = NOT (chk a (xs @ 0 # 0 # ys))"
  shows "NOT (chk b (xs @ bytes16 v @ ys)) = 0"
proof -
  let ?S = "le_sum (xs @ 0 # 0 # ys)"
  have "le_sum (xs @ bytes16 v @ ys) = ?S + unat v"
    using assms(1) by (simp add: sums_append le_sum_bytes16)
  then have "ocrep (unat (chk a (xs @ 0 # 0 # ys)) + unat v) (le_sum (xs @ bytes16 v @ ys))"
    using ocrep_add [OF chk_rep [OF assms(2), of a] ocrep_refl] by (simp only:)
  moreover have "unat (chk a (xs @ 0 # 0 # ys)) + unat v = 65535"
    unfolding v unat_not16 using unat_u16_lt [of "chk a (xs @ 0 # 0 # ys)"] by linarith
  ultimately have "ocrep 65535 (le_sum (xs @ bytes16 v @ ys))" by simp
  then have "ocval (le_sum (xs @ bytes16 v @ ys)) = 65535" using ocrep_unique [of 65535] by simp
  then have "unat (chk b (xs @ bytes16 v @ ys)) = unat (- 1 :: u16)"
    using assms(2) by (simp add: chk_value unsigned_minus_1_eq_mask mask_eq_exp_minus_1)
  then have "chk b (xs @ bytes16 v @ ys) = - 1" by (simp only: word_unat_eq_iff)
  then show ?thesis by simp
qed

end

end
