(* ===== verification/Ip4_Addr.thy ===== *)
theory Ip4_Addr
  imports Ip_Addr
begin

text \<open>
  IPv4 addresses as text, netmasks and broadcast addresses (\<^verbatim>\<open>ipv4/ip4_addr.c\<close>). A C string
  is the list of the bytes from the pointer to the end of the memory behind it, so the tail of the
  list is the pointer moved on by one; a read behind the end is \<open>None\<close>. The functions of
  \<^verbatim>\<open>ctype.h\<close> are those of the C locale.
\<close>

unbundle bit_operations_syntax

section \<open>Characters\<close>

definition lwip_isdigit :: "u8 \<Rightarrow> bool" where "lwip_isdigit c \<longleftrightarrow> 0x30 \<le> c \<and> c \<le> 0x39"
definition lwip_isxdigit :: "u8 \<Rightarrow> bool" where
  "lwip_isxdigit c \<longleftrightarrow> lwip_isdigit c \<or> 0x61 \<le> c \<and> c \<le> 0x66 \<or> 0x41 \<le> c \<and> c \<le> 0x46"
definition lwip_islower :: "u8 \<Rightarrow> bool" where "lwip_islower c \<longleftrightarrow> 0x61 \<le> c \<and> c \<le> 0x7A"
definition lwip_isspace :: "u8 \<Rightarrow> bool" where "lwip_isspace c \<longleftrightarrow> c = 0x20 \<or> 0x09 \<le> c \<and> c \<le> 0x0D"

fun char_at :: "u8 list \<Rightarrow> u8 option" where
  "char_at [] = None"
| "char_at (c # cs) = Some c"

section \<open>Parsing\<close>

text \<open>
  The inner loop collects a number; the outer loop collects the parts in front of the dots. The result
  of the parser is \<open>Some None\<close> where the code returns 0. The numbers wrap around at 32 bits.
\<close>

fun aton_digits :: "u8 \<Rightarrow> u32 \<Rightarrow> u8 list \<Rightarrow> (u32 \<times> u8 list) option" where
  "aton_digits base val [] = None"
| "aton_digits base val (c # cs) =
     (if lwip_isdigit c then aton_digits base (val * ucast base + (ucast c - 0x30)) cs
      else if base = 16 \<and> lwip_isxdigit c
      then aton_digits base (push_bit 4 val OR (ucast c + 10 - (if lwip_islower c then 0x61 else 0x41))) cs
      else Some (val, c # cs))"

definition aton_number :: "u8 list \<Rightarrow> ((u32 \<times> u8 list) option) option" where
  "aton_number cp = do {
     c \<leftarrow> char_at cp;
     if \<not> lwip_isdigit c then Some None
     else do {
       (base, cp) \<leftarrow>
         (if c = 0x30 then do {
            let cp = tl cp;
            c \<leftarrow> char_at cp;
            Some (if c = 0x78 \<or> c = 0x58 then (16, tl cp) else (8, cp)) }
          else Some (10, cp));
       r \<leftarrow> aton_digits base 0 cp;
       Some (Some r) } }"

function aton_parts :: "u32 list \<Rightarrow> u8 list \<Rightarrow> ((u32 list \<times> u32 \<times> u8) option) option" where
  "aton_parts parts cp = do {
     r \<leftarrow> aton_number cp;
     (case r of
        None \<Rightarrow> Some None
      | Some (val, cp) \<Rightarrow> do {
          c \<leftarrow> char_at cp;
          if c = 0x2E then
            if length parts \<ge> 3 then Some None else aton_parts (parts @ [val]) (tl cp)
          else Some (Some (parts, val, c)) }) }"
  by pat_completeness auto
termination by (relation "measure (\<lambda>(parts, _). 3 - length parts)") auto

definition aton_concoct :: "u32 list \<Rightarrow> u32 \<Rightarrow> (u32 option) option" where
  "aton_concoct parts val =
     (case parts of
        [] \<Rightarrow> Some (Some val)
      | [a] \<Rightarrow> if val > 0xffffff then Some None else if a > 0xff then Some None
               else Some (Some (val OR push_bit 24 a))
      | [a, b] \<Rightarrow> if val > 0xffff then Some None else if a > 0xff \<or> b > 0xff then Some None
               else Some (Some (val OR (push_bit 24 a OR push_bit 16 b)))
      | [a, b, c] \<Rightarrow> if val > 0xff then Some None else if a > 0xff \<or> b > 0xff \<or> c > 0xff then Some None
               else Some (Some (val OR (push_bit 24 a OR push_bit 16 b OR push_bit 8 c)))
      | _ \<Rightarrow> None)"

definition ip4addr_aton :: "u8 list \<Rightarrow> (ip4_addr_t option) option" where
  "ip4addr_aton cp = do {
     r \<leftarrow> aton_parts [] cp;
     (case r of
        None \<Rightarrow> Some None
      | Some (parts, val, c) \<Rightarrow>
          if c \<noteq> 0 \<and> \<not> lwip_isspace c then Some None
          else do {
            v \<leftarrow> aton_concoct parts val;
            Some (map_option lwip_htonl v) }) }"

definition ipaddr_addr :: "u8 list \<Rightarrow> u32 option" where
  "ipaddr_addr cp = do {
     r \<leftarrow> ip4addr_aton cp;
     Some (case r of Some val \<Rightarrow> val | None \<Rightarrow> 0xffffffff) }"

section \<open>Printing\<close>

text \<open>
  The digits of one byte are collected in \<^verbatim>\<open>inv[3]\<close>, last digit first; a store behind the end of
  \<^verbatim>\<open>inv\<close> or of the buffer is \<open>None\<close>. Characters go to the buffer while \<^verbatim>\<open>len\<close> is below
  \<^verbatim>\<open>buflen\<close>; \<open>Inl\<close> is the return of NULL, \<open>Inr\<close> the buffer and the positions after the store.
\<close>

function ntoa_inv :: "u8 \<Rightarrow> u8 list \<Rightarrow> u8 list option" where
  "ntoa_inv ap invs =
     (let rem = ap mod 10; ap = ap div 10 in
      if length invs < 3 then
        let invs = invs @ [0x30 + rem] in if ap \<noteq> 0 then ntoa_inv ap invs else Some invs
      else None)"
  by pat_completeness auto
termination by (relation "measure (\<lambda>(_, invs). 3 - length invs)") auto

definition ntoa_put :: "u8 \<Rightarrow> int \<Rightarrow> u8 list \<times> nat \<times> int \<Rightarrow> (u8 list + u8 list \<times> nat \<times> int) option" where
  "ntoa_put c buflen st =
     (case st of (buf, rp, len) \<Rightarrow>
        if len \<ge> buflen then Some (Inl buf)
        else if rp < length buf then Some (Inr (buf[rp := c], rp + 1, len + 1)) else None)"

fun ntoa_puts :: "u8 list \<Rightarrow> int \<Rightarrow> u8 list \<times> nat \<times> int \<Rightarrow> (u8 list + u8 list \<times> nat \<times> int) option" where
  "ntoa_puts [] buflen st = Some (Inr st)"
| "ntoa_puts (c # cs) buflen st = do {
     r \<leftarrow> ntoa_put c buflen st;
     (case r of Inl buf \<Rightarrow> Some (Inl buf) | Inr st \<Rightarrow> ntoa_puts cs buflen st) }"

fun ntoa_bytes :: "u8 list \<Rightarrow> int \<Rightarrow> u8 list \<times> nat \<times> int \<Rightarrow> (u8 list + u8 list \<times> nat \<times> int) option" where
  "ntoa_bytes [] buflen st = Some (Inr st)"
| "ntoa_bytes (ap # aps) buflen st = do {
     invs \<leftarrow> ntoa_inv ap [];
     r \<leftarrow> ntoa_puts (rev invs) buflen st;
     (case r of
        Inl buf \<Rightarrow> Some (Inl buf)
      | Inr st \<Rightarrow> do {
          r \<leftarrow> ntoa_put 0x2E buflen st;
          (case r of Inl buf \<Rightarrow> Some (Inl buf) | Inr st \<Rightarrow> ntoa_bytes aps buflen st) }) }"

text \<open>The result says whether the buffer is returned (\<open>True\<close>) or NULL, and what is in the buffer.\<close>

definition ip4addr_ntoa_r :: "ip4_addr_t \<Rightarrow> u8 list \<Rightarrow> int \<Rightarrow> (bool \<times> u8 list) option" where
  "ip4addr_ntoa_r addr buf buflen = do {
     r \<leftarrow> ntoa_bytes (bytes32 addr) buflen (buf, 0, 0);
     (case r of
        Inl buf \<Rightarrow> Some (False, buf)
      | Inr (buf, rp, len) \<Rightarrow>
          if 0 < rp \<and> rp - 1 < length buf then Some (True, buf[rp - 1 := 0]) else None) }"

abbreviation (input) IP4ADDR_STRLEN_MAX :: nat where "IP4ADDR_STRLEN_MAX \<equiv> 16"

definition ip4addr_ntoa :: "u8 list \<Rightarrow> ip4_addr_t \<Rightarrow> (bool \<times> u8 list) option" where
  "ip4addr_ntoa str addr = ip4addr_ntoa_r addr str (int IP4ADDR_STRLEN_MAX)"

section \<open>Netmasks and broadcast\<close>

lemma shift_down_less: "(m :: u32) \<noteq> 0 \<Longrightarrow> unat (drop_bit 1 m) < unat m"
  by (simp add: drop_bit_eq_div unat_div word_neq_0_conv word_less_nat_alt)

function nm_skip_ones :: "u32 \<Rightarrow> u32 \<Rightarrow> u32" where
  "nm_skip_ones nm msk = (if msk \<noteq> 0 then if nm AND msk = 0 then msk else nm_skip_ones nm (drop_bit 1 msk) else msk)"
  by pat_completeness auto
termination by (relation "measure (\<lambda>(_, msk). unat msk)") (use shift_down_less in auto)

function nm_no_ones :: "u32 \<Rightarrow> u32 \<Rightarrow> bool" where
  "nm_no_ones nm msk = (if msk \<noteq> 0 then if nm AND msk \<noteq> 0 then False else nm_no_ones nm (drop_bit 1 msk) else True)"
  by pat_completeness auto
termination by (relation "measure (\<lambda>(_, msk). unat msk)") (use shift_down_less in auto)

definition ip4_addr_netmask_valid :: "u32 \<Rightarrow> bool" where
  "ip4_addr_netmask_valid netmask =
     (let nm_hostorder = lwip_htonl netmask; msk = nm_skip_ones nm_hostorder (push_bit 31 1)
      in nm_no_ones nm_hostorder msk)"

text \<open>Of the interface: its \<^verbatim>\<open>NETIF_FLAG_BROADCAST\<close>, its address and its netmask.\<close>

definition ip4_addr_isbroadcast_u32 :: "u32 \<Rightarrow> bool \<Rightarrow> ip4_addr_t \<Rightarrow> ip4_addr_t \<Rightarrow> bool" where
  "ip4_addr_isbroadcast_u32 addr netif_broadcast netif_ip netif_mask \<longleftrightarrow>
     (if NOT addr = 0 \<or> addr = 0 then True
      else if \<not> netif_broadcast then False
      else if addr = netif_ip then False
      else if addr AND netif_mask = netif_ip AND netif_mask
              \<and> addr AND NOT netif_mask = 0xffffffff AND NOT netif_mask then True
      else False)"

declare aton_parts.simps [simp del] ntoa_inv.simps [simp del] nm_skip_ones.simps [simp del] nm_no_ones.simps [simp del]

section \<open>Decimal digits of a byte\<close>

definition digs8 :: "u8 \<Rightarrow> u8 list" where
  "digs8 b = (if b < 10 then [b] else if b < 100 then [b div 10, b mod 10] else [b div 100, b div 10 mod 10, b mod 10])"

definition dec8 :: "u8 \<Rightarrow> u8 list" where
  "dec8 b = map (\<lambda>d. 0x30 + d) (digs8 b)"

lemma all_u8: "list_all P (map of_nat [0..<256]) \<Longrightarrow> P (b :: u8)"
proof -
  assume "list_all P (map of_nat [0..<256])"
  moreover have "b \<in> set (map of_nat [0..<256])" using unat_u8_lt [of b] by (force intro: image_eqI [of _ _ "unat b"])
  ultimately show "P b" unfolding list_all_iff by blast
qed

lemma ntoa_inv_eq: "ntoa_inv b [] = Some (rev (dec8 b))"
  by (rule all_u8 [of "\<lambda>b. ntoa_inv b [] = Some (rev (dec8 b))"]) code_simp

lemma ucast_div_mod_10:
  "ucast (b div 10) * 10 + ucast (b mod 10) = (ucast (b :: u8) :: u32)"
proof -
  have e: "unat (ucast x :: u32) = unat x" for x :: u8 by (rule unat_ucast_up) simp
  have "unat (b div 10) * 10 + unat (b mod 10) = unat b" by (simp add: unat_div unat_mod)
  moreover have "unat (b div 10) * 10 < 2 ^ 32" "unat b < 2 ^ 32" using unat_u8_lt [of "b div 10"] unat_u8_lt [of b] by simp_all
  ultimately show ?thesis by (simp add: word_unat_eq_iff unat_word_ariths e)
qed

lemma digs8_facts:
  "list_all (\<lambda>d. d < 10) (digs8 b)" "foldl (\<lambda>v d. v * 10 + ucast d) 0 (digs8 b) = (ucast b :: u32)"
  "hd (digs8 b) = 0 \<longleftrightarrow> b = 0" "digs8 b \<noteq> []" "length (digs8 b) \<le> 3"
proof -
  show "list_all (\<lambda>d. d < 10) (digs8 b)"
    by (rule all_u8 [of "\<lambda>b. list_all (\<lambda>d. d < 10) (digs8 b)"]) code_simp
  show "hd (digs8 b) = 0 \<longleftrightarrow> b = 0"
    by (rule all_u8 [of "\<lambda>b. hd (digs8 b) = 0 \<longleftrightarrow> b = 0"]) code_simp
  have d: "b div 10 div 10 = b div 100" for b :: u8 by (simp add: word_unat_eq_iff unat_div div_mult2_eq [symmetric])
  show "foldl (\<lambda>v d. v * 10 + ucast d) 0 (digs8 b) = (ucast b :: u32)"
    using ucast_div_mod_10 [of b] ucast_div_mod_10 [of "b div 10"] by (simp add: digs8_def d)
qed (simp_all add: digs8_def)

lemma digit_char:
  "d < 10 \<Longrightarrow> lwip_isdigit (0x30 + d)" "d < 10 \<Longrightarrow> ucast (0x30 + d) - 0x30 = (ucast d :: u32)"
proof -
  have "d < 10 \<longrightarrow> lwip_isdigit (0x30 + d) \<and> ucast (0x30 + d) - 0x30 = (ucast d :: u32)"
    by (rule all_u8 [of "\<lambda>d. d < 10 \<longrightarrow> lwip_isdigit (0x30 + d) \<and> ucast (0x30 + d) - 0x30 = (ucast d :: u32)"]) code_simp
  then show "d < 10 \<Longrightarrow> lwip_isdigit (0x30 + d)" "d < 10 \<Longrightarrow> ucast (0x30 + d) - 0x30 = (ucast d :: u32)" by blast+
qed

lemma aton_digits_dec:
  assumes "list_all (\<lambda>d. d < 10) ds" and "\<not> lwip_isdigit c"
  shows "aton_digits 10 v (map (\<lambda>d. 0x30 + d) ds @ c # cs) = Some (foldl (\<lambda>v d. v * 10 + ucast d) v ds, c # cs)"
  using assms by (induction ds arbitrary: v) (simp_all add: digit_char)

lemma aton_number_dec8:
  assumes "\<not> lwip_isdigit c" and "c \<noteq> 0x78" and "c \<noteq> 0x58"
  shows "aton_number (dec8 b @ c # cs) = Some (Some (ucast b, c # cs))"
proof (cases "b = 0")
  case True
  moreover have "lwip_isdigit 0x30" by (simp add: lwip_isdigit_def)
  ultimately show ?thesis using assms by (simp add: aton_number_def dec8_def digs8_def)
next
  case False
  obtain d ds where ds: "digs8 b = d # ds" using digs8_facts(4) by (cases "digs8 b") auto
  have "d \<noteq> 0" "d < 10" using digs8_facts(1,3) [of b] ds False by auto
  then have "lwip_isdigit (0x30 + d)" "0x30 + d \<noteq> 0x30" by (simp_all add: digit_char)
  then show ?thesis using aton_digits_dec [OF digs8_facts(1) assms(1), of 0 b cs] digs8_facts(2) [of b]
    by (simp add: aton_number_def dec8_def ds)
qed

section \<open>The printed address\<close>

definition dotted :: "ip4_addr_t \<Rightarrow> u8 list" where
  "dotted addr = (case bytes32 addr of [a, b, c, d] \<Rightarrow> dec8 a @ 0x2E # dec8 b @ 0x2E # dec8 c @ 0x2E # dec8 d | _ \<Rightarrow> [])"

lemma ntoa_puts_append:
  "ntoa_puts (xs @ ys) n st = do {
     r \<leftarrow> ntoa_puts xs n st; (case r of Inl buf \<Rightarrow> Some (Inl buf) | Inr st \<Rightarrow> ntoa_puts ys n st) }"
  by (induction xs arbitrary: st) (auto simp: bind_eq_None_conv split: option.splits sum.splits Option.bind_splits)

lemma ntoa_bytes_puts: "ntoa_bytes aps n st = ntoa_puts (concat (map (\<lambda>b. dec8 b @ [0x2E]) aps)) n st"
proof (induction aps arbitrary: st)
  case (Cons ap aps)
  then have "ntoa_bytes aps n = ntoa_puts (concat (map (\<lambda>b. dec8 b @ [0x2E]) aps)) n" by (rule ext)
  then show ?case
    by (simp only: ntoa_bytes.simps ntoa_inv_eq bind.bind_lunit rev_rev_ident list.map concat.simps append_assoc
        ntoa_puts_append append.simps ntoa_puts.simps)
qed simp

lemma ntoa_puts_eq:
  assumes "length buf = n" and "i \<le> n"
  shows "ntoa_puts cs (int n) (buf, i, int i) =
     Some (if i + length cs \<le> n then Inr (overlay i cs buf, i + length cs, int (i + length cs))
           else Inl (overlay i (take (n - i) cs) buf))"
  using assms
proof (induction cs arbitrary: buf i)
  case (Cons c cs)
  show ?case
  proof (cases "i < n")
    case True
    have o: "overlay (i + 1) zs (buf[i := c]) = overlay i (c # zs) buf" for zs
      using True Cons.prems by (simp add: overlay_def upd_conv_take_nth_drop take_Suc_conv_app_nth min_absorb2 add.commute)
    have "ntoa_puts (c # cs) (int n) (buf, i, int i) = ntoa_puts cs (int n) (buf[i := c], i + 1, int (i + 1))"
      using True Cons.prems by (simp add: ntoa_put_def add.commute)
    also have "\<dots> = Some (if i + 1 + length cs \<le> n then Inr (overlay i (c # cs) buf, i + 1 + length cs, int (i + 1 + length cs))
           else Inl (overlay i (c # take (n - (i + 1)) cs) buf))"
      using Cons.IH [of "buf[i := c]" "i + 1"] True Cons.prems unfolding o by simp
    also have "c # take (n - (i + 1)) cs = take (n - i) (c # cs)" using True by (simp add: take_Cons')
    finally show ?thesis by simp
  next
    case False
    then show ?thesis using Cons.prems by (simp add: ntoa_put_def)
  qed
qed simp

lemma dotted_out: "concat (map (\<lambda>b. dec8 b @ [0x2E]) (bytes32 addr)) = dotted addr @ [0x2E]"
  by (simp add: dotted_def bytes32_def)

lemma dotted_length: "length (dotted addr) \<le> 15"
  using digs8_facts(5) [of "ucast addr"] digs8_facts(5) [of "ucast (drop_bit 8 addr)"]
    digs8_facts(5) [of "ucast (drop_bit 16 addr)"] digs8_facts(5) [of "ucast (drop_bit 24 addr)"]
  by (simp add: dotted_def bytes32_def dec8_def)

lemma ip4addr_ntoa_r_eq:
  assumes "length buf = n"
  shows "ip4addr_ntoa_r addr buf (int n) =
     Some (if length (dotted addr) < n then (True, dotted addr @ 0 # drop (length (dotted addr) + 1) buf)
           else (False, take n (dotted addr)))"
proof (cases "length (dotted addr) < n")
  case True
  then show ?thesis using ntoa_puts_eq [OF assms, of 0 "dotted addr @ [0x2E]"]
    by (simp add: ip4addr_ntoa_r_def ntoa_bytes_puts dotted_out overlay_def list_update_append)
next
  case False
  then show ?thesis using ntoa_puts_eq [OF assms, of 0 "dotted addr @ [0x2E]"] assms
    by (simp add: ip4addr_ntoa_r_def ntoa_bytes_puts dotted_out overlay_def)
qed

section \<open>Parsing what was printed\<close>

lemma aton_parts_dec8:
  "length ps < 3 \<Longrightarrow> aton_parts ps (dec8 b @ 0x2E # cs) = aton_parts (ps @ [ucast b]) cs"
  "aton_parts ps (dec8 b @ 0 # cs) = Some (Some (ps, ucast b, 0))"
  by (simp_all add: aton_parts.simps [of ps] aton_number_dec8 lwip_isdigit_def)

lemma small_part: "(ucast (b :: u8) :: u32) \<le> 0xff"
  using unat_u8_lt [of b] by (simp add: word_le_nat_alt unat_ucast_up)

lemma bytes32_join:
  "bytes32 (ucast d OR (push_bit 24 (ucast a) OR push_bit 16 (ucast b) OR push_bit 8 (ucast c))) = [d, c, b, a]"
  unfolding bytes32_def list.inject
  by (intro conjI bit_word_eqI) (auto simp: bit_simps dest: bit_imp_le_length)

lemma ip4addr_aton_dotted: "ip4addr_aton (dotted addr @ 0 # rest) = Some (Some addr)"
proof -
  let ?a = "ucast addr :: u8" and ?b = "ucast (drop_bit 8 addr) :: u8" and ?c = "ucast (drop_bit 16 addr) :: u8"
    and ?d = "ucast (drop_bit 24 addr) :: u8"
  let ?v = "ucast ?d OR (push_bit 24 (ucast ?a) OR push_bit 16 (ucast ?b) OR push_bit 8 (ucast ?c)) :: u32"
  have "aton_parts [] (dotted addr @ 0 # rest) = Some (Some ([ucast ?a, ucast ?b, ucast ?c], ucast ?d, 0))"
    by (simp add: dotted_def bytes32_def aton_parts_dec8)
  moreover have "aton_concoct [ucast ?a, ucast ?b, ucast ?c] (ucast ?d) = Some (Some ?v)"
    using small_part by (simp add: aton_concoct_def linorder_not_less)
  moreover have "lwip_htonl ?v = addr"
    by (rule bytes32_inject) (simp only: bytes32_htonl bytes32_join, simp add: bytes32_def)
  ultimately show ?thesis by (simp add: ip4addr_aton_def)
qed

section \<open>The parser stays within the string\<close>

lemma aton_digits_stops: "\<exists>v' s'. \<forall>rest. aton_digits base v (s @ 0 # rest) = Some (v', s' @ 0 # rest)"
proof (induction s arbitrary: v)
  case Nil
  have "aton_digits base v ([] @ 0 # rest) = Some (v, [] @ 0 # rest)" for rest
    by (simp add: lwip_isdigit_def lwip_isxdigit_def)
  then show ?case by blast
next
  case (Cons c s)
  show ?case
  proof (cases "lwip_isdigit c \<or> base = 16 \<and> lwip_isxdigit c")
    case True
    then obtain w where "\<And>rest. aton_digits base v ((c # s) @ 0 # rest) = aton_digits base w (s @ 0 # rest)"
      by (cases "lwip_isdigit c") auto
    then show ?thesis using Cons.IH [of w] by auto
  next
    case False
    then have "aton_digits base v ((c # s) @ 0 # rest) = Some (v, (c # s) @ 0 # rest)" for rest by auto
    then show ?thesis by blast
  qed
qed

lemma aton_number_stops:
  "(\<forall>rest. aton_number (s @ 0 # rest) = Some None) \<or> (\<exists>v s'. \<forall>rest. aton_number (s @ 0 # rest) = Some (Some (v, s' @ 0 # rest)))"
proof (cases s)
  case Nil
  then show ?thesis by (simp add: aton_number_def lwip_isdigit_def)
next
  case (Cons c s2)
  have d: "\<exists>v s'. \<forall>rest. aton_digits base 0 (s @ 0 # rest) \<bind> (\<lambda>r. Some (Some r)) = Some (Some (v, s' @ 0 # rest))" for base s
    using aton_digits_stops [of base 0 s] by auto
  show ?thesis
  proof (cases "c = 0x30")
    case True
    show ?thesis
    proof (cases s2)
      case Nil
      then show ?thesis using d [of 8 s2] Cons True by (simp add: aton_number_def lwip_isdigit_def)
    next
      case (Cons c2 s3)
      then show ?thesis using d [of 8 s2] d [of 16 s3] \<open>s = c # s2\<close> True
        by (cases "c2 = 0x78 \<or> c2 = 0x58") (auto simp: aton_number_def lwip_isdigit_def)
    qed
  next
    case False
    then show ?thesis using d [of 10 s] Cons by (cases "lwip_isdigit c") (simp_all add: aton_number_def)
  qed
qed

lemma aton_parts_stops:
  assumes "length ps \<le> 3"
  shows "\<exists>r. (\<forall>rest. aton_parts ps (s @ 0 # rest) = Some r) \<and> (\<forall>ps' v c. r = Some (ps', v, c) \<longrightarrow> length ps' \<le> 3)"
  using assms
proof (induction "3 - length ps" arbitrary: ps s)
  case less: (Suc k)
  consider "\<forall>rest. aton_number (s @ 0 # rest) = Some None"
    | v s' where "\<forall>rest. aton_number (s @ 0 # rest) = Some (Some (v, s' @ 0 # rest))" using aton_number_stops [of s] by blast
  then show ?case
  proof cases
    case 1
    then show ?thesis by (intro exI [of _ None]) (simp add: aton_parts.simps [of ps])
  next
    case (2 v s')
    show ?thesis
    proof (cases "s' = [] \<or> hd s' \<noteq> 0x2E")
      case True
      then have "\<forall>rest. aton_parts ps (s @ 0 # rest) = Some (Some (ps, v, if s' = [] then 0 else hd s'))"
        using 2 by (cases s') (simp_all add: aton_parts.simps [of ps])
      then show ?thesis using less.prems by auto
    next
      case False
      then obtain s2 where s2: "s' = 0x2E # s2" by (cases s') auto
      have "k = 3 - length (ps @ [v])" "length (ps @ [v]) \<le> 3" using less.hyps(2) by simp_all
      moreover have "aton_parts ps (s @ 0 # rest) = aton_parts (ps @ [v]) (s2 @ 0 # rest)" for rest
      proof -
        have "\<not> 3 \<le> length ps" using less.hyps(2) by simp
        then show ?thesis using 2 by (simp add: aton_parts.simps [of ps] s2)
      qed
      ultimately show ?thesis using less.hyps(1) [of "ps @ [v]" s2] by simp
    qed
  qed
next
  case 0
  consider "\<forall>rest. aton_number (s @ 0 # rest) = Some None"
    | v s' where "\<forall>rest. aton_number (s @ 0 # rest) = Some (Some (v, s' @ 0 # rest))" using aton_number_stops [of s] by blast
  then show ?case
  proof cases
    case 1
    then show ?thesis by (intro exI [of _ None]) (simp add: aton_parts.simps [of ps])
  next
    case (2 v s')
    then have "\<forall>rest. aton_parts ps (s @ 0 # rest) =
        Some (if s' \<noteq> [] \<and> hd s' = 0x2E then None else Some (ps, v, if s' = [] then 0 else hd s'))"
      using 0 by (cases s') (simp_all add: aton_parts.simps [of ps])
    then show ?thesis using 0 by auto
  qed
qed

lemma aton_concoct_total: "length parts \<le> 3 \<Longrightarrow> aton_concoct parts val \<noteq> None"
  by (auto simp: aton_concoct_def split: list.splits)

lemma ip4addr_aton_total: "\<exists>r. \<forall>rest. ip4addr_aton (s @ 0 # rest) = Some r"
proof -
  obtain r where r: "\<And>rest. aton_parts [] (s @ 0 # rest) = Some r" "\<And>ps v c. r = Some (ps, v, c) \<Longrightarrow> length ps \<le> 3"
    using aton_parts_stops [of "[]" s] by auto
  show ?thesis
  proof (cases "\<exists>ps v c. r = Some (ps, v, c) \<and> \<not> (c \<noteq> 0 \<and> \<not> lwip_isspace c)")
    case True
    then obtain ps v c where e: "r = Some (ps, v, c)" "\<not> (c \<noteq> 0 \<and> \<not> lwip_isspace c)" by blast
    obtain w where "aton_concoct ps v = Some w" using aton_concoct_total [OF r(2) [OF e(1)]] by blast
    then show ?thesis using r(1) e by (simp add: ip4addr_aton_def)
  next
    case False
    then have "ip4addr_aton (s @ 0 # rest) = Some None" for rest
      using r(1) by (cases r) (auto simp: ip4addr_aton_def split: prod.splits)
    then show ?thesis by blast
  qed
qed

section \<open>Netmasks\<close>

definition one_at :: "nat \<Rightarrow> u32" where "one_at i = push_bit i 1"

lemma one_at_facts:
  "x AND one_at i = 0 \<longleftrightarrow> \<not> bit x i" "i < 32 \<Longrightarrow> one_at i \<noteq> 0" "i < 31 \<Longrightarrow> drop_bit 1 (one_at (Suc i)) = one_at i"
  "drop_bit 1 (one_at 0) = 0"
proof -
  show "x AND one_at i = 0 \<longleftrightarrow> \<not> bit x i" unfolding one_at_def by (metis bit_iff_and_push_bit_not_eq_0)
  show "i < 31 \<Longrightarrow> drop_bit 1 (one_at (Suc i)) = one_at i"
    unfolding one_at_def by (rule bit_word_eqI) (auto simp: bit_simps)
  show "one_at i \<noteq> 0" if "i < 32"
  proof -
    have "bit (one_at i) i" using that by (simp add: one_at_def bit_simps)
    then show ?thesis by (rule contrapos_pn) simp
  qed
qed (simp add: one_at_def)

lemma nm_step:
  "i < 31 \<Longrightarrow> nm_no_ones x (one_at (Suc i)) \<longleftrightarrow> \<not> bit x (Suc i) \<and> nm_no_ones x (one_at i)"
  "nm_no_ones x (one_at 0) \<longleftrightarrow> \<not> bit x 0"
  "i < 31 \<Longrightarrow> nm_skip_ones x (one_at (Suc i)) = (if bit x (Suc i) then nm_skip_ones x (one_at i) else one_at (Suc i))"
  "nm_skip_ones x (one_at 0) = (if bit x 0 then 0 else one_at 0)"
  by (simp_all add: nm_no_ones.simps [of x "one_at (Suc i)"] nm_skip_ones.simps [of x "one_at (Suc i)"]
      nm_no_ones.simps [of x "one_at 0"] nm_skip_ones.simps [of x "one_at 0"] one_at_facts [simplified]
      nm_no_ones.simps [of x 0] nm_skip_ones.simps [of x 0])

lemma nm_no_ones_eq: "i < 32 \<Longrightarrow> nm_no_ones x (one_at i) \<longleftrightarrow> (\<forall>j\<le>i. \<not> bit x j)"
  by (induction i) (auto simp: nm_step le_Suc_eq)

lemma nm_valid_eq: "i < 32 \<Longrightarrow> nm_no_ones x (nm_skip_ones x (one_at i)) \<longleftrightarrow> (\<exists>k. \<forall>j\<le>i. bit x j \<longleftrightarrow> k \<le> j)"
proof (induction i)
  case 0
  show ?case by (auto simp: nm_step nm_no_ones.simps [of x 0] intro: exI [of _ 0] exI [of _ 1])
next
  case (Suc i)
  show ?case
  proof (cases "bit x (Suc i)")
    case True
    have "(\<exists>k. \<forall>j\<le>i. bit x j \<longleftrightarrow> k \<le> j) \<longleftrightarrow> (\<exists>k. \<forall>j\<le>Suc i. bit x j \<longleftrightarrow> k \<le> j)" (is "?L \<longleftrightarrow> ?R")
    proof
      assume ?L
      then obtain k where "\<forall>j\<le>i. bit x j \<longleftrightarrow> k \<le> j" by blast
      then have "\<forall>j\<le>Suc i. bit x j \<longleftrightarrow> min k (Suc i) \<le> j" using True by (auto simp: le_Suc_eq)
      then show ?R by blast
    qed auto
    then show ?thesis using Suc True by (simp add: nm_step)
  next
    case False
    have "(\<forall>j\<le>Suc i. \<not> bit x j) \<longleftrightarrow> (\<exists>k. \<forall>j\<le>Suc i. bit x j \<longleftrightarrow> k \<le> j)"
      using False by (auto simp: le_Suc_eq intro: exI [of _ "Suc (Suc i)"])
    moreover have "nm_skip_ones x (one_at (Suc i)) = one_at (Suc i)" using False Suc.prems by (simp add: nm_step)
    ultimately show ?thesis using nm_no_ones_eq [OF Suc.prems, of x] by simp
  qed
qed

section \<open>Theorems\<close>

text \<open>
  C39. The text that \<^verbatim>\<open>ip4addr_ntoa\<close> writes is parsed back to the same address, for every
  address and whatever the buffer held before.
\<close>

theorem ip4addr_ntoa_aton:
  assumes "length str = IP4ADDR_STRLEN_MAX"
  shows "\<exists>str'. ip4addr_ntoa str addr = Some (True, str') \<and> length str' = IP4ADDR_STRLEN_MAX \<and> ip4addr_aton str' = Some (Some addr)"
proof -
  have "length (dotted addr) < 16" using dotted_length [of addr] by simp
  then show ?thesis using ip4addr_ntoa_r_eq [OF assms, of addr] ip4addr_aton_dotted [of addr] assms
    by (simp add: ip4addr_ntoa_def)
qed

theorem ip4addr_ntoa_aton_witness:
  "\<exists>str'. ip4addr_ntoa (replicate 16 0xAA) 0x0100007f = Some (True, str') \<and> length str' = 16
     \<and> ip4addr_aton str' = Some (Some 0x0100007f)"
  using ip4addr_ntoa_aton [of "replicate 16 0xAA" "0x0100007f"] by simp

text \<open>
  C40. \<^verbatim>\<open>ip4addr_ntoa_r\<close> never writes outside a buffer of \<^verbatim>\<open>buflen\<close> bytes: it returns the
  dotted decimal text with its terminator when that fits, and NULL otherwise.
\<close>

theorem ip4addr_ntoa_r_bounds:
  assumes "length buf = n"
  shows "\<exists>ok buf'. ip4addr_ntoa_r addr buf (int n) = Some (ok, buf') \<and> length buf' = n \<and> (ok \<longleftrightarrow> length (dotted addr) < n)
     \<and> (ok \<longrightarrow> buf' = dotted addr @ 0 # drop (length (dotted addr) + 1) buf)"
  using ip4addr_ntoa_r_eq [OF assms, of addr] assms by (simp add: min_absorb2)

theorem ip4addr_ntoa_r_bounds_witness:
  "\<exists>buf'. ip4addr_ntoa_r 0x0100007f [0, 0, 0, 0] 4 = Some (False, buf') \<and> length buf' = 4"
proof -
  have "length (dotted 0x0100007f) = 9" by code_simp
  then show ?thesis using ip4addr_ntoa_r_bounds [of "[0, 0, 0, 0]" 4 "0x0100007f"] by auto
qed

text \<open>
  Parsing ends, and depends on nothing behind the terminating zero: for every string \<open>s\<close> the parser
  returns one result whatever follows in memory.
\<close>

theorem ip4addr_aton_stays_inside:
  "\<exists>r. \<forall>rest. ip4addr_aton (s @ 0 # rest) = Some r"
  by (rule ip4addr_aton_total)

text \<open>
  A netmask is accepted exactly when, in host order, it consists of ones followed by zeros.
\<close>

theorem ip4_addr_netmask_valid_iff:
  "ip4_addr_netmask_valid netmask \<longleftrightarrow> (\<exists>k. lwip_htonl netmask = NOT (mask k))"
proof -
  let ?x = "lwip_htonl netmask"
  have "ip4_addr_netmask_valid netmask \<longleftrightarrow> (\<exists>k. \<forall>j\<le>31. bit ?x j \<longleftrightarrow> k \<le> j)"
    using nm_valid_eq [of 31 ?x] by (simp add: ip4_addr_netmask_valid_def one_at_def)
  also have "\<dots> \<longleftrightarrow> (\<exists>k. ?x = NOT (mask k))"
  proof (intro ex_cong1)
    fix k
    have "?x = NOT (mask k) \<longleftrightarrow> (\<forall>j<32. bit ?x j \<longleftrightarrow> bit (NOT (mask k) :: u32) j)"
      by (auto simp: bit_eq_iff dest: bit_imp_le_length intro!: bit_word_eqI)
    then show "(\<forall>j\<le>31. bit ?x j \<longleftrightarrow> k \<le> j) \<longleftrightarrow> ?x = NOT (mask k)"
      by (auto simp: bit_simps less_Suc_eq_le [symmetric])
  qed
  finally show ?thesis .
qed

text \<open>
  The parts of an address are collected modulo \<open>2\<^sup>3\<^sup>2\<close>: the text 4294967297.0.0.1 is not rejected but read as
  1.0.0.1.
\<close>

theorem ip4addr_aton_wraps:
  "ip4addr_aton ([0x34, 0x32, 0x39, 0x34, 0x39, 0x36, 0x37, 0x32, 0x39, 0x37, 0x2E, 0x30, 0x2E, 0x30, 0x2E, 0x31] @ [0])
   = ip4addr_aton (dotted 0x01000001 @ [0])"
  by code_simp

end
