(* ===== verification/Serial_Numbers.thy ===== *)
theory Serial_Numbers
  imports Lwip_Prelude
begin

text \<open>
  32-bit counters that wrap around: the millisecond clock of \<^verbatim>\<open>timeouts.c\<close> and the
  sequence numbers of TCP (\<^verbatim>\<open>priv/tcp_priv.h\<close>). Both are compared by the sign of the
  difference. The comparison is not transitive on all numbers; it is the usual order on
  any window of \<open>2\<^sup>3\<^sup>1\<close> consecutive numbers, which is what the locale \<open>serial_order\<close>
  provides to its clients.
\<close>

unbundle bit_operations_syntax

section \<open>The comparisons of the code\<close>

abbreviation (input) LWIP_MAX_TIMEOUT :: u32 where "LWIP_MAX_TIMEOUT \<equiv> 0x7fffffff"

definition TIME_LESS_THAN :: "u32 \<Rightarrow> u32 \<Rightarrow> bool" where
  "TIME_LESS_THAN t compare_to \<longleftrightarrow> t - compare_to > LWIP_MAX_TIMEOUT"

definition TCP_SEQ_LT :: "u32 \<Rightarrow> u32 \<Rightarrow> bool" where "TCP_SEQ_LT a b \<longleftrightarrow> sint (a - b) < 0"
definition TCP_SEQ_LEQ :: "u32 \<Rightarrow> u32 \<Rightarrow> bool" where "TCP_SEQ_LEQ a b \<longleftrightarrow> sint (a - b) \<le> 0"
definition TCP_SEQ_GT :: "u32 \<Rightarrow> u32 \<Rightarrow> bool" where "TCP_SEQ_GT a b \<longleftrightarrow> sint (a - b) > 0"
definition TCP_SEQ_GEQ :: "u32 \<Rightarrow> u32 \<Rightarrow> bool" where "TCP_SEQ_GEQ a b \<longleftrightarrow> sint (a - b) \<ge> 0"

definition TCP_SEQ_BETWEEN :: "u32 \<Rightarrow> u32 \<Rightarrow> u32 \<Rightarrow> bool" where
  "TCP_SEQ_BETWEEN a b c \<longleftrightarrow> TCP_SEQ_GEQ a b \<and> TCP_SEQ_LEQ a c"

section \<open>Order on a window\<close>

definition dist_from :: "u32 \<Rightarrow> u32 \<Rightarrow> nat" where
  "dist_from base t = unat (t - base)"

definition in_window :: "u32 \<Rightarrow> u32 \<Rightarrow> bool" where
  "in_window base t \<longleftrightarrow> dist_from base t < 2 ^ 31"

lemma dist_from_inj: "dist_from base a = dist_from base b \<longleftrightarrow> a = b"
  by (auto simp: dist_from_def word_unat_eq_iff [symmetric])

lemma high_diff:
  fixes x y :: u32
  assumes "unat x < 2 ^ 31" and "unat y < 2 ^ 31"
  shows "0x7fffffff < x - y \<longleftrightarrow> unat x < unat y"
  using assms by (auto simp: word_less_nat_alt unat_sub_if')

lemma sint_neg_iff: "sint (x :: u32) < 0 \<longleftrightarrow> 0x7fffffff < x"
proof -
  have "sint x < 0 \<longleftrightarrow> bit x 31" using bit_last_iff [of x] by simp
  also have "\<dots> \<longleftrightarrow> odd (unat x div 2 ^ 31)" 
  proof -
    have "bit x 31 = bit (unat x) 31" by (simp add: bit_unsigned_iff)
    then show ?thesis by (simp add: bit_iff_odd)
  qed
  also have "\<dots> \<longleftrightarrow> 2 ^ 31 \<le> unat x"
  proof
    assume "odd (unat x div 2 ^ 31)"
    then show "2 ^ 31 \<le> unat x" by (metis div_less even_zero linorder_not_less)
  next
    assume "2 ^ 31 \<le> unat x"
    moreover have "unat x < 2 * 2 ^ 31" using unat_u32_lt [of x] by simp
    ultimately have "unat x div 2 ^ 31 = 1" by (intro div_nat_eqI) simp_all
    then show "odd (unat x div 2 ^ 31)" by simp
  qed
  finally show ?thesis unfolding word_less_nat_alt by simp linarith
qed

lemma sint_zero_iff: "sint (x :: u32) = 0 \<longleftrightarrow> x = 0"
  by (metis signed_0 signed_eq_0_iff)

locale serial_order =
  fixes lt :: "u32 \<Rightarrow> u32 \<Rightarrow> bool"
  assumes lt_sign: "lt a b \<longleftrightarrow> LWIP_MAX_TIMEOUT < a - b"
begin

lemma lt_window: "in_window base a \<Longrightarrow> in_window base b \<Longrightarrow> lt a b \<longleftrightarrow> dist_from base a < dist_from base b"
  using high_diff [of "a - base" "b - base"] by (simp add: lt_sign in_window_def dist_from_def)

lemma lt_irrefl: "\<not> lt a a"
  by (simp add: lt_sign)

lemma lt_trans:
  "in_window base a \<Longrightarrow> in_window base b \<Longrightarrow> in_window base c \<Longrightarrow> lt a b \<Longrightarrow> lt b c \<Longrightarrow> lt a c"
  by (simp add: lt_window)

lemma not_lt_trans:
  "in_window base a \<Longrightarrow> in_window base b \<Longrightarrow> in_window base c \<Longrightarrow> \<not> lt b a \<Longrightarrow> \<not> lt c b \<Longrightarrow> \<not> lt c a"
  by (simp add: lt_window)

lemma lt_total: "in_window base a \<Longrightarrow> in_window base b \<Longrightarrow> lt a b \<or> a = b \<or> lt b a"
  using dist_from_inj [of base a b] by (auto simp: lt_window)

end

interpretation timer: serial_order TIME_LESS_THAN
  by unfold_locales (simp add: TIME_LESS_THAN_def)

interpretation tcp_seq: serial_order TCP_SEQ_LT
  by unfold_locales (simp add: TCP_SEQ_LT_def sint_neg_iff)

lemma TCP_SEQ_relations:
  "TCP_SEQ_GEQ a b \<longleftrightarrow> \<not> TCP_SEQ_LT a b"
  "TCP_SEQ_LEQ a b \<longleftrightarrow> TCP_SEQ_LT a b \<or> a = b"
  "TCP_SEQ_GT a b \<longleftrightarrow> \<not> TCP_SEQ_LT a b \<and> a \<noteq> b"
  using sint_zero_iff [of "a - b"]
  by (auto simp: TCP_SEQ_GEQ_def TCP_SEQ_LT_def TCP_SEQ_LEQ_def TCP_SEQ_GT_def)

end
