(* ===== verification/Timeouts.thy ===== *)
theory Timeouts
  imports C_Memory Serial_Numbers "HOL-Library.Multiset"
begin

text \<open>
  The timer list of \<^verbatim>\<open>core/c/core/timeouts.c\<close>. The singly linked list
  \<^verbatim>\<open>next_timeout\<close> is a list here (only this file touches its nodes). The handlers that
  belong to the file are modelled; the work they do elsewhere (\<^verbatim>\<open>tcp_tmr\<close> and the
  other cyclic handlers, application handlers, \<^verbatim>\<open>pbuf_free_ooseq\<close>) and the test for
  TCP connections are parameters, collected in \<open>timer_env\<close>, that act on the whole state.
  \<open>None\<close> is a stop of the program or, for \<^verbatim>\<open>sys_check_timeouts\<close>, a loop that never ends.
\<close>

section \<open>State\<close>

datatype timer_work = Work_tcp_tmr | Work_ip_reass_tmr | Work_nd6_tmr | Work_ip6_reass_tmr | Work_app nat nat

datatype sys_timeout_handler = No_Handler | Tcpip_Tcp_Timer | Lwip_Cyclic_Timer | App_Handler nat

record sys_timeo =
  time :: u32
  handler :: sys_timeout_handler
  harg :: nat

record 'w timers =
  next_timeout :: "sys_timeo list"
  current_timeout_due_time :: u32
  tcpip_tcp_timer_active :: bool
  sys_now :: u32
  timeo_mallocs :: "bool list"
  world :: 'w

record 'w timer_env =
  do_work :: "timer_work \<Rightarrow> 'w timers \<Rightarrow> 'w timers option"
  check_free_ooseq :: "'w \<Rightarrow> 'w"
  tcp_pcbs_present :: "'w \<Rightarrow> bool"

text \<open>The cyclic timers of this configuration: interval in milliseconds and handler.\<close>

definition lwip_cyclic_timers :: "(u32 \<times> timer_work) list" where
  "lwip_cyclic_timers =
     [(250, Work_tcp_tmr), (1000, Work_ip_reass_tmr), (1000, Work_nd6_tmr), (1000, Work_ip6_reass_tmr)]"

section \<open>Operations\<close>

text \<open>The search for the place in the list, behind all entries that are not later.\<close>

fun insert_behind :: "sys_timeo \<Rightarrow> sys_timeo list \<Rightarrow> sys_timeo list" where
  "insert_behind timeout [] = [timeout]"
| "insert_behind timeout [t] = [t, timeout]"
| "insert_behind timeout (t # n # ts) =
     (if TIME_LESS_THAN (time timeout) (time n) then t # timeout # n # ts
      else t # insert_behind timeout (n # ts))"

definition timeo_available :: "'w timers \<Rightarrow> bool" where
  "timeo_available s \<longleftrightarrow> timeo_mallocs s = [] \<or> hd (timeo_mallocs s)"

definition sys_timeout_abs :: "u32 \<Rightarrow> sys_timeout_handler \<Rightarrow> nat \<Rightarrow> 'w timers \<Rightarrow> 'w timers option" where
  "sys_timeout_abs abs_time h arg s = do {
     LWIP_ASSERT (timeo_available s);
     let timeout = \<lparr>time = abs_time, handler = h, harg = arg\<rparr>;
     let s = s\<lparr>timeo_mallocs := tl (timeo_mallocs s)\<rparr>;
     Some (s\<lparr>next_timeout :=
       (case next_timeout s of
          [] \<Rightarrow> [timeout]
        | n # ts \<Rightarrow> if TIME_LESS_THAN abs_time (time n) then timeout # n # ts
                   else insert_behind timeout (n # ts))\<rparr>) }"

definition sys_timeout :: "u32 \<Rightarrow> sys_timeout_handler \<Rightarrow> nat \<Rightarrow> 'w timers \<Rightarrow> 'w timers option" where
  "sys_timeout msecs h arg s = do {
     LWIP_ASSERT (msecs \<le> 0x3fffffff);
     sys_timeout_abs (sys_now s + msecs) h arg s }"

abbreviation (input) TCP_TMR_INTERVAL :: u32 where "TCP_TMR_INTERVAL \<equiv> 250"

definition tcpip_tcp_timer :: "'w timer_env \<Rightarrow> 'w timers \<Rightarrow> 'w timers option" where
  "tcpip_tcp_timer env s = do {
     s \<leftarrow> do_work env Work_tcp_tmr s;
     if tcp_pcbs_present env (world s) then sys_timeout TCP_TMR_INTERVAL Tcpip_Tcp_Timer 0 s
     else Some (s\<lparr>tcpip_tcp_timer_active := False\<rparr>) }"

definition tcp_timer_needed :: "'w timer_env \<Rightarrow> 'w timers \<Rightarrow> 'w timers option" where
  "tcp_timer_needed env s =
     (if \<not> tcpip_tcp_timer_active s \<and> tcp_pcbs_present env (world s)
      then sys_timeout TCP_TMR_INTERVAL Tcpip_Tcp_Timer 0 (s\<lparr>tcpip_tcp_timer_active := True\<rparr>)
      else Some s)"

definition lwip_cyclic_timer :: "'w timer_env \<Rightarrow> nat \<Rightarrow> 'w timers \<Rightarrow> 'w timers option" where
  "lwip_cyclic_timer env arg s =
     (if arg < length lwip_cyclic_timers then do {
        let (interval_ms, work) = lwip_cyclic_timers ! arg;
        s \<leftarrow> do_work env work s;
        let now = sys_now s;
        let next_timeout_time = current_timeout_due_time s + interval_ms;
        if TIME_LESS_THAN next_timeout_time now
        then sys_timeout_abs (now + interval_ms) Lwip_Cyclic_Timer arg s
        else sys_timeout_abs next_timeout_time Lwip_Cyclic_Timer arg s }
      else None)"

text \<open>The loop of \<^verbatim>\<open>sys_timeouts_init\<close>, from index \<open>i\<close> on; index 0 is started on demand.\<close>

fun sys_timeouts_init_loop :: "nat \<Rightarrow> (u32 \<times> timer_work) list \<Rightarrow> 'w timers \<Rightarrow> 'w timers option" where
  "sys_timeouts_init_loop i [] s = Some s"
| "sys_timeouts_init_loop i ((interval_ms, _) # cs) s = do {
     s \<leftarrow> sys_timeout interval_ms Lwip_Cyclic_Timer i s;
     sys_timeouts_init_loop (Suc i) cs s }"

definition sys_timeouts_init :: "'w timers \<Rightarrow> 'w timers option" where
  "sys_timeouts_init s = sys_timeouts_init_loop 1 (drop 1 lwip_cyclic_timers) s"

fun untimeout_list :: "sys_timeout_handler \<Rightarrow> nat \<Rightarrow> sys_timeo list \<Rightarrow> sys_timeo list" where
  "untimeout_list h arg [] = []"
| "untimeout_list h arg (t # ts) =
     (if handler t = h \<and> harg t = arg then ts else t # untimeout_list h arg ts)"

definition sys_untimeout :: "sys_timeout_handler \<Rightarrow> nat \<Rightarrow> 'w timers \<Rightarrow> 'w timers" where
  "sys_untimeout h arg s = s\<lparr>next_timeout := untimeout_list h arg (next_timeout s)\<rparr>"

definition run_handler :: "'w timer_env \<Rightarrow> sys_timeout_handler \<Rightarrow> nat \<Rightarrow> 'w timers \<Rightarrow> 'w timers option" where
  "run_handler env h arg s =
     (case h of
        No_Handler \<Rightarrow> Some s
      | Tcpip_Tcp_Timer \<Rightarrow> tcpip_tcp_timer env s
      | Lwip_Cyclic_Timer \<Rightarrow> lwip_cyclic_timer env arg s
      | App_Handler n \<Rightarrow> do_work env (Work_app n arg) s)"

partial_function (option) check_timeouts_loop :: "'w timer_env \<Rightarrow> u32 \<Rightarrow> 'w timers \<Rightarrow> 'w timers option" where
  "check_timeouts_loop env now s =
     (let s = s\<lparr>world := check_free_ooseq env (world s)\<rparr> in
      case next_timeout s of
        [] \<Rightarrow> Some s
      | t # ts \<Rightarrow>
          if TIME_LESS_THAN now (time t) then Some s
          else do {
            s \<leftarrow> run_handler env (handler t) (harg t)
                   (s\<lparr>next_timeout := ts, current_timeout_due_time := time t\<rparr>);
            check_timeouts_loop env now s })"

definition sys_check_timeouts :: "'w timer_env \<Rightarrow> 'w timers \<Rightarrow> 'w timers option" where
  "sys_check_timeouts env s = check_timeouts_loop env (sys_now s) s"

definition sys_restart_timeouts :: "'w timers \<Rightarrow> 'w timers" where
  "sys_restart_timeouts s =
     (case next_timeout s of
        [] \<Rightarrow> s
      | n # _ \<Rightarrow>
          let now = sys_now s; base = time n
          in s\<lparr>next_timeout := map (\<lambda>t. t\<lparr>time := (time t - base) + now\<rparr>) (next_timeout s)\<rparr>)"

definition sys_timeouts_sleeptime :: "'w timers \<Rightarrow> u32 option" where
  "sys_timeouts_sleeptime s =
     (case next_timeout s of
        [] \<Rightarrow> Some 0xFFFFFFFF
      | n # _ \<Rightarrow>
          let now = sys_now s
          in if TIME_LESS_THAN (time n) now then Some 0
             else let ret = time n - now
                  in do { LWIP_ASSERT (ret \<le> LWIP_MAX_TIMEOUT); Some ret })"

section \<open>The list stays sorted\<close>

text \<open>All due times lie in one window of \<open>2\<^sup>3\<^sup>1\<close> milliseconds that starts at \<open>origin\<close>, in order.\<close>

definition timers_inv :: "u32 \<Rightarrow> 'w timers \<Rightarrow> bool" where
  "timers_inv origin s \<longleftrightarrow>
     (\<forall>t \<in> set (next_timeout s). in_window origin (time t))
     \<and> sorted (map (dist_from origin \<circ> time) (next_timeout s))"

definition place :: "u32 \<Rightarrow> sys_timeo \<Rightarrow> sys_timeo list \<Rightarrow> sys_timeo list" where
  "place origin timeout ts =
     takeWhile (\<lambda>t. dist_from origin (time t) \<le> dist_from origin (time timeout)) ts
     @ timeout # dropWhile (\<lambda>t. dist_from origin (time t) \<le> dist_from origin (time timeout)) ts"

lemma insert_behind_place:
  assumes "in_window origin (time x)" and "\<forall>t \<in> set (n # ts). in_window origin (time t)"
    and "\<not> TIME_LESS_THAN (time x) (time n)"
  shows "insert_behind x (n # ts) = place origin x (n # ts)"
  using assms
proof (induction x "n # ts" arbitrary: n ts rule: insert_behind.induct)
  case (3 x n m ts)
  then show ?case
    by (cases "TIME_LESS_THAN (time x) (time m)") (auto simp: place_def timer.lt_window [of origin])
qed (auto simp: place_def timer.lt_window [of origin])

lemma place_mset: "mset (place origin x ts) = add_mset x (mset ts)"
proof -
  have "mset ts = mset (takeWhile P ts) + mset (dropWhile P ts)" for P
    by (metis mset_append takeWhile_dropWhile_id)
  then show ?thesis by (simp add: place_def)
qed

lemma place_sorted:
  assumes "sorted (map (dist_from origin \<circ> time) ts)"
  shows "sorted (map (dist_from origin \<circ> time) (place origin x ts))"
  using assms
proof (induction ts)
  case (Cons t ts)
  then show ?case by (auto simp: place_def dest: set_takeWhileD set_dropWhileD)
qed (simp add: place_def)

lemma sys_timeout_abs_place:
  assumes inv: "timers_inv origin s" and w: "in_window origin abs_time" and m: "timeo_available s"
  shows "sys_timeout_abs abs_time h arg s
       = Some (s\<lparr>timeo_mallocs := tl (timeo_mallocs s),
                 next_timeout := place origin \<lparr>time = abs_time, handler = h, harg = arg\<rparr> (next_timeout s)\<rparr>)"
proof (cases "next_timeout s")
  case Nil
  then show ?thesis by (simp add: sys_timeout_abs_def m place_def)
next
  case (Cons n ts)
  then have wn: "\<forall>t \<in> set (n # ts). in_window origin (time t)" using inv by (simp add: timers_inv_def)
  show ?thesis
  proof (cases "TIME_LESS_THAN abs_time (time n)")
    case True
    then have "place origin \<lparr>time = abs_time, handler = h, harg = arg\<rparr> (n # ts)
             = \<lparr>time = abs_time, handler = h, harg = arg\<rparr> # n # ts"
      using w wn by (simp add: place_def timer.lt_window [of origin])
    then show ?thesis using True Cons by (simp add: sys_timeout_abs_def m)
  next
    case False
    then show ?thesis
      using Cons w wn insert_behind_place [of origin "\<lparr>time = abs_time, handler = h, harg = arg\<rparr>" n ts]
      by (simp add: sys_timeout_abs_def m)
  qed
qed

lemma place_inv:
  assumes "timers_inv origin s" and "in_window origin (time x)"
  shows "timers_inv origin (s\<lparr>timeo_mallocs := ms, next_timeout := place origin x (next_timeout s)\<rparr>)"
  using assms place_sorted [of origin "next_timeout s" x] place_mset [of origin x "next_timeout s"]
  by (auto simp: timers_inv_def dest!: arg_cong [where f = set_mset])

section \<open>Firing\<close>

text \<open>What is assumed of the work done elsewhere: it leaves the timers and the clock alone.\<close>

definition quiet_env :: "'w timer_env \<Rightarrow> bool" where
  "quiet_env env \<longleftrightarrow> (\<forall>w s. \<exists>x. do_work env w s = Some (s\<lparr>world := x\<rparr>))"

definition cyclic_ok :: "sys_timeo list \<Rightarrow> bool" where
  "cyclic_ok ts \<longleftrightarrow> (\<forall>t \<in> set ts. handler t = Lwip_Cyclic_Timer \<longrightarrow> harg t < length lwip_cyclic_timers)"

text \<open>How often an entry can still fire while \<^verbatim>\<open>now\<close> stands still.\<close>

definition rounds :: "u32 \<Rightarrow> u32 \<Rightarrow> sys_timeo \<Rightarrow> nat" where
  "rounds origin now t =
     (if dist_from origin (time t) < dist_from origin now then 2
      else if dist_from origin (time t) = dist_from origin now then 1 else 0)"

lemma dist_from_add:
  "dist_from origin a + unat i < 2 ^ 31 \<Longrightarrow> dist_from origin (a + i) = dist_from origin a + unat i"
proof -
  assume *: "dist_from origin a + unat i < 2 ^ 31"
  have "a + i - origin = (a - origin) + i" by simp
  then show ?thesis using * unfolding dist_from_def by (subst (1) \<open>a + i - origin = _\<close>) (simp add: unat_word_ariths)
qed

lemma cyclic_interval:
  assumes "n < length lwip_cyclic_timers"
  shows "0 < unat (fst (lwip_cyclic_timers ! n)) \<and> unat (fst (lwip_cyclic_timers ! n)) \<le> 1000"
proof -
  have "\<forall>p \<in> set lwip_cyclic_timers. 0 < unat (fst p) \<and> unat (fst p) \<le> 1000"
    by (simp add: lwip_cyclic_timers_def)
  then show ?thesis using nth_mem [OF assms] by blast
qed

definition ready :: "u32 \<Rightarrow> u32 \<Rightarrow> 'w timers \<Rightarrow> bool" where
  "ready origin now s \<longleftrightarrow> timers_inv origin s \<and> timeo_mallocs s = [] \<and> sys_now s = now \<and> cyclic_ok (next_timeout s)"

lemma ready_place:
  assumes "ready origin now s" and "in_window origin (time x)"
    and "handler x = Lwip_Cyclic_Timer \<Longrightarrow> harg x < length lwip_cyclic_timers"
  shows "sys_timeout_abs (time x) (handler x) (harg x) s = Some (s\<lparr>next_timeout := place origin x (next_timeout s)\<rparr>)"
    and "ready origin now (s\<lparr>next_timeout := place origin x (next_timeout s)\<rparr>)"
proof -
  have inv: "timers_inv origin s" "timeo_available s" using assms(1) by (simp_all add: ready_def timeo_available_def)
  have x: "\<lparr>time = time x, handler = handler x, harg = harg x\<rparr> = x" by simp
  show "sys_timeout_abs (time x) (handler x) (harg x) s = Some (s\<lparr>next_timeout := place origin x (next_timeout s)\<rparr>)"
    using sys_timeout_abs_place [OF inv(1) assms(2) inv(2), of "handler x" "harg x"] assms(1) by (simp add: x ready_def)
  have "set (place origin x (next_timeout s)) = insert x (set (next_timeout s))"
    using place_mset [of origin x "next_timeout s"] by (metis set_mset_add_mset_insert set_mset_mset)
  then show "ready origin now (s\<lparr>next_timeout := place origin x (next_timeout s)\<rparr>)"
    using place_inv [OF inv(1) assms(2), of "[]"] assms(1,3) by (auto simp: ready_def timers_inv_def cyclic_ok_def)
qed

text \<open>One expired entry: whatever its handler, it leaves the list or comes back later than before.\<close>

lemma run_handler_step:
  assumes q: "quiet_env env" and r: "ready origin now s" and win: "dist_from origin now + 1000 < 2 ^ 31"
    and t: "in_window origin (time t)" "dist_from origin (time t) \<le> dist_from origin now"
    and due: "current_timeout_due_time s = time t"
    and c: "handler t = Lwip_Cyclic_Timer \<Longrightarrow> harg t < length lwip_cyclic_timers"
  shows "\<exists>s'. run_handler env (handler t) (harg t) s = Some s' \<and> ready origin now s'
           \<and> (mset (next_timeout s') = mset (next_timeout s) \<or>
              (\<exists>x. mset (next_timeout s') = add_mset x (mset (next_timeout s))
                   \<and> rounds origin now x < rounds origin now t))"
proof -
  have work: "\<exists>x. do_work env w s = Some (s\<lparr>world := x\<rparr>)" for w using q by (simp add: quiet_env_def)
  have rw: "ready origin now (s\<lparr>world := x\<rparr>)" for x using r by (simp add: ready_def timers_inv_def)
  have now: "sys_now s = now" using r by (simp add: ready_def)
  have rearm: "\<exists>s'. sys_timeout_abs a h n (s\<lparr>world := x\<rparr>) = Some s' \<and> ready origin now s'
        \<and> (\<exists>y. mset (next_timeout s') = add_mset y (mset (next_timeout s)) \<and> rounds origin now y < rounds origin now t)"
    if "in_window origin a" "rounds origin now \<lparr>time = a, handler = h, harg = n\<rparr> < rounds origin now t"
      "h = Lwip_Cyclic_Timer \<Longrightarrow> n < length lwip_cyclic_timers" for a h n x
    using ready_place [OF rw, of "\<lparr>time = a, handler = h, harg = n\<rparr>" x] that place_mset
    by (auto intro!: exI [of _ "\<lparr>time = a, handler = h, harg = n\<rparr>"])
  have pos: "0 < rounds origin now t" using t by (simp add: rounds_def)
  have later: "in_window origin (now + i) \<and> rounds origin now \<lparr>time = now + i, handler = h, harg = n\<rparr> = 0"
    if "0 < unat i" "unat i \<le> 1000" for i h n
    using that win dist_from_add [of origin now i] by (simp add: in_window_def rounds_def)
  show ?thesis
  proof (cases "handler t")
    case No_Handler
    then show ?thesis using r by (simp add: run_handler_def)
  next
    case (App_Handler n)
    then show ?thesis using work [of "Work_app n (harg t)"] rw by (auto simp: run_handler_def)
  next
    case Tcpip_Tcp_Timer
    obtain x where x: "do_work env Work_tcp_tmr s = Some (s\<lparr>world := x\<rparr>)" using work by blast
    show ?thesis
    proof (cases "tcp_pcbs_present env x")
      case True
      obtain s' where "sys_timeout_abs (now + 250) Tcpip_Tcp_Timer 0 (s\<lparr>world := x\<rparr>) = Some s'"
          "ready origin now s'" "\<exists>y. mset (next_timeout s') = add_mset y (mset (next_timeout s)) \<and> rounds origin now y < rounds origin now t"
        using rearm [of "now + 250" Tcpip_Tcp_Timer 0 x] later [of 250 Tcpip_Tcp_Timer 0] pos by auto
      then show ?thesis using Tcpip_Tcp_Timer x True now
        by (auto simp: run_handler_def tcpip_tcp_timer_def sys_timeout_def)
    next
      case False
      then show ?thesis using Tcpip_Tcp_Timer x r
        by (auto simp: run_handler_def tcpip_tcp_timer_def ready_def timers_inv_def)
    qed
  next
    case Lwip_Cyclic_Timer
    define i w where "i = fst (lwip_cyclic_timers ! harg t)" and "w = snd (lwip_cyclic_timers ! harg t)"
    have i: "0 < unat i" "unat i \<le> 1000" using cyclic_interval [OF c [OF Lwip_Cyclic_Timer]] by (simp_all add: i_def)
    obtain x where x: "do_work env w s = Some (s\<lparr>world := x\<rparr>)" using work by blast
    define a where "a = (if TIME_LESS_THAN (time t + i) now then now + i else time t + i)"
    have dt: "dist_from origin (time t + i) = dist_from origin (time t) + unat i"
      using dist_from_add [of origin "time t" i] t(2) i(2) win by simp
    have inw: "in_window origin now" "in_window origin (time t + i)"
      using win t(2) i(2) dt by (simp_all add: in_window_def)
    have "in_window origin a \<and> rounds origin now \<lparr>time = a, handler = Lwip_Cyclic_Timer, harg = harg t\<rparr> < rounds origin now t"
    proof (cases "TIME_LESS_THAN (time t + i) now")
      case True
      then show ?thesis using later [OF i, of Lwip_Cyclic_Timer "harg t"] pos by (simp add: a_def)
    next
      case False
      then have "dist_from origin now \<le> dist_from origin (time t) + unat i"
        using timer.lt_window [OF inw(2,1)] dt by simp
      then show ?thesis using False inw(2) dt i(1) t(2) by (auto simp: a_def rounds_def)
    qed
    then obtain s' where "sys_timeout_abs a Lwip_Cyclic_Timer (harg t) (s\<lparr>world := x\<rparr>) = Some s'"
        "ready origin now s'" "\<exists>y. mset (next_timeout s') = add_mset y (mset (next_timeout s)) \<and> rounds origin now y < rounds origin now t"
      using rearm [of a Lwip_Cyclic_Timer "harg t" x] c [OF Lwip_Cyclic_Timer] by blast
    moreover have "run_handler env (handler t) (harg t) s = sys_timeout_abs a Lwip_Cyclic_Timer (harg t) (s\<lparr>world := x\<rparr>)"
    proof -
      have "lwip_cyclic_timers ! harg t = (i, w)" by (simp add: i_def w_def)
      then show ?thesis using Lwip_Cyclic_Timer c x now due
        by (simp add: run_handler_def lwip_cyclic_timer_def a_def Let_def)
    qed
    ultimately show ?thesis by auto
  qed
qed

definition rounds_left :: "u32 \<Rightarrow> u32 \<Rightarrow> sys_timeo list \<Rightarrow> nat" where
  "rounds_left origin now ts = (\<Sum>t \<in># mset ts. rounds origin now t)"

lemma check_timeouts_loop_returns:
  assumes q: "quiet_env env" and "ready origin now s" and win: "dist_from origin now + 1000 < 2 ^ 31"
  shows "\<exists>s'. check_timeouts_loop env now s = Some s' \<and> ready origin now s'
           \<and> (\<forall>t \<in> set (next_timeout s'). TIME_LESS_THAN now (time t))"
  using assms(2)
proof (induction "rounds_left origin now (next_timeout s)" arbitrary: s rule: less_induct)
  case less
  define s0 where "s0 = s\<lparr>world := check_free_ooseq env (world s)\<rparr>"
  have r0: "ready origin now s0" using less.prems by (simp add: ready_def timers_inv_def s0_def)
  have inw: "in_window origin now" using win by (simp add: in_window_def)
  show ?case
  proof (cases "next_timeout s")
    case Nil
    then show ?thesis using r0 by (subst check_timeouts_loop.simps) (simp add: s0_def)
  next
    case (Cons t ts)
    have inv: "in_window origin (time u)" if "u \<in> set (t # ts)" for u
      using less.prems Cons that by (auto simp: ready_def timers_inv_def)
    show ?thesis
    proof (cases "TIME_LESS_THAN now (time t)")
      case True
      have "\<forall>u \<in> set (t # ts). TIME_LESS_THAN now (time u)"
        using True less.prems Cons timer.lt_window [OF inw inv] by (fastforce simp: ready_def timers_inv_def)
      then show ?thesis using True r0 Cons by (subst check_timeouts_loop.simps) (simp add: s0_def)
    next
      case False
      then have le: "dist_from origin (time t) \<le> dist_from origin now"
        using timer.lt_window [OF inw inv [of t]] by simp
      define s1 where "s1 = s0\<lparr>next_timeout := ts, current_timeout_due_time := time t\<rparr>"
      have r1: "ready origin now s1"
        using r0 Cons by (auto simp: ready_def timers_inv_def s0_def s1_def cyclic_ok_def)
      have c: "handler t = Lwip_Cyclic_Timer \<Longrightarrow> harg t < length lwip_cyclic_timers"
        using less.prems Cons by (simp add: ready_def cyclic_ok_def)
      obtain s2 where run: "run_handler env (handler t) (harg t) s1 = Some s2" and r2: "ready origin now s2"
        and ms: "mset (next_timeout s2) = mset ts \<or> (\<exists>x. mset (next_timeout s2) = add_mset x (mset ts)
                   \<and> rounds origin now x < rounds origin now t)"
        using run_handler_step [OF q r1 win inv [of t] le _ c] by (auto simp: s1_def)
      have "0 < rounds origin now t" using le by (simp add: rounds_def)
      then have "rounds_left origin now (next_timeout s2) < rounds_left origin now (next_timeout s)"
        using ms by (auto simp: rounds_left_def Cons)
      from less.hyps [OF this r2] run False Cons show ?thesis
        by (subst check_timeouts_loop.simps) (simp add: Let_def s1_def s0_def)
    qed
  qed
qed

text \<open>One-shot timers: each expired one runs exactly once, in the order of the due times.\<close>

definition fire :: "(nat \<Rightarrow> nat \<Rightarrow> 'w \<Rightarrow> 'w) \<Rightarrow> ('w \<Rightarrow> 'w) \<Rightarrow> sys_timeo \<Rightarrow> 'w \<Rightarrow> 'w" where
  "fire f g t w = (case handler t of App_Handler n \<Rightarrow> f n (harg t) (g w) | _ \<Rightarrow> g w)"

lemma check_timeouts_loop_app:
  assumes env: "\<And>n a s. do_work env (Work_app n a) s = Some (s\<lparr>world := f n a (world s)\<rparr>)"
    and app: "\<forall>t \<in> set (next_timeout s). \<exists>n. handler t = App_Handler n"
  shows "\<exists>s'. check_timeouts_loop env now s = Some s'
           \<and> next_timeout s' = dropWhile (\<lambda>t. \<not> TIME_LESS_THAN now (time t)) (next_timeout s)
           \<and> world s' = check_free_ooseq env (fold (fire f (check_free_ooseq env))
               (takeWhile (\<lambda>t. \<not> TIME_LESS_THAN now (time t)) (next_timeout s)) (world s))"
  using app
proof (induction "next_timeout s" arbitrary: s)
  case Nil
  then show ?case by (subst check_timeouts_loop.simps) (simp flip: Nil.hyps)
next
  case (Cons t ts)
  note nt = Cons.hyps(2) [symmetric]
  show ?case
  proof (cases "TIME_LESS_THAN now (time t)")
    case True
    then show ?thesis by (subst check_timeouts_loop.simps) (simp add: nt)
  next
    case False
    obtain n where n: "handler t = App_Handler n" using Cons.prems nt by auto
    define s1 where "s1 = s\<lparr>next_timeout := ts, current_timeout_due_time := time t,
                            world := fire f (check_free_ooseq env) t (world s)\<rparr>"
    have step: "check_timeouts_loop env now s = check_timeouts_loop env now s1"
      using False n by (subst check_timeouts_loop.simps) (simp add: nt Let_def run_handler_def env s1_def fire_def)
    have "ts = next_timeout s1" "\<forall>u \<in> set (next_timeout s1). \<exists>n. handler u = App_Handler n"
      using Cons.prems nt by (auto simp: s1_def)
    from Cons.hyps(1) [OF this] show ?thesis unfolding step using False by (simp add: s1_def nt)
  qed
qed

section \<open>Properties\<close>

definition idle_env :: "nat timer_env" where
  "idle_env = \<lparr>do_work = (\<lambda>w s. Some (s\<lparr>world := Suc (world s)\<rparr>)), check_free_ooseq = id, tcp_pcbs_present = (\<lambda>w. w < 3)\<rparr>"

definition three_timers :: "nat timers" where
  "three_timers = \<lparr>next_timeout = [\<lparr>time = 0xfffffff0, handler = Lwip_Cyclic_Timer, harg = 1\<rparr>,
        \<lparr>time = 0xfffffff8, handler = Tcpip_Tcp_Timer, harg = 0\<rparr>, \<lparr>time = 5, handler = App_Handler 7, harg = 1\<rparr>],
     current_timeout_due_time = 0, tcpip_tcp_timer_active = True, sys_now = 2, timeo_mallocs = [], world = 0\<rparr>"

lemma three_timers_ready: "ready 0xf0000000 2 three_timers" "dist_from 0xf0000000 2 + 1000 < 2 ^ 31"
  by (simp_all add: ready_def timers_inv_def three_timers_def in_window_def dist_from_def cyclic_ok_def lwip_cyclic_timers_def)

text \<open>
  C34. \<^verbatim>\<open>sys_timeout\<close> keeps the timer list sorted by due time also across the wrap-around
  of the millisecond clock: the new entry is added, no entry is lost, and it comes behind all
  entries that are due at the same time or earlier.
\<close>

theorem sys_timeout_keeps_sorted:
  assumes "timers_inv origin s" and "timeo_available s" and "msecs \<le> 0x3fffffff"
    and "in_window origin (sys_now s + msecs)"
  shows "\<exists>s'. sys_timeout msecs h arg s = Some s' \<and> timers_inv origin s'
           \<and> mset (next_timeout s') = add_mset \<lparr>time = sys_now s + msecs, handler = h, harg = arg\<rparr> (mset (next_timeout s))
           \<and> next_timeout s' = place origin \<lparr>time = sys_now s + msecs, handler = h, harg = arg\<rparr> (next_timeout s)"
  using sys_timeout_abs_place [OF assms(1,4,2), of h arg] assms(3)
    place_inv [OF assms(1), of "\<lparr>time = sys_now s + msecs, handler = h, harg = arg\<rparr>"] assms(4) place_mset
  by (simp add: sys_timeout_def)

theorem sys_timeout_keeps_sorted_witness:
  "\<exists>s'. sys_timeout 1 No_Handler 0 three_timers = Some s' \<and> timers_inv 0xf0000000 s'
     \<and> mset (next_timeout s') = add_mset \<lparr>time = sys_now three_timers + 1, handler = No_Handler, harg = 0\<rparr> (mset (next_timeout three_timers))
     \<and> next_timeout s' = place 0xf0000000 \<lparr>time = sys_now three_timers + 1, handler = No_Handler, harg = 0\<rparr> (next_timeout three_timers)"
  by (rule sys_timeout_keeps_sorted)
     (simp_all add: timers_inv_def three_timers_def in_window_def dist_from_def timeo_available_def)

text \<open>
  C33. \<^verbatim>\<open>sys_check_timeouts\<close> returns, even though the cyclic handlers put themselves back
  into the list while it is being worked off, and when it returns no entry is due any more.
\<close>

theorem sys_check_timeouts_returns:
  assumes "quiet_env env" and "timers_inv origin s" and "dist_from origin (sys_now s) + 1000 < 2 ^ 31"
    and "timeo_mallocs s = []" and "cyclic_ok (next_timeout s)"
  shows "\<exists>s'. sys_check_timeouts env s = Some s' \<and> timers_inv origin s'
           \<and> (\<forall>t \<in> set (next_timeout s'). TIME_LESS_THAN (sys_now s) (time t))"
  using check_timeouts_loop_returns [OF assms(1) _ assms(3), of s] assms(2,4,5)
  by (auto simp: sys_check_timeouts_def ready_def)

theorem sys_check_timeouts_returns_witness:
  "\<exists>s'. sys_check_timeouts idle_env three_timers = Some s' \<and> timers_inv 0xf0000000 s'
     \<and> (\<forall>t \<in> set (next_timeout s'). TIME_LESS_THAN (sys_now three_timers) (time t))"
proof (rule sys_check_timeouts_returns)
  show "quiet_env idle_env" by (auto simp: quiet_env_def idle_env_def)
  show "timers_inv 0xf0000000 three_timers" "timeo_mallocs three_timers = []" "cyclic_ok (next_timeout three_timers)"
    using three_timers_ready(1) by (simp_all add: ready_def)
  show "dist_from 0xf0000000 (sys_now three_timers) + 1000 < 2 ^ 31" by (simp add: three_timers_def dist_from_def)
qed

text \<open>
  C35. With one-shot timers only, \<^verbatim>\<open>sys_check_timeouts\<close> runs exactly the handlers that
  are due, each once, in the order of their due times, and keeps the others.
\<close>

theorem sys_check_timeouts_one_shot:
  assumes "timers_inv origin s" and "in_window origin (sys_now s)"
    and "\<And>n a s. do_work env (Work_app n a) s = Some (s\<lparr>world := f n a (world s)\<rparr>)"
    and "\<forall>t \<in> set (next_timeout s). \<exists>n. handler t = App_Handler n"
  shows "\<exists>s'. sys_check_timeouts env s = Some s'
           \<and> next_timeout s' = filter (\<lambda>t. TIME_LESS_THAN (sys_now s) (time t)) (next_timeout s)
           \<and> world s' = check_free_ooseq env (fold (fire f (check_free_ooseq env))
               (filter (\<lambda>t. \<not> TIME_LESS_THAN (sys_now s) (time t)) (next_timeout s)) (world s))"
proof -
  let ?P = "\<lambda>t. \<not> TIME_LESS_THAN (sys_now s) (time t)"
  have w: "?P t \<longleftrightarrow> dist_from origin (time t) \<le> dist_from origin (sys_now s)" if "t \<in> set (next_timeout s)" for t
    using timer.lt_window [OF assms(2), of "time t"] assms(1) that by (auto simp: timers_inv_def)
  have "sorted (map (dist_from origin \<circ> time) ts) \<Longrightarrow>
        (\<And>t. t \<in> set ts \<Longrightarrow> ?P t \<longleftrightarrow> dist_from origin (time t) \<le> dist_from origin (sys_now s)) \<Longrightarrow>
        takeWhile ?P ts = filter ?P ts \<and> dropWhile ?P ts = filter (\<lambda>t. \<not> ?P t) ts" for ts
  proof (induction ts)
    case (Cons t ts)
    show ?case
    proof (cases "?P t")
      case True
      then show ?thesis using Cons by auto
    next
      case False
      then have "\<forall>u \<in> set ts. \<not> ?P u" using Cons.prems by fastforce
      then show ?thesis using False by (auto simp: filter_empty_conv)
    qed
  qed simp
  then have "takeWhile ?P (next_timeout s) = filter ?P (next_timeout s)"
    "dropWhile ?P (next_timeout s) = filter (\<lambda>t. \<not> ?P t) (next_timeout s)"
    using assms(1) w by (auto simp: timers_inv_def)
  then show ?thesis
    using check_timeouts_loop_app [OF assms(3,4), of "sys_now s"] by (simp add: sys_check_timeouts_def)
qed

definition app_timers :: "nat timers" where
  "app_timers = three_timers\<lparr>next_timeout := [\<lparr>time = 0xfffffff8, handler = App_Handler 1, harg = 3\<rparr>,
     \<lparr>time = 5, handler = App_Handler 2, harg = 4\<rparr>]\<rparr>"

theorem sys_check_timeouts_one_shot_witness:
  "\<exists>s'. sys_check_timeouts (idle_env\<lparr>do_work := \<lambda>w s. case w of Work_app n a \<Rightarrow> Some (s\<lparr>world := 10 * n + a\<rparr>) | _ \<Rightarrow> Some s\<rparr>) app_timers = Some s'
     \<and> next_timeout s' = [\<lparr>time = 5, handler = App_Handler 2, harg = 4\<rparr>] \<and> world s' = 13"
  using sys_check_timeouts_one_shot [of "0xf0000000" app_timers
      "idle_env\<lparr>do_work := \<lambda>w s. case w of Work_app n a \<Rightarrow> Some (s\<lparr>world := 10 * n + a\<rparr>) | _ \<Rightarrow> Some s\<rparr>" "\<lambda>n a _. 10 * n + a"]
  by (simp add: app_timers_def three_timers_def timers_inv_def in_window_def dist_from_def TIME_LESS_THAN_def
      fire_def idle_env_def)

text \<open>
  C33. \<^verbatim>\<open>sys_timeouts_sleeptime\<close> is exact: after sleeping for the returned time the
  first timer is due, and it is not due at any earlier moment.
\<close>

theorem sys_timeouts_sleeptime_exact:
  assumes "next_timeout s = t # ts" and "in_window origin (sys_now s)" and "in_window origin (time t)"
  shows "\<exists>r. sys_timeouts_sleeptime s = Some r \<and> \<not> TIME_LESS_THAN (sys_now s + r) (time t)
           \<and> (\<forall>d < r. TIME_LESS_THAN (sys_now s + d) (time t))"
proof (cases "TIME_LESS_THAN (time t) (sys_now s)")
  case True
  then have "\<not> TIME_LESS_THAN (sys_now s) (time t)"
    using timer.lt_window assms(2,3) by (metis less_asym)
  then show ?thesis using True assms(1) by (simp add: sys_timeouts_sleeptime_def Let_def)
next
  case False
  have "TIME_LESS_THAN (sys_now s + d) (time t)" if "d < time t - sys_now s" for d
  proof -
    have eq: "sys_now s + d - time t = d - (time t - sys_now s)" by simp
    have "unat (time t - sys_now s) < 2 ^ 31"
      using False by (simp add: TIME_LESS_THAN_def word_less_nat_alt)
    then show ?thesis
      using high_diff [of d "time t - sys_now s"] that unfolding TIME_LESS_THAN_def eq
      by (simp add: word_less_nat_alt)
  qed
  then show ?thesis using False assms(1)
    by (intro exI [of _ "time t - sys_now s"]) (auto simp: sys_timeouts_sleeptime_def Let_def TIME_LESS_THAN_def not_less)
qed

theorem sys_timeouts_sleeptime_exact_witness:
  "\<exists>r. sys_timeouts_sleeptime (app_timers\<lparr>sys_now := 0xfffffff0\<rparr>) = Some r
     \<and> \<not> TIME_LESS_THAN (sys_now (app_timers\<lparr>sys_now := 0xfffffff0\<rparr>) + r) (time \<lparr>time = 0xfffffff8, handler = App_Handler 1, harg = 3\<rparr>)
     \<and> (\<forall>d < r. TIME_LESS_THAN (sys_now (app_timers\<lparr>sys_now := 0xfffffff0\<rparr>) + d) (time \<lparr>time = 0xfffffff8, handler = App_Handler 1, harg = 3\<rparr>))"
  by (rule sys_timeouts_sleeptime_exact [where origin = "0xf0000000"])
     (simp_all add: app_timers_def in_window_def dist_from_def)

end
