(* ===== verification/Tcp_Pcb.thy ===== *)
theory Tcp_Pcb
  imports C_Memory Serial_Numbers
begin

text \<open>
  The data of a TCP connection (\<^verbatim>\<open>struct tcp_pcb\<close> of \<^verbatim>\<open>tcp.h\<close>,
  \<^verbatim>\<open>struct tcp_seg\<close> of \<^verbatim>\<open>priv/tcp_priv.h\<close>) and the small operations on it that
  input processing uses: acknowledgement flags, the announced receive window
  (\<^verbatim>\<open>tcp.c\<close>), empty acknowledgements and retransmission (\<^verbatim>\<open>tcp_out.c\<close>).

  A queue of segments is a list. A segment carries its bytes as a list; the pbuf operations
  on them (\<^verbatim>\<open>pbuf_realloc\<close>, \<^verbatim>\<open>pbuf_remove_header\<close>, \<^verbatim>\<open>pbuf_cat\<close>) are list
  operations by the theorems on pbufs. Sequence numbers are in host byte order.
\<close>

unbundle bit_operations_syntax

section \<open>Types and constants\<close>

datatype tcp_state =
  CLOSED | LISTEN | SYN_SENT | SYN_RCVD | ESTABLISHED | FIN_WAIT_1 | FIN_WAIT_2
  | CLOSE_WAIT | CLOSING | LAST_ACK | TIME_WAIT

text \<open>The numbers of the enumeration; the code compares states with \<^verbatim>\<open><\<close> and \<^verbatim>\<open>>=\<close>.\<close>

fun state_no :: "tcp_state \<Rightarrow> nat" where
  "state_no CLOSED = 0" | "state_no LISTEN = 1" | "state_no SYN_SENT = 2" | "state_no SYN_RCVD = 3"
| "state_no ESTABLISHED = 4" | "state_no FIN_WAIT_1 = 5" | "state_no FIN_WAIT_2 = 6"
| "state_no CLOSE_WAIT = 7" | "state_no CLOSING = 8" | "state_no LAST_ACK = 9" | "state_no TIME_WAIT = 10"

abbreviation (input) TCP_FIN :: u8 where "TCP_FIN \<equiv> 0x01"
abbreviation (input) TCP_SYN :: u8 where "TCP_SYN \<equiv> 0x02"
abbreviation (input) TCP_RST :: u8 where "TCP_RST \<equiv> 0x04"
abbreviation (input) TCP_PSH :: u8 where "TCP_PSH \<equiv> 0x08"
abbreviation (input) TCP_ACK :: u8 where "TCP_ACK \<equiv> 0x10"

abbreviation (input) TF_ACK_DELAY :: u16 where "TF_ACK_DELAY \<equiv> 0x01"
abbreviation (input) TF_ACK_NOW :: u16 where "TF_ACK_NOW \<equiv> 0x02"
abbreviation (input) TF_INFR :: u16 where "TF_INFR \<equiv> 0x04"
abbreviation (input) TF_RXCLOSED :: u16 where "TF_RXCLOSED \<equiv> 0x10"
abbreviation (input) TF_FIN :: u16 where "TF_FIN \<equiv> 0x20"
abbreviation (input) TF_NODELAY :: u16 where "TF_NODELAY \<equiv> 0x40"
abbreviation (input) TF_NAGLEMEMERR :: u16 where "TF_NAGLEMEMERR \<equiv> 0x80"
abbreviation (input) TF_RTO :: u16 where "TF_RTO \<equiv> 0x0800"

text \<open>Flags of the segment being processed.\<close>

abbreviation (input) TF_RESET :: u8 where "TF_RESET \<equiv> 0x08"
abbreviation (input) TF_CLOSED :: u8 where "TF_CLOSED \<equiv> 0x10"
abbreviation (input) TF_GOT_FIN :: u8 where "TF_GOT_FIN \<equiv> 0x20"

abbreviation (input) TCP_WND :: u16 where "TCP_WND \<equiv> 32 * 1024"
abbreviation (input) TCP_MSS :: u16 where "TCP_MSS \<equiv> 1460"

text \<open>\<open>sclen\<close> is the number of pbufs of the segment, \<open>sbusy\<close> whether a driver still refers to them, \<open>soversize\<close> is
  \<^verbatim>\<open>oversize_left\<close>, the room behind its last byte.\<close>

record tcp_seg =
  sseq :: u32
  sflags :: u8
  slen :: u16
  sdata :: "u8 list"
  sclen :: u16
  sbusy :: bool
  soversize :: u16

record tcp_pcb =
  state :: tcp_state
  local_port :: u16
  remote_port :: u16
  pcb_flags :: u16
  polltmr :: u8
  tmr :: u32
  rcv_nxt :: u32
  rcv_wnd :: u16
  rcv_ann_wnd :: u16
  rcv_ann_right_edge :: u32
  rtime :: "16 word"
  mss :: u16
  rttest :: u32
  rtseq :: u32
  sa :: "16 word"
  sv :: "16 word"
  rto :: "16 word"
  nrtx :: u8
  dupacks :: u8
  lastack :: u32
  cwnd :: u16
  ssthresh :: u16
  rto_end :: u32
  snd_nxt :: u32
  snd_wl1 :: u32
  snd_wl2 :: u32
  snd_lbb :: u32
  snd_wnd :: u16
  snd_wnd_max :: u16
  snd_buf :: u16
  snd_queuelen :: u16
  unsent_oversize :: u16
  bytes_acked :: u16
  unsent :: "tcp_seg list"
  unacked :: "tcp_seg list"
  ooseq :: "tcp_seg list"
  refused_data :: "u8 list option"
  listener :: bool
  persist_probe :: u8
  keep_cnt_sent :: u8
  persist_cnt :: u8
  persist_backoff :: u8
  local_ip_any :: bool

section \<open>Flags\<close>

definition has8 :: "u8 \<Rightarrow> u8 \<Rightarrow> bool" where "has8 f b \<longleftrightarrow> f AND b \<noteq> 0"
definition has16 :: "u16 \<Rightarrow> u16 \<Rightarrow> bool" where "has16 f b \<longleftrightarrow> f AND b \<noteq> 0"

definition tcp_set_flags :: "u16 \<Rightarrow> tcp_pcb \<Rightarrow> tcp_pcb" where
  "tcp_set_flags f p = p\<lparr>pcb_flags := pcb_flags p OR f\<rparr>"

definition tcp_clear_flags :: "u16 \<Rightarrow> tcp_pcb \<Rightarrow> tcp_pcb" where
  "tcp_clear_flags f p = p\<lparr>pcb_flags := pcb_flags p AND NOT f\<rparr>"

definition tcp_ack_now :: "tcp_pcb \<Rightarrow> tcp_pcb" where
  "tcp_ack_now p = tcp_set_flags TF_ACK_NOW p"

definition tcp_ack :: "tcp_pcb \<Rightarrow> tcp_pcb" where
  "tcp_ack p = (if has16 (pcb_flags p) TF_ACK_DELAY then tcp_ack_now (tcp_clear_flags TF_ACK_DELAY p)
                else tcp_set_flags TF_ACK_DELAY p)"

definition TCP_TCPLEN :: "tcp_seg \<Rightarrow> u16" where
  "TCP_TCPLEN seg = slen seg + (if sflags seg AND (TCP_FIN OR TCP_SYN) \<noteq> 0 then 1 else 0)"

definition TCP_WND_INC :: "u16 \<Rightarrow> u16 \<Rightarrow> u16" where
  "TCP_WND_INC wnd inc = (if wnd + inc \<ge> wnd then wnd + inc else 0xffff)"

section \<open>The receive window (tcp.c)\<close>

definition tcp_update_rcv_ann_wnd :: "tcp_pcb \<Rightarrow> (u32 \<times> tcp_pcb) option" where
  "tcp_update_rcv_ann_wnd p =
     (let new_right_edge = rcv_nxt p + ucast (rcv_wnd p) in
      if TCP_SEQ_GEQ new_right_edge (rcv_ann_right_edge p + ucast (min (TCP_WND div 2) (mss p)))
      then Some (new_right_edge - rcv_ann_right_edge p, p\<lparr>rcv_ann_wnd := rcv_wnd p\<rparr>)
      else if TCP_SEQ_GT (rcv_nxt p) (rcv_ann_right_edge p) then Some (0, p\<lparr>rcv_ann_wnd := 0\<rparr>)
      else let new_rcv_ann_wnd = rcv_ann_right_edge p - rcv_nxt p
           in do { LWIP_ASSERT (new_rcv_ann_wnd \<le> 0xffff);
                   Some (0, p\<lparr>rcv_ann_wnd := ucast new_rcv_ann_wnd\<rparr>) })"

text \<open>
  \<^verbatim>\<open>tcp_recved\<close> up to the call of \<^verbatim>\<open>tcp_output\<close>; the result says whether the
  code goes on to call it.
\<close>

definition tcp_recved :: "u16 \<Rightarrow> tcp_pcb \<Rightarrow> (bool \<times> tcp_pcb) option" where
  "tcp_recved len p = do {
     LWIP_ASSERT (state p \<noteq> LISTEN);
     let rw = rcv_wnd p + len;
     let p = (if rw > TCP_WND \<or> rw < rcv_wnd p then p\<lparr>rcv_wnd := TCP_WND\<rparr> else p\<lparr>rcv_wnd := rw\<rparr>);
     (wnd_inflation, p) \<leftarrow> tcp_update_rcv_ann_wnd p;
     if wnd_inflation \<ge> ucast (min (TCP_WND div 4) (TCP_MSS * 4)) then Some (True, tcp_ack_now p)
     else Some (False, p) }"

section \<open>Empty acknowledgements and retransmission (tcp_out.c)\<close>

text \<open>
  What happens to a control segment below TCP: no memory for it, or the result of routing and
  \<^verbatim>\<open>ip_output_if\<close>. The trace of the state keeps what can be seen from outside the
  connection: segments handed to IP (sequence number, acknowledgement number, window, ports; for queued
  segments also the flags, the value of the segment size option and the data), the move to the list of connections in TIME-WAIT, the release of the control block, and calls of the error callback.
\<close>

datatype send_result = No_Memory | Send_Result err_t

datatype tcp_action =
    Sent_Ack u32 u32 u16
  | Sent_Rst u32 u32 u16 u16 u16
  | Sent_Seg u32 u8 u32 u16 "u16 option" "u8 list"
  | To_Time_Wait
  | Pcb_Freed
  | Event_Err err_t

text \<open>\<^verbatim>\<open>tcp_output_alloc_header\<close> records the right window edge it announces.\<close>

definition tcp_output_alloc_header :: "send_result \<Rightarrow> tcp_pcb \<Rightarrow> bool \<times> tcp_pcb" where
  "tcp_output_alloc_header r p =
     (case r of No_Memory \<Rightarrow> (False, p)
      | Send_Result _ \<Rightarrow> (True, p\<lparr>rcv_ann_right_edge := rcv_nxt p + ucast (rcv_ann_wnd p)\<rparr>))"

definition tcp_send_empty_ack :: "send_result \<Rightarrow> tcp_pcb \<Rightarrow> err_t \<times> tcp_action list \<times> tcp_pcb" where
  "tcp_send_empty_ack r p =
     (case tcp_output_alloc_header r p of
        (False, p) \<Rightarrow> (ERR_BUF, [], tcp_set_flags (TF_ACK_DELAY OR TF_ACK_NOW) p)
      | (True, p) \<Rightarrow>
          (case r of
             Send_Result ERR_OK \<Rightarrow>
               (ERR_OK, [Sent_Ack (snd_nxt p) (rcv_nxt p) (rcv_ann_wnd p)],
                tcp_clear_flags (TF_ACK_DELAY OR TF_ACK_NOW) p)
           | Send_Result err \<Rightarrow> (err, [], tcp_set_flags (TF_ACK_DELAY OR TF_ACK_NOW) p)
           | No_Memory \<Rightarrow> (ERR_BUF, [], p)))"

fun insert_unsent :: "tcp_seg \<Rightarrow> tcp_seg list \<Rightarrow> tcp_seg list" where
  "insert_unsent seg [] = [seg]"
| "insert_unsent seg (cur # cs) =
     (if TCP_SEQ_LT (sseq cur) (sseq seg) then cur # insert_unsent seg cs else seg # cur # cs)"

definition tcp_rexmit :: "tcp_pcb \<Rightarrow> err_t \<times> tcp_pcb" where
  "tcp_rexmit p =
     (case unacked p of
        [] \<Rightarrow> (ERR_VAL, p)
      | seg # rest \<Rightarrow>
          if sbusy seg then (ERR_VAL, p)
          else let at_end = list_all (\<lambda>cur. TCP_SEQ_LT (sseq cur) (sseq seg)) (unsent p);
                   p = p\<lparr>unacked := rest, unsent := insert_unsent seg (unsent p)\<rparr>;
                   p = (if at_end then p\<lparr>unsent_oversize := 0\<rparr> else p);
                   p = (if nrtx p < 0xFF then p\<lparr>nrtx := nrtx p + 1\<rparr> else p)
               in (ERR_OK, p\<lparr>rttest := 0\<rparr>))"

definition tcp_rexmit_fast :: "tcp_pcb \<Rightarrow> tcp_pcb" where
  "tcp_rexmit_fast p =
     (if unacked p \<noteq> [] \<and> \<not> has16 (pcb_flags p) TF_INFR then
        (case tcp_rexmit p of
           (ERR_OK, p) \<Rightarrow>
             let th = min (cwnd p) (snd_wnd p) div 2;
                 th = (if unat th < 2 * unat (mss p) then 2 * mss p else th);
                 p = p\<lparr>ssthresh := th, cwnd := th + 3 * mss p\<rparr>
             in (tcp_set_flags TF_INFR p)\<lparr>rtime := 0\<rparr>
         | (_, p) \<Rightarrow> p)
      else p)"

definition tcp_rexmit_rto_prepare :: "tcp_pcb \<Rightarrow> err_t \<times> tcp_pcb" where
  "tcp_rexmit_rto_prepare p =
     (if unacked p = [] \<or> (\<exists>seg \<in> set (unacked p). sbusy seg) then (ERR_VAL, p)
      else let seg = last (unacked p);
               p = (if unsent p = [] then p\<lparr>unsent_oversize := soversize seg\<rparr> else p);
               p = p\<lparr>unsent := unacked p @ unsent p, unacked := []\<rparr>;
               p = tcp_set_flags TF_RTO p
           in (ERR_OK, p\<lparr>rto_end := sseq seg + ucast (TCP_TCPLEN seg), rttest := 0\<rparr>))"

end
