(* ===== verification/Tcp_Opt.thy ===== *)
theory Tcp_Opt
  imports Tcp_Pcb Ip_Addr
begin

text \<open>
  TCP options (\<^verbatim>\<open>tcp_parseopt\<close>, \<^verbatim>\<open>tcp_get_next_optbyte\<close> of \<^verbatim>\<open>tcp_in.c\<close>). The
  options may be split over two pbufs: \<open>opt1\<close> is the memory behind the TCP header in the first,
  \<open>opt2\<close> the memory of the second. A read outside the given memory is \<open>None\<close>.
\<close>

unbundle bit_operations_syntax

section \<open>Reading options\<close>

record tcp_opts =
  opt1 :: "u8 list"
  tcphdr_opt1len :: u16
  tcphdr_opt2 :: "u8 list option"
  tcphdr_optlen :: u16

definition byte_at :: "u8 list \<Rightarrow> nat \<Rightarrow> u8 option" where
  "byte_at m i = (if i < length m then Some (m ! i) else None)"

definition tcp_get_next_optbyte :: "tcp_opts \<Rightarrow> u16 \<Rightarrow> (u8 \<times> u16) option" where
  "tcp_get_next_optbyte r optidx = do {
     b \<leftarrow> (case tcphdr_opt2 r of
           None \<Rightarrow> byte_at (opt1 r) (unat optidx)
         | Some m \<Rightarrow> if optidx < tcphdr_opt1len r then byte_at (opt1 r) (unat optidx)
                    else byte_at m (unat (ucast (optidx - tcphdr_opt1len r) :: u8)));
     Some (b, optidx + 1) }"

definition opt_mss :: "u8 \<Rightarrow> u8 \<Rightarrow> u16" where
  "opt_mss hb lb =
     (let mss = push_bit 8 (ucast hb) OR ucast lb in if mss > TCP_MSS \<or> mss = 0 then TCP_MSS else mss)"

partial_function (option) parseopt_loop :: "tcp_opts \<Rightarrow> u16 \<Rightarrow> u16 \<Rightarrow> u16 option" where
  "parseopt_loop r idx m =
     (if idx < tcphdr_optlen r then do {
        (opt, idx) \<leftarrow> tcp_get_next_optbyte r idx;
        if opt = 0 then Some m
        else if opt = 1 then parseopt_loop r idx m
        else if opt = 2 then do {
          (len, idx) \<leftarrow> tcp_get_next_optbyte r idx;
          if len \<noteq> 4 \<or> unat idx + 2 > unat (tcphdr_optlen r) then Some m
          else do {
            (hb, idx) \<leftarrow> tcp_get_next_optbyte r idx;
            (lb, idx) \<leftarrow> tcp_get_next_optbyte r idx;
            parseopt_loop r idx (opt_mss hb lb) } }
        else do {
          (d, idx) \<leftarrow> tcp_get_next_optbyte r idx;
          if d < 2 then Some m
          else parseopt_loop r (idx + (ucast d - 2)) m } }
      else Some m)"

declare parseopt_loop.simps [code]

definition tcp_parseopt :: "tcp_opts \<Rightarrow> tcp_pcb \<Rightarrow> tcp_pcb option" where
  "tcp_parseopt r p = map_option (\<lambda>m. p\<lparr>mss := m\<rparr>) (parseopt_loop r 0 (mss p))"

definition TCP_BUILD_MSS_OPTION :: "u16 \<Rightarrow> u32" where
  "TCP_BUILD_MSS_OPTION m = lwip_htonl (0x02040000 OR (ucast m AND 0xFFFF))"

section \<open>Well-formed option areas\<close>

text \<open>The byte at an index, wherever it lies.\<close>

definition opt_byte :: "tcp_opts \<Rightarrow> nat \<Rightarrow> u8 option" where
  "opt_byte r i =
     (case tcphdr_opt2 r of
        None \<Rightarrow> byte_at (opt1 r) i
      | Some m \<Rightarrow> if i < unat (tcphdr_opt1len r) then byte_at (opt1 r) i else byte_at m (i - unat (tcphdr_opt1len r)))"

text \<open>
  What \<^verbatim>\<open>tcp_input\<close> establishes: at most 40 bytes of options; the memory behind them
  holds at least one more byte.
\<close>

definition opts_ok :: "tcp_opts \<Rightarrow> bool" where
  "opts_ok r \<longleftrightarrow> unat (tcphdr_optlen r) \<le> 40
     \<and> (case tcphdr_opt2 r of
          None \<Rightarrow> unat (tcphdr_optlen r) < length (opt1 r)
        | Some m \<Rightarrow> unat (tcphdr_opt1len r) \<le> unat (tcphdr_optlen r) \<and> unat (tcphdr_opt1len r) \<le> length (opt1 r)
                   \<and> unat (tcphdr_optlen r) - unat (tcphdr_opt1len r) < length m)"

lemma next_optbyte:
  assumes "opts_ok r" and "i \<le> unat (tcphdr_optlen r)" and "unat idx = i"
  shows "tcp_get_next_optbyte r idx = Some (the (opt_byte r i), of_nat (i + 1))" and "opt_byte r i \<noteq> None"
proof -
  have suc: "idx + 1 = of_nat (i + 1)" using assms(3) by (metis of_nat_add of_nat_1 of_nat_unat ucast_id)
  have small: "unat (ucast (idx - tcphdr_opt1len r) :: u8) = i - unat (tcphdr_opt1len r)" if "\<not> idx < tcphdr_opt1len r"
  proof -
    have "unat (idx - tcphdr_opt1len r) = i - unat (tcphdr_opt1len r)"
      using that assms(3) by (simp add: unat_sub word_less_nat_alt word_le_nat_alt)
    moreover have "i \<le> 40" using assms(1,2) by (simp add: opts_ok_def)
    ultimately show ?thesis by (simp add: unsigned_ucast_eq take_bit_nat_eq_self)
  qed
  show "tcp_get_next_optbyte r idx = Some (the (opt_byte r i), of_nat (i + 1))"
    using assms small
    by (auto simp: tcp_get_next_optbyte_def opt_byte_def opts_ok_def byte_at_def suc word_less_nat_alt split: option.splits)
  show "opt_byte r i \<noteq> None"
    using assms by (auto simp: opt_byte_def opts_ok_def byte_at_def split: option.splits)
qed

section \<open>The options as a list\<close>

definition opt_bytes :: "tcp_opts \<Rightarrow> u8 list" where
  "opt_bytes r = map (\<lambda>i. the (opt_byte r i)) [0..<unat (tcphdr_optlen r)]"

text \<open>The maximum segment size that a list of option bytes announces.\<close>

fun parse_mss :: "u8 list \<Rightarrow> u16 \<Rightarrow> u16" where
  "parse_mss [] m = m"
| "parse_mss (opt # bs) m =
     (if opt = 0 then m
      else if opt = 1 then parse_mss bs m
      else if opt = 2 then (case bs of
          len # hb # lb # rest \<Rightarrow> if len = 4 then parse_mss rest (opt_mss hb lb) else m
        | _ \<Rightarrow> m)
      else (case bs of
          [] \<Rightarrow> m
        | d # rest \<Rightarrow> if d < 2 then m else parse_mss (drop (unat d - 2) rest) m))"

lemma drop_opt_bytes:
  "i < unat (tcphdr_optlen r) \<Longrightarrow> drop i (opt_bytes r) = the (opt_byte r i) # drop (i + 1) (opt_bytes r)"
  by (simp add: opt_bytes_def Cons_nth_drop_Suc [symmetric])

lemma length_opt_bytes [simp]: "length (opt_bytes r) = unat (tcphdr_optlen r)"
  by (simp add: opt_bytes_def)

lemma parseopt_loop_eq:
  assumes ok: "opts_ok r" and "unat idx = i"
  shows "parseopt_loop r idx m = Some (parse_mss (drop i (opt_bytes r)) m)"
  using assms(2)
proof (induction "unat (tcphdr_optlen r) - i" arbitrary: i idx m rule: less_induct)
  case less
  let ?n = "unat (tcphdr_optlen r)"
  have n: "?n \<le> 40" using ok by (simp add: opts_ok_def)
  show ?case
  proof (cases "i < ?n")
    case False
    then have "\<not> idx < tcphdr_optlen r" using less.prems by (simp add: word_less_nat_alt)
    then show ?thesis using False by (subst parseopt_loop.simps) simp
  next
    case True
    have idx: "idx < tcphdr_optlen r" using True less.prems by (simp add: word_less_nat_alt)
    have nb: "tcp_get_next_optbyte r (of_nat j) = Some (the (opt_byte r j), of_nat (j + 1))" if "j \<le> ?n" for j
      using next_optbyte(1) [OF ok that, of "of_nat j"] that n by (simp add: unat_of_nat take_bit_nat_eq_self)
    have i: "idx = of_nat i" using less.prems by (metis of_nat_unat ucast_id)
    have u: "unat (of_nat j :: u16) = j" if "j \<le> 400" for j
      using that by (simp add: unat_of_nat take_bit_nat_eq_self)
    have IH: "parseopt_loop r (of_nat j) m' = Some (parse_mss (drop j (opt_bytes r)) m')" if "i < j" "j \<le> 400" for j m'
      using less.hyps [of j "of_nat j" m'] that u True by simp
    note d0 = drop_opt_bytes [OF True]
    have d: "of_nat (i + 2) + (ucast d - 2) = (of_nat (i + 2 + (unat d - 2)) :: u16)" if "\<not> d < 2" for d :: u8
      using that by (simp add: of_nat_diff word_less_nat_alt)
    have dl: "unat d \<le> 255" for d :: u8 using unsigned_less [of d, where 'a = nat] by simp
    have skip: "parseopt_loop r (of_nat (i + 2) + (ucast d - 2)) m
        = Some (parse_mss (drop (unat d - 2) (drop (i + 2) (opt_bytes r))) m)" if "\<not> d < 2" for d :: u8
      unfolding d [OF that] drop_drop add.commute [of "unat d - 2"]
      by (rule IH) (use dl [of d] True n in auto)
    have u2: "unat (of_nat (i + 2) :: u16) = i + 2" using True n by (intro u) simp
    let ?b0 = "the (opt_byte r i)" and ?b1 = "the (opt_byte r (i + 1))"
    let ?mss = "if ?b1 \<noteq> 4 \<or> i + 2 + 2 > ?n then Some m
           else do { (hb, idx) \<leftarrow> tcp_get_next_optbyte r (of_nat (i + 2));
                     (lb, idx) \<leftarrow> tcp_get_next_optbyte r idx; parseopt_loop r idx (opt_mss hb lb) }"
    have nb1: "tcp_get_next_optbyte r (of_nat (i + 1)) = Some (?b1, of_nat (i + 2))"
      using nb [of "i + 1"] True by simp
    have nb0: "tcp_get_next_optbyte r (of_nat i) = Some (?b0, of_nat (i + 1))" using nb [of i] True by simp
    have step: "parseopt_loop r (of_nat i) m =
        (if ?b0 = 0 then Some m else if ?b0 = 1 then parseopt_loop r (of_nat (i + 1)) m
         else if ?b0 = 2 then ?mss
         else if ?b1 < 2 then Some m else parseopt_loop r (of_nat (i + 2) + (ucast ?b1 - 2)) m)"
      using idx unfolding i
      by (subst parseopt_loop.simps) (simp only: nb0 nb1 bind.bind_lunit prod.case if_True u2)
    have next_m: "parseopt_loop r (of_nat (i + 1)) m = Some (parse_mss (drop (i + 1) (opt_bytes r)) m)"
      using True n by (intro IH) simp_all
    show ?thesis
    proof (cases "i + 1 < ?n")
      case more: True
      note d1 = drop_opt_bytes [OF more]
      have mss: "?mss = Some (case drop (i + 1) (opt_bytes r) of
             len # hb # lb # rest \<Rightarrow> if len = 4 then parse_mss rest (opt_mss hb lb) else m | _ \<Rightarrow> m)"
      proof (cases "i + 4 > ?n")
        case True
        have short: "(case xs of len # hb # lb # rest \<Rightarrow> if len = 4 then parse_mss rest (opt_mss hb lb) else m | _ \<Rightarrow> m) = m"
          if "length xs < 3" for xs
          using that by (auto split: list.splits)
        have "length (drop (i + 1) (opt_bytes r)) < 3" using True by simp
        then show ?thesis using True short [of "drop (i + 1) (opt_bytes r)"] by simp
      next
        case False
        then have l: "drop (i + 2) (opt_bytes r) = the (opt_byte r (i + 2)) # the (opt_byte r (i + 3)) # drop (i + 4) (opt_bytes r)"
          using drop_opt_bytes [of "i + 2" r] drop_opt_bytes [of "i + 3" r] by (simp add: numeral_eq_Suc)
        have l1: "drop (i + 1) (opt_bytes r) = the (opt_byte r (i + 1)) # the (opt_byte r (i + 2)) # the (opt_byte r (i + 3)) # drop (i + 4) (opt_bytes r)"
          using d1 l by simp
        show ?thesis unfolding l1 using False nb [of "i + 2"] nb [of "i + 3"] IH [of "i + 4"] n
          by (simp add: numeral_eq_Suc)
      qed
      show ?thesis
        unfolding i step mss d0 next_m using skip [of ?b1] by (simp add: d1 [simplified])
    next
      case False
      then have e: "i + 1 = ?n" using True by simp
      have d1: "drop (i + 1) (opt_bytes r) = []" using e by simp
      have "drop (unat ?b1 - 2) (drop (i + 2) (opt_bytes r)) = []" using e by simp
      then have skipped: "\<not> ?b1 < 2 \<longrightarrow> parseopt_loop r (of_nat (i + 2) + (ucast ?b1 - 2)) m = Some m"
        using skip [of ?b1] by simp
      have short: "i + 2 + 2 > ?n" using e by simp
      show ?thesis
        unfolding i step d0 next_m d1 using skipped short by (simp only: parse_mss.simps list.case if_cancel) simp
    qed
  qed
qed

lemma opt_mss_range: "0 < opt_mss hb lb" "opt_mss hb lb \<le> TCP_MSS"
  by (simp_all add: opt_mss_def Let_def word_gt_0 linorder_not_less)

lemma parse_mss_range: "0 < m \<Longrightarrow> m \<le> TCP_MSS \<Longrightarrow> 0 < parse_mss bs m \<and> parse_mss bs m \<le> TCP_MSS"
proof (induction bs m rule: parse_mss.induct)
  case (2 opt bs m)
  then show ?case using opt_mss_range by (auto split: list.splits)
qed simp

lemma bytes32_mss: "bytes32 (0x02040000 OR (ucast (m::u16) AND 0xFFFF)) = [ucast m, ucast (drop_bit 8 m), 4, 2]"
proof -
  have a: "(ucast m :: u32) AND 0xFFFF = ucast m"
  proof -
    have "(0xFFFF :: u32) = mask 16" by (simp add: mask_eq_exp_minus_1)
    then show ?thesis by (simp add: bit_eq_iff bit_simps) (auto simp: bit_imp_le_length dest: bit_imp_le_length)
  qed
  have b: "drop_bit 24 (ucast m :: u32) = 0" "drop_bit 16 (ucast m :: u32) = 0"
  proof -
    have "\<not> bit m (24 + n)" "\<not> bit m (16 + n)" for n using bit_imp_le_length [of m] by force+
    then show "drop_bit 24 (ucast m :: u32) = 0" "drop_bit 16 (ucast m :: u32) = 0"
      by (auto intro!: bit_word_eqI simp: bit_simps)
  qed
  have c: "ucast (ucast m :: u32) = (ucast m :: u8)" "ucast (drop_bit 8 (ucast m :: u32)) = (ucast (drop_bit 8 m) :: u8)"
    by (auto intro!: bit_word_eqI simp: bit_simps dest: bit_imp_le_length)
  have d: "(ucast (x OR y :: u32) :: u8) = ucast x OR ucast y" for x y by (rule bit_word_eqI) (auto simp: bit_simps)
  have e: "(33816576 :: u8) = 0" "(132096 :: u8) = 0" by (code_simp, code_simp)
  show ?thesis unfolding bytes32_def a drop_bit_or b d c by (simp add: e)
qed

lemma u16_of_bytes: "push_bit 8 (ucast (ucast (drop_bit 8 m) :: u8)) OR ucast (ucast m :: u8) = (m :: u16)"
  by (rule bit_word_eqI) (auto simp: bit_simps)

section \<open>Theorems\<close>

definition example_opts :: tcp_opts where
  "example_opts = \<lparr>opt1 = [1, 2, 4], tcphdr_opt1len = 3, tcphdr_opt2 = Some [5, 0, 3, 3, 7, 99], tcphdr_optlen = 8\<rparr>"



text \<open>
  The option that \<^verbatim>\<open>TCP_BUILD_MSS_OPTION\<close> builds is read back by the parser, limited
  to \<^verbatim>\<open>TCP_MSS\<close>.
\<close>

theorem mss_option_roundtrip:
  "parse_mss (bytes32 (TCP_BUILD_MSS_OPTION m)) d = (if m = 0 \<or> m > TCP_MSS then TCP_MSS else m)"
proof -
  have "bytes32 (TCP_BUILD_MSS_OPTION m) = [2, 4, ucast (drop_bit 8 m), ucast m]"
    by (simp add: TCP_BUILD_MSS_OPTION_def bytes32_htonl bytes32_mss del: of_nat_numeral)
  then show ?thesis by (simp add: opt_mss_def Let_def u16_of_bytes)
qed

text \<open>
  The parser reads one byte behind the options when the last option byte is an option kind:
  with only the option bytes in memory that read is outside.
\<close>

theorem tcp_parseopt_reads_behind:
  "tcp_parseopt \<lparr>opt1 = [1, 1, 1, 2], tcphdr_opt1len = 4, tcphdr_opt2 = None, tcphdr_optlen = 4\<rparr> p = None"
proof -
  have "parseopt_loop \<lparr>opt1 = [1, 1, 1, 2], tcphdr_opt1len = 4, tcphdr_opt2 = None, tcphdr_optlen = 4\<rparr> 0 m = None" for m
    by (simp add: parseopt_loop.simps tcp_get_next_optbyte_def byte_at_def)
  then show ?thesis by (simp add: tcp_parseopt_def)
qed

end
