(* ===== verification/Tcp_In.thy ===== *)
theory Tcp_In
  imports Tcp_Opt
begin

text \<open>
  Input processing of a connection (\<^verbatim>\<open>tcp_in.c\<close>): \<^verbatim>\<open>tcp_receive\<close>, which handles
  acknowledgements, passes in-sequence data on and queues the rest, \<^verbatim>\<open>tcp_parseopt\<close>,
  and \<^verbatim>\<open>tcp_process\<close>, the state machine of the protocol.

  The record \<open>tcp_in\<close> holds the connection and the static variables of the file that
  \<^verbatim>\<open>tcp_input\<close> sets for the segment in hand. \<open>None\<close> is a failed
  \<^verbatim>\<open>LWIP_ASSERT\<close>. What lies below is given by the state: \<open>seg_mem\<close> says whether
  \<^verbatim>\<open>tcp_seg_copy\<close> finds memory (it is called at most once for a segment), \<open>send_results\<close> what
  becomes of the control segments, in order.
\<close>

unbundle bit_operations_syntax

section \<open>State\<close>

record tcp_in =
  pcb :: tcp_pcb
  inseg :: tcp_seg
  tflags :: u8
  seqno :: u32
  ackno :: u32
  tcplen :: u16
  hdr_wnd :: u16
  tcphdr_opts :: tcp_opts
  recv_acked :: u16
  recv_flags :: u8
  recv_data :: "u8 list option"
  tcp_ticks :: u32
  seg_mem :: bool
  send_results :: "send_result list"
  actions :: "tcp_action list"

definition on_pcb :: "(tcp_pcb \<Rightarrow> tcp_pcb) \<Rightarrow> tcp_in \<Rightarrow> tcp_in" where
  "on_pcb f s = s\<lparr>pcb := f (pcb s)\<rparr>"

text \<open>The result of the next control segment; when the script is used up it is sent.\<close>

definition next_result :: "tcp_in \<Rightarrow> send_result" where
  "next_result s = (case send_results s of [] \<Rightarrow> Send_Result ERR_OK | r # _ \<Rightarrow> r)"

definition send_ack :: "tcp_in \<Rightarrow> tcp_in" where
  "send_ack s =
     (case tcp_send_empty_ack (next_result s) (pcb s) of
        (_, acts, p) \<Rightarrow> s\<lparr>pcb := p, actions := actions s @ acts, send_results := drop 1 (send_results s)\<rparr>)"

section \<open>Trimming a segment\<close>

text \<open>\<^verbatim>\<open>seg->len = n; pbuf_realloc(seg->p, seg->len)\<close>; \<^verbatim>\<open>pbuf_realloc\<close> never enlarges a pbuf.\<close>

definition seg_realloc :: "u16 \<Rightarrow> tcp_seg \<Rightarrow> tcp_seg" where
  "seg_realloc n seg = seg\<lparr>slen := n, sdata := take (unat n) (sdata seg)\<rparr>"

text \<open>The end of a segment as the queue code computes it, without \<^verbatim>\<open>FIN\<close>.\<close>

definition seg_right :: "tcp_seg \<Rightarrow> u32" where
  "seg_right seg = sseq seg + ucast (slen seg)"

section \<open>The out-of-sequence queue\<close>

text \<open>The segments of the queue that the new one covers are dropped; it takes over their \<^verbatim>\<open>FIN\<close>.\<close>

fun oos_drop_covered :: "u32 \<Rightarrow> tcp_seg \<Rightarrow> tcp_seg list \<Rightarrow> tcp_seg \<times> tcp_seg list" where
  "oos_drop_covered seq cseg [] = (cseg, [])"
| "oos_drop_covered seq cseg (nxt # rest) =
     (if TCP_SEQ_GEQ (seq + ucast (slen cseg)) (seg_right nxt) then
        oos_drop_covered seq (if has8 (sflags nxt) TCP_FIN then cseg\<lparr>sflags := sflags cseg OR TCP_FIN\<rparr> else cseg) rest
      else (cseg, nxt # rest))"

definition tcp_oos_insert_segment :: "u32 \<Rightarrow> tcp_seg \<Rightarrow> tcp_seg list \<Rightarrow> tcp_seg list" where
  "tcp_oos_insert_segment seq cseg nxt =
     (if has8 (sflags cseg) TCP_FIN then [cseg]
      else (case oos_drop_covered seq cseg nxt of
              (cseg, []) \<Rightarrow> [cseg]
            | (cseg, n # rest) \<Rightarrow>
                if TCP_SEQ_GT (seq + ucast (slen cseg)) (sseq n)
                then seg_realloc (ucast (sseq n - seq)) cseg # n # rest
                else cseg # n # rest))"

text \<open>The previous segment is cut where the new one begins.\<close>

definition oos_trim_prev :: "u32 \<Rightarrow> tcp_seg \<Rightarrow> tcp_seg" where
  "oos_trim_prev seq prev =
     (if TCP_SEQ_GT (seg_right prev) seq then seg_realloc (ucast (seq - sseq prev)) prev else prev)"

text \<open>A segment appended to the queue is cut at the right edge of the receive window.\<close>

definition oos_trim_window :: "tcp_in \<Rightarrow> tcp_seg \<Rightarrow> tcp_seg option" where
  "oos_trim_window s cseg =
     (let edge = rcv_nxt (pcb s) + ucast (rcv_wnd (pcb s)) in
      if TCP_SEQ_GT (ucast (tcplen s) + seqno s) edge then do {
        let cseg = seg_realloc (ucast (edge - seqno s)) (cseg\<lparr>sflags := sflags cseg AND NOT TCP_FIN\<rparr>);
        LWIP_ASSERT (seqno s + ucast (TCP_TCPLEN cseg) = edge);
        Some cseg }
      else Some cseg)"

text \<open>
  The walk over the queue, which returns the queue from \<open>prev\<close> on. The code calls
  \<^verbatim>\<open>tcp_seg_copy\<close> at the four places that test \<open>seg_mem\<close>.
\<close>

fun oos_walk :: "tcp_in \<Rightarrow> tcp_seg option \<Rightarrow> tcp_seg list \<Rightarrow> tcp_seg list option" where
  "oos_walk s prev [] = Some (case prev of None \<Rightarrow> [] | Some q \<Rightarrow> [q])"
| "oos_walk s prev (nxt # rest) =
     (let before = (case prev of None \<Rightarrow> [] | Some q \<Rightarrow> [q]) in
      if seqno s = sseq nxt then
        (if slen (inseg s) > slen nxt \<and> seg_mem s
         then Some (before @ tcp_oos_insert_segment (seqno s) (inseg s) (nxt # rest))
         else Some (before @ nxt # rest))
      else if prev = None \<and> TCP_SEQ_LT (seqno s) (sseq nxt) then
        Some (if seg_mem s then tcp_oos_insert_segment (seqno s) (inseg s) (nxt # rest) else nxt # rest)
      else if prev \<noteq> None \<and> TCP_SEQ_BETWEEN (seqno s) (sseq (the prev) + 1) (sseq nxt - 1) then
        Some (if seg_mem s
              then oos_trim_prev (seqno s) (the prev) # tcp_oos_insert_segment (seqno s) (inseg s) (nxt # rest)
              else before @ nxt # rest)
      else if rest = [] \<and> TCP_SEQ_GT (seqno s) (sseq nxt) then
        (if has8 (sflags nxt) TCP_FIN \<or> \<not> seg_mem s then Some (before @ [nxt])
         else do {
           cseg \<leftarrow> oos_trim_window s (inseg s);
           Some (before @ [oos_trim_prev (seqno s) nxt, cseg]) })
      else map_option (\<lambda>q. before @ q) (oos_walk s (Some nxt) rest))"

definition oos_queue :: "tcp_in \<Rightarrow> tcp_seg list option" where
  "oos_queue s = (if ooseq (pcb s) = [] then Some (if seg_mem s then [inseg s] else [])
                  else oos_walk s None (ooseq (pcb s)))"

section \<open>Acknowledgements\<close>

fun tcp_free_acked_segments ::
  "u32 \<Rightarrow> bool \<Rightarrow> tcp_seg list \<Rightarrow> u16 \<times> u16 \<Rightarrow> (tcp_seg list \<times> u16 \<times> u16) option" where
  "tcp_free_acked_segments ack other [] (qlen, acked) = Some ([], qlen, acked)"
| "tcp_free_acked_segments ack other (seg # segs) (qlen, acked) =
     (if TCP_SEQ_LEQ (sseq seg + ucast (TCP_TCPLEN seg)) ack then do {
        LWIP_ASSERT (qlen \<ge> sclen seg);
        let qlen = qlen - sclen seg;
        let acked = acked + slen seg;
        LWIP_ASSERT (qlen \<noteq> 0 \<longrightarrow> segs \<noteq> [] \<or> other);
        tcp_free_acked_segments ack other segs (qlen, acked) }
      else Some (seg # segs, qlen, acked))"

definition update_snd_wnd :: "tcp_in \<Rightarrow> tcp_pcb \<Rightarrow> tcp_pcb" where
  "update_snd_wnd s p =
     (if TCP_SEQ_LT (snd_wl1 p) (seqno s)
         \<or> snd_wl1 p = seqno s \<and> TCP_SEQ_LT (snd_wl2 p) (ackno s)
         \<or> snd_wl2 p = ackno s \<and> hdr_wnd s > snd_wnd p
      then p\<lparr>snd_wnd := hdr_wnd s, snd_wnd_max := max (snd_wnd_max p) (hdr_wnd s),
             snd_wl1 := seqno s, snd_wl2 := ackno s\<rparr>
      else p)"

text \<open>The branch for an acknowledgement that acknowledges nothing new.\<close>

definition ack_old :: "tcp_in \<Rightarrow> u32 \<Rightarrow> tcp_pcb \<Rightarrow> tcp_pcb" where
  "ack_old s right_wnd_edge p =
     (if tcplen s = 0 \<and> snd_wl2 p + ucast (snd_wnd p) = right_wnd_edge
         \<and> sint (rtime p) \<ge> 0 \<and> lastack p = ackno s
      then let p = (if dupacks p + 1 > dupacks p then p\<lparr>dupacks := dupacks p + 1\<rparr> else p);
               p = (if dupacks p > 3 then p\<lparr>cwnd := TCP_WND_INC (cwnd p) (mss p)\<rparr> else p)
           in if dupacks p \<ge> 3 then tcp_rexmit_fast p else p
      else p\<lparr>dupacks := 0\<rparr>)"

definition ack_congestion :: "u16 \<Rightarrow> tcp_pcb \<Rightarrow> tcp_pcb" where
  "ack_congestion acked p =
     (if state_no (state p) \<ge> state_no ESTABLISHED then
        (if cwnd p < ssthresh p then
           let num_seg = (if has16 (pcb_flags p) TF_RTO then 1 else 2)
           in p\<lparr>cwnd := TCP_WND_INC (cwnd p) (min acked (num_seg * mss p))\<rparr>
         else
           let p = p\<lparr>bytes_acked := TCP_WND_INC (bytes_acked p) acked\<rparr>
           in if bytes_acked p \<ge> cwnd p
              then p\<lparr>bytes_acked := bytes_acked p - cwnd p, cwnd := TCP_WND_INC (cwnd p) (mss p)\<rparr>
              else p)
      else p)"

definition ack_end_rto :: "tcp_pcb \<Rightarrow> tcp_pcb" where
  "ack_end_rto p =
     (if has16 (pcb_flags p) TF_RTO then
        (case (unacked p, unsent p) of
           ([], []) \<Rightarrow> tcp_clear_flags TF_RTO p
         | ([], seg # _) \<Rightarrow> if TCP_SEQ_LEQ (rto_end p) (sseq seg) then tcp_clear_flags TF_RTO p else p
         | (seg # _, _) \<Rightarrow> if TCP_SEQ_LEQ (rto_end p) (sseq seg) then tcp_clear_flags TF_RTO p else p)
      else p)"

text \<open>The branch for an acknowledgement of new data.\<close>

definition ack_new :: "tcp_in \<Rightarrow> tcp_in option" where
  "ack_new s = do {
     let p = pcb s;
     let p = (if has16 (pcb_flags p) TF_INFR
              then (tcp_clear_flags TF_INFR p)\<lparr>cwnd := ssthresh p, bytes_acked := 0\<rparr> else p);
     let p = p\<lparr>nrtx := 0, rto := signed_drop_bit 3 (sa p) + sv p\<rparr>;
     let acked = ucast (ackno s - lastack p);
     let p = ack_congestion acked (p\<lparr>dupacks := 0, lastack := ackno s\<rparr>);
     (ua, qlen, racked) \<leftarrow>
       tcp_free_acked_segments (ackno s) (unsent p \<noteq> []) (unacked p) (snd_queuelen p, recv_acked s);
     (us, qlen, racked) \<leftarrow>
       tcp_free_acked_segments (ackno s) (ua \<noteq> []) (unsent p) (qlen, racked);
     let p = p\<lparr>unacked := ua, unsent := us, snd_queuelen := qlen,
               rtime := (if ua = [] then -1 else 0), polltmr := 0,
               unsent_oversize := (if us = [] then 0 else unsent_oversize p),
               snd_buf := snd_buf p + racked\<rparr>;
     Some (s\<lparr>pcb := ack_end_rto p, recv_acked := racked\<rparr>) }"

definition rtt_estimate :: "tcp_in \<Rightarrow> tcp_pcb \<Rightarrow> tcp_pcb" where
  "rtt_estimate s p =
     (if rttest p \<noteq> 0 \<and> TCP_SEQ_LT (rtseq p) (ackno s) then
        let m = ucast (tcp_ticks s - rttest p) - signed_drop_bit 3 (sa p);
            p = p\<lparr>sa := sa p + m\<rparr>;
            m = (if sint m < 0 then - m else m);
            m = m - signed_drop_bit 2 (sv p);
            p = p\<lparr>sv := sv p + m\<rparr>
        in p\<lparr>rto := signed_drop_bit 3 (sa p) + sv p, rttest := 0\<rparr>
      else p)"

definition receive_ack :: "tcp_in \<Rightarrow> tcp_in option" where
  "receive_ack s = do {
     let right_wnd_edge = ucast (snd_wnd (pcb s)) + snd_wl2 (pcb s);
     let s = on_pcb (update_snd_wnd s) s;
     s \<leftarrow> (if TCP_SEQ_LEQ (ackno s) (lastack (pcb s)) then Some (on_pcb (ack_old s right_wnd_edge) s)
          else if TCP_SEQ_BETWEEN (ackno s) (lastack (pcb s) + 1) (snd_nxt (pcb s)) then ack_new s
          else Some (send_ack s));
     Some (on_pcb (rtt_estimate s) s) }"

section \<open>Data\<close>

text \<open>The first edge of a segment that begins before \<^verbatim>\<open>rcv_nxt\<close> is cut off.\<close>

definition trim_front :: "tcp_in \<Rightarrow> tcp_in option" where
  "trim_front s =
     (let p = pcb s in
      if TCP_SEQ_BETWEEN (rcv_nxt p) (seqno s + 1) (seqno s + ucast (tcplen s) - 1) then do {
        let off32 = rcv_nxt p - seqno s;
        LWIP_ASSERT (off32 < 0xffff);
        let off = (ucast off32 :: u16);
        LWIP_ASSERT (length (sdata (inseg s)) \<ge> unat off);
        Some (s\<lparr>inseg := (inseg s)\<lparr>slen := slen (inseg s) - off, sdata := drop (unat off) (sdata (inseg s)),
                                    sseq := rcv_nxt p\<rparr>,
                seqno := rcv_nxt p\<rparr>) }
      else if TCP_SEQ_LT (seqno s) (rcv_nxt p) then Some (on_pcb tcp_ack_now s)
      else Some s)"

text \<open>In-sequence data: the end of the segment is cut at the receive window.\<close>

definition trim_to_wnd :: "tcp_in \<Rightarrow> tcp_in option" where
  "trim_to_wnd s = do {
     let s = s\<lparr>tcplen := TCP_TCPLEN (inseg s)\<rparr>;
     let p = pcb s;
     if tcplen s > rcv_wnd p then do {
       let seg = (inseg s)\<lparr>sflags := sflags (inseg s) AND NOT TCP_FIN\<rparr>;
       let seg = seg_realloc (rcv_wnd p - (if has8 (sflags seg) TCP_SYN then 1 else 0)) seg;
       let s = s\<lparr>inseg := seg, tcplen := TCP_TCPLEN seg\<rparr>;
       LWIP_ASSERT (seqno s + ucast (tcplen s) = rcv_nxt p + ucast (rcv_wnd p));
       Some s }
     else Some s }"

text \<open>Queued segments that the in-sequence segment covers are dropped; it takes over their \<^verbatim>\<open>FIN\<close>.\<close>

fun ins_drop_covered :: "u32 \<Rightarrow> tcp_seg \<times> u16 \<Rightarrow> tcp_seg list \<Rightarrow> (tcp_seg \<times> u16) \<times> tcp_seg list" where
  "ins_drop_covered seq (seg, tlen) [] = ((seg, tlen), [])"
| "ins_drop_covered seq (seg, tlen) (nxt # rest) =
     (if TCP_SEQ_GEQ (seq + ucast tlen) (seg_right nxt) then
        (if has8 (sflags nxt) TCP_FIN \<and> \<not> has8 (sflags seg) TCP_SYN
         then let seg = seg\<lparr>sflags := sflags seg OR TCP_FIN\<rparr>
              in ins_drop_covered seq (seg, TCP_TCPLEN seg) rest
         else ins_drop_covered seq (seg, tlen) rest)
      else ((seg, tlen), nxt # rest))"

definition trim_to_ooseq :: "tcp_in \<Rightarrow> tcp_in option" where
  "trim_to_ooseq s =
     (let p = pcb s in
      if ooseq p = [] then Some s
      else if has8 (sflags (inseg s)) TCP_FIN then Some (s\<lparr>pcb := p\<lparr>ooseq := []\<rparr>\<rparr>)
      else (case ins_drop_covered (seqno s) (inseg s, tcplen s) (ooseq p) of
              ((seg, tlen), q) \<Rightarrow>
                let s = s\<lparr>inseg := seg, tcplen := tlen, pcb := p\<lparr>ooseq := q\<rparr>\<rparr> in
                (case q of
                   [] \<Rightarrow> Some s
                 | n # _ \<Rightarrow>
                     if TCP_SEQ_GT (seqno s + ucast tlen) (sseq n) then do {
                       let len = ucast (sseq n - seqno s) - (if has8 (sflags seg) TCP_SYN then 1 else 0);
                       let seg = seg_realloc len seg;
                       let s = s\<lparr>inseg := seg, tcplen := TCP_TCPLEN seg\<rparr>;
                       LWIP_ASSERT (seqno s + ucast (tcplen s) = sseq n);
                       Some s }
                     else Some s)))"

definition advance_rcv :: "u16 \<Rightarrow> tcp_pcb \<Rightarrow> tcp_pcb option" where
  "advance_rcv n p = do {
     LWIP_ASSERT (rcv_wnd p \<ge> n);
     (_, p) \<leftarrow> tcp_update_rcv_ann_wnd (p\<lparr>rcv_nxt := rcv_nxt p + ucast n, rcv_wnd := rcv_wnd p - n\<rparr>);
     Some p }"

definition cat_data :: "u8 list option \<Rightarrow> u8 list \<Rightarrow> u8 list option" where
  "cat_data d bs = (if bs = [] then d else case d of None \<Rightarrow> Some bs | Some xs \<Rightarrow> Some (xs @ bs))"

definition pass_up_queued :: "tcp_seg \<Rightarrow> tcp_in \<Rightarrow> tcp_in" where
  "pass_up_queued cseg s =
     (let s = s\<lparr>seqno := sseq cseg, recv_data := cat_data (recv_data s) (sdata cseg)\<rparr>
      in if has8 (sflags cseg) TCP_FIN
         then on_pcb (\<lambda>p. if state p = ESTABLISHED then p\<lparr>state := CLOSE_WAIT\<rparr> else p)
                (s\<lparr>recv_flags := recv_flags s OR TF_GOT_FIN\<rparr>)
         else s)"

text \<open>Queued segments that are now in sequence are passed on; the list is the queue.\<close>

fun dequeue_ooseq :: "tcp_seg list \<Rightarrow> tcp_in \<Rightarrow> tcp_in option" where
  "dequeue_ooseq [] s = Some (on_pcb (\<lambda>p. p\<lparr>ooseq := []\<rparr>) s)"
| "dequeue_ooseq (cseg # rest) s =
     (if sseq cseg = rcv_nxt (pcb s) then do {
        p \<leftarrow> advance_rcv (TCP_TCPLEN cseg) (pcb s);
        dequeue_ooseq rest (pass_up_queued cseg (s\<lparr>pcb := p\<rparr>)) }
      else Some (on_pcb (\<lambda>p. p\<lparr>ooseq := cseg # rest\<rparr>) s))"

text \<open>The data and the \<^verbatim>\<open>FIN\<close> of the segment in hand are noted for the application.\<close>

definition pass_up :: "tcp_in \<Rightarrow> tcp_in" where
  "pass_up s =
     (let s = (if sdata (inseg s) \<noteq> [] then s\<lparr>recv_data := Some (sdata (inseg s))\<rparr> else s)
      in if has8 (sflags (inseg s)) TCP_FIN then s\<lparr>recv_flags := recv_flags s OR TF_GOT_FIN\<rparr> else s)"

definition receive_in_sequence :: "tcp_in \<Rightarrow> tcp_in option" where
  "receive_in_sequence s = do {
     s \<leftarrow> trim_to_wnd s;
     s \<leftarrow> trim_to_ooseq s;
     p \<leftarrow> advance_rcv (tcplen s) ((pcb s)\<lparr>rcv_nxt := seqno s\<rparr>);
     s \<leftarrow> dequeue_ooseq (ooseq p) (pass_up (s\<lparr>pcb := p\<rparr>));
     Some (on_pcb tcp_ack s) }"

definition receive_data :: "tcp_in \<Rightarrow> tcp_in option" where
  "receive_data s = do {
     s \<leftarrow> trim_front s;
     let p = pcb s;
     if TCP_SEQ_BETWEEN (seqno s) (rcv_nxt p) (rcv_nxt p + ucast (rcv_wnd p) - 1) then
       if rcv_nxt p = seqno s then receive_in_sequence s
       else do {
         q \<leftarrow> oos_queue s;
         Some (send_ack (on_pcb (\<lambda>p. p\<lparr>ooseq := q\<rparr>) s)) }
     else Some (send_ack s) }"

definition tcp_receive :: "tcp_in \<Rightarrow> tcp_in option" where
  "tcp_receive s = do {
     LWIP_ASSERT (state_no (state (pcb s)) \<ge> state_no ESTABLISHED);
     s \<leftarrow> (if has8 (tflags s) TCP_ACK then receive_ack s else Some s);
     let p = pcb s;
     if tcplen s > 0 \<and> state_no (state p) < state_no CLOSE_WAIT then receive_data s
     else if \<not> TCP_SEQ_BETWEEN (seqno s) (rcv_nxt p) (rcv_nxt p + ucast (rcv_wnd p) - 1)
     then Some (on_pcb tcp_ack_now s)
     else Some s }"

end
