(* ===== verification/Tcp_Process.thy ===== *)
theory Tcp_Process
  imports Tcp_In
begin

text \<open>
  The state machine of the protocol: \<^verbatim>\<open>tcp_process\<close> and \<^verbatim>\<open>tcp_timewait_input\<close>
  (\<^verbatim>\<open>tcp_in.c\<close>) with what they call of \<^verbatim>\<open>tcp.c\<close> and \<^verbatim>\<open>tcp_out.c\<close>. While a
  segment is processed, \<^verbatim>\<open>tcp_output\<close> returns at once for the connection in hand
  (\<^verbatim>\<open>tcp_input_pcb == pcb\<close>), so its calls leave no trace here.

  The application's callbacks and the route to the peer are given by an environment. The
  demultiplexer has matched the ports of the segment with those of the connection.
\<close>

unbundle bit_operations_syntax

section \<open>Environment and helpers\<close>

record tcp_env =
  connected :: "tcp_pcb \<Rightarrow> err_t \<times> tcp_pcb"
  accept :: "tcp_pcb \<Rightarrow> err_t \<times> tcp_pcb"
  dest_is_v6 :: bool
  route_mtu :: "u16 option"

definition LWIP_TCP_CALC_INITIAL_CWND :: "u16 \<Rightarrow> u16" where
  "LWIP_TCP_CALC_INITIAL_CWND m = of_nat (min (4 * unat m) (max (2 * unat m) 4380))"

text \<open>
  \<^verbatim>\<open>route_mtu\<close> is the MTU of the interface to an IPv4 peer (\<open>None\<close> without a route) or
  what \<^verbatim>\<open>nd6_get_destination_mtu\<close> returns for an IPv6 peer.
\<close>

definition tcp_eff_send_mss_netif :: "u16 \<Rightarrow> bool \<Rightarrow> u16 option \<Rightarrow> u16" where
  "tcp_eff_send_mss_netif sendmss v6 mtu =
     (case mtu of
        None \<Rightarrow> sendmss
      | Some m \<Rightarrow> if m \<noteq> 0 then
                    let offset = (if v6 then 40 + 20 else 20 + 20);
                        mss_s = (if m > offset then m - offset else 0)
                    in min sendmss mss_s
                  else sendmss)"

definition tcp_pcb_purge :: "tcp_pcb \<Rightarrow> tcp_pcb" where
  "tcp_pcb_purge p =
     (if state p \<noteq> CLOSED \<and> state p \<noteq> TIME_WAIT \<and> state p \<noteq> LISTEN
      then p\<lparr>refused_data := None, ooseq := [], rtime := -1, unsent := [], unacked := [], unsent_oversize := 0\<rparr>
      else p)"

text \<open>
  A reset (\<^verbatim>\<open>tcp_rst\<close>): \<^verbatim>\<open>PP_HTONS\<close> is applied to the window and
  \<^verbatim>\<open>tcp_output_alloc_header_common\<close> swaps it again; the trace holds what the peer reads.
\<close>

definition tcp_rst :: "u32 \<Rightarrow> u32 \<Rightarrow> u16 \<Rightarrow> u16 \<Rightarrow> tcp_in \<Rightarrow> tcp_in" where
  "tcp_rst sq ak lport rport s =
     (let wnd = lwip_htons TCP_WND;
          field = lwip_htons wnd;
          acts = (if next_result s = Send_Result ERR_OK then [Sent_Rst sq ak (lwip_htons field) lport rport] else [])
      in s\<lparr>actions := actions s @ acts, send_results := drop 1 (send_results s)\<rparr>)"

definition rst_segment :: "tcp_in \<Rightarrow> tcp_in" where
  "rst_segment s = tcp_rst (ackno s) (seqno s + ucast (tcplen s)) (local_port (pcb s)) (remote_port (pcb s)) s"

definition tcp_rexmit_rto_commit :: "tcp_pcb \<Rightarrow> tcp_pcb" where
  "tcp_rexmit_rto_commit p = (if nrtx p < 0xFF then p\<lparr>nrtx := nrtx p + 1\<rparr> else p)"

definition tcp_rexmit_rto :: "tcp_pcb \<Rightarrow> tcp_pcb" where
  "tcp_rexmit_rto p =
     (case tcp_rexmit_rto_prepare p of (ERR_OK, p) \<Rightarrow> tcp_rexmit_rto_commit p | (_, p) \<Rightarrow> p)"

text \<open>\<^verbatim>\<open>tcp_pcb_remove\<close> and \<^verbatim>\<open>tcp_abandon\<close> with a reset, for the connection in hand.\<close>

definition tcp_pcb_remove :: "tcp_pcb \<Rightarrow> tcp_pcb option" where
  "tcp_pcb_remove p = do {
     let p = tcp_pcb_purge p;
     let p = (if state p \<noteq> TIME_WAIT \<and> state p \<noteq> LISTEN \<and> has16 (pcb_flags p) TF_ACK_DELAY then tcp_ack_now p else p);
     LWIP_ASSERT (state p \<noteq> LISTEN \<longrightarrow> unsent p = [] \<and> unacked p = [] \<and> ooseq p = []);
     Some (p\<lparr>state := CLOSED, local_port := 0\<rparr>) }"

definition tcp_abort :: "tcp_in \<Rightarrow> tcp_in option" where
  "tcp_abort s = do {
     let p = pcb s;
     LWIP_ASSERT (state p \<noteq> LISTEN);
     if state p = TIME_WAIT then do {
       p \<leftarrow> tcp_pcb_remove p;
       Some (s\<lparr>pcb := p, actions := actions s @ [Pcb_Freed]\<rparr>) }
     else if state p = CLOSED then Some (s\<lparr>actions := actions s @ [Pcb_Freed, Event_Err ERR_ABRT]\<rparr>)
     else do {
       p' \<leftarrow> tcp_pcb_remove p;
       let s = tcp_rst (snd_nxt p) (rcv_nxt p) (local_port p) (remote_port p) (s\<lparr>pcb := p'\<rparr>);
       Some (s\<lparr>actions := actions s @ [Pcb_Freed, Event_Err ERR_ABRT]\<rparr>) } }"

section \<open>tcp_process\<close>

definition process_rst :: "tcp_in \<Rightarrow> (err_t \<times> tcp_in) option" where
  "process_rst s =
     (let p = pcb s;
          acceptable = (if state p = SYN_SENT then ackno s = snd_nxt p else seqno s = rcv_nxt p);
          s = (if \<not> acceptable \<and> state p \<noteq> SYN_SENT
                  \<and> TCP_SEQ_BETWEEN (seqno s) (rcv_nxt p) (rcv_nxt p + ucast (rcv_wnd p))
               then on_pcb tcp_ack_now s else s)
      in if acceptable then do {
           LWIP_ASSERT (state p \<noteq> CLOSED);
           Some (ERR_RST, on_pcb (tcp_clear_flags TF_ACK_DELAY) (s\<lparr>recv_flags := recv_flags s OR TF_RESET\<rparr>)) }
         else Some (ERR_OK, s))"

text \<open>The acknowledged SYN is taken off the queue it is on.\<close>

definition free_syn :: "tcp_pcb \<Rightarrow> tcp_pcb option" where
  "free_syn p =
     (case unacked p of
        [] \<Rightarrow> do { LWIP_ASSERT (unsent p \<noteq> []); Some (p\<lparr>unsent := tl (unsent p)\<rparr>) }
      | _ # rest \<Rightarrow> Some (p\<lparr>unacked := rest\<rparr>))"

definition process_syn_sent :: "tcp_env \<Rightarrow> tcp_in \<Rightarrow> (err_t \<times> tcp_in) option" where
  "process_syn_sent env s =
     (let p = pcb s in
      if has8 (tflags s) TCP_ACK \<and> has8 (tflags s) TCP_SYN \<and> ackno s = lastack p + 1 then do {
        let m = tcp_eff_send_mss_netif (mss p) (dest_is_v6 env) (route_mtu env);
        let p = p\<lparr>rcv_nxt := seqno s + 1, rcv_ann_right_edge := seqno s + 1, lastack := ackno s,
                  snd_wnd := hdr_wnd s, snd_wnd_max := hdr_wnd s, snd_wl1 := seqno s - 1, state := ESTABLISHED,
                  mss := m, cwnd := LWIP_TCP_CALC_INITIAL_CWND m\<rparr>;
        LWIP_ASSERT (snd_queuelen p > 0);
        p \<leftarrow> free_syn (p\<lparr>snd_queuelen := snd_queuelen p - 1\<rparr>);
        let p = (if unacked p = [] then p\<lparr>rtime := -1\<rparr> else p\<lparr>rtime := 0, nrtx := 0\<rparr>);
        let (err, p) = connected env p;
        if err = ERR_ABRT then Some (ERR_ABRT, s\<lparr>pcb := p\<rparr>)
        else Some (ERR_OK, s\<lparr>pcb := tcp_ack_now p\<rparr>) }
      else if has8 (tflags s) TCP_ACK then
        let s = rst_segment s
        in Some (ERR_OK, if nrtx (pcb s) < 6 then on_pcb (\<lambda>p. tcp_rexmit_rto (p\<lparr>rtime := 0\<rparr>)) s else s)
      else Some (ERR_OK, s))"

definition got_FIN :: "tcp_in \<Rightarrow> bool" where
  "got_FIN s \<longleftrightarrow> has8 (recv_flags s) TF_GOT_FIN"

definition passive_close :: "tcp_in \<Rightarrow> tcp_in" where
  "passive_close s = (if got_FIN s then on_pcb (\<lambda>p. (tcp_ack_now p)\<lparr>state := CLOSE_WAIT\<rparr>) s else s)"

definition process_syn_rcvd :: "tcp_env \<Rightarrow> tcp_in \<Rightarrow> (err_t \<times> tcp_in) option" where
  "process_syn_rcvd env s =
     (let p = pcb s in
      if has8 (tflags s) TCP_ACK then
        if TCP_SEQ_BETWEEN (ackno s) (lastack p + 1) (snd_nxt p) then
          let p = p\<lparr>state := ESTABLISHED\<rparr>;
              (err, p) = (if listener p then accept env p else (ERR_VAL, p));
              s = s\<lparr>pcb := p\<rparr>
          in if err \<noteq> ERR_OK then do {
               s \<leftarrow> (if err \<noteq> ERR_ABRT then tcp_abort s else Some s);
               Some (ERR_ABRT, s) }
             else do {
               s \<leftarrow> tcp_receive s;
               let s = (if recv_acked s \<noteq> 0 then s\<lparr>recv_acked := recv_acked s - 1\<rparr> else s);
               let s = on_pcb (\<lambda>p. p\<lparr>cwnd := LWIP_TCP_CALC_INITIAL_CWND (mss p)\<rparr>) s;
               Some (ERR_OK, passive_close s) }
        else Some (ERR_OK, rst_segment s)
      else if has8 (tflags s) TCP_SYN \<and> seqno s = rcv_nxt p - 1 then Some (ERR_OK, on_pcb (\<lambda>p. snd (tcp_rexmit p)) s)
      else Some (ERR_OK, s))"

text \<open>Everything sent, the \<^verbatim>\<open>FIN\<close> included, is acknowledged.\<close>

definition all_acked :: "tcp_in \<Rightarrow> bool" where
  "all_acked s \<longleftrightarrow> has8 (tflags s) TCP_ACK \<and> ackno s = snd_nxt (pcb s) \<and> unsent (pcb s) = []"

definition enter_time_wait :: "tcp_in \<Rightarrow> tcp_in" where
  "enter_time_wait s = s\<lparr>pcb := (tcp_pcb_purge (pcb s))\<lparr>state := TIME_WAIT\<rparr>, actions := actions s @ [To_Time_Wait]\<rparr>"

definition process_fin_wait_1 :: "tcp_in \<Rightarrow> (err_t \<times> tcp_in) option" where
  "process_fin_wait_1 s = do {
     s \<leftarrow> tcp_receive s;
     Some (ERR_OK,
       if got_FIN s then
         if all_acked s then enter_time_wait (on_pcb tcp_ack_now s)
         else on_pcb (\<lambda>p. (tcp_ack_now p)\<lparr>state := CLOSING\<rparr>) s
       else if all_acked s then on_pcb (\<lambda>p. p\<lparr>state := FIN_WAIT_2\<rparr>) s
       else s) }"

definition process_fin_wait_2 :: "tcp_in \<Rightarrow> (err_t \<times> tcp_in) option" where
  "process_fin_wait_2 s = do {
     s \<leftarrow> tcp_receive s;
     Some (ERR_OK, if got_FIN s then enter_time_wait (on_pcb tcp_ack_now s) else s) }"

definition process_closing :: "tcp_in \<Rightarrow> (err_t \<times> tcp_in) option" where
  "process_closing s = do {
     s \<leftarrow> tcp_receive s;
     Some (ERR_OK, if all_acked s then enter_time_wait s else s) }"

definition process_last_ack :: "tcp_in \<Rightarrow> (err_t \<times> tcp_in) option" where
  "process_last_ack s = do {
     s \<leftarrow> tcp_receive s;
     Some (ERR_OK, if all_acked s then s\<lparr>recv_flags := recv_flags s OR TF_CLOSED\<rparr> else s) }"

definition process_established :: "tcp_in \<Rightarrow> (err_t \<times> tcp_in) option" where
  "process_established s = do { s \<leftarrow> tcp_receive s; Some (ERR_OK, passive_close s) }"

text \<open>The \<^verbatim>\<open>switch\<close> over the state of the connection.\<close>

definition process_state :: "tcp_env \<Rightarrow> tcp_in \<Rightarrow> (err_t \<times> tcp_in) option" where
  "process_state env s =
     (case state (pcb s) of
        SYN_SENT \<Rightarrow> process_syn_sent env s
      | SYN_RCVD \<Rightarrow> process_syn_rcvd env s
      | CLOSE_WAIT \<Rightarrow> process_established s
      | ESTABLISHED \<Rightarrow> process_established s
      | FIN_WAIT_1 \<Rightarrow> process_fin_wait_1 s
      | FIN_WAIT_2 \<Rightarrow> process_fin_wait_2 s
      | CLOSING \<Rightarrow> process_closing s
      | LAST_ACK \<Rightarrow> process_last_ack s
      | _ \<Rightarrow> Some (ERR_OK, s))"

definition tcp_process :: "tcp_env \<Rightarrow> tcp_in \<Rightarrow> (err_t \<times> tcp_in) option" where
  "tcp_process env s =
     (if has8 (tflags s) TCP_RST then process_rst s
      else if has8 (tflags s) TCP_SYN \<and> state (pcb s) \<noteq> SYN_SENT \<and> state (pcb s) \<noteq> SYN_RCVD
      then Some (ERR_OK, on_pcb tcp_ack_now s)
      else do {
        let p = pcb s;
        let p = (if has16 (pcb_flags p) TF_RXCLOSED then p else p\<lparr>tmr := tcp_ticks s\<rparr>);
        p \<leftarrow> tcp_parseopt (tcphdr_opts s) (p\<lparr>keep_cnt_sent := 0, persist_probe := 0\<rparr>);
        process_state env (s\<lparr>pcb := p\<rparr>) })"

section \<open>TIME-WAIT\<close>

text \<open>
  The body of \<^verbatim>\<open>tcp_timewait_input\<close> up to the call of \<^verbatim>\<open>tcp_output\<close>; the result says whether it is
  called.
\<close>

definition timewait_segment :: "tcp_in \<Rightarrow> bool \<times> tcp_in" where
  "timewait_segment s =
     (let p = pcb s in
      if has8 (tflags s) TCP_RST then (False, s)
      else if has8 (tflags s) TCP_SYN \<and> TCP_SEQ_BETWEEN (seqno s) (rcv_nxt p) (rcv_nxt p + ucast (rcv_wnd p))
      then (False, rst_segment s)
      else
        let s = (if \<not> has8 (tflags s) TCP_SYN \<and> has8 (tflags s) TCP_FIN
                 then on_pcb (\<lambda>p. p\<lparr>tmr := tcp_ticks s\<rparr>) s else s)
        in if tcplen s > 0 then (True, on_pcb tcp_ack_now s) else (False, s))"

end
