(* ===== verification/Tcp_Out.thy ===== *)
theory Tcp_Out
  imports Tcp_Process
begin

text \<open>
  Sending (\<^verbatim>\<open>tcp_out.c\<close>): \<^verbatim>\<open>tcp_output\<close> with \<^verbatim>\<open>tcp_output_segment\<close>, and the queueing of
  \<^verbatim>\<open>SYN\<close> and \<^verbatim>\<open>FIN\<close>. The environment says what routing and the interface give, and what becomes
  of an empty acknowledgement; the state holds the results of \<^verbatim>\<open>ip_output_if\<close> for the segments sent
  next (none left: success) and the trace. The segment size option is present exactly in segments
  with \<^verbatim>\<open>SYN\<close> (\<^verbatim>\<open>tcp_enqueue_flags\<close> is the only function that asks for it). The checksum of a segment
  is left to the theories on checksums.
\<close>

unbundle bit_operations_syntax

section \<open>State and environment\<close>

record out_env =
  is_input_pcb :: bool
  route_found :: bool
  netif_has_ip :: bool
  out_v6 :: bool
  out_mtu :: u16
  out_ticks :: u32
  empty_ack :: send_result

record tcp_out =
  opcb :: tcp_pcb
  oresults :: "err_t list"
  oactions :: "tcp_action list"

definition next_oresult :: "tcp_out \<Rightarrow> err_t" where
  "next_oresult s = (case oresults s of [] \<Rightarrow> ERR_OK | r # _ \<Rightarrow> r)"

abbreviation (input) TCP_SND_QUEUELEN :: u16 where "TCP_SND_QUEUELEN \<equiv> 90"

section \<open>tcp_output_segment\<close>

definition tcp_output_segment :: "out_env \<Rightarrow> tcp_seg \<Rightarrow> tcp_out \<Rightarrow> err_t \<times> tcp_out" where
  "tcp_output_segment env seg s =
     (if sbusy seg then (ERR_OK, s)
      else
        let p = opcb s;
            p = p\<lparr>rcv_ann_right_edge := rcv_nxt p + ucast (rcv_ann_wnd p)\<rparr>;
            opt = (if has8 (sflags seg) TCP_SYN
                   then Some (tcp_eff_send_mss_netif TCP_MSS (out_v6 env) (Some (out_mtu env))) else None);
            p = (if sint (rtime p) < 0 then p\<lparr>rtime := 0\<rparr> else p);
            p = (if rttest p = 0 then p\<lparr>rttest := out_ticks env, rtseq := sseq seg\<rparr> else p);
            err = next_oresult s;
            acts = (if err = ERR_OK
                    then [Sent_Seg (sseq seg) (sflags seg) (rcv_nxt p) (rcv_ann_wnd p) opt (sdata seg)] else [])
        in (err, s\<lparr>opcb := p, oresults := drop 1 (oresults s), oactions := oactions s @ acts\<rparr>))"

section \<open>tcp_output\<close>

definition tcp_do_output_nagle :: "tcp_pcb \<Rightarrow> bool" where
  "tcp_do_output_nagle p \<longleftrightarrow>
     unacked p = [] \<or> has16 (pcb_flags p) (TF_NODELAY OR TF_INFR)
     \<or> (case unsent p of [] \<Rightarrow> False | [seg] \<Rightarrow> slen seg \<ge> mss p | _ \<Rightarrow> True)
     \<or> snd_buf p = 0 \<or> snd_queuelen p \<ge> TCP_SND_QUEUELEN"

text \<open>The sent segment goes to the unacknowledged queue, before its tail when it is a retransmission.\<close>

definition put_unacked :: "tcp_seg \<Rightarrow> tcp_pcb \<Rightarrow> tcp_pcb" where
  "put_unacked seg p =
     (if TCP_TCPLEN seg > 0 then
        if unacked p = [] then p\<lparr>unacked := [seg]\<rparr>
        else if TCP_SEQ_LT (sseq seg) (sseq (last (unacked p))) then p\<lparr>unacked := insert_unsent seg (unacked p)\<rparr>
        else p\<lparr>unacked := unacked p @ [seg]\<rparr>
      else p)"

definition output_sent :: "tcp_seg \<Rightarrow> tcp_seg list \<Rightarrow> tcp_pcb \<Rightarrow> tcp_pcb" where
  "output_sent seg rest p =
     (let seg = seg\<lparr>soversize := 0\<rparr>;
          p = p\<lparr>unsent := rest\<rparr>;
          p = (if state p \<noteq> SYN_SENT then tcp_clear_flags (TF_ACK_DELAY OR TF_ACK_NOW) p else p);
          nxt = sseq seg + ucast (TCP_TCPLEN seg);
          p = (if TCP_SEQ_LT (snd_nxt p) nxt then p\<lparr>snd_nxt := nxt\<rparr> else p)
      in put_unacked seg p)"

text \<open>The loop; \<open>Some err\<close> is a return from within it.\<close>

fun output_loop :: "out_env \<Rightarrow> u32 \<Rightarrow> tcp_seg list \<Rightarrow> tcp_out \<Rightarrow> (err_t option \<times> tcp_out) option" where
  "output_loop env wnd [] s = Some (None, s)"
| "output_loop env wnd (seg # rest) s =
     (if sseq seg - lastack (opcb s) + ucast (slen seg) \<le> wnd then do {
        LWIP_ASSERT (\<not> has8 (sflags seg) TCP_RST);
        if \<not> tcp_do_output_nagle (opcb s) \<and> \<not> has16 (pcb_flags (opcb s)) (TF_NAGLEMEMERR OR TF_FIN) then Some (None, s)
        else do {
          let seg = (if state (opcb s) \<noteq> SYN_SENT then seg\<lparr>sflags := sflags seg OR TCP_ACK\<rparr> else seg);
          let s = s\<lparr>opcb := (opcb s)\<lparr>unsent := seg # rest\<rparr>\<rparr>;
          let (err, s) = tcp_output_segment env seg s;
          if err \<noteq> ERR_OK then Some (Some err, s\<lparr>opcb := tcp_set_flags TF_NAGLEMEMERR (opcb s)\<rparr>)
          else output_loop env wnd rest (s\<lparr>opcb := output_sent seg rest (opcb s)\<rparr>) } }
      else Some (None, s))"

definition output_empty_ack :: "out_env \<Rightarrow> tcp_out \<Rightarrow> err_t \<times> tcp_out" where
  "output_empty_ack env s =
     (case tcp_send_empty_ack (empty_ack env) (opcb s) of
        (err, acts, p) \<Rightarrow> (err, s\<lparr>opcb := p, oactions := oactions s @ acts\<rparr>))"

definition output_done :: "tcp_out \<Rightarrow> err_t \<times> tcp_out" where
  "output_done s = (ERR_OK, s\<lparr>opcb := tcp_clear_flags TF_NAGLEMEMERR (opcb s)\<rparr>)"

definition start_persist :: "u32 \<Rightarrow> tcp_pcb \<Rightarrow> tcp_pcb" where
  "start_persist wnd p =
     (if wnd = ucast (snd_wnd p) \<and> unacked p = [] \<and> persist_backoff p = 0
      then p\<lparr>persist_cnt := 0, persist_backoff := 1, persist_probe := 0\<rparr> else p)"

definition tcp_output :: "out_env \<Rightarrow> tcp_out \<Rightarrow> (err_t \<times> tcp_out) option" where
  "tcp_output env s = do {
     let p = opcb s;
     LWIP_ASSERT (state p \<noteq> LISTEN);
     if is_input_pcb env then Some (ERR_OK, s)
     else
       let wnd = ucast (min (snd_wnd p) (cwnd p))
       in (case unsent p of
             [] \<Rightarrow> Some (if has16 (pcb_flags p) TF_ACK_NOW then output_empty_ack env s else output_done s)
           | seg # segs \<Rightarrow>
               if \<not> route_found env then Some (ERR_RTE, s)
               else if local_ip_any p \<and> \<not> netif_has_ip env then Some (ERR_RTE, s)
               else
                 let s = s\<lparr>opcb := p\<lparr>local_ip_any := False\<rparr>\<rparr>
                 in if sseq seg - lastack p + ucast (slen seg) > wnd then
                      let s = s\<lparr>opcb := start_persist wnd (opcb s)\<rparr>
                      in Some (if has16 (pcb_flags p) TF_ACK_NOW then output_empty_ack env s else output_done s)
                    else do {
                      (r, s) \<leftarrow> output_loop env wnd (seg # segs) (s\<lparr>opcb := (opcb s)\<lparr>persist_backoff := 0\<rparr>\<rparr>);
                      (case r of
                         Some err \<Rightarrow> Some (err, s)
                       | None \<Rightarrow>
                           let s = (if unsent (opcb s) = [] then s\<lparr>opcb := (opcb s)\<lparr>unsent_oversize := 0\<rparr>\<rparr> else s)
                           in Some (output_done s)) }) }"

section \<open>SYN and FIN\<close>

text \<open>The flag says whether memory is found for the pbuf and the segment.\<close>

definition tcp_enqueue_flags :: "bool \<Rightarrow> u8 \<Rightarrow> tcp_pcb \<Rightarrow> (err_t \<times> tcp_pcb) option" where
  "tcp_enqueue_flags memory fl p = do {
     LWIP_ASSERT (fl AND (TCP_SYN OR TCP_FIN) \<noteq> 0);
     if \<not> memory then Some (ERR_MEM, tcp_set_flags TF_NAGLEMEMERR p)
     else do {
       let seg = \<lparr>sseq = snd_lbb p, sflags = fl, slen = 0, sdata = [], sclen = 1, sbusy = False, soversize = 0\<rparr>;
       let p = p\<lparr>unsent := unsent p @ [seg], unsent_oversize := 0\<rparr>;
       let p = (if has8 fl TCP_SYN \<or> has8 fl TCP_FIN then p\<lparr>snd_lbb := snd_lbb p + 1\<rparr> else p);
       let p = (if has8 fl TCP_FIN then tcp_set_flags TF_FIN p else p);
       let p = p\<lparr>snd_queuelen := snd_queuelen p + sclen seg\<rparr>;
       LWIP_ASSERT (snd_queuelen p \<noteq> 0 \<longrightarrow> unacked p \<noteq> [] \<or> unsent p \<noteq> []);
       Some (ERR_OK, p) } }"

definition tcp_send_fin :: "bool \<Rightarrow> tcp_pcb \<Rightarrow> (err_t \<times> tcp_pcb) option" where
  "tcp_send_fin memory p =
     (if unsent p \<noteq> [] \<and> sflags (last (unsent p)) AND (TCP_SYN OR TCP_FIN OR TCP_RST) = 0
      then let seg = last (unsent p)
           in Some (ERR_OK, tcp_set_flags TF_FIN (p\<lparr>unsent := butlast (unsent p) @ [seg\<lparr>sflags := sflags seg OR TCP_FIN\<rparr>]\<rparr>))
      else tcp_enqueue_flags memory TCP_FIN p)"

section \<open>TIME-WAIT\<close>

text \<open>A segment for a connection in TIME-WAIT; here \<^verbatim>\<open>tcp_output\<close> is called outside input processing.\<close>

definition tcp_timewait_input :: "out_env \<Rightarrow> tcp_in \<Rightarrow> tcp_in option" where
  "tcp_timewait_input env s =
     (case timewait_segment s of
        (False, s) \<Rightarrow> Some s
      | (True, s) \<Rightarrow> do {
          (_, r) \<leftarrow> tcp_output env \<lparr>opcb = pcb s, oresults = [], oactions = actions s\<rparr>;
          Some (s\<lparr>pcb := opcb r, actions := oactions r\<rparr>) })"

end
