(* ===== verification/Tcp_Oos.thy ===== *)
theory Tcp_Oos
  imports Tcp_In
begin

text \<open>
  The receive side of \<^verbatim>\<open>tcp_receive\<close> against what the sender sends: a stream of bytes
  that may end in a \<^verbatim>\<open>FIN\<close>. Positions in the stream are natural numbers; the sequence
  number of a position is the position modulo \<open>2\<^sup>3\<^sup>2\<close>.
\<close>

unbundle bit_operations_syntax

section \<open>The sender's stream\<close>

record sender =
  isn :: u32
  bytes :: "nat \<Rightarrow> u8"
  fin_at :: "nat option"

definition at :: "sender \<Rightarrow> nat \<Rightarrow> u32" where
  "at st n = isn st + of_nat n"

text \<open>The bytes from a position to another; the position of the \<^verbatim>\<open>FIN\<close> holds none.\<close>

definition stream_bytes :: "sender \<Rightarrow> nat \<Rightarrow> nat \<Rightarrow> u8 list" where
  "stream_bytes st a b = map (bytes st) (filter (\<lambda>n. fin_at st \<noteq> Some n) [a..<b])"

definition seg_len :: "tcp_seg \<Rightarrow> nat" where
  "seg_len seg = length (sdata seg) + (if has8 (sflags seg) TCP_FIN then 1 else 0)"

text \<open>The segment holds a piece of the stream that begins at the position \<open>n\<close>.\<close>

definition carries :: "sender \<Rightarrow> nat \<Rightarrow> tcp_seg \<Rightarrow> bool" where
  "carries st n seg \<longleftrightarrow>
     sseq seg = at st n \<and> unat (slen seg) = length (sdata seg) \<and> length (sdata seg) < 65535
     \<and> \<not> has8 (sflags seg) TCP_SYN
     \<and> (\<forall>i < length (sdata seg). sdata seg ! i = bytes st (n + i))
     \<and> (has8 (sflags seg) TCP_FIN \<longrightarrow> fin_at st = Some (n + length (sdata seg)))
     \<and> (\<forall>f. fin_at st = Some f \<longrightarrow> n + length (sdata seg) \<le> f)"

section \<open>Sequence numbers of positions\<close>

lemma at_add: "at st n + ucast (w :: u16) = at st (n + unat w)"
  unfolding at_def of_nat_add of_nat_unat by (simp add: ac_simps)

lemma at_Suc: "at st n + 1 = at st (n + 1)"
  by (simp add: at_def)

lemma at_pred: "0 < n \<Longrightarrow> at st n - 1 = at st (n - 1)"
  by (cases n) (simp_all add: at_def)

lemma at_diff: "a \<le> b \<Longrightarrow> at st b - at st a = of_nat (b - a)"
  by (simp add: at_def of_nat_diff)

lemma at_eq: "a < b + 2 ^ 32 \<Longrightarrow> b < a + 2 ^ 32 \<Longrightarrow> at st a = at st b \<longleftrightarrow> a = b"
proof -
  have main: "at st a \<noteq> at st b" if "a < b" "b < a + 2 ^ 32" for a b
  proof
    assume "at st a = at st b"
    then have "of_nat (b - a) = (0 :: u32)" using at_diff [of a b st] that by simp
    then have "2 ^ 32 dvd b - a" by (simp add: word_of_nat_eq_0_iff)
    then show False using that by (auto dest: dvd_imp_le)
  qed
  assume "a < b + 2 ^ 32" "b < a + 2 ^ 32"
  then show ?thesis using main [of a b] main [of b a] by (cases a b rule: linorder_cases) auto
qed

lemma unat_at_diff: "a \<le> b \<Longrightarrow> b < a + 2 ^ 32 \<Longrightarrow> unat (at st b - at st a) = b - a"
  unfolding at_diff [of a b st] unat_of_nat by (simp add: take_bit_nat_eq_self less_diff_conv2)

lemma at_lt: "a < b + 2 ^ 31 \<Longrightarrow> b < a + 2 ^ 31 \<Longrightarrow> TCP_SEQ_LT (at st a) (at st b) \<longleftrightarrow> a < b"
proof (cases "a < b")
  case True
  moreover assume "b < a + 2 ^ 31"
  ultimately have "unat (at st b - at st a) = b - a" "0 < b - a"
    using unat_at_diff [of a b st] by simp_all
  then have "unat (0 - (at st b - at st a)) = 2 ^ 32 - (b - a)"
    unfolding unat_sub_if' by simp
  then have "unat (at st a - at st b) = 2 ^ 32 - (b - a)" by (simp only: diff_0 minus_diff_eq)
  with True \<open>b < a + 2 ^ 31\<close> show ?thesis
    by (simp add: tcp_seq.lt_sign word_less_nat_alt)
next
  case False
  moreover assume "a < b + 2 ^ 31"
  ultimately have "unat (at st a - at st b) = a - b"
    using unat_at_diff [of b a st] by simp
  with False \<open>a < b + 2 ^ 31\<close> show ?thesis
    by (simp add: tcp_seq.lt_sign word_less_nat_alt)
qed

lemma at_compare:
  assumes "a < b + 2 ^ 31" and "b < a + 2 ^ 31"
  shows "TCP_SEQ_GEQ (at st a) (at st b) \<longleftrightarrow> b \<le> a" and "TCP_SEQ_LEQ (at st a) (at st b) \<longleftrightarrow> a \<le> b"
    and "TCP_SEQ_GT (at st a) (at st b) \<longleftrightarrow> b < a" and "TCP_SEQ_LT (at st a) (at st b) \<longleftrightarrow> a < b"
  using assms at_eq [of a b st] by (auto simp: TCP_SEQ_relations at_lt)

section \<open>Segments\<close>

lemma has8_bits: "has8 x TCP_FIN \<longleftrightarrow> bit x 0" "has8 x TCP_SYN \<longleftrightarrow> bit x 1"
  using and_exp_eq_0_iff_not_bit [of x 0] and_exp_eq_0_iff_not_bit [of x 1] by (simp_all add: has8_def)

lemma has8_flags:
  "has8 (x OR TCP_FIN) TCP_FIN" "has8 (x OR TCP_FIN) TCP_SYN = has8 x TCP_SYN"
  "\<not> has8 (x AND NOT TCP_FIN) TCP_FIN" "has8 (x AND NOT TCP_FIN) TCP_SYN = has8 x TCP_SYN"
  unfolding has8_bits by (simp_all add: bit_simps)

declare has8_flags [simp] has8_flags(3,4) [unfolded not_one_eq, simp]

lemma TCP_TCPLEN_carries: "carries st n seg \<Longrightarrow> unat (TCP_TCPLEN seg) = seg_len seg"
proof -
  assume c: "carries st n seg"
  have "sflags seg AND 3 \<noteq> 0 \<longleftrightarrow> has8 (sflags seg) TCP_FIN"
  proof -
    have "sflags seg AND 3 = 0 \<longleftrightarrow> \<not> bit (sflags seg) 0 \<and> \<not> bit (sflags seg) 1"
    proof
      assume "sflags seg AND 3 = 0"
      then have "\<not> bit (sflags seg AND 3) 0" "\<not> bit (sflags seg AND 3) 1" by simp_all
      then show "\<not> bit (sflags seg) 0 \<and> \<not> bit (sflags seg) 1" by (simp_all add: bit_simps)
    next
      assume "\<not> bit (sflags seg) 0 \<and> \<not> bit (sflags seg) 1"
      then show "sflags seg AND 3 = 0" 
        by (intro bit_eqI) (auto simp: bit_simps bit_numeral_rec less_Suc_eq numeral_eq_Suc split: nat.splits)
    qed
    with c show ?thesis by (simp add: carries_def has8_bits)
  qed
  with c show ?thesis
    by (auto simp: TCP_TCPLEN_def carries_def seg_len_def unat_word_ariths)
qed

lemma carries_clear_fin: "carries st n seg \<Longrightarrow> carries st n (seg\<lparr>sflags := sflags seg AND NOT TCP_FIN\<rparr>)"
  by (simp add: carries_def)

lemma carries_realloc:
  assumes "carries st n seg" and "\<not> has8 (sflags seg) TCP_FIN" and "unat k \<le> length (sdata seg)"
  shows "carries st n (seg_realloc k seg)" and "seg_len (seg_realloc k seg) = unat k"
  using assms by (auto simp: carries_def seg_realloc_def seg_len_def min_def dest: order_trans)

lemma carries_fin_pos: "carries st n seg \<Longrightarrow> fin_at st = Some f \<Longrightarrow> n + seg_len seg \<le> f + 1"
  by (auto simp: carries_def seg_len_def)

lemma carries_fin: "carries st n seg \<Longrightarrow> has8 (sflags seg) TCP_FIN \<longleftrightarrow> (\<exists>f. fin_at st = Some f \<and> n \<le> f \<and> f < n + seg_len seg)"
  by (auto simp: carries_def seg_len_def)

lemma seg_len_le: "carries st n seg \<Longrightarrow> seg_len seg \<le> 65535"
  by (auto simp: carries_def seg_len_def)

lemma stream_bytes_append: "a \<le> b \<Longrightarrow> b \<le> c \<Longrightarrow> stream_bytes st a b @ stream_bytes st b c = stream_bytes st a c"
  using upt_add_eq_append [of a b "c - b"] by (simp add: stream_bytes_def flip: map_append filter_append)

lemma stream_bytes_empty [simp]: "stream_bytes st a a = []"
  by (simp add: stream_bytes_def)

lemma carries_payload: "carries st n seg \<Longrightarrow> sdata seg = stream_bytes st n (n + seg_len seg)"
proof -
  assume c: "carries st n seg"
  let ?m = "n + length (sdata seg)"
  have "filter (\<lambda>i. fin_at st \<noteq> Some i) [n..<?m] = [n..<?m]"
    using c by (auto simp: carries_def filter_id_conv)
  moreover have "stream_bytes st ?m (n + seg_len seg) = []"
    using c by (auto simp: stream_bytes_def seg_len_def carries_def)
  ultimately have "stream_bytes st n (n + seg_len seg) = map (bytes st) [n..<?m]"
    using stream_bytes_append [of n ?m "n + seg_len seg" st] by (simp add: stream_bytes_def seg_len_def)
  moreover have "sdata seg = map (bytes st) [n..<?m]"
    using c by (intro nth_equalityI) (simp_all add: carries_def)
  ultimately show ?thesis by simp
qed

lemma carries_right: "carries st n seg \<Longrightarrow> seg_right seg = at st (n + length (sdata seg))"
  by (simp add: carries_def seg_right_def at_add)

section \<open>The queue\<close>

text \<open>
  The queue holds pieces of the stream in order, without overlaps, all from the position \<open>lo\<close>
  on and below \<open>hi\<close>; the last argument is the set of positions it holds.
\<close>

inductive queued :: "sender \<Rightarrow> nat \<Rightarrow> nat \<Rightarrow> tcp_seg list \<Rightarrow> nat set \<Rightarrow> bool" where
  Nil: "queued st lo hi [] {}"
| Cons: "carries st n seg \<Longrightarrow> lo \<le> n \<Longrightarrow> 0 < seg_len seg \<Longrightarrow> n + seg_len seg \<le> hi
         \<Longrightarrow> queued st (n + seg_len seg) hi q C
         \<Longrightarrow> queued st lo hi (seg # q) ({n..<n + seg_len seg} \<union> C)"

inductive_simps queued_Nil [simp]: "queued st lo hi [] C"
inductive_cases queued_ConsE: "queued st lo hi (seg # q) C"

lemma queued_range: "queued st lo hi q C \<Longrightarrow> C \<subseteq> {lo..<hi}"
  by (induction rule: queued.induct) auto

lemma queued_mono: "queued st lo hi q C \<Longrightarrow> lo' \<le> lo \<Longrightarrow> queued st lo' hi q C"
  by (cases rule: queued.cases) (auto intro: queued.intros)

lemma queued_fin: "queued st lo hi q C \<Longrightarrow> fin_at st = Some f \<Longrightarrow> C \<subseteq> {..f}"
  by (induction rule: queued.induct) (auto dest: carries_fin_pos)

lemma queued_past_fin: "queued st lo hi q C \<Longrightarrow> fin_at st = Some f \<Longrightarrow> f < lo \<Longrightarrow> q = [] \<and> C = {}"
  by (cases rule: queued.cases) (auto dest: carries_fin_pos)

lemma right_geq:
  assumes "carries st n seg" and "carries st k nxt"
    and "n \<le> k" and "n + length (sdata seg) \<le> hi" and "k + length (sdata nxt) \<le> hi" and "hi \<le> n + 2 ^ 30"
  shows "TCP_SEQ_GEQ (at st n + ucast (slen seg)) (seg_right nxt)
           \<longleftrightarrow> k + length (sdata nxt) \<le> n + length (sdata seg)"
proof -
  have "at st n + ucast (slen seg) = at st (n + length (sdata seg))"
    using assms(1) by (simp add: at_add carries_def)
  then show ?thesis
    unfolding carries_right [OF assms(2)] using assms by (simp add: at_compare)
qed

text \<open>The first segment of the queue, if any, ends after the position \<open>e\<close>.\<close>

definition queued_past :: "sender \<Rightarrow> nat \<Rightarrow> nat \<Rightarrow> nat \<Rightarrow> tcp_seg list \<Rightarrow> nat set \<Rightarrow> bool" where
  "queued_past st e lo hi q C \<longleftrightarrow>
     queued st lo hi q C \<and>
     (\<forall>nxt rest. q = nxt # rest \<longrightarrow>
        (\<exists>k D. carries st k nxt \<and> lo \<le> k \<and> e < k + length (sdata nxt) \<and> k + seg_len nxt \<le> hi \<and> 0 < seg_len nxt
               \<and> queued st (k + seg_len nxt) hi rest D \<and> C = {k..<k + seg_len nxt} \<union> D))"

lemma queued_past_mono: "queued_past st e lo hi q C \<Longrightarrow> lo' \<le> lo \<Longrightarrow> queued_past st e lo' hi q C"
  unfolding queued_past_def by (cases q) (auto intro: queued_mono order_trans)

text \<open>Dropping what a segment that begins at \<open>n\<close> covers.\<close>

lemma oos_drop_covered_ok:
  assumes "queued st lo hi q C" and "carries st n seg" and "\<not> has8 (sflags seg) TCP_FIN"
    and "n \<le> lo" and "n + seg_len seg \<le> hi" and "hi \<le> n + 2 ^ 30"
  shows "\<exists>seg' q' C'. oos_drop_covered (at st n) seg q = (seg', q') \<and> carries st n seg'
           \<and> sdata seg' = sdata seg \<and> n + seg_len seg' \<le> hi
           \<and> {n..<n + seg_len seg'} \<union> C' = {n..<n + seg_len seg} \<union> C
           \<and> queued_past st (n + seg_len seg') lo hi q' C' \<and> (seg' = seg \<or> q' = [])"
  using assms
proof (induction rule: queued.induct)
  case (Nil st lo hi)
  then show ?case by (simp add: queued_past_def)
next
  case (Cons st k nxt lo hi q C)
  have right: "TCP_SEQ_GEQ (at st n + ucast (slen seg)) (seg_right nxt)
                 \<longleftrightarrow> k + length (sdata nxt) \<le> n + length (sdata seg)"
    using Cons.hyps Cons.prems by (intro right_geq [where hi = hi]) (auto simp: seg_len_def)
  have len: "seg_len seg = length (sdata seg)" using Cons.prems by (simp add: seg_len_def)
  consider (keep) "\<not> k + length (sdata nxt) \<le> n + length (sdata seg)"
    | (fin) "k + length (sdata nxt) \<le> n + length (sdata seg)" "has8 (sflags nxt) TCP_FIN"
    | (drop) "k + length (sdata nxt) \<le> n + length (sdata seg)" "\<not> has8 (sflags nxt) TCP_FIN"
    by blast
  then show ?case
  proof cases
    case keep
    have "queued st lo hi (nxt # q) ({k..<k + seg_len nxt} \<union> C)" using Cons.hyps by (intro queued.Cons)
    then have "queued_past st (n + seg_len seg) lo hi (nxt # q) ({k..<k + seg_len nxt} \<union> C)"
      using keep Cons.hyps len unfolding queued_past_def by (auto simp only: list.inject) auto
    with keep show ?thesis using right Cons.prems by auto
  next
    case fin
    let ?seg = "seg\<lparr>sflags := sflags seg OR TCP_FIN\<rparr>"
    have f: "fin_at st = Some (k + length (sdata nxt))" using fin Cons.hyps(1) by (simp add: carries_def)
    have e: "k + length (sdata nxt) = n + length (sdata seg)"
      using fin f Cons.prems by (auto simp: carries_def)
    have nil: "q = []" "C = {}"
      using queued_past_fin [OF Cons.hyps(5) f] fin by (simp_all add: seg_len_def)
    have c: "carries st n ?seg" using f e Cons.prems by (auto simp: carries_def)
    have cov: "{n..<n + seg_len ?seg} = {n..<n + seg_len seg} \<union> {k..<k + seg_len nxt}"
      using e fin Cons.hyps(2) Cons.prems by (auto simp: seg_len_def)
    have "n + seg_len ?seg \<le> hi" using e fin Cons.hyps(4) by (simp add: seg_len_def)
    then show ?thesis using right fin c cov nil
      by (intro exI [of _ ?seg] exI [of _ "[]"] exI [of _ "{}"]) (simp add: queued_past_def)
  next
    case drop
    have "n \<le> k + seg_len nxt" using Cons.prems Cons.hyps by simp
    then obtain seg' q' C' where r: "oos_drop_covered (at st n) seg q = (seg', q')" "carries st n seg'"
        "sdata seg' = sdata seg" "n + seg_len seg' \<le> hi"
        "{n..<n + seg_len seg'} \<union> C' = {n..<n + seg_len seg} \<union> C"
        "queued_past st (n + seg_len seg') (k + seg_len nxt) hi q' C'" "seg' = seg \<or> q' = []"
      using Cons.IH Cons.prems by blast
    have "queued_past st (n + seg_len seg') lo hi q' C'"
      using r(6) Cons.hyps(2) by (rule queued_past_mono [OF _ trans_le_add1])
    moreover have "{n..<n + seg_len seg'} \<union> C' = {n..<n + seg_len seg} \<union> ({k..<k + seg_len nxt} \<union> C)"
    proof -
      have "{k..<k + seg_len nxt} \<subseteq> {n..<n + seg_len seg}"
        using drop len Cons.hyps(2) Cons.prems by (auto simp: seg_len_def)
      then show ?thesis using r(5) by blast
    qed
    ultimately show ?thesis
      using right drop r(1-4,7) by (intro exI [of _ seg'] exI [of _ q'] exI [of _ C'] conjI) simp_all
  qed
qed

text \<open>Inserting a segment in front of a queue that begins after it.\<close>

lemma unat_ucast_diff: "a \<le> b \<Longrightarrow> b < a + 65536 \<Longrightarrow> unat (ucast (at st b - at st a) :: u16) = b - a"
proof -
  assume "a \<le> b" "b < a + 65536"
  then have "unat (at st b - at st a) = b - a" by (intro unat_at_diff) simp_all
  moreover have "unat (ucast w :: u16) = unat w mod 65536" for w :: u32
    by (simp add: unsigned_ucast_eq take_bit_eq_mod)
  ultimately show ?thesis using \<open>b < a + 65536\<close> by simp
qed

lemma tcp_oos_insert_segment_ok:
  assumes q: "queued st lo hi q C" and c: "carries st n seg" and pos: "0 < seg_len seg"
    and lo: "n < lo" and hi: "n + seg_len seg \<le> hi" "hi \<le> n + 2 ^ 30"
  shows "queued st n hi (tcp_oos_insert_segment (at st n) seg q) ({n..<n + seg_len seg} \<union> C)"
proof (cases "has8 (sflags seg) TCP_FIN")
  case True
  then have f: "fin_at st = Some (n + length (sdata seg))" "seg_len seg = length (sdata seg) + 1"
    using c by (simp_all add: carries_def seg_len_def)
  have "C \<subseteq> {n..<n + seg_len seg}"
  proof
    fix x assume "x \<in> C"
    then have "x \<le> n + length (sdata seg)" "lo \<le> x"
      using queued_fin [OF q f(1)] queued_range [OF q] by auto
    then show "x \<in> {n..<n + seg_len seg}" using lo f(2) by simp
  qed
  then have "{n..<n + seg_len seg} \<union> C = {n..<n + seg_len seg} \<union> {}" by auto
  then show ?thesis
    using True c pos hi queued.Cons [of st n seg n hi "[]" "{}"]
    by (simp add: tcp_oos_insert_segment_def)
next
  case False
  obtain seg' q' C' where r: "oos_drop_covered (at st n) seg q = (seg', q')" "carries st n seg'"
      "sdata seg' = sdata seg" "n + seg_len seg' \<le> hi"
      "{n..<n + seg_len seg'} \<union> C' = {n..<n + seg_len seg} \<union> C"
      "queued_past st (n + seg_len seg') lo hi q' C'" "seg' = seg \<or> q' = []"
    using oos_drop_covered_ok [OF q c False _ hi] lo by auto
  have pos': "0 < seg_len seg'" using pos False r(3) by (simp add: seg_len_def)
  show ?thesis
  proof (cases q')
    case Nil
    have "queued st n hi [seg'] ({n..<n + seg_len seg'} \<union> {})" 
      using r(2,4) pos' by (intro queued.Cons) simp_all
    moreover have "C' = {}" using r(6) Nil by (simp add: queued_past_def)
    ultimately show ?thesis using Nil False r(1,5) by (simp add: tcp_oos_insert_segment_def)
  next
    case (Cons nxt rest)
    then have s: "seg' = seg" using r(7) by simp
    obtain k D where k: "carries st k nxt" "lo \<le> k" "n + seg_len seg < k + length (sdata nxt)"
        "k + seg_len nxt \<le> hi" "0 < seg_len nxt" "queued st (k + seg_len nxt) hi rest D"
        "C' = {k..<k + seg_len nxt} \<union> D"
      using r(6) unfolding Cons queued_past_def s by blast
    have len: "seg_len seg = length (sdata seg)" "unat (slen seg) = length (sdata seg)"
      using False c by (simp_all add: seg_len_def carries_def)
    have gt: "TCP_SEQ_GT (at st n + ucast (slen seg)) (sseq nxt) \<longleftrightarrow> k < n + seg_len seg"
      using k c lo hi len by (simp add: carries_def at_add at_compare)
    show ?thesis
    proof (cases "k < n + seg_len seg")
      case True
      let ?seg = "seg_realloc (ucast (sseq nxt - at st n)) seg"
      have u: "unat (ucast (sseq nxt - at st n) :: u16) = k - n"
        using k(1,2) lo True seg_len_le [OF c] unat_ucast_diff [of n k st] by (simp add: carries_def)
      then have cut: "carries st n ?seg" "seg_len ?seg = k - n"
        using carries_realloc [OF c False] True len by auto
      have "queued st k hi (nxt # rest) C'" using k by (auto intro: queued.Cons)
      then have "queued st n hi (?seg # nxt # rest) ({n..<n + seg_len ?seg} \<union> C')"
        using cut k lo by (intro queued.Cons) auto
      moreover have "{n..<n + seg_len ?seg} \<union> C' = {n..<n + seg_len seg} \<union> C"
      proof -
        have "{k..<n + seg_len seg} \<subseteq> C'" using k(3,7) by (auto simp: seg_len_def)
        moreover have "{n..<n + seg_len seg} = {n..<k} \<union> {k..<n + seg_len seg}"
          using True k(2) lo by (simp add: ivl_disj_un)
        ultimately show ?thesis using r(5) cut(2) k(2) lo unfolding s by auto
      qed
      ultimately show ?thesis using True gt False r(1) s Cons by (simp add: tcp_oos_insert_segment_def)
    next
      case f: False
      then have "queued st (n + seg_len seg) hi (nxt # rest) C'" using k by (auto intro: queued.Cons)
      then have "queued st n hi (seg # nxt # rest) ({n..<n + seg_len seg} \<union> C')"
        using c pos hi by (intro queued.Cons) auto
      then show ?thesis using f gt False r(1,5) s Cons by (simp add: tcp_oos_insert_segment_def)
    qed
  qed
qed

lemma insert_same_seqno:
  assumes "carries st n nxt" and "carries st n seg" and "length (sdata nxt) < length (sdata seg)"
  shows "tcp_oos_insert_segment (at st n) seg (nxt # rest) = tcp_oos_insert_segment (at st n) seg rest"
proof (cases "has8 (sflags seg) TCP_FIN")
  case False
  have "\<not> has8 (sflags nxt) TCP_FIN" using assms by (auto simp: carries_def)
  moreover have "TCP_SEQ_GEQ (at st n + ucast (slen seg)) (seg_right nxt)"
    using assms right_geq [OF assms(2,1), of "n + length (sdata seg)"] by (simp add: carries_def)
  ultimately show ?thesis using False by (simp add: tcp_oos_insert_segment_def)
qed (simp add: tcp_oos_insert_segment_def)

lemma oos_trim_prev_ok:
  assumes "carries st p prev" and "0 < seg_len prev" and "\<not> has8 (sflags prev) TCP_FIN"
    and "p < n" and "n \<le> p + 2 ^ 30"
  shows "carries st p (oos_trim_prev (at st n) prev)" and "0 < seg_len (oos_trim_prev (at st n) prev)"
    and "p + seg_len (oos_trim_prev (at st n) prev) \<le> n"
    and "seg_len (oos_trim_prev (at st n) prev) \<le> seg_len prev"
proof -
  have len: "seg_len prev = length (sdata prev)" "length (sdata prev) < 65535"
    using assms by (simp_all add: seg_len_def carries_def)
  have gt: "TCP_SEQ_GT (seg_right prev) (at st n) \<longleftrightarrow> n < p + length (sdata prev)"
    unfolding carries_right [OF assms(1)] using assms len(2) by (simp add: at_compare)
  have "unat (ucast (at st n - sseq prev) :: u16) = n - p" if "n < p + length (sdata prev)"
    using unat_ucast_diff [of p n st] that len(2) assms by (simp add: carries_def)
  then have "carries st p (oos_trim_prev (at st n) prev) \<and> 0 < seg_len (oos_trim_prev (at st n) prev)
      \<and> p + seg_len (oos_trim_prev (at st n) prev) \<le> n
      \<and> seg_len (oos_trim_prev (at st n) prev) \<le> seg_len prev"
    using carries_realloc [OF assms(1,3)] gt len assms by (auto simp: oos_trim_prev_def)
  then show "carries st p (oos_trim_prev (at st n) prev)" "0 < seg_len (oos_trim_prev (at st n) prev)"
    "p + seg_len (oos_trim_prev (at st n) prev) \<le> n"
    "seg_len (oos_trim_prev (at st n) prev) \<le> seg_len prev" by simp_all
qed

text \<open>The segment in hand begins at \<open>n\<close> and ends below the right edge \<open>hi\<close> of the receive window.\<close>

definition fits :: "sender \<Rightarrow> nat \<Rightarrow> nat \<Rightarrow> tcp_in \<Rightarrow> bool" where
  "fits st n hi s \<longleftrightarrow> carries st n (inseg s) \<and> seqno s = at st n \<and> unat (tcplen s) = seg_len (inseg s)
     \<and> 0 < seg_len (inseg s) \<and> n + seg_len (inseg s) \<le> hi
     \<and> rcv_nxt (pcb s) + ucast (rcv_wnd (pcb s)) = at st hi"

text \<open>
  The queue after the segment was queued: it holds nothing new but the segment, and the whole
  segment unless memory ran out (or only its \<^verbatim>\<open>FIN\<close> is new).
\<close>

definition merged :: "sender \<Rightarrow> nat \<Rightarrow> nat \<Rightarrow> nat \<Rightarrow> tcp_in \<Rightarrow> nat set \<Rightarrow> tcp_seg list option \<Rightarrow> bool" where
  "merged st lo hi n s C r \<longleftrightarrow>
     (\<exists>q C'. r = Some q \<and> queued st lo hi q C' \<and> C' \<subseteq> C \<union> {n..<n + seg_len (inseg s)}
        \<and> (\<not> seg_mem s \<longrightarrow> C' = C)
        \<and> (seg_mem s \<and> \<not> has8 (sflags (inseg s)) TCP_FIN \<longrightarrow> {n..<n + seg_len (inseg s)} \<subseteq> C'))"

lemma mergedI:
  assumes "queued st lo hi q C'" and "C' \<subseteq> C \<union> {n..<n + seg_len (inseg s)}"
    and "\<not> seg_mem s \<Longrightarrow> C' = C"
    and "seg_mem s \<Longrightarrow> \<not> has8 (sflags (inseg s)) TCP_FIN \<Longrightarrow> {n..<n + seg_len (inseg s)} \<subseteq> C'"
  shows "merged st lo hi n s C (Some q)"
  using assms unfolding merged_def by blast

lemma merged_Cons:
  assumes "merged st lo hi n s C r" and "carries st p prev" and "0 < seg_len prev" and "lo0 \<le> p"
    and "p + seg_len prev \<le> lo" and "p + seg_len prev \<le> hi"
  shows "merged st lo0 hi n s ({p..<p + seg_len prev} \<union> C) (map_option (\<lambda>q. prev # q) r)"
proof -
  obtain q C' where r: "r = Some q" and q: "queued st lo hi q C'"
    and C': "C' \<subseteq> C \<union> {n..<n + seg_len (inseg s)}" "\<not> seg_mem s \<longrightarrow> C' = C"
      "seg_mem s \<and> \<not> has8 (sflags (inseg s)) TCP_FIN \<longrightarrow> {n..<n + seg_len (inseg s)} \<subseteq> C'"
    using assms(1) unfolding merged_def by blast
  have "queued st lo0 hi (prev # q) ({p..<p + seg_len prev} \<union> C')"
    using queued_mono [OF q assms(5)] assms by (intro queued.Cons)
  then show ?thesis unfolding r option.map using C' by - (rule mergedI, assumption, blast+)
qed

lemma merged_subset: "merged st lo hi n s C r \<Longrightarrow> C \<subseteq> C2 \<Longrightarrow> seg_mem s \<Longrightarrow> merged st lo hi n s C2 r"
  unfolding merged_def by blast

lemma oos_walk_same:
  assumes "fits st n hi s" and "carries st n nxt" and "0 < seg_len nxt" and "n + seg_len nxt \<le> hi"
    and "queued st (n + seg_len nxt) hi rest D" and "hi \<le> n + 2 ^ 30"
  shows "merged st n hi n s ({n..<n + seg_len nxt} \<union> D)
    (Some (if slen (inseg s) > slen nxt \<and> seg_mem s
           then tcp_oos_insert_segment (seqno s) (inseg s) (nxt # rest) else nxt # rest))"
proof (cases "slen (inseg s) > slen nxt \<and> seg_mem s")
  case True
  then have len: "length (sdata nxt) < length (sdata (inseg s))"
    using assms(1,2) by (simp add: fits_def carries_def word_less_nat_alt)
  then have eq: "tcp_oos_insert_segment (seqno s) (inseg s) (nxt # rest)
       = tcp_oos_insert_segment (at st n) (inseg s) rest"
    using insert_same_seqno assms(1,2) unfolding fits_def by metis
  have "queued st n hi (tcp_oos_insert_segment (at st n) (inseg s) rest) ({n..<n + seg_len (inseg s)} \<union> D)"
    using assms unfolding fits_def by (intro tcp_oos_insert_segment_ok) auto
  then show ?thesis using True unfolding eq by (simp only: simp_thms if_True) (rule mergedI, auto)
next
  case False
  have "queued st n hi (nxt # rest) ({n..<n + seg_len nxt} \<union> D)" using assms by (intro queued.Cons) auto
  moreover have "{n..<n + seg_len (inseg s)} \<subseteq> {n..<n + seg_len nxt} \<union> D"
    if "seg_mem s" "\<not> has8 (sflags (inseg s)) TCP_FIN"
    using that False assms(1,2) by (auto simp: fits_def carries_def word_less_nat_alt seg_len_def)
  ultimately show ?thesis using False by (simp only: if_False) (rule mergedI, auto)
qed

lemma oos_walk_before:
  assumes "fits st n hi s" and "carries st k nxt" and "n < k" and "0 < seg_len nxt" and "k + seg_len nxt \<le> hi"
    and "queued st (k + seg_len nxt) hi rest D" and "hi \<le> n + 2 ^ 30" and "seg_mem s"
  shows "merged st n hi n s ({k..<k + seg_len nxt} \<union> D)
    (Some (tcp_oos_insert_segment (seqno s) (inseg s) (nxt # rest)))"
proof -
  have "queued st k hi (nxt # rest) ({k..<k + seg_len nxt} \<union> D)"
    using assms by (intro queued.Cons) auto
  then have "queued st n hi (tcp_oos_insert_segment (at st n) (inseg s) (nxt # rest))
      ({n..<n + seg_len (inseg s)} \<union> ({k..<k + seg_len nxt} \<union> D))"
    using assms unfolding fits_def by (intro tcp_oos_insert_segment_ok) auto
  moreover have "seqno s = at st n" using assms(1) by (simp add: fits_def)
  ultimately show ?thesis using assms(8) by - (rule mergedI, auto)
qed

lemma oos_walk_last:
  assumes "fits st n hi s" and "carries st k nxt" and "k < n" and "0 < seg_len nxt" and "k + seg_len nxt \<le> hi"
    and "hi \<le> k + 2 ^ 30"
  shows "merged st k hi n s {k..<k + seg_len nxt}
    (if has8 (sflags nxt) TCP_FIN \<or> \<not> seg_mem s then Some [nxt]
     else do { cseg \<leftarrow> oos_trim_window s (inseg s); Some [oos_trim_prev (seqno s) nxt, cseg] })"
proof (cases "has8 (sflags nxt) TCP_FIN \<or> \<not> seg_mem s")
  case True
  have "queued st k hi [nxt] ({k..<k + seg_len nxt} \<union> {})" using assms by (intro queued.Cons) auto
  moreover have "{n..<n + seg_len (inseg s)} \<subseteq> {k..<k + seg_len nxt}" if "seg_mem s"
  proof -
    have "has8 (sflags nxt) TCP_FIN" using True that by simp
    then obtain f where "fin_at st = Some f" "f < k + seg_len nxt" using carries_fin [OF assms(2)] by blast
    then have "n + seg_len (inseg s) \<le> k + seg_len nxt"
      using assms(1) carries_fin_pos [of st n "inseg s" f] by (simp add: fits_def)
    then show ?thesis using assms(3) by simp
  qed
  ultimately show ?thesis using True by (simp only: if_True Un_empty_right) (rule mergedI, auto)
next
  case False
  let ?p = "oos_trim_prev (at st n) nxt"
  have trim: "carries st k ?p" "0 < seg_len ?p" "k + seg_len ?p \<le> n" "seg_len ?p \<le> seg_len nxt"
    using oos_trim_prev_ok [OF assms(2,4), of n] False assms by (simp_all add: fits_def)
  have "\<not> TCP_SEQ_GT (ucast (tcplen s) + seqno s) (rcv_nxt (pcb s) + ucast (rcv_wnd (pcb s)))"
    using assms unfolding fits_def by (simp add: add.commute [of "ucast (tcplen s)"] at_add at_compare)
  then have win: "oos_trim_window s (inseg s) = Some (inseg s)" by (simp add: oos_trim_window_def)
  have "queued st n hi [inseg s] ({n..<n + seg_len (inseg s)} \<union> {})"
    using assms(1) by (intro queued.Cons) (auto simp: fits_def)
  then have "queued st k hi [?p, inseg s] ({k..<k + seg_len ?p} \<union> ({n..<n + seg_len (inseg s)} \<union> {}))"
    using trim assms(5) by (intro queued.Cons [OF trim(1) order_refl trim(2)] queued_mono [OF _ trim(3)]) auto
  moreover have "{k..<k + seg_len ?p} \<subseteq> {k..<k + seg_len nxt}" using trim(4) by simp
  moreover have "seqno s = at st n" using assms(1) by (simp add: fits_def)
  ultimately show ?thesis using False win by simp (rule mergedI, auto)
qed

lemma oos_walk_Some:
  assumes "queued st lo hi q C" and "q \<noteq> []" and "fits st n hi s" and "carries st p prev" and "0 < seg_len prev"
    and "p < n" and "p + seg_len prev \<le> lo" and "hi \<le> p + 2 ^ 30"
  shows "merged st p hi n s ({p..<p + seg_len prev} \<union> C) (oos_walk s (Some prev) q)"
  using assms
proof (induction arbitrary: p prev rule: queued.induct)
  case (Cons st k nxt lo hi q C)
  have seq: "seqno s = at st n" "sseq nxt = at st k" "sseq prev = at st p"
    using Cons.prems Cons.hyps by (simp_all add: fits_def carries_def)
  have n_hi: "n \<le> hi" using Cons.prems(2) by (simp add: fits_def)
  have same: "seqno s = sseq nxt \<longleftrightarrow> n = k"
    unfolding seq using Cons.hyps Cons.prems n_hi by (simp add: at_eq)
  have between: "TCP_SEQ_BETWEEN (seqno s) (sseq prev + 1) (sseq nxt - 1) \<longleftrightarrow> n < k"
    unfolding seq TCP_SEQ_BETWEEN_def using Cons.hyps Cons.prems n_hi
    by (simp add: at_Suc at_pred at_compare) linarith
  have gt: "TCP_SEQ_GT (seqno s) (sseq nxt) \<longleftrightarrow> k < n"
    unfolding seq using Cons.hyps Cons.prems n_hi by (simp add: at_compare)
  have prev_hi: "p + seg_len prev \<le> hi" using Cons.hyps Cons.prems by simp
  have no_fin: "\<not> has8 (sflags prev) TCP_FIN"
    using carries_fin [OF Cons.prems(3)] carries_fin_pos [OF Cons.hyps(1)] Cons.hyps Cons.prems by force
  note wrap = merged_Cons [OF _ Cons.prems(3,4) order_refl _ prev_hi]
  consider (eq) "n = k" | (lt) "n < k" | (end_of) "k < n" "q = []" | (on) "k < n" "q \<noteq> []" by linarith
  then show ?case
  proof cases
    case eq
    have walk: "oos_walk s (Some prev) (nxt # q) = map_option (\<lambda>r. prev # r)
        (Some (if slen (inseg s) > slen nxt \<and> seg_mem s
               then tcp_oos_insert_segment (seqno s) (inseg s) (nxt # q) else nxt # q))"
      using eq same by (simp add: Let_def)
    have "p + seg_len prev \<le> n" using eq Cons.hyps Cons.prems by simp
    moreover have "merged st n hi n s ({k..<k + seg_len nxt} \<union> C)
        (Some (if slen (inseg s) > slen nxt \<and> seg_mem s
               then tcp_oos_insert_segment (seqno s) (inseg s) (nxt # q) else nxt # q))"
      unfolding eq using eq Cons.hyps Cons.prems by (intro oos_walk_same) auto
    ultimately show ?thesis unfolding walk by (intro wrap)
  next
    case lt
    show ?thesis
    proof (cases "seg_mem s")
      case True
      let ?p = "oos_trim_prev (at st n) prev"
      have trim: "carries st p ?p" "0 < seg_len ?p" "p + seg_len ?p \<le> n" "seg_len ?p \<le> seg_len prev"
        using oos_trim_prev_ok [OF Cons.prems(3,4) no_fin, of n] Cons.prems n_hi by simp_all
      have "merged st n hi n s ({k..<k + seg_len nxt} \<union> C)
          (Some (tcp_oos_insert_segment (seqno s) (inseg s) (nxt # q)))"
        using lt True Cons.hyps Cons.prems by (intro oos_walk_before) auto
      from merged_Cons [OF this trim(1,2) order_refl trim(3)] trim(3) n_hi
      have "merged st p hi n s ({p..<p + seg_len ?p} \<union> ({k..<k + seg_len nxt} \<union> C))
          (Some (?p # tcp_oos_insert_segment (seqno s) (inseg s) (nxt # q)))" by simp
      then have "merged st p hi n s ({p..<p + seg_len prev} \<union> ({k..<k + seg_len nxt} \<union> C))
          (Some (?p # tcp_oos_insert_segment (seqno s) (inseg s) (nxt # q)))"
        by (rule merged_subset) (use trim(4) True in auto)
      then show ?thesis using True lt same between seq by (simp add: Let_def)
    next
      case False
      have "queued st p hi (prev # nxt # q) ({p..<p + seg_len prev} \<union> ({k..<k + seg_len nxt} \<union> C))"
        using Cons.hyps Cons.prems prev_hi by (intro queued.Cons) auto
      then show ?thesis using False lt same between by (simp add: Let_def) (rule mergedI, auto)
    qed
  next
    case end_of
    have "merged st k hi n s {k..<k + seg_len nxt}
        (if has8 (sflags nxt) TCP_FIN \<or> \<not> seg_mem s then Some [nxt]
         else do { cseg \<leftarrow> oos_trim_window s (inseg s); Some [oos_trim_prev (seqno s) nxt, cseg] })"
      using end_of Cons.hyps Cons.prems by (intro oos_walk_last) auto
    moreover have "oos_walk s (Some prev) (nxt # q) = map_option (\<lambda>r. prev # r)
        (if has8 (sflags nxt) TCP_FIN \<or> \<not> seg_mem s then Some [nxt]
         else do { cseg \<leftarrow> oos_trim_window s (inseg s); Some [oos_trim_prev (seqno s) nxt, cseg] })"
      using end_of same between gt by (cases "oos_trim_window s (inseg s)") (simp_all add: Let_def)
    moreover have "p + seg_len prev \<le> k" "C = {}" using end_of Cons.hyps Cons.prems by simp_all
    ultimately show ?thesis using wrap by simp
  next
    case on
    have "merged st k hi n s ({k..<k + seg_len nxt} \<union> C) (oos_walk s (Some nxt) q)"
      using on Cons.hyps Cons.prems by (intro Cons.IH) auto
    moreover have "oos_walk s (Some prev) (nxt # q) = map_option (\<lambda>r. prev # r) (oos_walk s (Some nxt) q)"
      using on same between gt by (cases "oos_walk s (Some nxt) q") (simp_all add: Let_def)
    moreover have "p + seg_len prev \<le> k" using Cons.hyps Cons.prems by simp
    ultimately show ?thesis using wrap by simp
  qed
qed simp

lemma merged_mono: "merged st lo hi n s C r \<Longrightarrow> lo' \<le> lo \<Longrightarrow> merged st lo' hi n s C r"
  unfolding merged_def using queued_mono by blast

lemma map_option_append_Nil: "map_option ((@) []) r = r"
  by (cases r) simp_all

lemma oos_queue_ok:
  assumes q: "queued st lo hi (ooseq (pcb s)) C" and f: "fits st n hi s" and "lo \<le> n" and "hi \<le> lo + 2 ^ 30"
  shows "merged st lo hi n s C (oos_queue s)"
proof (cases "ooseq (pcb s)")
  case Nil
  have "queued st lo hi [inseg s] ({n..<n + seg_len (inseg s)} \<union> {})"
    using f assms(3) by (intro queued.Cons) (auto simp: fits_def)
  then show ?thesis using Nil q by (cases "seg_mem s") (auto simp: oos_queue_def intro!: mergedI)
next
  case (Cons nxt rest)
  obtain k D where k: "carries st k nxt" "lo \<le> k" "0 < seg_len nxt" "k + seg_len nxt \<le> hi"
      "queued st (k + seg_len nxt) hi rest D" "C = {k..<k + seg_len nxt} \<union> D"
    using q unfolding Cons by (elim queued_ConsE) auto
  have seq: "seqno s = at st n" "sseq nxt = at st k" and n_hi: "n \<le> hi"
    using f k(1) by (simp_all add: fits_def carries_def)
  have cmp: "seqno s = sseq nxt \<longleftrightarrow> n = k" "TCP_SEQ_LT (seqno s) (sseq nxt) \<longleftrightarrow> n < k"
      "TCP_SEQ_GT (seqno s) (sseq nxt) \<longleftrightarrow> k < n"
    unfolding seq using k assms n_hi by (simp_all add: at_eq at_compare)
  consider (eq) "n = k" | (lt) "n < k" | (end_of) "k < n" "rest = []" | (on) "k < n" "rest \<noteq> []" by linarith
  then have "merged st lo hi n s C (oos_walk s None (nxt # rest))"
  proof cases
    case eq
    then show ?thesis using merged_mono [OF oos_walk_same [OF f, of nxt rest D] assms(3)] k cmp assms
      by (auto simp: Let_def split: if_splits)
  next
    case lt
    have "queued st lo hi (nxt # rest) C" using q Cons by simp
    then show ?thesis
      using merged_mono [OF oos_walk_before [OF f k(1) lt k(3-5)] assms(3)] lt k(6) cmp assms
      by (cases "seg_mem s") (auto simp: Let_def intro!: mergedI)
  next
    case end_of
    then show ?thesis using merged_mono [OF oos_walk_last [OF f k(1) end_of(1) k(3,4)] k(2)] k cmp assms
      by (auto simp: Let_def)
  next
    case on
    then show ?thesis using merged_mono [OF oos_walk_Some [OF k(5) on(2) f k(1,3) on(1) order_refl] k(2)] k cmp assms
      by (auto simp: Let_def map_option_append_Nil)
  qed
  then show ?thesis by (simp add: oos_queue_def Cons)
qed

end
