(* ===== verification/Tcp_Rcv.thy ===== *)
theory Tcp_Rcv
  imports Tcp_Oos
begin

text \<open>
  What \<^verbatim>\<open>tcp_receive\<close> delivers to the application: in order, without gaps and without
  repetition, the bytes of the sender's stream.
\<close>

unbundle bit_operations_syntax

section \<open>Receiving\<close>

text \<open>
  The receiver expects the position \<open>n\<close>, its receive window ends at \<open>hi\<close>, the queue holds the
  positions \<open>C\<close>. The announced window does not exceed the window.
\<close>

definition rcv_window :: "sender \<Rightarrow> nat \<Rightarrow> nat \<Rightarrow> tcp_pcb \<Rightarrow> bool" where
  "rcv_window st n hi p \<longleftrightarrow>
     rcv_nxt p = at st n \<and> hi = n + unat (rcv_wnd p) \<and> rcv_ann_wnd p \<le> rcv_wnd p
     \<and> (\<exists>a. rcv_ann_right_edge p = at st a \<and> a \<le> hi \<and> hi < a + 2 ^ 30)"

lemma advance_rcv_ok:
  assumes w: "rcv_window st n hi p" and k: "n + unat k \<le> hi"
  shows "\<exists>w. advance_rcv k p = Some (p\<lparr>rcv_nxt := at st (n + unat k), rcv_wnd := rcv_wnd p - k, rcv_ann_wnd := w\<rparr>)
             \<and> rcv_window st (n + unat k) hi (p\<lparr>rcv_nxt := at st (n + unat k), rcv_wnd := rcv_wnd p - k, rcv_ann_wnd := w\<rparr>)"
proof -
  let ?p = "p\<lparr>rcv_nxt := at st (n + unat k), rcv_wnd := rcv_wnd p - k\<rparr>"
  obtain a where a: "rcv_ann_right_edge p = at st a" "a \<le> hi" "hi < a + 2 ^ 30" "hi = n + unat (rcv_wnd p)"
      "rcv_nxt p = at st n"
    using w by (auto simp: rcv_window_def)
  have k_le: "k \<le> rcv_wnd p" using k a by (simp add: word_le_nat_alt)
  have u: "unat (rcv_wnd p - k) = unat (rcv_wnd p) - unat k" using k_le by (simp add: word_le_nat_alt unat_sub)
  have u16: "unat (rcv_wnd p) < 65536" by (rule unat_u16_lt)
  have edge: "rcv_nxt ?p + ucast (rcv_wnd ?p) = at st hi"
    using k a u by (simp add: at_add)
  have gt: "TCP_SEQ_GT (rcv_nxt ?p) (rcv_ann_right_edge ?p) \<longleftrightarrow> a < n + unat k"
    using a k u16 by (simp add: at_compare)
  have "\<exists>d w. tcp_update_rcv_ann_wnd ?p = Some (d, ?p\<lparr>rcv_ann_wnd := w\<rparr>) \<and> w \<le> rcv_wnd p - k"
  proof -
    let ?big = "TCP_SEQ_GEQ (rcv_nxt ?p + ucast (rcv_wnd ?p)) (rcv_ann_right_edge ?p + ucast (min (TCP_WND div 2) (mss ?p)))"
    let ?past = "TCP_SEQ_GT (rcv_nxt ?p) (rcv_ann_right_edge ?p)"
    have "(ucast (rcv_ann_right_edge ?p - rcv_nxt ?p) :: u16) \<le> rcv_wnd p - k
          \<and> rcv_ann_right_edge ?p - rcv_nxt ?p \<le> 0xffff" if "\<not> ?past"
    proof -
      have le: "n + unat k \<le> a" using that gt by simp
      have d: "unat (at st a - at st (n + unat k)) = a - (n + unat k)"
        using le a(2,4) u16 by (intro unat_at_diff) auto
      have small: "a - (n + unat k) \<le> unat (rcv_wnd p) - unat k" using a by simp
      have le: "at st a - at st (n + unat k) \<le> 0xffff"
        unfolding word_le_nat_alt d using small u16 by simp
      have "unat (ucast (at st a - at st (n + unat k)) :: u16) = a - (n + unat k)"
        using \<open>n + unat k \<le> a\<close> a(2,4) u16 by (intro unat_ucast_diff) auto
      then have "(ucast (at st a - at st (n + unat k)) :: u16) \<le> rcv_wnd p - k"
        unfolding word_le_nat_alt u using small by simp
      with le a show ?thesis by simp
    qed
    note fits16 = this
    consider (big) ?big | (past) "\<not> ?big" ?past | (inside) "\<not> ?big" "\<not> ?past" by blast
    then show ?thesis
    proof cases
      case big
      then have "tcp_update_rcv_ann_wnd ?p
          = Some (rcv_nxt ?p + ucast (rcv_wnd ?p) - rcv_ann_right_edge ?p, ?p\<lparr>rcv_ann_wnd := rcv_wnd p - k\<rparr>)"
        unfolding tcp_update_rcv_ann_wnd_def Let_def by (simp only: if_True) simp
      then show ?thesis by (intro exI conjI, assumption) (rule order_refl)
    next
      case past
      then have "tcp_update_rcv_ann_wnd ?p = Some (0, ?p\<lparr>rcv_ann_wnd := 0\<rparr>)"
        unfolding tcp_update_rcv_ann_wnd_def Let_def by (simp only: if_True if_False)
      then show ?thesis by (intro exI conjI, assumption) (rule word_zero_le)
    next
      case inside
      then have "tcp_update_rcv_ann_wnd ?p
          = Some (0, ?p\<lparr>rcv_ann_wnd := ucast (rcv_ann_right_edge ?p - rcv_nxt ?p)\<rparr>)"
        unfolding tcp_update_rcv_ann_wnd_def Let_def using fits16 [OF inside(2), THEN conjunct2]
        by (simp only: if_False LWIP_ASSERT_simps bind.bind_lunit)
      then show ?thesis using fits16 [OF inside(2)] by blast
    qed
  qed
  then obtain d w where dw: "tcp_update_rcv_ann_wnd ?p = Some (d, ?p\<lparr>rcv_ann_wnd := w\<rparr>)" "w \<le> rcv_wnd p - k"
    by blast
  have "advance_rcv k p = Some (?p\<lparr>rcv_ann_wnd := w\<rparr>)"
    using k_le dw(1) a by (simp add: advance_rcv_def at_add)
  moreover have "rcv_window st (n + unat k) hi (?p\<lparr>rcv_ann_wnd := w\<rparr>)"
    unfolding rcv_window_def using dw(2) a(1-4) u k by (auto intro!: exI [of _ a])
  ultimately show ?thesis by blast
qed

text \<open>Passing on the queued segments that are in sequence now.\<close>

lemma cat_data_cat: "cat_data (cat_data d xs) ys = cat_data d (xs @ ys)"
  by (cases d) (auto simp: cat_data_def)

lemma cat_data_Nil [simp]: "cat_data d [] = d"
  by (simp add: cat_data_def)

definition got_fin :: "sender \<Rightarrow> nat \<Rightarrow> nat \<Rightarrow> bool" where
  "got_fin st a b \<longleftrightarrow> (case fin_at st of None \<Rightarrow> False | Some f \<Rightarrow> a \<le> f \<and> f < b)"

lemma got_fin_same [simp]: "\<not> got_fin st a a"
  by (simp add: got_fin_def split: option.splits)

lemma got_fin_split: "a \<le> b \<Longrightarrow> b \<le> c \<Longrightarrow> got_fin st a c \<longleftrightarrow> got_fin st a b \<or> got_fin st b c"
  by (auto simp: got_fin_def split: option.splits)

lemma got_fin_carries: "carries st n seg \<Longrightarrow> got_fin st n (n + seg_len seg) \<longleftrightarrow> has8 (sflags seg) TCP_FIN"
  using carries_fin by (auto simp: got_fin_def split: option.splits)

text \<open>What delivering the positions from \<open>a\<close> to \<open>b\<close> leaves in the variables of the file.\<close>

definition delivered :: "sender \<Rightarrow> nat \<Rightarrow> nat \<Rightarrow> tcp_in \<Rightarrow> tcp_in \<Rightarrow> bool" where
  "delivered st a b s s' \<longleftrightarrow>
     recv_data s' = cat_data (recv_data s) (stream_bytes st a b)
     \<and> recv_flags s' = (if got_fin st a b then recv_flags s OR TF_GOT_FIN else recv_flags s)"

lemma delivered_trans:
  "delivered st a b s s1 \<Longrightarrow> delivered st b c s1 s2 \<Longrightarrow> a \<le> b \<Longrightarrow> b \<le> c \<Longrightarrow> delivered st a c s s2"
  using stream_bytes_append [of a b c st] got_fin_split [of a b c st]
  unfolding delivered_def by (auto simp: cat_data_cat)

lemma delivered_none: "delivered st a a s s'" if "recv_data s' = recv_data s" "recv_flags s' = recv_flags s"
  using that by (simp add: delivered_def)

lemma rcv_window_cong:
  assumes "rcv_window st n hi p" and "rcv_nxt p' = rcv_nxt p" and "rcv_wnd p' = rcv_wnd p"
    and "rcv_ann_wnd p' = rcv_ann_wnd p" and "rcv_ann_right_edge p' = rcv_ann_right_edge p"
  shows "rcv_window st n hi p'"
  using assms(1) unfolding rcv_window_def assms(2-5) .

lemma dequeue_ooseq_ok:
  assumes "queued st lo hi q C" and "rcv_window st n hi (pcb s)" and "n \<le> lo"
  shows "\<exists>s' m C'. dequeue_ooseq q s = Some s' \<and> n \<le> m \<and> rcv_window st m hi (pcb s')
     \<and> queued st (m + 1) hi (ooseq (pcb s')) C' \<and> C = {n..<m} \<union> C' \<and> delivered st n m s s'"
  using assms
proof (induction q arbitrary: lo C n s)
  case Nil
  then show ?case
    by (intro exI [of _ "on_pcb (\<lambda>p. p\<lparr>ooseq := []\<rparr>) s"] exI [of _ n] exI [of _ "{}"])
      (auto simp: on_pcb_def intro: rcv_window_cong delivered_none)
next
  case (Cons seg q)
  obtain k D where k: "carries st k seg" "lo \<le> k" "0 < seg_len seg" "k + seg_len seg \<le> hi"
      "queued st (k + seg_len seg) hi q D" "C = {k..<k + seg_len seg} \<union> D"
    using Cons.prems(1) by (elim queued_ConsE) auto
  have hi: "hi \<le> n + 65535" using Cons.prems(2) unat_u16_lt [of "rcv_wnd (pcb s)"] by (simp add: rcv_window_def)
  have eq: "sseq seg = rcv_nxt (pcb s) \<longleftrightarrow> k = n"
    using k Cons.prems(2,3) hi at_eq [of k n st] by (simp add: rcv_window_def carries_def)
  show ?case
  proof (cases "k = n")
    case False
    let ?s = "on_pcb (\<lambda>p. p\<lparr>ooseq := seg # q\<rparr>) s"
    have "queued st (n + 1) hi (seg # q) C"
      unfolding k(6) using k Cons.prems(3) False by (intro queued.Cons) auto
    then show ?thesis using False eq Cons.prems(2)
      by (intro exI [of _ ?s] exI [of _ n] exI [of _ C])
        (auto simp: on_pcb_def intro: rcv_window_cong delivered_none)
  next
    case True
    have len: "unat (TCP_TCPLEN seg) = seg_len seg" using TCP_TCPLEN_carries [OF k(1)] .
    obtain w p1 where adv: "advance_rcv (TCP_TCPLEN seg) (pcb s) = Some p1"
      and win: "rcv_window st (n + seg_len seg) hi p1"
      using advance_rcv_ok [OF Cons.prems(2), of "TCP_TCPLEN seg"] k(4) True len by auto
    define s2 where "s2 = pass_up_queued seg (s\<lparr>pcb := p1\<rparr>)"
    have step: "dequeue_ooseq (seg # q) s = dequeue_ooseq q s2"
      using True eq adv by (simp add: s2_def)
    have win2: "rcv_window st (n + seg_len seg) hi (pcb s2)"
      using win by (rule rcv_window_cong) (simp_all add: s2_def pass_up_queued_def on_pcb_def Let_def)
    have del: "delivered st n (n + seg_len seg) s s2"
      using got_fin_carries [OF k(1)] carries_payload [OF k(1)] True
      by (auto simp: delivered_def s2_def pass_up_queued_def on_pcb_def Let_def)
    obtain s' m C' where r: "dequeue_ooseq q s2 = Some s'" "n + seg_len seg \<le> m" "rcv_window st m hi (pcb s')"
        "queued st (m + 1) hi (ooseq (pcb s')) C'" "D = {n + seg_len seg..<m} \<union> C'"
        "delivered st (n + seg_len seg) m s2 s'"
      using Cons.IH [OF k(5) win2] True by auto
    have "C = {n..<m} \<union> C'" using k(6) r(2,5) True by auto
    then show ?thesis
      using step r delivered_trans [OF del r(6)] by (intro exI [of _ s'] exI [of _ m] exI [of _ C']) simp
  qed
qed

text \<open>Trimming the in-sequence segment to the window and to the queue.\<close>

lemma trim_to_wnd_ok:
  assumes c: "carries st n (inseg s)" and sq: "seqno s = at st n" and w: "rcv_window st n hi (pcb s)" and "n < hi"
    and "0 < seg_len (inseg s)"
  shows "\<exists>seg tn. trim_to_wnd s = Some (s\<lparr>inseg := seg, tcplen := tn\<rparr>) \<and> carries st n seg
           \<and> unat tn = seg_len seg \<and> 0 < seg_len seg \<and> n + seg_len seg = min (n + seg_len (inseg s)) hi"
proof -
  have hi: "hi = n + unat (rcv_wnd (pcb s))" and nx: "rcv_nxt (pcb s) = at st n"
    using w by (simp_all add: rcv_window_def)
  have len: "unat (TCP_TCPLEN (inseg s)) = seg_len (inseg s)" using c by (rule TCP_TCPLEN_carries)
  show ?thesis
  proof (cases "rcv_wnd (pcb s) < TCP_TCPLEN (inseg s)")
    case False
    then show ?thesis
      using c len hi assms(5)
      by (intro exI [of _ "inseg s"] exI [of _ "TCP_TCPLEN (inseg s)"])
        (simp add: trim_to_wnd_def word_less_nat_alt)
  next
    case True
    let ?c = "(inseg s)\<lparr>sflags := sflags (inseg s) AND NOT TCP_FIN\<rparr>"
    let ?seg = "seg_realloc (rcv_wnd (pcb s)) ?c"
    have lt: "unat (rcv_wnd (pcb s)) < seg_len (inseg s)" using True len by (simp add: word_less_nat_alt)
    have cut: "carries st n ?seg" "seg_len ?seg = unat (rcv_wnd (pcb s))"
      using carries_realloc [OF carries_clear_fin [OF c], of "rcv_wnd (pcb s)"] lt
      by (simp_all add: seg_len_def split: if_splits)
    have tl: "unat (TCP_TCPLEN ?seg) = unat (rcv_wnd (pcb s))" using TCP_TCPLEN_carries [OF cut(1)] cut(2) by simp
    have "\<not> has8 (sflags ?c) TCP_SYN" using c by (simp add: carries_def)
    then have "trim_to_wnd s = Some (s\<lparr>inseg := ?seg, tcplen := TCP_TCPLEN ?seg\<rparr>)"
      using True sq nx tl by (simp add: trim_to_wnd_def at_add Let_def)
    then show ?thesis using cut tl hi lt \<open>n < hi\<close>
      by (intro exI [of _ ?seg] exI [of _ "TCP_TCPLEN ?seg"] conjI) auto
  qed
qed

lemma ins_drop_covered_eq:
  assumes "queued st lo hi q C" and "carries st n seg" and "\<not> has8 (sflags seg) TCP_FIN" and "tn = TCP_TCPLEN seg"
  shows "ins_drop_covered (at st n) (seg, tn) q
    = (case oos_drop_covered (at st n) seg q of (seg', q') \<Rightarrow> ((seg', TCP_TCPLEN seg'), q'))"
  using assms
proof (induction rule: queued.induct)
  case (Cons st k nxt lo hi q C)
  have "TCP_TCPLEN seg = slen seg" "\<not> has8 (sflags seg) TCP_SYN"
    using TCP_TCPLEN_carries [OF Cons.prems(1)] Cons.prems(1,2)
    by (simp_all add: carries_def seg_len_def word_unat_eq_iff)
  moreover have "q = []" if "has8 (sflags nxt) TCP_FIN"
    using that queued_past_fin [OF Cons.hyps(5)] Cons.hyps(1) by (simp add: carries_def seg_len_def)
  ultimately show ?case using Cons.IH Cons.prems by (auto simp: Let_def)
qed simp

lemma trim_to_ooseq_ok:
  assumes c: "carries st n (inseg s)" and sq: "seqno s = at st n" and tl: "unat (tcplen s) = seg_len (inseg s)"
    and pos: "0 < seg_len (inseg s)" and q: "queued st (n + 1) hi (ooseq (pcb s)) C"
    and hi: "n + seg_len (inseg s) \<le> hi" "hi \<le> n + 2 ^ 30"
  shows "\<exists>seg tn q C'. trim_to_ooseq s = Some (s\<lparr>inseg := seg, tcplen := tn, pcb := (pcb s)\<lparr>ooseq := q\<rparr>\<rparr>)
     \<and> carries st n seg \<and> unat tn = seg_len seg \<and> 0 < seg_len seg \<and> n + seg_len seg \<le> hi
     \<and> queued st (n + seg_len seg) hi q C' \<and> {n..<n + seg_len seg} \<union> C' = {n..<n + seg_len (inseg s)} \<union> C"
proof -
  have tl': "tcplen s = TCP_TCPLEN (inseg s)"
    using TCP_TCPLEN_carries [OF c] tl by (simp add: word_unat_eq_iff)
  consider (empty) "ooseq (pcb s) = []"
    | (fin) "ooseq (pcb s) \<noteq> []" "has8 (sflags (inseg s)) TCP_FIN"
    | (drop) "ooseq (pcb s) \<noteq> []" "\<not> has8 (sflags (inseg s)) TCP_FIN" by blast
  then show ?thesis
  proof cases
    case empty
    then show ?thesis using assms
      by (intro exI [of _ "inseg s"] exI [of _ "tcplen s"] exI [of _ "[]"] exI [of _ "{}"])
        (simp add: trim_to_ooseq_def)
  next
    case fin
    obtain f where f: "fin_at st = Some f" "f < n + seg_len (inseg s)" using carries_fin [OF c] fin(2) by blast
    have "C \<subseteq> {n..<n + seg_len (inseg s)}"
    proof
      fix x assume "x \<in> C"
      then show "x \<in> {n..<n + seg_len (inseg s)}"
        using queued_fin [OF q f(1)] queued_range [OF q] f(2) by force
    qed
    then show ?thesis using fin assms
      by (intro exI [of _ "inseg s"] exI [of _ "tcplen s"] exI [of _ "[]"] exI [of _ "{}"])
        (auto simp: trim_to_ooseq_def)
  next
    case drop
    obtain seg q' C' where r: "oos_drop_covered (at st n) (inseg s) (ooseq (pcb s)) = (seg, q')" "carries st n seg"
        "sdata seg = sdata (inseg s)" "n + seg_len seg \<le> hi"
        "{n..<n + seg_len seg} \<union> C' = {n..<n + seg_len (inseg s)} \<union> C"
        "queued_past st (n + seg_len seg) (n + 1) hi q' C'" "seg = inseg s \<or> q' = []"
      using oos_drop_covered_ok [OF q c drop(2) _ hi] by auto
    have pos': "0 < seg_len seg" using pos drop(2) r(3) by (simp add: seg_len_def)
    have ins: "ins_drop_covered (seqno s) (inseg s, tcplen s) (ooseq (pcb s)) = ((seg, TCP_TCPLEN seg), q')"
      unfolding sq ins_drop_covered_eq [OF q c drop(2) tl'] r(1) by simp
    have len: "unat (TCP_TCPLEN seg) = seg_len seg" using r(2) by (rule TCP_TCPLEN_carries)
    show ?thesis
    proof (cases q')
      case Nil
      then have "trim_to_ooseq s = Some (s\<lparr>inseg := seg, tcplen := TCP_TCPLEN seg, pcb := (pcb s)\<lparr>ooseq := []\<rparr>\<rparr>)"
        using drop ins by (simp add: trim_to_ooseq_def)
      moreover have "C' = {}" using r(6) Nil by (simp add: queued_past_def)
      ultimately show ?thesis using r(2,4,5) len pos'
        by (intro exI [of _ seg] exI [of _ "TCP_TCPLEN seg"] exI [of _ "[]"] exI [of _ "{}"] conjI) auto
    next
      case (Cons nxt rest)
      then have s: "seg = inseg s" using r(7) by simp
      obtain k D where k: "carries st k nxt" "n + 1 \<le> k" "n + seg_len seg < k + length (sdata nxt)"
          "k + seg_len nxt \<le> hi" "0 < seg_len nxt" "queued st (k + seg_len nxt) hi rest D"
          "C' = {k..<k + seg_len nxt} \<union> D"
        using r(6) unfolding Cons queued_past_def by blast
      have qk: "queued st lo hi q' C'" if "lo \<le> k" for lo
        unfolding Cons k(7) using k that by (intro queued.Cons)
      have gt: "TCP_SEQ_GT (at st n + ucast (TCP_TCPLEN seg)) (sseq nxt) \<longleftrightarrow> k < n + seg_len seg"
        using k hi r(4) len by (simp add: carries_def at_add at_compare)
      show ?thesis
      proof (cases "k < n + seg_len seg")
        case True
        let ?seg = "seg_realloc (ucast (sseq nxt - at st n)) seg"
        have u: "unat (ucast (sseq nxt - at st n) :: u16) = k - n"
          using k(1,2) True seg_len_le [OF c] s unat_ucast_diff [of n k st] by (simp add: carries_def)
        then have cut: "carries st n ?seg" "seg_len ?seg = k - n"
          using carries_realloc [OF c drop(2), of "ucast (sseq nxt - at st n)"] True drop(2)
          by (simp_all add: seg_len_def s)
        have tls: "unat (TCP_TCPLEN ?seg) = k - n" using TCP_TCPLEN_carries [OF cut(1)] cut(2) by simp
        have "\<not> has8 (sflags seg) TCP_SYN" using r(2) by (simp add: carries_def)
        moreover have "at st n + ucast (TCP_TCPLEN ?seg) = sseq nxt"
          using k(1,2) tls by (simp add: at_add carries_def)
        ultimately have "trim_to_ooseq s
            = Some (s\<lparr>inseg := ?seg, tcplen := TCP_TCPLEN ?seg, pcb := (pcb s)\<lparr>ooseq := q'\<rparr>\<rparr>)"
          using drop ins gt True sq Cons by (simp add: trim_to_ooseq_def Let_def)
        moreover have "{n..<n + seg_len ?seg} \<union> C' = {n..<n + seg_len seg} \<union> C'"
        proof -
          have "{k..<n + seg_len seg} \<subseteq> C'" using k(3,7) by (auto simp: seg_len_def)
          moreover have "{n..<n + seg_len seg} = {n..<k} \<union> {k..<n + seg_len seg}"
            using True k(2) by (simp add: ivl_disj_un)
          ultimately show ?thesis using cut(2) k(2) by auto
        qed
        ultimately show ?thesis using cut tls qk [of k] k(2,4) r(5)
          by (intro exI [of _ ?seg] exI [of _ "TCP_TCPLEN ?seg"] exI [of _ q'] exI [of _ C'] conjI) auto
      next
        case False
        then have "trim_to_ooseq s
            = Some (s\<lparr>inseg := seg, tcplen := TCP_TCPLEN seg, pcb := (pcb s)\<lparr>ooseq := q'\<rparr>\<rparr>)"
          using drop ins gt sq Cons by (simp add: trim_to_ooseq_def Let_def)
        then show ?thesis using False r(2,4,5) len pos' qk [of "n + seg_len seg"]
          by (intro exI [of _ seg] exI [of _ "TCP_TCPLEN seg"] exI [of _ q'] exI [of _ C'] conjI) auto
      qed
    qed
  qed
qed

text \<open>The in-sequence branch. The positions \<open>X\<close> are what has arrived now, up to the window edge.\<close>

lemma receive_in_sequence_ok:
  assumes c: "carries st n (inseg s)" and sq: "seqno s = at st n" and pos: "0 < seg_len (inseg s)"
    and w: "rcv_window st n hi (pcb s)" and "n < hi" and q: "queued st (n + 1) hi (ooseq (pcb s)) C"
    and none: "recv_data s = None"
  shows "\<exists>s' m C'. receive_in_sequence s = Some s' \<and> n < m \<and> rcv_window st m hi (pcb s')
     \<and> queued st (m + 1) hi (ooseq (pcb s')) C'
     \<and> {n..<min (n + seg_len (inseg s)) hi} \<union> C = {n..<m} \<union> C' \<and> delivered st n m s s'"
proof -
  obtain seg1 tl1 where t1: "trim_to_wnd s = Some (s\<lparr>inseg := seg1, tcplen := tl1\<rparr>)" (is "_ = Some ?s1")
    and c1: "carries st n seg1" "unat tl1 = seg_len seg1" "0 < seg_len seg1"
      "n + seg_len seg1 = min (n + seg_len (inseg s)) hi"
    using trim_to_wnd_ok [OF c sq w \<open>n < hi\<close> pos] by blast
  have hi: "hi \<le> n + 2 ^ 30" using w unat_u16_lt [of "rcv_wnd (pcb s)"] by (simp add: rcv_window_def)
  obtain seg tn q' C1 where t2: "trim_to_ooseq ?s1 = Some (s\<lparr>inseg := seg, tcplen := tn, pcb := (pcb s)\<lparr>ooseq := q'\<rparr>\<rparr>)"
      (is "_ = Some ?s2")
    and c2: "carries st n seg" "unat tn = seg_len seg" "0 < seg_len seg" "n + seg_len seg \<le> hi"
      "queued st (n + seg_len seg) hi q' C1" "{n..<n + seg_len seg} \<union> C1 = {n..<n + seg_len seg1} \<union> C"
  proof -
    have "n + seg_len (inseg ?s1) \<le> hi" using c1(4) by simp
    from trim_to_ooseq_ok [of st n ?s1 hi C, OF _ _ _ _ _ this hi]
    show thesis using c1 sq q that by simp blast
  qed
  have w2: "rcv_window st n hi ((pcb s)\<lparr>ooseq := q', rcv_nxt := at st n\<rparr>)"
    using w by (rule rcv_window_cong) (use w in \<open>simp_all add: rcv_window_def\<close>)
  obtain w where adv: "advance_rcv tn ((pcb s)\<lparr>ooseq := q', rcv_nxt := at st n\<rparr>)
        = Some ((pcb s)\<lparr>ooseq := q', rcv_nxt := at st (n + seg_len seg), rcv_wnd := rcv_wnd (pcb s) - tn, rcv_ann_wnd := w\<rparr>)"
      (is "_ = Some ?p")
    and w3: "rcv_window st (n + seg_len seg) hi
        ((pcb s)\<lparr>ooseq := q', rcv_nxt := at st (n + seg_len seg), rcv_wnd := rcv_wnd (pcb s) - tn, rcv_ann_wnd := w\<rparr>)"
    using advance_rcv_ok [OF w2, of tn] c2(2,4) by auto
  define s3 where "s3 = pass_up (s\<lparr>inseg := seg, tcplen := tn, pcb := ?p\<rparr>)"
  have p3: "pcb s3 = ?p" by (simp add: s3_def pass_up_def Let_def)
  have del: "delivered st n (n + seg_len seg) s s3"
    using got_fin_carries [OF c2(1)] carries_payload [OF c2(1)] none
    by (simp add: delivered_def s3_def pass_up_def Let_def cat_data_def)
  obtain s4 m C' where d: "dequeue_ooseq q' s3 = Some s4" "n + seg_len seg \<le> m" "rcv_window st m hi (pcb s4)"
      "queued st (m + 1) hi (ooseq (pcb s4)) C'" "C1 = {n + seg_len seg..<m} \<union> C'"
      "delivered st (n + seg_len seg) m s3 s4"
    using dequeue_ooseq_ok [OF c2(5), of "n + seg_len seg" s3] w3 p3 by auto
  have "receive_in_sequence s = Some (on_pcb tcp_ack s4)"
    using t1 t2 adv d(1) sq by (simp add: receive_in_sequence_def s3_def)
  moreover have "rcv_window st m hi (pcb (on_pcb tcp_ack s4))"
    using d(3) by (rule rcv_window_cong)
      (simp_all add: on_pcb_def tcp_ack_def tcp_ack_now_def tcp_set_flags_def tcp_clear_flags_def)
  moreover have "ooseq (pcb (on_pcb tcp_ack s4)) = ooseq (pcb s4)"
    by (simp add: on_pcb_def tcp_ack_def tcp_ack_now_def tcp_set_flags_def tcp_clear_flags_def)
  moreover have "delivered st n m s (on_pcb tcp_ack s4)"
    using delivered_trans [OF del d(6)] d(2) by (simp add: delivered_def on_pcb_def)
  moreover have "{n..<min (n + seg_len (inseg s)) hi} \<union> C = {n..<m} \<union> C'"
  proof -
    have "{n..<n + seg_len seg} \<union> {n + seg_len seg..<m} = {n..<m}"
      by (rule ivl_disj_un_two(3)) (use d(2) in simp_all)
    then have "{n..<n + seg_len seg} \<union> C1 = {n..<m} \<union> C'" unfolding d(5) by blast
    then show ?thesis unfolding c1(4) [symmetric] c2(6) .
  qed
  ultimately show ?thesis using d(2,4) c2(3) by (intro exI [of _ "on_pcb tcp_ack s4"] exI [of _ m] exI [of _ C']) auto
qed

text \<open>Cutting off what was received before.\<close>

lemma trim_front_ok:
  assumes c: "carries st k (inseg s)" and sq: "seqno s = at st k" and tl: "unat (tcplen s) = seg_len (inseg s)"
    and nx: "rcv_nxt (pcb s) = at st n" and near: "k < n + 2 ^ 30" "n < k + 2 ^ 30"
    and pos: "0 < seg_len (inseg s)"
  shows "trim_front s =
    (if k < n \<and> n < k + seg_len (inseg s)
     then Some (s\<lparr>inseg := (inseg s)\<lparr>slen := slen (inseg s) - of_nat (n - k), sdata := drop (n - k) (sdata (inseg s)),
                                       sseq := at st n\<rparr>, seqno := at st n\<rparr>)
     else if k < n then Some (on_pcb tcp_ack_now s) else Some s)"
proof -
  have len: "seg_len (inseg s) \<le> 65535" using c by (rule seg_len_le)
  have lim: "seqno s + ucast (tcplen s) - 1 = at st (k + seg_len (inseg s) - 1)" "seqno s + 1 = at st (k + 1)"
    using pos by (simp_all add: sq tl at_add at_pred at_Suc)
  have b: "TCP_SEQ_BETWEEN (rcv_nxt (pcb s)) (seqno s + 1) (seqno s + ucast (tcplen s) - 1)
       \<longleftrightarrow> k < n \<and> n < k + seg_len (inseg s)"
    unfolding lim nx TCP_SEQ_BETWEEN_def using near len pos by (auto simp: at_compare)
  have lt: "TCP_SEQ_LT (seqno s) (rcv_nxt (pcb s)) \<longleftrightarrow> k < n"
    unfolding sq nx using near by (simp add: at_compare)
  show ?thesis
  proof (cases "k < n \<and> n < k + seg_len (inseg s)")
    case True
    have d: "rcv_nxt (pcb s) - seqno s = of_nat (n - k)" unfolding sq nx using True by (intro at_diff) simp
    have u: "unat (ucast (of_nat (n - k) :: u32) :: u16) = n - k"
      using unat_ucast_diff [of k n st] True len d unfolding sq nx by simp
    have e: "(ucast (of_nat (n - k) :: u32) :: u16) = of_nat (n - k)"
      using arg_cong [OF u, of "of_nat :: nat \<Rightarrow> u16"] by simp
    have "(of_nat (n - k) :: u32) < 0xffff"
    proof -
      have "unat (of_nat (n - k) :: u32) = n - k"
        unfolding d [unfolded sq nx, symmetric] by (rule unat_at_diff) (use True len in auto)
      moreover have "n - k < 65535" using True len by linarith
      ultimately show ?thesis by (simp only: word_less_nat_alt) simp
    qed
    moreover have "n - k \<le> length (sdata (inseg s))" using True by (auto simp: seg_len_def split: if_splits)
    ultimately show ?thesis using True b u
      unfolding trim_front_def d Let_def by (simp add: nx e flip: of_nat_diff)
  next
    case False
    then show ?thesis using b lt unfolding trim_front_def by auto
  qed
qed

lemma carries_drop:
  assumes c: "carries st k seg" and "k < n" and "n < k + seg_len seg"
  defines "seg' \<equiv> seg\<lparr>slen := slen seg - of_nat (n - k), sdata := drop (n - k) (sdata seg), sseq := at st n\<rparr>"
  shows "carries st n seg'" and "n + seg_len seg' = k + seg_len seg"
proof -
  have le: "n - k \<le> length (sdata seg)" using assms(2,3) by (simp add: seg_len_def split: if_splits)
  have len: "unat (slen seg) = length (sdata seg)" "length (sdata seg) < 65535" using c by (simp_all add: carries_def)
  then have "unat (slen seg - of_nat (n - k)) = length (sdata seg) - (n - k)"
    using le by (simp add: unat_sub word_le_nat_alt unat_of_nat take_bit_nat_eq_self)
  then show "carries st n seg'" using c le assms(2) len by (auto simp: carries_def seg'_def)
  show "n + seg_len seg' = k + seg_len seg" using le assms(2) by (simp add: seg_len_def seg'_def)
qed

text \<open>
  The whole receive path: what arrived is the segment, cut at the window edge; what is
  delivered is the longest run of positions from the expected one on that have arrived.
\<close>

definition rcv_state :: "sender \<Rightarrow> nat \<Rightarrow> nat \<Rightarrow> nat set \<Rightarrow> tcp_pcb \<Rightarrow> bool" where
  "rcv_state st n hi C p \<longleftrightarrow> rcv_window st n hi p \<and> queued st (n + 1) hi (ooseq p) C"

lemma rcv_stateD:
  assumes "rcv_state st n hi C p"
  shows "rcv_window st n hi p" "rcv_nxt p = at st n" "hi = n + unat (rcv_wnd p)" "queued st (n + 1) hi (ooseq p) C"
  using assms unfolding rcv_state_def rcv_window_def by blast+

lemma send_ack_ok:
  assumes "rcv_state st n hi C (pcb s)"
  shows "rcv_state st n hi C (pcb (send_ack s))" and "recv_data (send_ack s) = recv_data s"
    and "recv_flags (send_ack s) = recv_flags s"
proof -
  have w: "hi = n + unat (rcv_wnd (pcb s))" "rcv_nxt (pcb s) = at st n" "unat (rcv_ann_wnd (pcb s)) \<le> unat (rcv_wnd (pcb s))"
    using assms by (simp_all add: rcv_state_def rcv_window_def word_le_nat_alt)
  have "hi < n + unat (rcv_ann_wnd (pcb s)) + 2 ^ 30" using w(1) unat_u16_lt [of "rcv_wnd (pcb s)"] by simp
  then have edge: "\<exists>a. rcv_nxt (pcb s) + ucast (rcv_ann_wnd (pcb s)) = at st a \<and> a \<le> hi \<and> hi < a + 2 ^ 30"
    using w by (intro exI [of _ "n + unat (rcv_ann_wnd (pcb s))"]) (simp add: at_add)
  show "rcv_state st n hi C (pcb (send_ack s))"
    using assms edge unfolding rcv_state_def rcv_window_def send_ack_def tcp_send_empty_ack_def
      tcp_output_alloc_header_def tcp_set_flags_def tcp_clear_flags_def
    by (cases "next_result s") (auto split: err_t.splits)
  show "recv_data (send_ack s) = recv_data s" "recv_flags (send_ack s) = recv_flags s"
    by (simp_all add: send_ack_def split: prod.splits)
qed

lemma rcv_state_ack_now: "rcv_state st n hi C p \<Longrightarrow> rcv_state st n hi C (tcp_ack_now p)"
  by (auto simp: rcv_state_def rcv_window_def tcp_ack_now_def tcp_set_flags_def)

text \<open>A segment that overlaps the expected position.\<close>

lemma receive_data_in_sequence:
  assumes c: "carries st k (inseg s)" and sq: "seqno s = at st k" and tl: "unat (tcplen s) = seg_len (inseg s)"
    and st: "rcv_state st n hi C (pcb s)" and near: "n < k + 2 ^ 30"
    and over: "k \<le> n" "n < k + seg_len (inseg s)" and "n < hi" and none: "recv_data s = None"
  shows "\<exists>s' m C'. receive_data s = Some s' \<and> n < m \<and> rcv_state st m hi C' (pcb s')
     \<and> {n..<min (k + seg_len (inseg s)) hi} \<union> C = {n..<m} \<union> C' \<and> delivered st n m s s'"
proof -
  have w: "rcv_window st n hi (pcb s)" "rcv_nxt (pcb s) = at st n" "hi = n + unat (rcv_wnd (pcb s))"
    and q: "queued st (n + 1) hi (ooseq (pcb s)) C"
    by (fact rcv_stateD [OF st])+
  have near': "k < n + 2 ^ 30" using over by simp
  obtain s1 where s1: "trim_front s = Some s1" "carries st n (inseg s1)" "seqno s1 = at st n" "pcb s1 = pcb s"
      "n + seg_len (inseg s1) = k + seg_len (inseg s)" "recv_data s1 = recv_data s" "recv_flags s1 = recv_flags s"
  proof (cases "k < n")
    case True
    let ?s1 = "s\<lparr>inseg := (inseg s)\<lparr>slen := slen (inseg s) - of_nat (n - k), sdata := drop (n - k) (sdata (inseg s)),
                                       sseq := at st n\<rparr>, seqno := at st n\<rparr>"
    have "trim_front s = Some ?s1"
      using trim_front_ok [OF c sq tl w(2) near' near] True over by (simp del: of_nat_diff)
    with that [of ?s1] carries_drop [OF c True over(2)] show thesis by (simp del: of_nat_diff)
  next
    case False
    have "trim_front s = Some s" using trim_front_ok [OF c sq tl w(2) near' near] False over by simp
    with that [of s] False over c sq show thesis by simp
  qed
  have "TCP_SEQ_BETWEEN (at st n) (at st n) (at st n + ucast (rcv_wnd (pcb s)) - 1)"
    unfolding TCP_SEQ_BETWEEN_def using \<open>n < hi\<close> w(3) unat_u16_lt [of "rcv_wnd (pcb s)"]
    by (simp add: at_add at_pred at_compare)
  then have run: "receive_data s = receive_in_sequence s1"
    using s1 w(2) by (simp add: receive_data_def)
  have pos: "0 < seg_len (inseg s1)" using s1(5) over by simp
  have q1: "queued st (n + 1) hi (ooseq (pcb s1)) C" using q s1(4) by simp
  obtain s' m C' where r: "receive_in_sequence s1 = Some s'" "n < m" "rcv_window st m hi (pcb s')"
      "queued st (m + 1) hi (ooseq (pcb s')) C'"
      "{n..<min (n + seg_len (inseg s1)) hi} \<union> C = {n..<m} \<union> C'" "delivered st n m s1 s'"
    using receive_in_sequence_ok [OF s1(2,3) pos _ \<open>n < hi\<close> q1] w(1) s1(4,6) none by auto
  show ?thesis
    using run r s1(5-7) by (intro exI [of _ s'] exI [of _ m] exI [of _ C']) (simp add: rcv_state_def delivered_def)
qed

text \<open>A segment above the expected position and below the window edge.\<close>

lemma receive_data_out_of_sequence:
  assumes f: "fits st k hi s" and st: "rcv_state st n hi C (pcb s)" and "n < k"
  shows "\<exists>s' C'. receive_data s = Some s' \<and> rcv_state st n hi C' (pcb s')
     \<and> C' \<subseteq> C \<union> {k..<k + seg_len (inseg s)} \<and> (\<not> seg_mem s \<longrightarrow> C' = C)
     \<and> (seg_mem s \<and> \<not> has8 (sflags (inseg s)) TCP_FIN \<longrightarrow> {k..<k + seg_len (inseg s)} \<subseteq> C')
     \<and> recv_data s' = recv_data s \<and> recv_flags s' = recv_flags s"
proof -
  have c: "carries st k (inseg s)" "seqno s = at st k" "unat (tcplen s) = seg_len (inseg s)"
      "0 < seg_len (inseg s)" "k + seg_len (inseg s) \<le> hi"
    using f by (simp_all add: fits_def)
  have w: "rcv_window st n hi (pcb s)" "rcv_nxt (pcb s) = at st n" "hi = n + unat (rcv_wnd (pcb s))"
    and q: "queued st (n + 1) hi (ooseq (pcb s)) C"
    by (fact rcv_stateD [OF st])+
  have hi: "hi \<le> n + 65535" using w(3) unat_u16_lt [of "rcv_wnd (pcb s)"] by simp
  have front: "trim_front s = Some s"
    using trim_front_ok [OF c(1-3) w(2) _ _ c(4)] \<open>n < k\<close> c(5) hi by simp
  have b: "TCP_SEQ_BETWEEN (at st k) (at st n) (at st n + ucast (rcv_wnd (pcb s)) - 1)"
    unfolding TCP_SEQ_BETWEEN_def using \<open>n < k\<close> c(4,5) w(3) hi by (auto simp: at_add at_pred at_compare)
  have ne: "at st n \<noteq> at st k" using \<open>n < k\<close> c(5) hi at_eq [of n k st] by simp
  have "merged st (n + 1) hi k s C (oos_queue s)"
    using \<open>n < k\<close> hi by (intro oos_queue_ok [OF q f]) auto
  then obtain qn C' where m: "oos_queue s = Some qn" "queued st (n + 1) hi qn C'" "C' \<subseteq> C \<union> {k..<k + seg_len (inseg s)}"
      "\<not> seg_mem s \<longrightarrow> C' = C"
      "seg_mem s \<and> \<not> has8 (sflags (inseg s)) TCP_FIN \<longrightarrow> {k..<k + seg_len (inseg s)} \<subseteq> C'"
    unfolding merged_def by blast
  let ?s = "on_pcb (\<lambda>p. p\<lparr>ooseq := qn\<rparr>) s"
  have "rcv_state st n hi C' (pcb ?s)"
    unfolding rcv_state_def using m(2) rcv_window_cong [OF w(1)] by (simp add: on_pcb_def)
  note ack = send_ack_ok [OF this]
  have "receive_data s = Some (send_ack ?s)"
    using front b ne m(1) c(2) w(2) by (simp add: receive_data_def)
  then show ?thesis using ack m(3-5) by (intro exI [of _ "send_ack ?s"] exI [of _ C']) (simp add: on_pcb_def)
qed

end
