(* ===== verification/Tcp_Ack.thy ===== *)
theory Tcp_Ack
  imports Tcp_Rcv
begin

text \<open>
  The sender's side of \<^verbatim>\<open>tcp_receive\<close>: an acknowledgement frees exactly the segments it
  covers, the count of queued pbufs stays the number of pbufs on the two queues (so the
  assertions on it hold), and the receive side of the connection is not touched.
\<close>

section \<open>The queue length\<close>

definition pbuf_count :: "tcp_seg list \<Rightarrow> nat" where
  "pbuf_count segs = (\<Sum>seg\<leftarrow>segs. unat (sclen seg))"

definition snd_ok :: "tcp_pcb \<Rightarrow> bool" where
  "snd_ok p \<longleftrightarrow> unat (snd_queuelen p) = pbuf_count (unacked p) + pbuf_count (unsent p)"

lemma pbuf_count_simps [simp]: "pbuf_count [] = 0" "pbuf_count (s # ss) = unat (sclen s) + pbuf_count ss" "pbuf_count (xs @ ys) = pbuf_count xs + pbuf_count ys"
  by (simp_all add: pbuf_count_def)

lemma pbuf_count_nonempty: "pbuf_count segs \<noteq> 0 \<longrightarrow> segs \<noteq> []"
  by auto

text \<open>The segments an acknowledgement covers.\<close>

definition acked_by :: "u32 \<Rightarrow> tcp_seg \<Rightarrow> bool" where
  "acked_by ack seg \<longleftrightarrow> TCP_SEQ_LEQ (sseq seg + ucast (TCP_TCPLEN seg)) ack"

definition bytes_of :: "tcp_seg list \<Rightarrow> u16" where
  "bytes_of segs = (\<Sum>seg\<leftarrow>segs. slen seg)"

lemma bytes_of_simps [simp]: "bytes_of [] = 0" "bytes_of (s # ss) = slen s + bytes_of ss"
  by (simp_all add: bytes_of_def)

lemma tcp_free_acked_segments_eq:
  assumes "unat qlen = pbuf_count segs + r" and "r \<noteq> 0 \<longrightarrow> other"
  shows "\<exists>qlen'. tcp_free_acked_segments ack other segs (qlen, acked)
       = Some (dropWhile (acked_by ack) segs, qlen', acked + bytes_of (takeWhile (acked_by ack) segs))
       \<and> unat qlen' = pbuf_count (dropWhile (acked_by ack) segs) + r"
  using assms(1)
proof (induction segs arbitrary: qlen acked)
  case (Cons seg segs)
  show ?case
  proof (cases "acked_by ack seg")
    case True
    have le: "sclen seg \<le> qlen" using Cons.prems by (simp add: word_le_nat_alt)
    then have q: "unat (qlen - sclen seg) = pbuf_count segs + r" using Cons.prems by (simp add: unat_sub word_le_nat_alt)
    have "qlen - sclen seg \<noteq> 0 \<longrightarrow> segs \<noteq> [] \<or> other" using q assms(2) by (auto simp: unat_eq_0 [symmetric])
    then show ?thesis using Cons.IH [OF q, of "acked + slen seg"] True le by (simp add: acked_by_def add.assoc Let_def)
  next
    case False
    then show ?thesis using Cons.prems by (simp add: acked_by_def)
  qed
qed simp

section \<open>What the acknowledgement part leaves alone\<close>

definition rcv_view :: "tcp_pcb \<Rightarrow> u32 \<times> u16 \<times> u16 \<times> tcp_seg list \<times> tcp_state" where
  "rcv_view p = (rcv_nxt p, rcv_wnd p, rcv_ann_wnd p, ooseq p, state p)"

lemma rcv_state_view:
  "rcv_view p' = rcv_view p \<Longrightarrow> rcv_ann_right_edge p' = rcv_ann_right_edge p \<Longrightarrow> rcv_state st n hi C p'
   \<longleftrightarrow> rcv_state st n hi C p"
  by (simp add: rcv_view_def rcv_state_def rcv_window_def)

lemma pbuf_count_insert_unsent: "pbuf_count (insert_unsent seg us) = unat (sclen seg) + pbuf_count us"
  by (induction us) auto

lemmas pcb_flag_defs = tcp_ack_now_def tcp_set_flags_def tcp_clear_flags_def

lemma update_snd_wnd_frame:
  "rcv_view (update_snd_wnd s p) = rcv_view p" "rcv_ann_right_edge (update_snd_wnd s p) = rcv_ann_right_edge p"
  "snd_ok (update_snd_wnd s p) = snd_ok p"
  by (simp_all add: update_snd_wnd_def rcv_view_def snd_ok_def)

lemma rtt_estimate_frame:
  "rcv_view (rtt_estimate s p) = rcv_view p" "rcv_ann_right_edge (rtt_estimate s p) = rcv_ann_right_edge p"
  "snd_ok (rtt_estimate s p) = snd_ok p"
  by (simp_all add: rtt_estimate_def rcv_view_def snd_ok_def Let_def)

lemma tcp_rexmit_frame:
  assumes "tcp_rexmit p = (e, p')"
  shows "rcv_view p' = rcv_view p" "rcv_ann_right_edge p' = rcv_ann_right_edge p" "snd_ok p' = snd_ok p"
  using assms
  by (auto simp: tcp_rexmit_def rcv_view_def snd_ok_def pbuf_count_insert_unsent Let_def split: list.splits if_splits)

lemma tcp_rexmit_fast_frame:
  "rcv_view (tcp_rexmit_fast p) = rcv_view p" "rcv_ann_right_edge (tcp_rexmit_fast p) = rcv_ann_right_edge p"
  "snd_ok (tcp_rexmit_fast p) = snd_ok p"
proof -
  obtain e p' where r: "tcp_rexmit p = (e, p')" by (cases "tcp_rexmit p")
  note f = tcp_rexmit_frame [OF r]
  show "rcv_view (tcp_rexmit_fast p) = rcv_view p"
    using f(1) r by (cases e) (auto simp: tcp_rexmit_fast_def Let_def pcb_flag_defs rcv_view_def)
  show "rcv_ann_right_edge (tcp_rexmit_fast p) = rcv_ann_right_edge p"
    using f(2) r by (cases e) (auto simp: tcp_rexmit_fast_def Let_def pcb_flag_defs)
  show "snd_ok (tcp_rexmit_fast p) = snd_ok p"
    using f(3) r by (cases e) (auto simp: tcp_rexmit_fast_def Let_def pcb_flag_defs snd_ok_def)
qed

lemma ack_old_frame:
  "rcv_view (ack_old s e p) = rcv_view p" "rcv_ann_right_edge (ack_old s e p) = rcv_ann_right_edge p"
  "snd_ok (ack_old s e p) = snd_ok p"
  by (simp_all add: ack_old_def tcp_rexmit_fast_frame Let_def, simp_all add: rcv_view_def snd_ok_def)

lemma ack_congestion_frame:
  "rcv_view (ack_congestion a p) = rcv_view p" "rcv_ann_right_edge (ack_congestion a p) = rcv_ann_right_edge p"
  "unacked (ack_congestion a p) = unacked p" "unsent (ack_congestion a p) = unsent p"
  "snd_queuelen (ack_congestion a p) = snd_queuelen p" "snd_buf (ack_congestion a p) = snd_buf p"
  "lastack (ack_congestion a p) = lastack p"
  by (simp_all add: ack_congestion_def Let_def, simp_all add: rcv_view_def)

lemma ack_end_rto_frame:
  "rcv_view (ack_end_rto p) = rcv_view p" "rcv_ann_right_edge (ack_end_rto p) = rcv_ann_right_edge p"
  "unacked (ack_end_rto p) = unacked p" "unsent (ack_end_rto p) = unsent p"
  "snd_queuelen (ack_end_rto p) = snd_queuelen p" "snd_buf (ack_end_rto p) = snd_buf p"
  "lastack (ack_end_rto p) = lastack p"
  by (cases "unacked p"; cases "unsent p"; simp add: ack_end_rto_def tcp_clear_flags_def rcv_view_def)+

section \<open>An acknowledgement of new data\<close>

lemma ack_new_eq:
  assumes "snd_ok (pcb s)"
  defines "freed \<equiv> takeWhile (acked_by (ackno s)) (unacked (pcb s)) @ takeWhile (acked_by (ackno s)) (unsent (pcb s))"
  shows "\<exists>p. ack_new s = Some (s\<lparr>pcb := p, recv_acked := recv_acked s + bytes_of freed\<rparr>)
     \<and> unacked p = dropWhile (acked_by (ackno s)) (unacked (pcb s))
     \<and> unsent p = dropWhile (acked_by (ackno s)) (unsent (pcb s))
     \<and> snd_buf p = snd_buf (pcb s) + (recv_acked s + bytes_of freed)
     \<and> lastack p = ackno s \<and> snd_ok p \<and> rcv_view p = rcv_view (pcb s)
     \<and> rcv_ann_right_edge p = rcv_ann_right_edge (pcb s)"
proof -
  define p1 where "p1 = (let p = pcb s;
     p = (if has16 (pcb_flags p) TF_INFR
              then (tcp_clear_flags TF_INFR p)\<lparr>cwnd := ssthresh p, bytes_acked := 0\<rparr> else p);
     p = p\<lparr>nrtx := 0, rto := signed_drop_bit 3 (sa p) + sv p\<rparr>
     in ack_congestion (ucast (ackno s - lastack p)) (p\<lparr>dupacks := 0, lastack := ackno s\<rparr>))"
  have q1: "unacked p1 = unacked (pcb s)" "unsent p1 = unsent (pcb s)" "snd_queuelen p1 = snd_queuelen (pcb s)"
      "snd_buf p1 = snd_buf (pcb s)" "lastack p1 = ackno s" "rcv_view p1 = rcv_view (pcb s)"
      "rcv_ann_right_edge p1 = rcv_ann_right_edge (pcb s)"
    by (simp_all add: p1_def Let_def ack_congestion_frame tcp_clear_flags_def, simp_all add: rcv_view_def)
  let ?ua = "dropWhile (acked_by (ackno s)) (unacked (pcb s))"
  let ?us = "dropWhile (acked_by (ackno s)) (unsent (pcb s))"
  let ?b = "bytes_of (takeWhile (acked_by (ackno s)) (unacked (pcb s)))"
  obtain ql where f1: "tcp_free_acked_segments (ackno s) (unsent p1 \<noteq> []) (unacked p1) (snd_queuelen p1, recv_acked s)
        = Some (?ua, ql, recv_acked s + ?b)" "unat ql = pbuf_count ?ua + pbuf_count (unsent (pcb s))"
    using tcp_free_acked_segments_eq [of "snd_queuelen p1" "unacked p1" "pbuf_count (unsent p1)" "unsent p1 \<noteq> []" "ackno s" "recv_acked s",
        OF _ pbuf_count_nonempty] assms(1) by (auto simp: q1 snd_ok_def)
  obtain ql2 where f2: "tcp_free_acked_segments (ackno s) (?ua \<noteq> []) (unsent p1) (ql, recv_acked s + ?b)
        = Some (?us, ql2, recv_acked s + bytes_of freed)" "unat ql2 = pbuf_count ?us + pbuf_count ?ua"
    using tcp_free_acked_segments_eq [of ql "unsent p1" "pbuf_count ?ua" "?ua \<noteq> []" "ackno s" "recv_acked s + ?b",
        OF _ pbuf_count_nonempty] f1(2)
    by (auto simp: q1 freed_def bytes_of_def add.assoc)
  define p2 where "p2 = p1\<lparr>unacked := ?ua, unsent := ?us, snd_queuelen := ql2,
               rtime := (if ?ua = [] then -1 else 0), polltmr := 0,
               unsent_oversize := (if ?us = [] then 0 else unsent_oversize p1),
               snd_buf := snd_buf p1 + (recv_acked s + bytes_of freed)\<rparr>"
  have "ack_new s = Some (s\<lparr>pcb := ack_end_rto p2, recv_acked := recv_acked s + bytes_of freed\<rparr>)"
    unfolding ack_new_def Let_def p1_def [unfolded Let_def, symmetric] p2_def
    by (simp only: f1(1) f2(1) bind.bind_lunit prod.case)
  moreover have "snd_ok (ack_end_rto p2)" using f2(2) by (simp add: snd_ok_def ack_end_rto_frame p2_def)
  moreover have "rcv_view (ack_end_rto p2) = rcv_view (pcb s)"
    using q1(6) by (simp add: ack_end_rto_frame p2_def) (simp add: rcv_view_def)
  ultimately show ?thesis
    by (intro exI [of _ "ack_end_rto p2"]) (simp add: ack_end_rto_frame p2_def q1)
qed

section \<open>The acknowledgement part as a whole\<close>

text \<open>The variables of the segment in hand.\<close>

definition same_segment :: "tcp_in \<Rightarrow> tcp_in \<Rightarrow> bool" where
  "same_segment s s' \<longleftrightarrow> inseg s' = inseg s \<and> seqno s' = seqno s \<and> tcplen s' = tcplen s \<and> seg_mem s' = seg_mem s
     \<and> recv_data s' = recv_data s \<and> recv_flags s' = recv_flags s \<and> tflags s' = tflags s \<and> ackno s' = ackno s"

lemma send_ack_frame:
  "snd_ok (pcb (send_ack s)) = snd_ok (pcb s)" "rcv_view (pcb (send_ack s)) = rcv_view (pcb s)" "same_segment s (send_ack s)"
  by (auto simp: send_ack_def tcp_send_empty_ack_def tcp_output_alloc_header_def pcb_flag_defs snd_ok_def rcv_view_def
      same_segment_def split: prod.splits send_result.splits err_t.splits)

lemma receive_ack_ok:
  assumes ok: "snd_ok (pcb s)" and st: "rcv_state st n hi C (pcb s)"
  shows "\<exists>s'. receive_ack s = Some s' \<and> snd_ok (pcb s') \<and> rcv_state st n hi C (pcb s')
     \<and> rcv_view (pcb s') = rcv_view (pcb s) \<and> same_segment s s'"
proof -
  define s1 where "s1 = on_pcb (update_snd_wnd s) s"
  have s1: "snd_ok (pcb s1)" "rcv_view (pcb s1) = rcv_view (pcb s)" "same_segment s s1"
      "rcv_ann_right_edge (pcb s1) = rcv_ann_right_edge (pcb s)"
    using ok by (simp_all add: s1_def on_pcb_def update_snd_wnd_frame same_segment_def)
  then have st1: "rcv_state st n hi C (pcb s1)" using st rcv_state_view by blast
  let ?mid = "if TCP_SEQ_LEQ (ackno s1) (lastack (pcb s1))
      then Some (on_pcb (ack_old s1 (ucast (snd_wnd (pcb s)) + snd_wl2 (pcb s))) s1)
      else if TCP_SEQ_BETWEEN (ackno s1) (lastack (pcb s1) + 1) (snd_nxt (pcb s1)) then ack_new s1 else Some (send_ack s1)"
  have "\<exists>s2. ?mid = Some s2 \<and> snd_ok (pcb s2) \<and> rcv_state st n hi C (pcb s2)
     \<and> rcv_view (pcb s2) = rcv_view (pcb s1) \<and> same_segment s1 s2"
  proof -
    have old: "snd_ok (pcb (on_pcb (ack_old s1 e) s1)) \<and> rcv_state st n hi C (pcb (on_pcb (ack_old s1 e) s1))
        \<and> rcv_view (pcb (on_pcb (ack_old s1 e) s1)) = rcv_view (pcb s1) \<and> same_segment s1 (on_pcb (ack_old s1 e) s1)" for e
      using s1 st1 rcv_state_view [OF ack_old_frame(1,2)] by (simp add: on_pcb_def ack_old_frame same_segment_def)
    obtain p a where new: "ack_new s1 = Some (s1\<lparr>pcb := p, recv_acked := a\<rparr>)" "snd_ok p"
        "rcv_view p = rcv_view (pcb s1)" "rcv_ann_right_edge p = rcv_ann_right_edge (pcb s1)"
      using ack_new_eq [OF s1(1)] by auto
    have "rcv_state st n hi C p" using st1 rcv_state_view [OF new(3,4)] by simp
    then have new': "ack_new s1 = Some s2 \<Longrightarrow> snd_ok (pcb s2) \<and> rcv_state st n hi C (pcb s2)
        \<and> rcv_view (pcb s2) = rcv_view (pcb s1) \<and> same_segment s1 s2" for s2
      using new by (auto simp: same_segment_def)
    show ?thesis using old new(1) new' send_ack_frame [of s1] send_ack_ok(1) [OF st1] s1(1) by (auto split: if_splits)
  qed
  then obtain s2 where s2: "?mid = Some s2" "snd_ok (pcb s2)" "rcv_state st n hi C (pcb s2)"
      "rcv_view (pcb s2) = rcv_view (pcb s1)" "same_segment s1 s2" by blast
  let ?s3 = "on_pcb (rtt_estimate s2) s2"
  have "receive_ack s = Some ?s3"
    unfolding receive_ack_def Let_def s1_def [symmetric] s2(1) by (simp only: bind.bind_lunit)
  moreover have "snd_ok (pcb ?s3)" "rcv_view (pcb ?s3) = rcv_view (pcb s)"
    using s2 s1 by (simp_all add: on_pcb_def rtt_estimate_frame)
  moreover have "rcv_state st n hi C (pcb ?s3)"
    using s2(3) rcv_state_view [OF rtt_estimate_frame(1,2)] by (simp add: on_pcb_def)
  moreover have "same_segment s ?s3" using s1(3) s2(5) by (simp add: same_segment_def on_pcb_def)
  ultimately show ?thesis by blast
qed

end
