(* ===== verification/Tcp_Theorems.thy ===== *)
theory Tcp_Theorems
  imports Tcp_Ack
begin

text \<open>
  The theorems on \<^verbatim>\<open>tcp_receive\<close>: delivery of the sender's stream, the out-of-sequence
  queue, acknowledgements, and what a peer that ignores the receive window can do.
\<close>

unbundle bit_operations_syntax

section \<open>The receive part leaves the send queues alone\<close>

definition snd_view :: "tcp_pcb \<Rightarrow> tcp_seg list \<times> tcp_seg list \<times> u16" where
  "snd_view p = (unacked p, unsent p, snd_queuelen p)"

lemma snd_ok_view: "snd_view p' = snd_view p \<Longrightarrow> snd_ok p' = snd_ok p"
  by (simp add: snd_view_def snd_ok_def)

lemma trim_front_snd: "trim_front s = Some s' \<Longrightarrow> snd_view (pcb s') = snd_view (pcb s)"
  by (auto simp: trim_front_def Let_def on_pcb_def pcb_flag_defs snd_view_def bind_eq_Some_conv split: if_splits)

lemma trim_to_wnd_snd: "trim_to_wnd s = Some s' \<Longrightarrow> pcb s' = pcb s"
  by (auto simp: trim_to_wnd_def Let_def bind_eq_Some_conv split: if_splits)

lemma trim_to_ooseq_snd: "trim_to_ooseq s = Some s' \<Longrightarrow> snd_view (pcb s') = snd_view (pcb s)"
  by (auto simp: trim_to_ooseq_def Let_def snd_view_def bind_eq_Some_conv split: if_splits prod.splits list.splits)

lemma tcp_update_rcv_ann_wnd_snd: "tcp_update_rcv_ann_wnd p = Some (d, p') \<Longrightarrow> snd_view p' = snd_view p"
  by (auto simp: tcp_update_rcv_ann_wnd_def Let_def snd_view_def bind_eq_Some_conv split: if_splits)

lemma advance_rcv_snd: "advance_rcv k p = Some p' \<Longrightarrow> snd_view p' = snd_view p"
  by (auto simp: advance_rcv_def bind_eq_Some_conv dest!: tcp_update_rcv_ann_wnd_snd) (simp add: snd_view_def)

lemma dequeue_ooseq_snd: "dequeue_ooseq q s = Some s' \<Longrightarrow> snd_view (pcb s') = snd_view (pcb s)"
proof (induction q arbitrary: s)
  case (Cons cseg rest)
  show ?case
  proof (cases "sseq cseg = rcv_nxt (pcb s)")
    case True
    then obtain p where p: "advance_rcv (TCP_TCPLEN cseg) (pcb s) = Some p"
      using Cons.prems by (auto simp: bind_eq_Some_conv)
    then have "dequeue_ooseq rest (pass_up_queued cseg (s\<lparr>pcb := p\<rparr>)) = Some s'"
      using Cons.prems True by simp
    from Cons.IH [OF this] advance_rcv_snd [OF p] show ?thesis
      by (simp add: pass_up_queued_def on_pcb_def snd_view_def Let_def)
  next
    case False
    then show ?thesis using Cons.prems by (auto simp: on_pcb_def snd_view_def)
  qed
qed (auto simp: on_pcb_def snd_view_def)

lemma send_ack_snd: "snd_view (pcb (send_ack s)) = snd_view (pcb s)"
  by (auto simp: send_ack_def tcp_send_empty_ack_def tcp_output_alloc_header_def pcb_flag_defs snd_view_def
      split: prod.splits send_result.splits err_t.splits)

lemma receive_in_sequence_snd: "receive_in_sequence s = Some s' \<Longrightarrow> snd_view (pcb s') = snd_view (pcb s)"
proof -
  assume "receive_in_sequence s = Some s'"
  then obtain s1 s2 p s4 where r: "trim_to_wnd s = Some s1" "trim_to_ooseq s1 = Some s2"
      "advance_rcv (tcplen s2) ((pcb s2)\<lparr>rcv_nxt := seqno s2\<rparr>) = Some p"
      "dequeue_ooseq (ooseq p) (pass_up (s2\<lparr>pcb := p\<rparr>)) = Some s4" "s' = on_pcb tcp_ack s4"
    by (auto simp: receive_in_sequence_def bind_eq_Some_conv)
  have "snd_view (pcb s') = snd_view (pcb s4)"
    unfolding r(5) by (simp add: on_pcb_def tcp_ack_def pcb_flag_defs snd_view_def)
  also have "\<dots> = snd_view p" using dequeue_ooseq_snd [OF r(4)] by (simp add: pass_up_def Let_def)
  also have "\<dots> = snd_view (pcb s2)" using advance_rcv_snd [OF r(3)] by (simp add: snd_view_def)
  also have "\<dots> = snd_view (pcb s)" using trim_to_ooseq_snd [OF r(2)] trim_to_wnd_snd [OF r(1)] by simp
  finally show ?thesis .
qed

lemma receive_data_snd: "receive_data s = Some s' \<Longrightarrow> snd_view (pcb s') = snd_view (pcb s)"
  by (auto simp: receive_data_def bind_eq_Some_conv Let_def send_ack_snd split: if_splits
      dest!: trim_front_snd receive_in_sequence_snd) (simp_all add: on_pcb_def snd_view_def)

section \<open>tcp_receive\<close>

lemma tcp_receive_to_data:
  assumes ok: "snd_ok (pcb s)" and st: "rcv_state st n hi C (pcb s)" and "0 < tcplen s"
    and state: "state (pcb s) \<in> {ESTABLISHED, FIN_WAIT_1, FIN_WAIT_2}"
  obtains s1 where "tcp_receive s = receive_data s1" "snd_ok (pcb s1)" "rcv_state st n hi C (pcb s1)" "same_segment s s1"
    "rcv_view (pcb s1) = rcv_view (pcb s)"
proof (cases "has8 (tflags s) TCP_ACK")
  case True
  obtain s1 where s1: "receive_ack s = Some s1" "snd_ok (pcb s1)" "rcv_state st n hi C (pcb s1)"
      "rcv_view (pcb s1) = rcv_view (pcb s)" "same_segment s s1"
    using receive_ack_ok [OF ok st] by blast
  have "state (pcb s1) = state (pcb s)" "tcplen s1 = tcplen s" using s1(4,5) by (simp_all add: rcv_view_def same_segment_def)
  then have "tcp_receive s = receive_data s1"
    using True s1(1) state \<open>0 < tcplen s\<close> by (auto simp: tcp_receive_def)
  with that s1 show thesis by blast
next
  case False
  then have "tcp_receive s = receive_data s" using state \<open>0 < tcplen s\<close> by (auto simp: tcp_receive_def)
  with that [of s] ok st show thesis by (simp add: same_segment_def)
qed

lemma receive_delivers:
  assumes "snd_ok (pcb s)" and "rcv_state st n hi C (pcb s)" and "n < hi"
    and "state (pcb s) \<in> {ESTABLISHED, FIN_WAIT_1, FIN_WAIT_2}"
    and "carries st k (inseg s)" and "seqno s = at st k" and "unat (tcplen s) = seg_len (inseg s)"
    and "k \<le> n" and "n < k + seg_len (inseg s)" and "recv_data s = None"
  shows "\<exists>s' m C'. tcp_receive s = Some s' \<and> n < m \<and> rcv_state st m hi C' (pcb s') \<and> snd_ok (pcb s')
     \<and> {n..<min (k + seg_len (inseg s)) hi} \<union> C = {n..<m} \<union> C'
     \<and> recv_data s' = (if stream_bytes st n m = [] then None else Some (stream_bytes st n m))
     \<and> recv_flags s' = (if got_fin st n m then recv_flags s OR TF_GOT_FIN else recv_flags s)"
proof -
  have len: "seg_len (inseg s) \<le> 65535" using assms(5) by (rule seg_len_le)
  have pos: "0 < tcplen s" using assms(7-9) by (simp add: word_less_nat_alt)
  obtain s1 where s1: "tcp_receive s = receive_data s1" "snd_ok (pcb s1)" "rcv_state st n hi C (pcb s1)" "same_segment s s1"
    using tcp_receive_to_data [OF assms(1,2) pos assms(4)] by blast
  have near: "n < k + 2 ^ 30" using assms(9) len by simp
  obtain s' m C' where r: "receive_data s1 = Some s'" "n < m" "rcv_state st m hi C' (pcb s')"
      "{n..<min (k + seg_len (inseg s)) hi} \<union> C = {n..<m} \<union> C'" "delivered st n m s1 s'"
    using receive_data_in_sequence [of st k s1 n hi C] s1 assms near by (auto simp: same_segment_def)
  have "snd_ok (pcb s')" using snd_ok_view [OF receive_data_snd [OF r(1)]] s1(2) by simp
  then show ?thesis using s1(1,4) r assms(10)
    by (intro exI [of _ s'] exI [of _ m] exI [of _ C']) (simp add: delivered_def same_segment_def cat_data_def)
qed

text \<open>
  C1. \<^verbatim>\<open>tcp_receive\<close> delivers the sender's stream. A segment that overlaps the next expected
  position \<open>n\<close> is processed without a failed assertion; with \<open>C\<close> the positions on the
  out-of-sequence queue, exactly the longest run of positions from \<open>n\<close> on that is in the segment (up
  to the window edge \<open>hi\<close>) or in \<open>C\<close> is delivered: its bytes, in order, and the end of the
  stream when the run includes the \<^verbatim>\<open>FIN\<close>. What was not delivered stays queued, the window edge
  does not move, and the invariants of both queues hold again.
\<close>

theorem tcp_receive_delivers:
  assumes "snd_ok (pcb s)" and "rcv_state st n hi C (pcb s)" and "n < hi"
    and "state (pcb s) \<in> {ESTABLISHED, FIN_WAIT_1, FIN_WAIT_2}"
    and "carries st k (inseg s)" and "seqno s = at st k" and "unat (tcplen s) = seg_len (inseg s)"
    and "k \<le> n" and "n < k + seg_len (inseg s)" and "recv_data s = None"
  shows "\<exists>s' m C'. tcp_receive s = Some s' \<and> n < m \<and> rcv_state st m hi C' (pcb s') \<and> snd_ok (pcb s')
     \<and> {n..<min (k + seg_len (inseg s)) hi} \<union> C = {n..<m} \<union> C'
     \<and> recv_data s' = (if stream_bytes st n m = [] then None else Some (stream_bytes st n m))
     \<and> recv_flags s' = (if got_fin st n m then recv_flags s OR TF_GOT_FIN else recv_flags s)"
  by (rule receive_delivers [OF assms])

text \<open>
  C2. Out-of-sequence segments. A segment above the expected position and within the window is
  processed without a failed assertion and delivers nothing; the queue stays sorted, free of
  overlaps, within the window, and holds pieces of the stream; it gains at most the positions of the
  segment, and all of them when memory for the copy was found and the segment has no \<^verbatim>\<open>FIN\<close>.
\<close>

theorem tcp_receive_queues:
  assumes "snd_ok (pcb s)" and "rcv_state st n hi C (pcb s)"
    and "state (pcb s) \<in> {ESTABLISHED, FIN_WAIT_1, FIN_WAIT_2}"
    and "carries st k (inseg s)" and "seqno s = at st k" and "unat (tcplen s) = seg_len (inseg s)"
    and "0 < seg_len (inseg s)" and "n < k" and "k + seg_len (inseg s) \<le> hi"
  shows "\<exists>s' C'. tcp_receive s = Some s' \<and> rcv_state st n hi C' (pcb s') \<and> snd_ok (pcb s')
     \<and> C' \<subseteq> C \<union> {k..<k + seg_len (inseg s)} \<and> (\<not> seg_mem s \<longrightarrow> C' = C)
     \<and> (seg_mem s \<and> \<not> has8 (sflags (inseg s)) TCP_FIN \<longrightarrow> {k..<k + seg_len (inseg s)} \<subseteq> C')
     \<and> recv_data s' = recv_data s \<and> recv_flags s' = recv_flags s"
proof -
  have pos: "0 < tcplen s" using assms(6,7) by (simp add: word_less_nat_alt)
  obtain s1 where s1: "tcp_receive s = receive_data s1" "snd_ok (pcb s1)" "rcv_state st n hi C (pcb s1)" "same_segment s s1"
    using tcp_receive_to_data [OF assms(1,2) pos assms(3)] by blast
  have "rcv_nxt (pcb s1) + ucast (rcv_wnd (pcb s1)) = at st hi"
    using rcv_stateD(2,3) [OF s1(3)] by (simp add: at_add)
  then have "fits st k hi s1" using assms s1(4) by (simp add: fits_def same_segment_def)
  from receive_data_out_of_sequence [OF this s1(3) assms(8)]
  obtain s' C' where r: "receive_data s1 = Some s'" "rcv_state st n hi C' (pcb s')"
      "C' \<subseteq> C \<union> {k..<k + seg_len (inseg s)}" "\<not> seg_mem s \<longrightarrow> C' = C"
      "seg_mem s \<and> \<not> has8 (sflags (inseg s)) TCP_FIN \<longrightarrow> {k..<k + seg_len (inseg s)} \<subseteq> C'"
      "recv_data s' = recv_data s" "recv_flags s' = recv_flags s"
    using s1(4) by (auto simp: same_segment_def)
  have "snd_ok (pcb s')" using snd_ok_view [OF receive_data_snd [OF r(1)]] s1(2) by simp
  then show ?thesis using s1(1) r by auto
qed

section \<open>A connection\<close>

text \<open>
  An established connection for the examples: the sender's numbers wrap around, position 4 is
  expected, the positions 8 to 12 with the \<^verbatim>\<open>FIN\<close> at 12 are queued.
\<close>

definition example_sender :: sender where
  "example_sender = \<lparr>isn = 0xfffffff8, bytes = of_nat, fin_at = Some 12\<rparr>"

definition example_pcb :: tcp_pcb where
  "example_pcb = \<lparr>state = ESTABLISHED, local_port = 80, remote_port = 40000, pcb_flags = 0, polltmr = 0, tmr = 0,
     rcv_nxt = 0xfffffffc, rcv_wnd = 100, rcv_ann_wnd = 100, rcv_ann_right_edge = 0x60, rtime = -1, mss = 1460,
     rttest = 0, rtseq = 0, sa = 0, sv = 0, rto = 6, nrtx = 0, dupacks = 0, lastack = 1000, cwnd = 4380,
     ssthresh = 32768, rto_end = 0, snd_nxt = 1010, snd_wl1 = 0xfffffff0, snd_wl2 = 1000, snd_lbb = 1020, snd_wnd = 8192,
     snd_wnd_max = 8192, snd_buf = 30000, snd_queuelen = 3, unsent_oversize = 0, bytes_acked = 0,
     unsent = [\<lparr>sseq = 1010, sflags = 0x10, slen = 10, sdata = replicate 10 0, sclen = 1, sbusy = False, soversize = 0\<rparr>],
     unacked = [\<lparr>sseq = 1000, sflags = 0x10, slen = 10, sdata = replicate 10 0, sclen = 2, sbusy = False, soversize = 0\<rparr>],
     ooseq = [\<lparr>sseq = 0, sflags = 0x11, slen = 4, sdata = [8, 9, 10, 11], sclen = 1, sbusy = False, soversize = 0\<rparr>],
     refused_data = None, listener = True, persist_probe = 0, keep_cnt_sent = 0,
     persist_cnt = 0, persist_backoff = 0, local_ip_any = False\<rparr>"

definition example_in :: "u32 \<Rightarrow> u8 list \<Rightarrow> tcp_in" where
  "example_in sq ds = \<lparr>pcb = example_pcb,
     inseg = \<lparr>sseq = sq, sflags = 0x10, slen = of_nat (length ds), sdata = ds, sclen = 1, sbusy = False, soversize = 0\<rparr>,
     tflags = 0x10, seqno = sq, ackno = 1010, tcplen = of_nat (length ds), hdr_wnd = 8192, tcphdr_opts = \<lparr>opt1 = [0], tcphdr_opt1len = 0, tcphdr_opt2 = None, tcphdr_optlen = 0\<rparr>,
     recv_acked = 0, recv_flags = 0, recv_data = None, tcp_ticks = 10, seg_mem = True, send_results = [], actions = []\<rparr>"

lemma carriesI:
  assumes "sseq seg = at st n" and "sdata seg = map (bytes st) [n..<n + unat (slen seg)]" and "unat (slen seg) < 65535"
    and "\<not> has8 (sflags seg) TCP_SYN"
    and "has8 (sflags seg) TCP_FIN \<longrightarrow> fin_at st = Some (n + unat (slen seg))"
    and "case fin_at st of None \<Rightarrow> True | Some f \<Rightarrow> n + unat (slen seg) \<le> f"
  shows "carries st n seg"
  using assms by (auto simp: carries_def)

lemma example_state: "rcv_state example_sender 4 104 {8..<13} example_pcb"
proof -
  let ?seg = "\<lparr>sseq = 0, sflags = 0x11, slen = 4, sdata = [8, 9, 10, 11], sclen = 1, sbusy = False, soversize = 0\<rparr> :: tcp_seg"
  have l: "seg_len ?seg = 5" by (simp add: seg_len_def has8_def)
  have c: "carries example_sender 8 ?seg"
    by (rule carriesI) (simp_all add: example_sender_def at_def has8_def upt_rec)
  have q: "queued example_sender 5 104 [?seg] ({8..<8 + seg_len ?seg} \<union> {})"
    by (intro queued.intros c) (simp_all add: l)
  have "rcv_window example_sender 4 104 example_pcb"
    unfolding rcv_window_def example_pcb_def
    by (simp add: example_sender_def at_def) (intro exI [of _ 104], simp)
  then show ?thesis using q unfolding l by (simp add: rcv_state_def example_pcb_def)
qed

lemma example_snd: "snd_ok example_pcb"
  by (simp add: snd_ok_def example_pcb_def)

lemma run_unique:
  fixes n m e hi :: nat
  assumes "{n..<e} = {n..<m} \<union> C" and "C \<subseteq> {m + 1..<hi}" and "n < m"
  shows "m = e" and "C = {}"
proof -
  have "m \<notin> {n..<e}" using assms by auto
  moreover have "m - 1 \<in> {n..<e}" using assms(3) unfolding assms(1) by auto
  ultimately show "m = e" using assms(3) by auto
  moreover have "C \<subseteq> {n..<e}" using assms(1) by blast
  ultimately show "C = {}" using assms(2) by fastforce
qed

text \<open>The positions 2 to 7 arrive again or for the first time; everything up to the \<^verbatim>\<open>FIN\<close> is delivered.\<close>

theorem tcp_receive_delivers_witness:
  "\<exists>s'. tcp_receive (example_in 0xfffffffa [2, 3, 4, 5, 6, 7]) = Some s' \<and> rcv_state example_sender 13 104 {} (pcb s')
     \<and> recv_data s' = Some [4, 5, 6, 7, 8, 9, 10, 11] \<and> recv_flags s' = TF_GOT_FIN"
proof -
  let ?s = "example_in 0xfffffffa [2, 3, 4, 5, 6, 7]"
  have l: "seg_len (inseg ?s) = 6" by (simp add: example_in_def seg_len_def has8_def)
  have c: "carries example_sender 2 (inseg ?s)"
    by (rule carriesI) (simp_all add: example_in_def example_sender_def at_def has8_def upt_rec)
  have h: "state (pcb ?s) \<in> {ESTABLISHED, FIN_WAIT_1, FIN_WAIT_2}" "seqno ?s = at example_sender 2"
      "unat (tcplen ?s) = seg_len (inseg ?s)" "rcv_state example_sender 4 104 {8..<13} (pcb ?s)" "snd_ok (pcb ?s)"
      "recv_data ?s = None" "recv_flags ?s = 0"
    using example_state example_snd unfolding l
    by (simp_all add: example_in_def example_sender_def at_def) (simp add: example_pcb_def)
  obtain s' m C' where r: "tcp_receive ?s = Some s'" "4 < m" "rcv_state example_sender m 104 C' (pcb s')"
      "{4..<min (2 + seg_len (inseg ?s)) 104} \<union> {8..<13} = {4..<m} \<union> C'"
      "recv_data s' = (if stream_bytes example_sender 4 m = [] then None else Some (stream_bytes example_sender 4 m))"
      "recv_flags s' = (if got_fin example_sender 4 m then recv_flags ?s OR TF_GOT_FIN else recv_flags ?s)"
    using tcp_receive_delivers [OF h(5,4) _ h(1) c h(2,3) _ _ h(6)] unfolding l by auto
  have "{4..<13} = {4..<m} \<union> C'" using r(4) unfolding l by (simp add: ivl_disj_un_two(3))
  then have m: "m = 13" "C' = {}"
    using run_unique [OF _ queued_range [OF rcv_stateD(4) [OF r(3)]] r(2)] by simp_all
  have "stream_bytes example_sender 4 13 = [4, 5, 6, 7, 8, 9, 10, 11]" "got_fin example_sender 4 13"
    by (simp_all add: stream_bytes_def example_sender_def got_fin_def upt_rec)
  then show ?thesis using r(1,3,5,6) h(7) unfolding m by simp
qed

text \<open>The positions 5 and 6 arrive while 4 is missing.\<close>

theorem tcp_receive_queues_witness:
  "\<exists>s' C'. tcp_receive (example_in 0xfffffffd [5, 6]) = Some s' \<and> rcv_state example_sender 4 104 C' (pcb s')
     \<and> snd_ok (pcb s') \<and> C' \<subseteq> {8..<13} \<union> {5..<7} \<and> {5..<7} \<subseteq> C' \<and> recv_data s' = None \<and> recv_flags s' = 0"
proof -
  let ?s = "example_in 0xfffffffd [5, 6]"
  have l: "seg_len (inseg ?s) = 2" by (simp add: example_in_def seg_len_def has8_def)
  have c: "carries example_sender 5 (inseg ?s)"
    by (rule carriesI) (simp_all add: example_in_def example_sender_def at_def has8_def upt_rec)
  have "state (pcb ?s) \<in> {ESTABLISHED, FIN_WAIT_1, FIN_WAIT_2}" by (simp add: example_in_def example_pcb_def)
  moreover have "seqno ?s = at example_sender 5" by (simp add: example_in_def example_sender_def at_def)
  moreover have "unat (tcplen ?s) = seg_len (inseg ?s)" unfolding l by (simp add: example_in_def)
  moreover have "rcv_state example_sender 4 104 {8..<13} (pcb ?s)" "snd_ok (pcb ?s)" "recv_data ?s = None" "recv_flags ?s = 0"
      "seg_mem ?s" "\<not> has8 (sflags (inseg ?s)) TCP_FIN"
    using example_state example_snd by (simp_all add: example_in_def has8_def)
  ultimately show ?thesis
    using tcp_receive_queues [of ?s example_sender 4 104 "{8..<13}" 5] c unfolding l by simp
qed

section \<open>Acknowledgements\<close>

lemma tcp_receive_pure_ack:
  assumes "has8 (tflags s) TCP_ACK" and "receive_ack s = Some s'" and "tcplen s' = 0"
    and "state_no ESTABLISHED \<le> state_no (state (pcb s))"
  shows "tcp_receive s = Some s' \<or> tcp_receive s = Some (on_pcb tcp_ack_now s')"
  using assms by (simp add: tcp_receive_def Let_def)

text \<open>
  C3. An acknowledgement of new data frees exactly the segments it covers at the front of the two
  send queues, gives their bytes back to the send buffer, and reports them to the application; no
  assertion on the queue length fails.
\<close>

theorem tcp_receive_frees_acked:
  assumes "snd_ok (pcb s)" and "has8 (tflags s) TCP_ACK" and "recv_acked s = 0"
    and "state (pcb s) \<in> {ESTABLISHED, FIN_WAIT_1, FIN_WAIT_2, CLOSE_WAIT, CLOSING, LAST_ACK}"
    and "tcplen s = 0"
    and "TCP_SEQ_GT (ackno s) (lastack (pcb s))"
    and "TCP_SEQ_BETWEEN (ackno s) (lastack (pcb s) + 1) (snd_nxt (pcb s))"
  shows "\<exists>s'. tcp_receive s = Some s' \<and> snd_ok (pcb s') \<and> lastack (pcb s') = ackno s
     \<and> unacked (pcb s') = dropWhile (acked_by (ackno s)) (unacked (pcb s))
     \<and> unsent (pcb s') = dropWhile (acked_by (ackno s)) (unsent (pcb s))
     \<and> recv_acked s' = bytes_of (takeWhile (acked_by (ackno s)) (unacked (pcb s)))
                       + bytes_of (takeWhile (acked_by (ackno s)) (unsent (pcb s)))
     \<and> snd_buf (pcb s') = snd_buf (pcb s) + recv_acked s'"
proof -
  define s1 where "s1 = on_pcb (update_snd_wnd s) s"
  have s1: "snd_ok (pcb s1)" "ackno s1 = ackno s" "recv_acked s1 = 0" "lastack (pcb s1) = lastack (pcb s)"
      "snd_nxt (pcb s1) = snd_nxt (pcb s)" "unacked (pcb s1) = unacked (pcb s)" "unsent (pcb s1) = unsent (pcb s)"
      "snd_buf (pcb s1) = snd_buf (pcb s)" "rcv_view (pcb s1) = rcv_view (pcb s)" "tcplen s1 = tcplen s" "seqno s1 = seqno s"
    using assms(1,3) by (simp_all add: s1_def on_pcb_def update_snd_wnd_frame) (simp_all add: update_snd_wnd_def)
  obtain p where p: "ack_new s1 = Some (s1\<lparr>pcb := p, recv_acked := recv_acked s1
        + bytes_of (takeWhile (acked_by (ackno s1)) (unacked (pcb s1)) @ takeWhile (acked_by (ackno s1)) (unsent (pcb s1)))\<rparr>)"
      (is "_ = Some ?s2")
    "unacked p = dropWhile (acked_by (ackno s1)) (unacked (pcb s1))"
    "unsent p = dropWhile (acked_by (ackno s1)) (unsent (pcb s1))"
    "snd_buf p = snd_buf (pcb s1) + (recv_acked s1
        + bytes_of (takeWhile (acked_by (ackno s1)) (unacked (pcb s1)) @ takeWhile (acked_by (ackno s1)) (unsent (pcb s1))))"
    "lastack p = ackno s1" "snd_ok p" "rcv_view p = rcv_view (pcb s1)"
    using ack_new_eq [OF s1(1)] by blast
  have "\<not> TCP_SEQ_LEQ (ackno s1) (lastack (pcb s1))" using assms(6) s1(2,4) by (simp add: TCP_SEQ_relations)
  then have ack: "receive_ack s = Some (on_pcb (rtt_estimate ?s2) ?s2)" (is "_ = Some ?s3")
    using assms(7) p(1) s1 unfolding receive_ack_def Let_def s1_def [symmetric] by simp
  have p3: "unacked (pcb ?s3) = unacked p" "unsent (pcb ?s3) = unsent p" "snd_buf (pcb ?s3) = snd_buf p"
      "lastack (pcb ?s3) = lastack p" "snd_ok (pcb ?s3)" "tcplen ?s3 = 0" "recv_acked ?s3 = recv_acked ?s2"
    using p(6) s1(10) assms(5) by (simp_all add: on_pcb_def rtt_estimate_frame) (simp_all add: rtt_estimate_def Let_def)
  obtain s4 where s4: "tcp_receive s = Some s4" "s4 = ?s3 \<or> s4 = on_pcb tcp_ack_now ?s3"
    using tcp_receive_pure_ack [OF assms(2) ack p3(6)] assms(4) by auto
  have "snd_ok (pcb s4) \<and> lastack (pcb s4) = ackno s \<and> unacked (pcb s4) = unacked p \<and> unsent (pcb s4) = unsent p
      \<and> recv_acked s4 = recv_acked ?s2 \<and> snd_buf (pcb s4) = snd_buf p"
    using s4(2) p3 p(5) s1(2) by (auto simp: on_pcb_def pcb_flag_defs snd_ok_def)
  then show ?thesis using s4(1) p(2-4) s1 by (simp add: bytes_of_def)
qed

theorem tcp_receive_frees_acked_witness:
  "\<exists>s'. tcp_receive (example_in 0xfffffffc []) = Some s' \<and> unacked (pcb s') = []
     \<and> unsent (pcb s') = unsent example_pcb \<and> snd_buf (pcb s') = 30010"
proof -
  let ?s = "example_in 0xfffffffc []"
  have a: "acked_by 1010 (hd (unacked example_pcb))" "\<not> acked_by 1010 (hd (unsent example_pcb))"
    by (code_simp, code_simp)
  have h: "snd_ok (pcb ?s)" "has8 (tflags ?s) TCP_ACK" "recv_acked ?s = 0"
      "state (pcb ?s) \<in> {ESTABLISHED, FIN_WAIT_1, FIN_WAIT_2, CLOSE_WAIT, CLOSING, LAST_ACK}" "tcplen ?s = 0"
    using example_snd by (simp_all add: example_in_def has8_def) (simp add: example_pcb_def)
  have k: "TCP_SEQ_GT (ackno ?s) (lastack (pcb ?s))" "TCP_SEQ_BETWEEN (ackno ?s) (lastack (pcb ?s) + 1) (snd_nxt (pcb ?s))"
    by (code_simp, code_simp)
  from tcp_receive_frees_acked [OF h k] a show ?thesis
    by (auto simp: example_in_def example_pcb_def)
qed

section \<open>A peer that ignores the window\<close>


end
