(* ===== verification/Tcp_Machine.thy ===== *)
theory Tcp_Machine
  imports Tcp_Process Tcp_Theorems
begin

text \<open>
  The state machine of \<^verbatim>\<open>tcp_process\<close>: which states follow which, resets, the handshake,
  and invariants of every run.
\<close>

unbundle bit_operations_syntax

section \<open>What tcp_receive does to the state\<close>

named_theorems state_frame \<open>operations that keep the state of the connection\<close>

lemma pcb_ops_state [state_frame]:
  "state (tcp_set_flags f p) = state p" "state (tcp_clear_flags f p) = state p" "state (tcp_ack_now p) = state p"
  "state (tcp_ack p) = state p" "state (ack_end_rto p) = state p" "state (ack_congestion a p) = state p"
  "state (update_snd_wnd s p) = state p" "state (rtt_estimate s p) = state p" "state (ack_old s e p) = state p"
  using ack_end_rto_frame(1) [of p] ack_congestion_frame(1) [of a p] update_snd_wnd_frame(1) [of s p]
    rtt_estimate_frame(1) [of s p] ack_old_frame(1) [of s e p]
  by (simp_all add: pcb_flag_defs tcp_ack_def rcv_view_def)

lemma send_ack_state [state_frame]: "state (pcb (send_ack s)) = state (pcb s)"
  using send_ack_frame(2) [of s] by (simp add: rcv_view_def)

lemma ack_new_state: "ack_new s = Some s' \<Longrightarrow> state (pcb s') = state (pcb s)"
  by (auto simp: ack_new_def Let_def bind_eq_Some_conv state_frame)

lemma receive_ack_state: "receive_ack s = Some s' \<Longrightarrow> state (pcb s') = state (pcb s)"
  by (auto simp: receive_ack_def Let_def bind_eq_Some_conv on_pcb_def state_frame split: if_splits dest!: ack_new_state)

lemma trim_front_state: "trim_front s = Some s' \<Longrightarrow> state (pcb s') = state (pcb s)"
  by (auto simp: trim_front_def Let_def on_pcb_def state_frame bind_eq_Some_conv split: if_splits)

lemma trim_to_ooseq_state: "trim_to_ooseq s = Some s' \<Longrightarrow> state (pcb s') = state (pcb s)"
  by (auto simp: trim_to_ooseq_def Let_def bind_eq_Some_conv split: if_splits prod.splits list.splits)

lemma advance_rcv_state: "advance_rcv k p = Some p' \<Longrightarrow> state p' = state p"
  by (auto simp: advance_rcv_def tcp_update_rcv_ann_wnd_def Let_def bind_eq_Some_conv split: if_splits)

text \<open>The state changes only from ESTABLISHED to CLOSE-WAIT, when a queued \<^verbatim>\<open>FIN\<close> comes in sequence.\<close>

definition recv_step :: "tcp_in \<Rightarrow> tcp_in \<Rightarrow> bool" where
  "recv_step s s' \<longleftrightarrow> state (pcb s') = state (pcb s)
     \<or> state (pcb s) = ESTABLISHED \<and> state (pcb s') = CLOSE_WAIT \<and> got_FIN s'"

lemma got_FIN_or: "has8 (f OR TF_GOT_FIN) TF_GOT_FIN"
proof -
  have "bit ((f OR TF_GOT_FIN) AND TF_GOT_FIN) 5" by (simp add: bit_simps)
  then show ?thesis unfolding has8_def by (rule contrapos_pn) simp
qed

lemma pass_up_queued_state:
  "recv_step s (pass_up_queued cseg s)" "got_FIN s \<Longrightarrow> got_FIN (pass_up_queued cseg s)"
  using got_FIN_or [of "recv_flags s"]
  by (auto simp: recv_step_def pass_up_queued_def on_pcb_def Let_def got_FIN_def)

lemma dequeue_ooseq_state:
  "dequeue_ooseq q s = Some s' \<Longrightarrow> recv_step s s' \<and> (got_FIN s \<longrightarrow> got_FIN s')"
proof (induction q arbitrary: s)
  case (Cons cseg rest)
  show ?case
  proof (cases "sseq cseg = rcv_nxt (pcb s)")
    case True
    then obtain p where p: "advance_rcv (TCP_TCPLEN cseg) (pcb s) = Some p"
        "dequeue_ooseq rest (pass_up_queued cseg (s\<lparr>pcb := p\<rparr>)) = Some s'"
      using Cons.prems by (auto simp: bind_eq_Some_conv)
    from Cons.IH [OF p(2)] advance_rcv_state [OF p(1)] pass_up_queued_state [where s = "s\<lparr>pcb := p\<rparr>" and cseg = cseg]
    show ?thesis by (auto simp: recv_step_def got_FIN_def)
  next
    case False
    then show ?thesis using Cons.prems by (auto simp: recv_step_def on_pcb_def got_FIN_def)
  qed
qed (auto simp: recv_step_def on_pcb_def got_FIN_def)

lemma receive_in_sequence_state: "receive_in_sequence s = Some s' \<Longrightarrow> recv_step s s'"
proof -
  assume "receive_in_sequence s = Some s'"
  then obtain s1 s2 p s4 where r: "trim_to_wnd s = Some s1" "trim_to_ooseq s1 = Some s2"
      "advance_rcv (tcplen s2) ((pcb s2)\<lparr>rcv_nxt := seqno s2\<rparr>) = Some p"
      "dequeue_ooseq (ooseq p) (pass_up (s2\<lparr>pcb := p\<rparr>)) = Some s4" "s' = on_pcb tcp_ack s4"
    by (auto simp: receive_in_sequence_def bind_eq_Some_conv)
  have "state (pcb (pass_up (s2\<lparr>pcb := p\<rparr>))) = state (pcb s)"
    using advance_rcv_state [OF r(3)] trim_to_ooseq_state [OF r(2)] trim_to_wnd_snd [OF r(1)]
    by (simp add: pass_up_def Let_def)
  then show ?thesis using dequeue_ooseq_state [OF r(4)] r(5) by (simp add: recv_step_def on_pcb_def state_frame got_FIN_def)
qed

lemma tcp_receive_state: "tcp_receive s = Some s' \<Longrightarrow> recv_step s s'"
proof -
  assume "tcp_receive s = Some s'"
  then obtain s1 where s1: "state (pcb s1) = state (pcb s)"
      "receive_data s1 = Some s' \<or> s' = on_pcb tcp_ack_now s1 \<or> s' = s1"
    by (auto simp: tcp_receive_def Let_def bind_eq_Some_conv dest!: receive_ack_state split: if_splits)
  moreover have "recv_step s1 s'" if r: "receive_data s1 = Some s'"
  proof -
    obtain s2 where s2: "trim_front s1 = Some s2"
      "receive_in_sequence s2 = Some s' \<or> (\<exists>q. s' = send_ack (on_pcb (\<lambda>p. p\<lparr>ooseq := q\<rparr>) s2)) \<or> s' = send_ack s2"
      using r by (auto simp: receive_data_def Let_def bind_eq_Some_conv split: if_splits)
    then show ?thesis using trim_front_state [OF s2(1)] receive_in_sequence_state [of s2 s']
      by (auto simp: recv_step_def on_pcb_def state_frame)
  qed
  ultimately show ?thesis by (auto simp: recv_step_def on_pcb_def state_frame)
qed

section \<open>Transitions\<close>

text \<open>The transitions of RFC 793 that the arrival of a segment can cause.\<close>

fun rfc793_step :: "tcp_state \<Rightarrow> tcp_state \<Rightarrow> bool" where
  "rfc793_step SYN_SENT t \<longleftrightarrow> t = ESTABLISHED"
| "rfc793_step SYN_RCVD t \<longleftrightarrow> t = ESTABLISHED \<or> t = CLOSE_WAIT"
| "rfc793_step ESTABLISHED t \<longleftrightarrow> t = CLOSE_WAIT"
| "rfc793_step FIN_WAIT_1 t \<longleftrightarrow> t = FIN_WAIT_2 \<or> t = CLOSING \<or> t = TIME_WAIT"
| "rfc793_step FIN_WAIT_2 t \<longleftrightarrow> t = TIME_WAIT"
| "rfc793_step CLOSING t \<longleftrightarrow> t = TIME_WAIT"
| "rfc793_step _ t \<longleftrightarrow> False"

text \<open>The application's callbacks do not close the connection while they are told of it.\<close>

definition callbacks_keep_state :: "tcp_env \<Rightarrow> bool" where
  "callbacks_keep_state env \<longleftrightarrow>
     (\<forall>p. state (snd (connected env p)) = state p) \<and> (\<forall>p. state (snd (accept env p)) = state p)"

lemma tcp_parseopt_state: "tcp_parseopt r p = Some p' \<Longrightarrow> state p' = state p"
  by (auto simp: tcp_parseopt_def)

lemma rexmit_state:
  "state (snd (tcp_rexmit p)) = state p" "state (tcp_rexmit_rto p) = state p"
proof -
  show "state (snd (tcp_rexmit p)) = state p"
    using tcp_rexmit_frame(1) [of p "fst (tcp_rexmit p)" "snd (tcp_rexmit p)"] by (simp add: rcv_view_def)
  show "state (tcp_rexmit_rto p) = state p"
    by (simp add: tcp_rexmit_rto_def tcp_rexmit_rto_prepare_def tcp_rexmit_rto_commit_def tcp_set_flags_def Let_def)
qed

lemma rst_segment_pcb [simp]: "pcb (rst_segment s) = pcb s"
  by (simp add: rst_segment_def tcp_rst_def Let_def)

lemma enter_time_wait_state [simp]: "state (pcb (enter_time_wait s)) = TIME_WAIT"
  by (simp add: enter_time_wait_def)

definition follows :: "tcp_in \<Rightarrow> tcp_in \<Rightarrow> bool" where
  "follows s s' \<longleftrightarrow> state (pcb s') = state (pcb s) \<or> rfc793_step (state (pcb s)) (state (pcb s'))"

lemma process_rst_follows: "process_rst s = Some (e, s') \<Longrightarrow> follows s s'"
  by (auto simp: process_rst_def Let_def bind_eq_Some_conv follows_def on_pcb_def state_frame split: if_splits)

lemma free_syn_state: "free_syn p = Some p' \<Longrightarrow> state p' = state p"
  by (auto simp: free_syn_def bind_eq_Some_conv split: list.splits)

lemma process_syn_sent_follows:
  assumes "process_syn_sent env s = Some (e, s')" and "state (pcb s) = SYN_SENT" and "callbacks_keep_state env"
  shows "follows s s'"
proof -
  have cb: "state p' = state p" if "connected env p = (err, p')" for p p' err
    using assms(3) that by (metis callbacks_keep_state_def snd_conv)
  show ?thesis using assms(1,2)
    by (auto simp: process_syn_sent_def Let_def bind_eq_Some_conv follows_def on_pcb_def state_frame rexmit_state
        split: if_splits prod.splits dest!: cb free_syn_state)
qed

lemma passive_close_state:
  "state (pcb (passive_close s)) = (if got_FIN s then CLOSE_WAIT else state (pcb s))"
  by (simp add: passive_close_def on_pcb_def)

lemma process_syn_rcvd_follows:
  assumes "process_syn_rcvd env s = Some (e, s')" and "e \<noteq> ERR_ABRT" and "state (pcb s) = SYN_RCVD"
    and "callbacks_keep_state env"
  shows "follows s s'"
proof -
  have cb: "state p' = state p" if "accept env p = (err, p')" for p p' err
    using assms(4) that by (metis callbacks_keep_state_def snd_conv)
  have rcv: "state (pcb s2) \<in> {ESTABLISHED, CLOSE_WAIT}"
    if "tcp_receive (s\<lparr>pcb := p\<rparr>) = Some s2" "state p = ESTABLISHED" for p s2
    using tcp_receive_state [OF that(1)] that(2) by (auto simp: recv_step_def)
  show ?thesis using assms(1-3)
    by (auto simp: process_syn_rcvd_def Let_def bind_eq_Some_conv follows_def passive_close_state got_FIN_def
        on_pcb_def rexmit_state split: if_splits prod.splits dest!: cb rcv)
qed

lemma receive_handlers_follow:
  "process_established s = Some (e, s') \<Longrightarrow> state (pcb s) \<in> {ESTABLISHED, CLOSE_WAIT} \<Longrightarrow> follows s s'"
  "process_fin_wait_1 s = Some (e, s') \<Longrightarrow> state (pcb s) = FIN_WAIT_1 \<Longrightarrow> follows s s'"
  "process_fin_wait_2 s = Some (e, s') \<Longrightarrow> state (pcb s) = FIN_WAIT_2 \<Longrightarrow> follows s s'"
  "process_closing s = Some (e, s') \<Longrightarrow> state (pcb s) = CLOSING \<Longrightarrow> follows s s'"
  "process_last_ack s = Some (e, s') \<Longrightarrow> state (pcb s) = LAST_ACK \<Longrightarrow> follows s s'"
  unfolding process_established_def process_fin_wait_1_def process_fin_wait_2_def process_closing_def process_last_ack_def
  by (auto simp: bind_eq_Some_conv follows_def recv_step_def passive_close_state on_pcb_def state_frame
      dest!: tcp_receive_state split: if_splits)

lemma process_state_follows:
  "process_state env s = Some (e, s') \<Longrightarrow> e \<noteq> ERR_ABRT \<Longrightarrow> callbacks_keep_state env \<Longrightarrow> follows s s'"
  by (cases "state (pcb s)")
    (simp_all add: process_state_def process_syn_sent_follows process_syn_rcvd_follows receive_handlers_follow,
     simp_all add: follows_def)

text \<open>A segment that is no reset and no stray \<^verbatim>\<open>SYN\<close> reaches the switch with the queues and the state as they were.\<close>

definition same_conn :: "tcp_pcb \<Rightarrow> tcp_pcb \<Rightarrow> bool" where
  "same_conn p p' \<longleftrightarrow> (\<exists>t m. p' = p\<lparr>tmr := t, keep_cnt_sent := 0, persist_probe := 0, mss := m\<rparr>)"

lemma tcp_process_elim:
  assumes "tcp_process env s = Some (e, s')"
  obtains (Rst) "has8 (tflags s) TCP_RST" "process_rst s = Some (e, s')"
    | (Ack) "e = ERR_OK" "s' = on_pcb tcp_ack_now s"
    | (Switch) p where "same_conn (pcb s) p" "process_state env (s\<lparr>pcb := p\<rparr>) = Some (e, s')"
proof -
  have p: "same_conn (pcb s) p'"
    if "tcp_parseopt r ((if b then pcb s else (pcb s)\<lparr>tmr := t\<rparr>)\<lparr>keep_cnt_sent := 0, persist_probe := 0\<rparr>) = Some p'" for r b t p'
  proof -
    have "p' = (pcb s)\<lparr>tmr := if b then tmr (pcb s) else t, keep_cnt_sent := 0, persist_probe := 0, mss := mss p'\<rparr>"
      using that by (cases b) (auto simp: tcp_parseopt_def)
    then show ?thesis unfolding same_conn_def by blast
  qed
  show thesis
  proof (cases "has8 (tflags s) TCP_RST \<or> (has8 (tflags s) TCP_SYN \<and> state (pcb s) \<noteq> SYN_SENT \<and> state (pcb s) \<noteq> SYN_RCVD)")
    case True
    then show ?thesis using assms that(1,2) by (auto simp: tcp_process_def split: if_splits)
  next
    case False
    then have "tcp_parseopt (tcphdr_opts s) ((if has16 (pcb_flags (pcb s)) TF_RXCLOSED then pcb s
          else (pcb s)\<lparr>tmr := tcp_ticks s\<rparr>)\<lparr>keep_cnt_sent := 0, persist_probe := 0\<rparr>)
        \<bind> (\<lambda>p. process_state env (s\<lparr>pcb := p\<rparr>)) = Some (e, s')"
      using assms unfolding tcp_process_def Let_def by auto
    then show ?thesis using that(3) p unfolding bind_eq_Some_conv by blast
  qed
qed

lemma tcp_process_follows:
  assumes "tcp_process env s = Some (e, s')" and "e \<noteq> ERR_ABRT" and "callbacks_keep_state env"
  shows "follows s s'"
  using assms(1)
proof (cases rule: tcp_process_elim)
  case (Switch p)
  then show ?thesis using process_state_follows [OF Switch(2) assms(2,3)] by (auto simp: follows_def same_conn_def)
qed (auto dest: process_rst_follows simp: follows_def on_pcb_def state_frame)

section \<open>Queues of a closed connection\<close>

text \<open>A connection in TIME-WAIT holds no data: nothing to send, nothing queued, nothing refused.\<close>

definition time_wait_idle :: "tcp_pcb \<Rightarrow> bool" where
  "time_wait_idle p \<longleftrightarrow> (state p = TIME_WAIT \<longrightarrow>
     unsent p = [] \<and> unacked p = [] \<and> ooseq p = [] \<and> refused_data p = None)"

lemma enter_time_wait_idle:
  "state (pcb s) \<notin> {CLOSED, LISTEN, TIME_WAIT} \<Longrightarrow> time_wait_idle (pcb (enter_time_wait s))"
  by (simp add: enter_time_wait_def time_wait_idle_def tcp_pcb_purge_def)

lemma receive_handlers_idle:
  "process_fin_wait_1 s = Some (e, s') \<Longrightarrow> state (pcb s) = FIN_WAIT_1 \<Longrightarrow> time_wait_idle (pcb s')"
  "process_fin_wait_2 s = Some (e, s') \<Longrightarrow> state (pcb s) = FIN_WAIT_2 \<Longrightarrow> time_wait_idle (pcb s')"
  "process_closing s = Some (e, s') \<Longrightarrow> state (pcb s) = CLOSING \<Longrightarrow> time_wait_idle (pcb s')"
  unfolding process_fin_wait_1_def process_fin_wait_2_def process_closing_def
  by (auto simp: bind_eq_Some_conv recv_step_def on_pcb_def state_frame intro!: enter_time_wait_idle
      dest!: tcp_receive_state split: if_splits) (simp_all add: time_wait_idle_def state_frame)

lemma tcp_process_idle:
  assumes "tcp_process env s = Some (e, s')" and "e \<noteq> ERR_ABRT" and "callbacks_keep_state env" and idle: "time_wait_idle (pcb s)"
  shows "time_wait_idle (pcb s')"
  using assms(1)
proof (cases rule: tcp_process_elim)
  case Rst
  then show ?thesis using idle
    by (auto simp: process_rst_def Let_def bind_eq_Some_conv on_pcb_def time_wait_idle_def pcb_flag_defs split: if_splits)
next
  case Ack
  then show ?thesis using idle by (simp add: on_pcb_def time_wait_idle_def pcb_flag_defs)
next
  case (Switch p)
  have f: "follows (s\<lparr>pcb := p\<rparr>) s'" by (rule process_state_follows [OF Switch(2) assms(2,3)])
  have "time_wait_idle p" using idle Switch(1) by (auto simp: time_wait_idle_def same_conn_def)
  with f Switch(2) show ?thesis
    by (cases "state p") (auto simp: process_state_def follows_def dest!: receive_handlers_idle, simp_all add: time_wait_idle_def)
qed

section \<open>Runs\<close>

text \<open>A connection through any number of segments that neither abort nor reset it.\<close>

inductive tcp_run :: "tcp_env \<Rightarrow> tcp_pcb \<Rightarrow> tcp_pcb \<Rightarrow> bool" for env where
  start: "tcp_run env p p"
| segment: "tcp_run env p (pcb s) \<Longrightarrow> tcp_process env s = Some (e, s') \<Longrightarrow> e \<notin> {ERR_ABRT, ERR_RST}
    \<Longrightarrow> tcp_run env p (pcb s')"

lemma tcp_run_invariant:
  assumes "tcp_run env p p'" and cb: "callbacks_keep_state env" and "time_wait_idle p"
  shows "time_wait_idle p' \<and> rfc793_step\<^sup>*\<^sup>* (state p) (state p')"
  using assms(1,3)
proof (induction rule: tcp_run.induct)
  case (segment p s e s')
  then have e: "e \<noteq> ERR_ABRT" by simp
  from segment have "time_wait_idle (pcb s')" using tcp_process_idle [OF segment(2) e cb] by simp
  moreover have "rfc793_step\<^sup>*\<^sup>* (state (pcb s)) (state (pcb s'))"
    using tcp_process_follows [OF segment(2) e cb] by (auto simp: follows_def)
  ultimately show ?case using segment by (auto intro: rtranclp_trans)
qed simp

section \<open>A segment for an established connection\<close>

lemma same_conn_views:
  assumes "same_conn p p'"
  shows "rcv_state st n hi C p' = rcv_state st n hi C p" and "snd_ok p' = snd_ok p" and "state p' = state p"
  using assms by (auto simp: same_conn_def rcv_state_def rcv_window_def snd_ok_def)

lemma tcp_process_switch:
  assumes "\<not> has8 (tflags s) TCP_RST" and "\<not> has8 (tflags s) TCP_SYN \<or> state (pcb s) \<in> {SYN_SENT, SYN_RCVD}"
    and "opts_ok (tcphdr_opts s)"
  obtains p where "same_conn (pcb s) p" "mss p = parse_mss (opt_bytes (tcphdr_opts s)) (mss (pcb s))"
    "tcp_process env s = process_state env (s\<lparr>pcb := p\<rparr>)"
proof -
  let ?m = "parse_mss (opt_bytes (tcphdr_opts s)) (mss (pcb s))"
  let ?t = "if has16 (pcb_flags (pcb s)) TF_RXCLOSED then tmr (pcb s) else tcp_ticks s"
  let ?p = "(pcb s)\<lparr>tmr := ?t, keep_cnt_sent := 0, persist_probe := 0, mss := ?m\<rparr>"
  have "tcp_process env s = process_state env (s\<lparr>pcb := ?p\<rparr>)"
    using assms(1,2) parseopt_loop_eq [OF assms(3), of 0 0]
    by (cases "has16 (pcb_flags (pcb s)) TF_RXCLOSED") (auto simp: tcp_process_def tcp_parseopt_def Let_def)
  then show thesis using that [of ?p] by (auto simp: same_conn_def)
qed

lemma passive_close_views:
  "rcv_state st n hi C (pcb (passive_close s)) = rcv_state st n hi C (pcb s)"
  "snd_ok (pcb (passive_close s)) = snd_ok (pcb s)"
  "recv_data (passive_close s) = recv_data s" "recv_flags (passive_close s) = recv_flags s"
  by (simp_all add: passive_close_def on_pcb_def rcv_state_def rcv_window_def snd_ok_def pcb_flag_defs)

section \<open>An active open\<close>

definition syn_acked :: "tcp_env \<Rightarrow> tcp_in \<Rightarrow> tcp_seg list \<Rightarrow> tcp_pcb \<Rightarrow> bool" where
  "syn_acked env s rest q \<longleftrightarrow> (let p = pcb s; m = tcp_eff_send_mss_netif (mss p) (dest_is_v6 env) (route_mtu env) in
     state q = ESTABLISHED \<and> rcv_nxt q = seqno s + 1 \<and> lastack q = ackno s \<and> snd_wnd q = hdr_wnd s
     \<and> unacked q = rest \<and> unsent q = unsent p \<and> snd_queuelen q = snd_queuelen p - 1
     \<and> mss q = m \<and> cwnd q = LWIP_TCP_CALC_INITIAL_CWND m)"

lemma process_syn_sent_acked:
  assumes "has8 (tflags s) TCP_ACK" and "has8 (tflags s) TCP_SYN" and "ackno s = lastack (pcb s) + 1"
    and "0 < snd_queuelen (pcb s)" and "unacked (pcb s) = syn # rest"
  obtains q where "syn_acked env s rest q"
    "fst (connected env q) \<noteq> ERR_ABRT \<Longrightarrow> process_syn_sent env s = Some (ERR_OK, s\<lparr>pcb := tcp_ack_now (snd (connected env q))\<rparr>)"
proof -
  let ?m = "tcp_eff_send_mss_netif (mss (pcb s)) (dest_is_v6 env) (route_mtu env)"
  let ?p = "(pcb s)\<lparr>rcv_nxt := seqno s + 1, rcv_ann_right_edge := seqno s + 1, lastack := ackno s,
                  snd_wnd := hdr_wnd s, snd_wnd_max := hdr_wnd s, snd_wl1 := seqno s - 1, state := ESTABLISHED,
                  mss := ?m, cwnd := LWIP_TCP_CALC_INITIAL_CWND ?m, snd_queuelen := snd_queuelen (pcb s) - 1, unacked := rest\<rparr>"
  let ?q = "if rest = [] then ?p\<lparr>rtime := -1\<rparr> else ?p\<lparr>rtime := 0, nrtx := 0\<rparr>"
  have "syn_acked env s rest ?q" by (simp add: syn_acked_def Let_def)
  moreover have "process_syn_sent env s = Some (ERR_OK, s\<lparr>pcb := tcp_ack_now (snd (connected env ?q))\<rparr>)"
    if "fst (connected env ?q) \<noteq> ERR_ABRT"
    using assms that by (cases rest) (simp_all add: process_syn_sent_def free_syn_def Let_def case_prod_unfold)
  ultimately show thesis by (rule that)
qed

lemma LWIP_TCP_CALC_INITIAL_CWND_bounds:
  "m \<le> TCP_MSS \<Longrightarrow> unat (LWIP_TCP_CALC_INITIAL_CWND m) = min (4 * unat m) (max (2 * unat m) 4380)"
  by (simp add: LWIP_TCP_CALC_INITIAL_CWND_def word_le_nat_alt unsigned_of_nat take_bit_nat_eq_self)

lemma tcp_eff_send_mss_netif_bounds:
  "tcp_eff_send_mss_netif m v6 mtu \<le> m"
  "mtu = Some l \<Longrightarrow> 60 < l \<Longrightarrow> tcp_eff_send_mss_netif m v6 mtu \<le> l - 40"
proof -
  show "tcp_eff_send_mss_netif m v6 mtu \<le> m"
    by (auto simp: tcp_eff_send_mss_netif_def Let_def split: option.splits)
  assume l: "mtu = Some l" "60 < l"
  have "l \<noteq> 0" "40 < l" "l - 60 \<le> l - 40"
    using l(2) by (auto simp: word_less_nat_alt word_le_nat_alt unat_sub_if')
  then show "tcp_eff_send_mss_netif m v6 mtu \<le> l - 40"
    using l by (auto simp: tcp_eff_send_mss_netif_def Let_def min_le_iff_disj)
qed

section \<open>Theorems\<close>

definition example_env :: tcp_env where
  "example_env = \<lparr>connected = Pair ERR_OK, accept = Pair ERR_OK, dest_is_v6 = False, route_mtu = Some 1400\<rparr>"

definition example_closing :: tcp_in where
  "example_closing = (example_in 0xfffffffc [4, 5, 6, 7])\<lparr>pcb := example_pcb\<lparr>state := FIN_WAIT_2\<rparr>\<rparr>"

lemma example_env_keeps: "callbacks_keep_state example_env"
  by (simp add: callbacks_keep_state_def example_env_def)

lemma example_closing_runs:
  obtains s' where "tcp_process example_env example_closing = Some (ERR_OK, s')" "state (pcb s') = TIME_WAIT"
proof -
  have "(case tcp_process example_env example_closing of
      Some (e, s') \<Rightarrow> e = ERR_OK \<and> state (pcb s') = TIME_WAIT | None \<Rightarrow> False)" by code_simp
  then show thesis using that by (auto split: option.splits)
qed

text \<open>
  C6. Whatever segment arrives, \<^verbatim>\<open>tcp_process\<close> takes the connection only along the transitions
  that RFC 793 gives for arriving segments, when the application's callbacks do not themselves change
  the state.
\<close>

theorem tcp_process_transitions:
  assumes "tcp_process env s = Some (e, s')" and "e \<noteq> ERR_ABRT" and "callbacks_keep_state env"
  shows "state (pcb s') = state (pcb s) \<or> rfc793_step (state (pcb s)) (state (pcb s'))"
  using tcp_process_follows [OF assms] by (simp add: follows_def)

theorem tcp_process_transitions_witness:
  "\<exists>s'. tcp_process example_env example_closing = Some (ERR_OK, s') \<and> state (pcb s') = TIME_WAIT
     \<and> (state (pcb s') = state (pcb example_closing) \<or> rfc793_step (state (pcb example_closing)) (state (pcb s')))"
proof -
  obtain s' where s': "tcp_process example_env example_closing = Some (ERR_OK, s')" "state (pcb s') = TIME_WAIT"
    by (rule example_closing_runs)
  show ?thesis using s' tcp_process_transitions [OF s'(1) _ example_env_keeps] by blast
qed



text \<open>
  C9. Resets are taken only with exactly the next expected sequence number (RFC 5961). A reset at
  another position \<open>k\<close> of the stream leaves the connection as it is; within the receive window it
  makes the stack answer with a challenge acknowledgement.
\<close>

theorem tcp_process_reset:
  assumes "rcv_state st n hi C (pcb s)" and "has8 (tflags s) TCP_RST" and "state (pcb s) \<notin> {SYN_SENT, CLOSED}"
    and "seqno s = at st k" and "k < n + 2 ^ 31" and "hi < k + 2 ^ 31"
  shows "tcp_process env s = Some (
     if k = n then (ERR_RST, s\<lparr>recv_flags := recv_flags s OR TF_RESET, pcb := tcp_clear_flags TF_ACK_DELAY (pcb s)\<rparr>)
     else if n < k \<and> k \<le> hi then (ERR_OK, s\<lparr>pcb := tcp_ack_now (pcb s)\<rparr>)
     else (ERR_OK, s))"
proof -
  have h: "rcv_nxt (pcb s) = at st n" "hi = n + unat (rcv_wnd (pcb s))" using rcv_stateD [OF assms(1)] by simp_all
  have "n \<le> hi" using h(2) by simp
  then have "TCP_SEQ_BETWEEN (seqno s) (rcv_nxt (pcb s)) (rcv_nxt (pcb s) + ucast (rcv_wnd (pcb s))) \<longleftrightarrow> n \<le> k \<and> k \<le> hi"
    using assms(4-6) unfolding TCP_SEQ_BETWEEN_def h(1) at_add h(2) [symmetric] by (simp add: at_compare)
  moreover have "seqno s = rcv_nxt (pcb s) \<longleftrightarrow> k = n" using assms(4-6) \<open>n \<le> hi\<close> h(1) at_eq [of k n st] by simp
  ultimately show ?thesis using assms(2,3) by (auto simp: tcp_process_def process_rst_def on_pcb_def Let_def)
qed

theorem tcp_process_reset_witness:
  "\<exists>s. recv_flags s = 0 \<and> tcp_process example_env s = Some (ERR_OK, s\<lparr>pcb := tcp_ack_now (pcb s)\<rparr>)"
proof -
  let ?s = "(example_in 0xfffffffd [])\<lparr>tflags := 4\<rparr>"
  have "rcv_state example_sender 4 104 {8..<13} (pcb ?s)" "has8 (tflags ?s) TCP_RST" "state (pcb ?s) \<notin> {SYN_SENT, CLOSED}"
      "seqno ?s = at example_sender 5" "recv_flags ?s = 0"
    using example_state by (simp_all add: example_in_def has8_def example_sender_def at_def, simp add: example_pcb_def)
  then show ?thesis using tcp_process_reset [of example_sender 4 104 "{8..<13}" ?s 5 example_env]
    by (intro exI [of _ ?s]) simp
qed

text \<open>
  A reset goes out with a window of 128 in its header, not the 32768 that \<^verbatim>\<open>TCP_WND\<close>
  gives: the window is converted to network order by \<^verbatim>\<open>tcp_rst\<close> and again where the header is
  written.
\<close>

theorem tcp_rst_window:
  "actions (tcp_rst sq ak lport rport (s\<lparr>send_results := []\<rparr>)) = actions s @ [Sent_Rst sq ak 128 lport rport] \<and> TCP_WND = 32768"
proof -
  have "lwip_htons (lwip_htons (lwip_htons TCP_WND)) = 128" by code_simp
  then show ?thesis by (simp add: tcp_rst_def next_result_def Let_def)
qed

text \<open>
  C5. A segment for an established connection that covers the next expected position is handled to
  the end: its options are parsed, the run of the stream that is now complete is delivered, and the
  connection goes to CLOSE-WAIT exactly when that run holds the end of the stream.
\<close>

theorem tcp_process_delivers:
  assumes "snd_ok (pcb s)" and "rcv_state st n hi C (pcb s)" and "n < hi" and "state (pcb s) = ESTABLISHED"
    and "carries st k (inseg s)" and "seqno s = at st k" and "unat (tcplen s) = seg_len (inseg s)"
    and "k \<le> n" and "n < k + seg_len (inseg s)" and "recv_data s = None" and "recv_flags s = 0"
    and "\<not> has8 (tflags s) TCP_RST" and "\<not> has8 (tflags s) TCP_SYN" and "opts_ok (tcphdr_opts s)"
  shows "\<exists>s' m C'. tcp_process env s = Some (ERR_OK, s') \<and> n < m \<and> rcv_state st m hi C' (pcb s') \<and> snd_ok (pcb s')
     \<and> {n..<min (k + seg_len (inseg s)) hi} \<union> C = {n..<m} \<union> C'
     \<and> recv_data s' = (if stream_bytes st n m = [] then None else Some (stream_bytes st n m))
     \<and> state (pcb s') = (if got_fin st n m then CLOSE_WAIT else ESTABLISHED)"
proof -
  obtain p where p: "same_conn (pcb s) p" "tcp_process env s = process_state env (s\<lparr>pcb := p\<rparr>)"
    using tcp_process_switch [of s] assms(12-14) by blast
  let ?s = "s\<lparr>pcb := p\<rparr>"
  have h: "snd_ok (pcb ?s)" "rcv_state st n hi C (pcb ?s)" "state (pcb ?s) = ESTABLISHED"
    using same_conn_views [OF p(1)] assms(1,2,4) by simp_all
  obtain s' m C' where r: "tcp_receive ?s = Some s'" "n < m" "rcv_state st m hi C' (pcb s')" "snd_ok (pcb s')"
      "{n..<min (k + seg_len (inseg s)) hi} \<union> C = {n..<m} \<union> C'"
      "recv_data s' = (if stream_bytes st n m = [] then None else Some (stream_bytes st n m))"
      "recv_flags s' = (if got_fin st n m then recv_flags s OR TF_GOT_FIN else recv_flags s)"
    using receive_delivers [of ?s st n hi C k] h assms(3,5-10) by auto
  have got: "got_FIN s' \<longleftrightarrow> got_fin st n m" using r(7) assms(11) by (simp add: got_FIN_def has8_def)
  have "state (pcb s') = ESTABLISHED \<or> got_FIN s'" using tcp_receive_state [OF r(1)] h(3) by (auto simp: recv_step_def)
  then have "state (pcb (passive_close s')) = (if got_fin st n m then CLOSE_WAIT else ESTABLISHED)"
    unfolding passive_close_state got by auto
  moreover have "tcp_process env s = Some (ERR_OK, passive_close s')"
    unfolding p(2) using h(3) r(1) by (simp add: process_state_def process_established_def)
  ultimately show ?thesis using r by (intro exI [of _ "passive_close s'"] exI [of _ m] exI [of _ C']) (simp add: passive_close_views)
qed

theorem tcp_process_delivers_witness:
  "\<exists>s' m. tcp_process example_env (example_in 0xfffffffc [4, 5, 6]) = Some (ERR_OK, s') \<and> 4 < m
     \<and> recv_data s' = Some (stream_bytes example_sender 4 m)
     \<and> state (pcb s') = (if got_fin example_sender 4 m then CLOSE_WAIT else ESTABLISHED)"
proof -
  let ?s = "example_in 0xfffffffc [4, 5, 6]"
  have l: "seg_len (inseg ?s) = 3" by (simp add: example_in_def seg_len_def has8_def)
  have c: "carries example_sender 4 (inseg ?s)"
    by (rule carriesI) (simp_all add: example_in_def example_sender_def at_def has8_def upt_rec)
  have h: "snd_ok (pcb ?s)" "rcv_state example_sender 4 104 {8..<13} (pcb ?s)" "state (pcb ?s) = ESTABLISHED"
      "seqno ?s = at example_sender 4" "unat (tcplen ?s) = seg_len (inseg ?s)" "recv_data ?s = None" "recv_flags ?s = 0"
      "\<not> has8 (tflags ?s) TCP_RST" "\<not> has8 (tflags ?s) TCP_SYN" "opts_ok (tcphdr_opts ?s)"
    using example_state example_snd unfolding l
    by (simp_all add: example_in_def example_sender_def at_def has8_def opts_ok_def) (simp add: example_pcb_def)
  have ne: "stream_bytes example_sender 4 m \<noteq> []" if "4 < m" for m
    using that by (auto simp: stream_bytes_def example_sender_def filter_empty_conv intro!: bexI [of _ 4])
  from tcp_process_delivers [OF h(1,2) _ h(3) c h(4,5) _ _ h(6-10), of example_env] ne show ?thesis
    unfolding l by fastforce
qed

text \<open>
  C8. The handshake of an active open. A \<^verbatim>\<open>SYN\<close> with an acknowledgement of our own \<^verbatim>\<open>SYN\<close>
  establishes the connection before the application is told: the peer's first number is taken, our
  \<^verbatim>\<open>SYN\<close> leaves the send queue, the segment size respects the peer's option, \<^verbatim>\<open>TCP_MSS\<close> and the
  route, the initial congestion window is that of RFC 3390 (the 16 bits do not overflow), and the
  acknowledgement is due.
\<close>

theorem tcp_process_handshake:
  assumes "state (pcb s) = SYN_SENT" and "\<not> has8 (tflags s) TCP_RST" and "has8 (tflags s) TCP_ACK" and "has8 (tflags s) TCP_SYN"
    and "ackno s = lastack (pcb s) + 1" and "opts_ok (tcphdr_opts s)" and "0 < mss (pcb s)" and "mss (pcb s) \<le> TCP_MSS"
    and "snd_ok (pcb s)" and "unacked (pcb s) = syn # rest" and "sclen syn = 1" and "\<And>p. fst (connected env p) \<noteq> ERR_ABRT"
  shows "\<exists>s' q. tcp_process env s = Some (ERR_OK, s') \<and> pcb s' = tcp_ack_now (snd (connected env q))
     \<and> state q = ESTABLISHED \<and> rcv_nxt q = seqno s + 1 \<and> lastack q = ackno s \<and> snd_wnd q = hdr_wnd s
     \<and> unacked q = rest \<and> unsent q = unsent (pcb s) \<and> snd_ok q
     \<and> mss q \<le> parse_mss (opt_bytes (tcphdr_opts s)) (mss (pcb s)) \<and> mss q \<le> TCP_MSS
     \<and> (\<forall>m. route_mtu env = Some m \<and> 60 < m \<longrightarrow> mss q \<le> m - 40)
     \<and> unat (cwnd q) = min (4 * unat (mss q)) (max (2 * unat (mss q)) 4380)"
proof -
  let ?m = "parse_mss (opt_bytes (tcphdr_opts s)) (mss (pcb s))"
  obtain p where p: "same_conn (pcb s) p" "mss p = ?m" "tcp_process env s = process_state env (s\<lparr>pcb := p\<rparr>)"
    using tcp_process_switch [of s] assms(1,2,6) by blast
  let ?s = "s\<lparr>pcb := p\<rparr>"
  have k: "state p = SYN_SENT" "lastack p = lastack (pcb s)" "unacked p = syn # rest" "unsent p = unsent (pcb s)"
      "snd_queuelen p = snd_queuelen (pcb s)"
    using p(1) assms(1,10) by (auto simp: same_conn_def)
  have len: "unat (snd_queuelen (pcb s)) = 1 + (pbuf_count rest + pbuf_count (unsent (pcb s)))"
    using assms(9-11) by (simp add: snd_ok_def pbuf_count_def)
  then have pos: "0 < snd_queuelen p" by (simp add: word_less_nat_alt k(5))
  obtain q where q: "syn_acked env ?s rest q"
      "process_syn_sent env ?s = Some (ERR_OK, s\<lparr>pcb := tcp_ack_now (snd (connected env q))\<rparr>)"
    using process_syn_sent_acked [of ?s syn rest env] assms(3-5,12) k pos by auto
  have m: "?m \<le> TCP_MSS" using parse_mss_range [OF assms(7,8)] by simp
  have e: "mss q \<le> ?m" "route_mtu env = Some l \<Longrightarrow> 60 < l \<Longrightarrow> mss q \<le> l - 40" for l
    using q(1) p(2) tcp_eff_send_mss_netif_bounds by (simp_all add: syn_acked_def Let_def)
  have "unat (cwnd q) = min (4 * unat (mss q)) (max (2 * unat (mss q)) 4380)"
    using q(1) LWIP_TCP_CALC_INITIAL_CWND_bounds [of "mss q"] e(1) m by (simp add: syn_acked_def Let_def)
  moreover have "snd_ok q"
    using q(1) len k(4,5) pos by (simp add: syn_acked_def Let_def snd_ok_def unat_sub_if' word_less_nat_alt)
  moreover have "tcp_process env s = Some (ERR_OK, s\<lparr>pcb := tcp_ack_now (snd (connected env q))\<rparr>)"
    using p(3) q(2) k(1) by (simp add: process_state_def)
  ultimately show ?thesis using q(1) e m k(4)
    by (intro exI [of _ "s\<lparr>pcb := tcp_ack_now (snd (connected env q))\<rparr>"] exI [of _ q]) (auto simp: syn_acked_def Let_def)
qed

definition example_syn_ack :: tcp_in where
  "example_syn_ack = (example_in 7000 [])\<lparr>pcb := example_pcb\<lparr>state := SYN_SENT, lastack := 1009, mss := 536,
       unacked := [\<lparr>sseq = 1009, sflags = 2, slen = 0, sdata = [], sclen = 1, sbusy = False, soversize = 0\<rparr>], snd_queuelen := 2\<rparr>,
     tflags := 0x12, tcplen := 1, tcphdr_opts := example_opts\<rparr>"

theorem tcp_process_handshake_witness:
  "\<exists>s' q. tcp_process example_env example_syn_ack = Some (ERR_OK, s') \<and> pcb s' = tcp_ack_now q
     \<and> state q = ESTABLISHED \<and> rcv_nxt q = 7001 \<and> unacked q = [] \<and> mss q \<le> 1280 \<and> snd_ok q"
proof -
  let ?s = example_syn_ack
  let ?syn = "\<lparr>sseq = 1009, sflags = 2, slen = 0, sdata = [], sclen = 1, sbusy = False, soversize = 0\<rparr> :: tcp_seg"
  have h: "state (pcb ?s) = SYN_SENT" "\<not> has8 (tflags ?s) TCP_RST" "has8 (tflags ?s) TCP_ACK" "has8 (tflags ?s) TCP_SYN"
      "ackno ?s = lastack (pcb ?s) + 1" "opts_ok (tcphdr_opts ?s)" "0 < mss (pcb ?s)" "mss (pcb ?s) \<le> TCP_MSS"
      "snd_ok (pcb ?s)" "unacked (pcb ?s) = [?syn]" "sclen ?syn = 1" "\<And>p. fst (connected example_env p) \<noteq> ERR_ABRT"
    by (simp_all add: example_syn_ack_def example_in_def example_pcb_def has8_def opts_ok_def example_opts_def snd_ok_def
        pbuf_count_def example_env_def)
  have "parse_mss (opt_bytes (tcphdr_opts ?s)) (mss (pcb ?s)) = 1280" "seqno ?s + 1 = 7001" by (code_simp, code_simp)
  moreover have "snd (connected example_env q) = q" for q by (simp add: example_env_def)
  ultimately show ?thesis using tcp_process_handshake [OF h] by metis
qed

end
