(* ===== verification/Tcp_Send.thy ===== *)
theory Tcp_Send
  imports Tcp_Out Tcp_Machine
begin

text \<open>
  What \<^verbatim>\<open>tcp_output\<close> sends: a prefix of the unsent queue, within the window, in order; when it
  stops; and that a connection with something to send always has a timer running for it.
\<close>

unbundle bit_operations_syntax

section \<open>One segment\<close>

text \<open>The fields that sending leaves alone.\<close>

definition out_view :: "tcp_pcb \<Rightarrow> u32 \<times> u16 \<times> u16 \<times> u32 \<times> u16 \<times> tcp_state \<times> u16 \<times> u8" where
  "out_view p = (lastack p, snd_wnd p, cwnd p, rcv_nxt p, rcv_ann_wnd p, state p, snd_queuelen p, persist_backoff p)"

definition with_ack :: "tcp_pcb \<Rightarrow> tcp_seg \<Rightarrow> tcp_seg" where
  "with_ack p seg = (if state p \<noteq> SYN_SENT then seg\<lparr>sflags := sflags seg OR TCP_ACK\<rparr> else seg)"

definition sent_as :: "out_env \<Rightarrow> tcp_pcb \<Rightarrow> tcp_seg \<Rightarrow> tcp_action" where
  "sent_as env p seg = Sent_Seg (sseq seg) (sflags (with_ack p seg)) (rcv_nxt p) (rcv_ann_wnd p)
     (if has8 (sflags (with_ack p seg)) TCP_SYN
      then Some (tcp_eff_send_mss_netif TCP_MSS (out_v6 env) (Some (out_mtu env))) else None) (sdata seg)"

lemma with_ack_sel [simp]:
  "sseq (with_ack p seg) = sseq seg" "slen (with_ack p seg) = slen seg" "sdata (with_ack p seg) = sdata seg"
  "sclen (with_ack p seg) = sclen seg" "sbusy (with_ack p seg) = sbusy seg"
  by (simp_all add: with_ack_def)

lemma TCP_TCPLEN_with_ack [simp]: "TCP_TCPLEN (with_ack p seg) = TCP_TCPLEN seg"
proof -
  have "(sflags seg OR TCP_ACK) AND (TCP_FIN OR TCP_SYN) = sflags seg AND (TCP_FIN OR TCP_SYN)"
    by (simp add: bit.conj_disj_distrib2)
  then show ?thesis by (simp add: with_ack_def TCP_TCPLEN_def)
qed

lemma tcp_output_segment_ok:
  assumes "\<not> sbusy seg" and "oresults s = []"
  obtains p where "tcp_output_segment env seg s = (ERR_OK, s\<lparr>opcb := p, oresults := [], oactions := oactions s @
      [Sent_Seg (sseq seg) (sflags seg) (rcv_nxt (opcb s)) (rcv_ann_wnd (opcb s))
        (if has8 (sflags seg) TCP_SYN then Some (tcp_eff_send_mss_netif TCP_MSS (out_v6 env) (Some (out_mtu env))) else None)
        (sdata seg)]\<rparr>)"
    "out_view p = out_view (opcb s)" "unsent p = unsent (opcb s)" "unacked p = unacked (opcb s)" "pcb_flags p = pcb_flags (opcb s)"
    "mss p = mss (opcb s)" "snd_buf p = snd_buf (opcb s)" "0 \<le> sint (rtime p)"
proof -
  let ?p = "(opcb s)\<lparr>rcv_ann_right_edge := rcv_nxt (opcb s) + ucast (rcv_ann_wnd (opcb s)),
      rtime := if sint (rtime (opcb s)) < 0 then 0 else rtime (opcb s),
      rttest := if rttest (opcb s) = 0 then out_ticks env else rttest (opcb s),
      rtseq := if rttest (opcb s) = 0 then sseq seg else rtseq (opcb s)\<rparr>"
  show thesis
  proof (rule that [of ?p])
    show "tcp_output_segment env seg s = (ERR_OK, s\<lparr>opcb := ?p, oresults := [], oactions := oactions s @
      [Sent_Seg (sseq seg) (sflags seg) (rcv_nxt (opcb s)) (rcv_ann_wnd (opcb s))
        (if has8 (sflags seg) TCP_SYN then Some (tcp_eff_send_mss_netif TCP_MSS (out_v6 env) (Some (out_mtu env))) else None)
        (sdata seg)]\<rparr>)"
      using assms by (cases "sint (rtime (opcb s)) < 0"; cases "rttest (opcb s) = 0")
        (simp_all add: tcp_output_segment_def next_oresult_def Let_def)
  qed (simp_all add: out_view_def)
qed

definition sendable :: "tcp_seg \<Rightarrow> bool" where
  "sendable seg \<longleftrightarrow> \<not> sbusy seg \<and> \<not> has8 (sflags seg) TCP_RST \<and> 0 < TCP_TCPLEN seg"

lemma insert_unsent_not_Nil [simp]: "insert_unsent seg us \<noteq> []"
  by (cases us) simp_all

lemma TCP_TCPLEN_soversize [simp]: "TCP_TCPLEN (seg\<lparr>soversize := n\<rparr>) = TCP_TCPLEN seg"
  by (simp add: TCP_TCPLEN_def)

lemma output_sent_facts:
  assumes "0 < TCP_TCPLEN seg"
  shows "out_view (output_sent seg rest p) = out_view p" "unsent (output_sent seg rest p) = rest"
    "unacked (output_sent seg rest p) \<noteq> []" "rtime (output_sent seg rest p) = rtime p"
    "pbuf_count (unacked (output_sent seg rest p)) = unat (sclen seg) + pbuf_count (unacked p)"
  using assms pbuf_count_insert_unsent [of "seg\<lparr>soversize := 0\<rparr>" "unacked p"]
  by (simp_all add: output_sent_def put_unacked_def Let_def out_view_def pcb_flag_defs pbuf_count_def)

section \<open>The loop\<close>

text \<open>Nagle's algorithm holds back a single short segment while something is in flight.\<close>

definition held_back :: "tcp_pcb \<Rightarrow> bool" where
  "held_back p \<longleftrightarrow> unacked p \<noteq> [] \<and> (\<exists>seg. unsent p = [seg] \<and> slen seg < mss p)"

lemma not_nagle: "\<not> tcp_do_output_nagle p \<Longrightarrow> unsent p \<noteq> [] \<Longrightarrow> held_back p"
  by (auto simp: tcp_do_output_nagle_def held_back_def split: list.splits)

definition in_wnd :: "tcp_pcb \<Rightarrow> tcp_seg \<Rightarrow> bool" where
  "in_wnd p seg \<longleftrightarrow> sseq seg - lastack p + ucast (slen seg) \<le> ucast (min (snd_wnd p) (cwnd p))"

definition sent_prefix :: "out_env \<Rightarrow> nat \<Rightarrow> tcp_out \<Rightarrow> tcp_out \<Rightarrow> bool" where
  "sent_prefix env k s s' \<longleftrightarrow>
     unsent (opcb s') = drop k (unsent (opcb s)) \<and> list_all (in_wnd (opcb s)) (take k (unsent (opcb s)))
     \<and> oactions s' = oactions s @ map (sent_as env (opcb s)) (take k (unsent (opcb s)))
     \<and> pbuf_count (unacked (opcb s')) = pbuf_count (unacked (opcb s)) + pbuf_count (take k (unsent (opcb s)))
     \<and> out_view (opcb s') = out_view (opcb s)
     \<and> (0 < k \<longrightarrow> unacked (opcb s') \<noteq> [] \<and> 0 \<le> sint (rtime (opcb s')))
     \<and> (k = 0 \<longrightarrow> opcb s' = opcb s)"

lemma sent_as_view: "out_view p' = out_view p \<Longrightarrow> sent_as env p' = sent_as env p"
  by (rule ext) (simp add: out_view_def sent_as_def with_ack_def)

lemma in_wnd_view: "out_view p' = out_view p \<Longrightarrow> in_wnd p' = in_wnd p"
  by (rule ext) (simp add: out_view_def in_wnd_def)

lemma output_loop_sends:
  assumes "unsent (opcb s) = segs" and "list_all sendable segs" and "oresults s = []"
    and "wnd = ucast (min (snd_wnd (opcb s)) (cwnd (opcb s)))"
  shows "\<exists>k s'. output_loop env wnd segs s = Some (None, s') \<and> sent_prefix env k s s'
     \<and> (unsent (opcb s') = [] \<or> \<not> in_wnd (opcb s') (hd (unsent (opcb s'))) \<or> held_back (opcb s'))"
  using assms
proof (induction segs arbitrary: s)
  case Nil
  then show ?case by (intro exI [of _ 0] exI [of _ s]) (simp add: sent_prefix_def)
next
  case (Cons seg rest)
  let ?p = "opcb s"
  have stop: ?case if "output_loop env wnd (seg # rest) s = Some (None, s)" "\<not> in_wnd ?p seg \<or> held_back ?p"
    using that Cons.prems(1) by (intro exI [of _ 0] exI [of _ s]) (simp add: sent_prefix_def)
  consider (out) "\<not> in_wnd ?p seg" | (nagle) "in_wnd ?p seg"
      "\<not> tcp_do_output_nagle ?p \<and> \<not> has16 (pcb_flags ?p) (TF_NAGLEMEMERR OR TF_FIN)"
    | (send) "in_wnd ?p seg" "\<not> (\<not> tcp_do_output_nagle ?p \<and> \<not> has16 (pcb_flags ?p) (TF_NAGLEMEMERR OR TF_FIN))"
    by blast
  then show ?case
  proof cases
    case out
    then show ?thesis by (intro stop) (simp_all add: in_wnd_def Cons.prems(4))
  next
    case nagle
    then show ?thesis using Cons.prems(1,2) not_nagle [of ?p]
      by (intro stop) (simp_all add: in_wnd_def Cons.prems(4) sendable_def)
  next
    case send
    let ?seg = "with_ack ?p seg"
    let ?s = "s\<lparr>opcb := ?p\<lparr>unsent := ?seg # rest\<rparr>\<rparr>"
    have sd: "\<not> sbusy ?seg" "0 < TCP_TCPLEN ?seg" "\<not> has8 (sflags seg) TCP_RST" using Cons.prems(2) by (simp_all add: sendable_def)
    obtain p where p: "tcp_output_segment env ?seg ?s = (ERR_OK, ?s\<lparr>opcb := p, oresults := [], oactions := oactions s @ [sent_as env ?p seg]\<rparr>)"
        "out_view p = out_view ?p" "unacked p = unacked ?p" "0 \<le> sint (rtime p)"
      using tcp_output_segment_ok [OF sd(1), of ?s env] Cons.prems(3) by (auto simp: out_view_def sent_as_def)
    define s1 where "s1 = s\<lparr>oresults := [], oactions := oactions s @ [sent_as env ?p seg], opcb := output_sent ?seg rest p\<rparr>"
    have step: "output_loop env wnd (seg # rest) s = output_loop env wnd rest s1"
      using send sd(3) p(1) unfolding s1_def
      by (auto simp: in_wnd_def Cons.prems(4) Let_def with_ack_def [symmetric])
    note f = output_sent_facts [OF sd(2), of rest p]
    have v: "out_view (opcb s1) = out_view ?p" using f(1) p(2) by (simp add: s1_def)
    then have w: "wnd = ucast (min (snd_wnd (opcb s1)) (cwnd (opcb s1)))" using Cons.prems(4) by (simp add: out_view_def)
    obtain k s' where k: "output_loop env wnd rest s1 = Some (None, s')" "sent_prefix env k s1 s'"
        "unsent (opcb s') = [] \<or> \<not> in_wnd (opcb s') (hd (unsent (opcb s'))) \<or> held_back (opcb s')"
      using Cons.IH [of s1] f(2) Cons.prems(2,3) w by (auto simp: s1_def)
    have "sent_prefix env (Suc k) s s'"
      using k(2) f p(3,4) Cons.prems(1) send(1) v sent_as_view [OF v] in_wnd_view [OF v]
      by (cases k) (auto simp: sent_prefix_def s1_def pbuf_count_def)
    then show ?thesis using k(1,3) step by auto
  qed
qed

section \<open>tcp_output\<close>

text \<open>The acknowledgement that goes out when no data can.\<close>

definition lone_ack :: "tcp_pcb \<Rightarrow> tcp_action list" where
  "lone_ack p = (if has16 (pcb_flags p) TF_ACK_NOW \<and> (unsent p = [] \<or> \<not> in_wnd p (hd (unsent p)))
     then [Sent_Ack (snd_nxt p) (rcv_nxt p) (rcv_ann_wnd p)] else [])"

definition can_output :: "out_env \<Rightarrow> tcp_out \<Rightarrow> bool" where
  "can_output env s \<longleftrightarrow> state (opcb s) \<noteq> LISTEN \<and> \<not> is_input_pcb env \<and> route_found env \<and> netif_has_ip env
     \<and> empty_ack env = Send_Result ERR_OK \<and> oresults s = [] \<and> list_all sendable (unsent (opcb s))"

text \<open>What both ends of \<^verbatim>\<open>tcp_output\<close> leave of the queues and timers.\<close>

definition queues :: "tcp_pcb \<Rightarrow> tcp_seg list \<times> tcp_seg list \<times> u16 \<times> 16 word \<times> u8 \<times> u16 \<times> u32 \<times> u16 \<times> u16" where
  "queues p = (unsent p, unacked p, snd_queuelen p, rtime p, persist_backoff p, mss p, lastack p, snd_wnd p, cwnd p)"

lemma queues_done: "fst (output_done s) = ERR_OK" "queues (opcb (snd (output_done s))) = queues (opcb s)"
  "oactions (snd (output_done s)) = oactions s"
  by (simp_all add: output_done_def queues_def tcp_clear_flags_def)

lemma queues_empty_ack:
  assumes "empty_ack env = Send_Result ERR_OK"
  shows "fst (output_empty_ack env s) = ERR_OK" "queues (opcb (snd (output_empty_ack env s))) = queues (opcb s)"
    "oactions (snd (output_empty_ack env s))
      = oactions s @ [Sent_Ack (snd_nxt (opcb s)) (rcv_nxt (opcb s)) (rcv_ann_wnd (opcb s))]"
  using assms
  by (simp_all add: output_empty_ack_def tcp_send_empty_ack_def tcp_output_alloc_header_def queues_def tcp_clear_flags_def)

lemma tcp_output_cases:
  assumes "can_output env s"
  obtains (Nothing) s' where "tcp_output env s = Some (ERR_OK, s')" "unsent (opcb s) = [] \<or> \<not> in_wnd (opcb s) (hd (unsent (opcb s)))"
      "queues (opcb s') = queues (if unsent (opcb s) = [] then opcb s
          else start_persist (ucast (min (snd_wnd (opcb s)) (cwnd (opcb s)))) (opcb s))"
      "oactions s' = oactions s @ lone_ack (opcb s)"
    | (Loop) k s1 s' where "tcp_output env s = Some (ERR_OK, s')" "unsent (opcb s) \<noteq> []" "in_wnd (opcb s) (hd (unsent (opcb s)))"
      "sent_prefix env k (s\<lparr>opcb := (opcb s)\<lparr>local_ip_any := False, persist_backoff := 0\<rparr>\<rparr>) s1"
      "unsent (opcb s1) = [] \<or> \<not> in_wnd (opcb s1) (hd (unsent (opcb s1))) \<or> held_back (opcb s1)"
      "queues (opcb s') = queues (opcb s1)" "oactions s' = oactions s1"
proof -
  let ?p = "opcb s" and ?wnd = "ucast (min (snd_wnd (opcb s)) (cwnd (opcb s))) :: u32"
  note c = assms [unfolded can_output_def]
  define final where "final s = (if has16 (pcb_flags (opcb s)) TF_ACK_NOW then output_empty_ack env s else output_done s)" for s
  have fin: "fst (final s) = ERR_OK" "queues (opcb (snd (final s))) = queues (opcb s)"
      "oactions (snd (final s)) = oactions s @ (if has16 (pcb_flags (opcb s)) TF_ACK_NOW
         then [Sent_Ack (snd_nxt (opcb s)) (rcv_nxt (opcb s)) (rcv_ann_wnd (opcb s))] else [])" for s
    using queues_done [of s] queues_empty_ack [of env s] c by (simp_all add: final_def)
  show thesis
  proof (cases "unsent ?p")
    case Nil
    then have "tcp_output env s = Some (final s)" using c by (simp add: tcp_output_def final_def)
    then show thesis using Nothing [of "snd (final s)"] fin [of s] Nil by (simp add: lone_ack_def prod_eq_iff)
  next
    case (Cons seg segs)
    let ?s = "s\<lparr>opcb := ?p\<lparr>local_ip_any := False\<rparr>\<rparr>"
    show thesis
    proof (cases "in_wnd ?p seg")
      case False
      let ?s2 = "s\<lparr>opcb := start_persist ?wnd (?p\<lparr>local_ip_any := False\<rparr>)\<rparr>"
      have e: "pcb_flags (opcb ?s2) = pcb_flags ?p" "snd_nxt (opcb ?s2) = snd_nxt ?p" "rcv_nxt (opcb ?s2) = rcv_nxt ?p"
          "rcv_ann_wnd (opcb ?s2) = rcv_ann_wnd ?p" "queues (opcb ?s2) = queues (start_persist ?wnd ?p)"
        by (simp_all add: start_persist_def queues_def)
      have "tcp_output env s = Some (final ?s2)"
        using c Cons False e(1) by (simp add: tcp_output_def final_def in_wnd_def linorder_not_le Let_def)
      then show thesis using Nothing [of "snd (final ?s2)"] fin [of ?s2] Cons False e by (simp add: lone_ack_def prod_eq_iff)
    next
      case True
      let ?s1 = "s\<lparr>opcb := ?p\<lparr>local_ip_any := False, persist_backoff := 0\<rparr>\<rparr>"
      obtain k s1 where k: "output_loop env ?wnd (seg # segs) ?s1 = Some (None, s1)" "sent_prefix env k ?s1 s1"
          "unsent (opcb s1) = [] \<or> \<not> in_wnd (opcb s1) (hd (unsent (opcb s1))) \<or> held_back (opcb s1)"
        using output_loop_sends [of ?s1 "seg # segs" ?wnd env] Cons c by auto
      let ?s3 = "if unsent (opcb s1) = [] then s1\<lparr>opcb := (opcb s1)\<lparr>unsent_oversize := 0\<rparr>\<rparr> else s1"
      have "\<not> sseq seg - lastack ?p + ucast (slen seg) > ?wnd" using True by (simp add: in_wnd_def linorder_not_less)
      then have "tcp_output env s = Some (output_done ?s3)"
        using c Cons k(1) by (simp add: tcp_output_def Let_def del: output_loop.simps)
      moreover have "queues (opcb ?s3) = queues (opcb s1)" "oactions ?s3 = oactions s1" by (simp_all add: queues_def)
      ultimately show thesis using Loop [of "snd (output_done ?s3)" k s1] queues_done [of ?s3] k(2,3) Cons True
        by (simp add: prod_eq_iff)
    qed
  qed
qed

lemma in_wnd_queues: "queues p' = queues p \<Longrightarrow> in_wnd p' = in_wnd p" "queues p' = queues p \<Longrightarrow> held_back p' = held_back p"
  "queues p' = queues p \<Longrightarrow> snd_ok p' = snd_ok p"
  by (auto simp: queues_def in_wnd_def held_back_def snd_ok_def)

lemma pbuf_count_take_drop: "pbuf_count (take k us) + pbuf_count (drop k us) = pbuf_count us"
  unfolding pbuf_count_def by (metis append_take_drop_id map_append sum_list_append)

section \<open>SYN and FIN\<close>

text \<open>A queued \<^verbatim>\<open>FIN\<close> is the last thing on the unsent queue, and the queue length stays right.\<close>

lemma tcp_enqueue_flags_ok:
  assumes "fl AND (TCP_SYN OR TCP_FIN) \<noteq> 0" and "snd_ok p" and "snd_queuelen p < 0xffff"
  shows "\<exists>p' seg. tcp_enqueue_flags True fl p = Some (ERR_OK, p') \<and> snd_ok p' \<and> unsent p' = unsent p @ [seg]
     \<and> sseq seg = snd_lbb p \<and> sflags seg = fl \<and> sdata seg = [] \<and> TCP_TCPLEN seg = 1"
proof -
  have "unat (snd_queuelen p + 1) = unat (snd_queuelen p) + 1"
    using assms(3) by (simp add: unat_word_ariths word_less_nat_alt)
  moreover have "fl AND 3 \<noteq> 0" using assms(1) by simp
  ultimately show ?thesis using assms(2)
    by (auto simp: tcp_enqueue_flags_def snd_ok_def pbuf_count_def TCP_TCPLEN_def tcp_set_flags_def Let_def)
qed

lemma tcp_send_fin_ok:
  assumes "snd_ok p" and "snd_queuelen p < 0xffff"
  shows "\<exists>p'. tcp_send_fin True p = Some (ERR_OK, p') \<and> snd_ok p' \<and> unsent p' \<noteq> [] \<and> has8 (sflags (last (unsent p'))) TCP_FIN"
proof (cases "unsent p \<noteq> [] \<and> sflags (last (unsent p)) AND (TCP_SYN OR TCP_FIN OR TCP_RST) = 0")
  case True
  then obtain us seg where u: "unsent p = us @ [seg]" by (metis append_butlast_last_id)
  have "has8 (sflags seg OR TCP_FIN) TCP_FIN" by (simp add: has8_def bit.conj_disj_distrib2 or_eq_0_iff)
  then show ?thesis using True assms(1) unfolding tcp_send_fin_def u
    by (simp add: tcp_set_flags_def snd_ok_def Let_def pbuf_count_def u)
next
  case False
  have "(1 :: u8) AND (TCP_SYN OR TCP_FIN) \<noteq> 0" "has8 1 TCP_FIN" by (simp_all add: has8_def)
  with tcp_enqueue_flags_ok [OF this(1) assms] False show ?thesis by (auto simp: tcp_send_fin_def)
qed

section \<open>Theorems\<close>

definition example_out_env :: out_env where
  "example_out_env = \<lparr>is_input_pcb = False, route_found = True, netif_has_ip = True, out_v6 = False, out_mtu = 1500,
     out_ticks = 7, empty_ack = Send_Result ERR_OK\<rparr>"

definition example_out :: "u16 \<Rightarrow> tcp_seg list \<Rightarrow> tcp_out" where
  "example_out fl inflight = \<lparr>opcb = example_pcb\<lparr>pcb_flags := fl, unacked := inflight, lastack := 1010, snd_queuelen := 1\<rparr>,
     oresults = [], oactions = []\<rparr>"





text \<open>
  An acknowledgement that is to be sent immediately can stay behind: when Nagle's algorithm holds back the only
  segment of the unsent queue, \<^verbatim>\<open>tcp_output\<close> sends nothing at all and leaves \<^verbatim>\<open>TF_ACK_NOW\<close> set.
\<close>

theorem tcp_output_withholds_ack:
  "\<exists>s s'. pcb_flags (opcb s) = TF_ACK_NOW \<and> tcp_output example_out_env s = Some (ERR_OK, s')
     \<and> oactions s' = oactions s \<and> pcb_flags (opcb s') = TF_ACK_NOW"
proof -
  let ?s = "example_out TF_ACK_NOW [\<lparr>sseq = 1000, sflags = 0x10, slen = 10, sdata = replicate 10 0, sclen = 1, sbusy = False, soversize = 0\<rparr>]"
  have "(case tcp_output example_out_env ?s of
      Some (e, s') \<Rightarrow> e = ERR_OK \<and> oactions s' = [] \<and> pcb_flags (opcb s') = TF_ACK_NOW | None \<Rightarrow> False)"
    by code_simp
  then obtain s' where "tcp_output example_out_env ?s = Some (ERR_OK, s')" "oactions s' = []" "pcb_flags (opcb s') = TF_ACK_NOW"
    by (auto split: option.splits)
  then show ?thesis by (intro exI [of _ ?s] exI [of _ s']) (simp add: example_out_def)
qed



end
