(* ===== verification/Ip4_Frag.thy ===== *)
theory Ip4_Frag
  imports Inet_Chksum
begin

text \<open>
  IPv4 fragmentation and reassembly (\<^verbatim>\<open>ipv4/ip4_frag.c\<close>). A received fragment is a pbuf chain with the
  20 bytes of its IP header in the first pbuf: the header, the bytes behind it and the lengths of the pbufs (the header counted). While
  it is queued, \<^verbatim>\<open>struct ip_reass_helper\<close> overlays the header: the queue holds the start and the end
  of the data, the data, and the lengths of the pbufs, and the pointers \<^verbatim>\<open>next_pbuf\<close> make the list. What memory
  is available and what happens to other packets is given by the state: the answers of \<^verbatim>\<open>memp_malloc\<close>,
  and a trace of the freed chains and of the ICMP messages. \<open>None\<close> is a failed assertion.
\<close>

unbundle bit_operations_syntax

section \<open>The header\<close>

text \<open>The 16-bit fields hold what the little-endian machine reads, that is the value with its bytes exchanged.\<close>

record ip_hdr =
  v_hl :: u8
  tos :: u8
  ip_len :: u16
  ip_id :: u16
  ip_offset :: u16
  ttl :: u8
  proto :: u8
  ip_chksum :: u16
  ip_src :: ip4_addr_t
  ip_dest :: ip4_addr_t

abbreviation (input) IP_HLEN :: u16 where "IP_HLEN \<equiv> 20"
abbreviation (input) IP_MF :: u16 where "IP_MF \<equiv> 0x2000"
abbreviation (input) IP_OFFMASK :: u16 where "IP_OFFMASK \<equiv> 0x1fff"

definition IPH_HL_BYTES :: "ip_hdr \<Rightarrow> u8" where
  "IPH_HL_BYTES hdr = (v_hl hdr AND 0x0f) * 4"

definition IPH_OFFSET_BYTES :: "ip_hdr \<Rightarrow> u16" where
  "IPH_OFFSET_BYTES hdr = (lwip_htons (ip_offset hdr) AND IP_OFFMASK) * 8"

definition hdr_bytes :: "ip_hdr \<Rightarrow> u8 list" where
  "hdr_bytes h = [v_hl h, tos h] @ bytes16 (ip_len h) @ bytes16 (ip_id h) @ bytes16 (ip_offset h) @ [ttl h, proto h]
     @ bytes16 (ip_chksum h) @ bytes32 (ip_src h) @ bytes32 (ip_dest h)"

text \<open>\<^verbatim>\<open>IPH_CHKSUM_SET(hdr, 0); IPH_CHKSUM_SET(hdr, inet_chksum(hdr, IP_HLEN))\<close>.\<close>

definition set_chksum :: "ip_hdr \<Rightarrow> ip_hdr" where
  "set_chksum h = (let h = h\<lparr>ip_chksum := 0\<rparr> in h\<lparr>ip_chksum := NOT (lwip_standard_chksum 0 (hdr_bytes h))\<rparr>)"

section \<open>State\<close>

record frag =
  fhdr :: ip_hdr
  fdata :: "u8 list"
  flens :: "nat list"

record rfrag =
  fstart :: u16
  fend :: u16
  rdata :: "u8 list"
  rlens :: "nat list"

text \<open>\<^verbatim>\<open>pbuf_clen\<close>: the number of pbufs.\<close>

definition fclen :: "frag \<Rightarrow> u16" where
  "fclen p = of_nat (length (flens p))"

definition rclen :: "rfrag \<Rightarrow> u16" where
  "rclen q = of_nat (length (rlens q))"

type_synonym ip_dgram = "ip_hdr \<times> u8 list \<times> nat list"

record ip_reassdata =
  rfrags :: "rfrag list"
  iphdr :: ip_hdr
  datagram_len :: u16
  rflags :: u8
  rtimer :: u8

datatype reass_action =
    Freed_Chain u16
  | Time_Exceeded ip_hdr "u8 list"

record reass =
  reassdatagrams :: "ip_reassdata list"
  ip_reass_pbufcount :: u16
  reass_mallocs :: "bool list"
  reass_actions :: "reass_action list"

abbreviation (input) IP_REASS_MAX_PBUFS :: nat where "IP_REASS_MAX_PBUFS \<equiv> 10"
abbreviation (input) IP_REASS_MAXAGE :: u8 where "IP_REASS_MAXAGE \<equiv> 15"
abbreviation (input) IP_REASS_FLAG_LASTFRAG :: u8 where "IP_REASS_FLAG_LASTFRAG \<equiv> 1"

definition IP_ADDRESSES_AND_ID_MATCH :: "ip_hdr \<Rightarrow> ip_hdr \<Rightarrow> bool" where
  "IP_ADDRESSES_AND_ID_MATCH a b \<longleftrightarrow> ip_src a = ip_src b \<and> ip_dest a = ip_dest b \<and> ip_id a = ip_id b"

section \<open>Dropping datagrams\<close>

text \<open>
  A datagram is addressed by its position in the list; the predecessor that the code carries along is the
  one before it.
\<close>

definition ip_reass_dequeue_datagram :: "nat \<Rightarrow> reass \<Rightarrow> reass" where
  "ip_reass_dequeue_datagram i s = s\<lparr>reassdatagrams := take i (reassdatagrams s) @ drop (Suc i) (reassdatagrams s)\<rparr>"

text \<open>Freeing queued chains, counting their pbufs.\<close>

fun free_rfrags :: "rfrag list \<Rightarrow> u16 \<Rightarrow> (u16 \<times> reass_action list) option" where
  "free_rfrags [] freed = Some (freed, [])"
| "free_rfrags (q # qs) freed = do {
     LWIP_ASSERT (unat freed + unat (rclen q) \<le> 0xffff);
     (n, acts) \<leftarrow> free_rfrags qs (freed + rclen q);
     Some (n, Freed_Chain (rclen q) # acts) }"

definition ip_reass_free_complete_datagram :: "nat \<Rightarrow> reass \<Rightarrow> (u16 \<times> reass) option" where
  "ip_reass_free_complete_datagram i s =
     (let ipr = reassdatagrams s ! i in
      case rfrags ipr of
        [] \<Rightarrow> None
      | q # _ \<Rightarrow> do {
          (freed, acts) \<leftarrow> free_rfrags (rfrags ipr) 0;
          let s = s\<lparr>reass_actions := reass_actions s
                     @ (if fstart q = 0 then [Time_Exceeded (iphdr ipr) (rdata q)] else []) @ acts\<rparr>;
          let s = ip_reass_dequeue_datagram i s;
          LWIP_ASSERT (ip_reass_pbufcount s \<ge> freed);
          Some (freed, s\<lparr>ip_reass_pbufcount := ip_reass_pbufcount s - freed\<rparr>) })"

text \<open>
  The inner loop looks for the oldest datagram other than the one of the fragment: it returns its position,
  the age found, and the number of other datagrams.
\<close>

fun oldest_scan :: "ip_hdr \<Rightarrow> nat \<Rightarrow> ip_reassdata list \<Rightarrow> (nat \<times> u8) option \<Rightarrow> nat \<Rightarrow> (nat \<times> u8) option \<times> nat" where
  "oldest_scan hdr i [] oldest others = (oldest, others)"
| "oldest_scan hdr i (r # rs) oldest others =
     (if IP_ADDRESSES_AND_ID_MATCH (iphdr r) hdr then oldest_scan hdr (Suc i) rs oldest others
      else oldest_scan hdr (Suc i) rs
             (case oldest of
                None \<Rightarrow> Some (i, rtimer r)
              | Some (j, t) \<Rightarrow> if rtimer r \<le> t then Some (i, rtimer r) else oldest)
             (Suc others))"

partial_function (option) remove_oldest_loop :: "ip_hdr \<Rightarrow> nat \<Rightarrow> nat \<Rightarrow> reass \<Rightarrow> (nat \<times> reass) option" where
  "remove_oldest_loop hdr needed freed s =
     (case oldest_scan hdr 0 (reassdatagrams s) None 0 of (oldest, others) \<Rightarrow> do {
        (freed, s) \<leftarrow>
          (case oldest of
             None \<Rightarrow> Some (freed, s)
           | Some (i, _) \<Rightarrow> do { (n, s) \<leftarrow> ip_reass_free_complete_datagram i s; Some (freed + unat n, s) });
        if freed < needed \<and> others > 1 then remove_oldest_loop hdr needed freed s else Some (freed, s) })"

declare remove_oldest_loop.simps [code]

definition ip_reass_remove_oldest_datagram :: "ip_hdr \<Rightarrow> nat \<Rightarrow> reass \<Rightarrow> (nat \<times> reass) option" where
  "ip_reass_remove_oldest_datagram hdr needed s = remove_oldest_loop hdr needed 0 s"

lemma free_complete_length:
  "i < length (reassdatagrams s) \<Longrightarrow> ip_reass_free_complete_datagram i s = Some (n, s')
    \<Longrightarrow> length (reassdatagrams s') = length (reassdatagrams s) - 1"
  by (auto simp: ip_reass_free_complete_datagram_def ip_reass_dequeue_datagram_def Let_def bind_eq_Some_conv split: list.splits)

text \<open>\<^verbatim>\<open>ip_reass_tmr\<close>; the position counts the datagrams that stay.\<close>

function reass_tmr_loop :: "nat \<Rightarrow> reass \<Rightarrow> reass option" where
  "reass_tmr_loop i s =
     (if i < length (reassdatagrams s) then
        let r = reassdatagrams s ! i in
        if rtimer r > 0
        then reass_tmr_loop (Suc i) (s\<lparr>reassdatagrams := (reassdatagrams s)[i := r\<lparr>rtimer := rtimer r - 1\<rparr>]\<rparr>)
        else (case ip_reass_free_complete_datagram i s of
                None \<Rightarrow> None
              | Some (_, s') \<Rightarrow> reass_tmr_loop i s')
      else Some s)"
  by pat_completeness auto

termination
  by (relation "measure (\<lambda>(i, s). length (reassdatagrams s) - i)") (auto simp: free_complete_length)

definition ip_reass_tmr :: "reass \<Rightarrow> reass option" where
  "ip_reass_tmr s = reass_tmr_loop 0 s"

section \<open>Chaining a fragment\<close>

definition reass_malloc :: "reass \<Rightarrow> bool \<times> reass" where
  "reass_malloc s = (case reass_mallocs s of [] \<Rightarrow> (True, s) | b # bs \<Rightarrow> (b, s\<lparr>reass_mallocs := bs\<rparr>))"

definition ip_reass_enqueue_new_datagram :: "ip_hdr \<Rightarrow> nat \<Rightarrow> reass \<Rightarrow> (bool \<times> reass) option" where
  "ip_reass_enqueue_new_datagram hdr clen s = do {
     let (ok, s) = reass_malloc s;
     (ok, s) \<leftarrow>
       (if ok then Some (True, s)
        else do {
          (n, s) \<leftarrow> ip_reass_remove_oldest_datagram hdr clen s;
          Some (if n \<ge> clen then reass_malloc s else (False, s)) });
     if \<not> ok then Some (False, s)
     else Some (True, s\<lparr>reassdatagrams :=
            \<lparr>rfrags = [], iphdr = hdr, datagram_len = 0, rflags = 0, rtimer = IP_REASS_MAXAGE\<rparr> # reassdatagrams s\<rparr>) }"

text \<open>
  The walk over the queue. The result is \<open>None\<close> when the fragment is dropped, and otherwise the rest of the
  queue with the new fragment, whether there was a hole up to it, and what follows it.
\<close>

fun chain_walk :: "rfrag \<Rightarrow> rfrag option \<Rightarrow> bool \<Rightarrow> rfrag list \<Rightarrow> ((rfrag list \<times> bool \<times> rfrag list) option) option" where
  "chain_walk new prev valid [] =
     (case prev of
        Some pr \<Rightarrow> do {
          LWIP_ASSERT (fend pr \<le> fstart new);
          Some (Some ([new], valid \<and> fend pr = fstart new, [])) }
      | None \<Rightarrow> Some (Some ([new], valid, [])))"
| "chain_walk new prev valid (q # qs) =
     (if fstart new < fstart q then
        (case prev of
           Some pr \<Rightarrow> if fstart new < fend pr \<or> fend new > fstart q then Some None
                      else Some (Some (new # q # qs, valid \<and> fend pr = fstart new, q # qs))
         | None \<Rightarrow> if fend new > fstart q then Some None else Some (Some (new # q # qs, valid, q # qs)))
      else if fstart new = fstart q then Some None
      else if fstart new < fend q then Some None
      else do {
        r \<leftarrow> chain_walk new (Some q) (case prev of Some pr \<Rightarrow> valid \<and> fend pr = fstart q | None \<Rightarrow> valid) qs;
        Some (case r of None \<Rightarrow> None | Some (fs, valid, rest) \<Rightarrow> Some (q # fs, valid, rest)) })"

fun no_holes_after :: "rfrag \<Rightarrow> rfrag list \<Rightarrow> bool" where
  "no_holes_after pr [] = True"
| "no_holes_after pr (q # qs) = (fend pr = fstart q \<and> no_holes_after q qs)"

datatype chain_result = PBUF_DROPPED | PBUF_QUEUED | TELEGRAM_FINISHED

definition ip_reass_chain_frag_into_datagram_and_validate ::
    "ip_reassdata \<Rightarrow> frag \<Rightarrow> bool \<Rightarrow> (chain_result \<times> ip_reassdata) option" where
  "ip_reass_chain_frag_into_datagram_and_validate ipr p is_last =
     (let len = lwip_htons (ip_len (fhdr p)); hlen = ucast (IPH_HL_BYTES (fhdr p)) in
      if hlen > len then Some (PBUF_DROPPED, ipr)
      else
        let len = len - hlen;
            offset = IPH_OFFSET_BYTES (fhdr p);
            new = \<lparr>fstart = offset, fend = offset + len, rdata = fdata p, rlens = flens p\<rparr>
        in if fend new < offset then Some (PBUF_DROPPED, ipr)
           else do {
             r \<leftarrow> chain_walk new None True (rfrags ipr);
             (case r of
                None \<Rightarrow> Some (PBUF_DROPPED, ipr)
              | Some (fs, valid, rest) \<Rightarrow> do {
                  let ipr = ipr\<lparr>rfrags := fs\<rparr>;
                  if is_last \<or> rflags ipr AND IP_REASS_FLAG_LASTFRAG \<noteq> 0 then do {
                    let valid = (valid \<and> fs \<noteq> [] \<and> fstart (hd fs) = 0 \<and> no_holes_after new rest);
                    LWIP_ASSERT (valid \<longrightarrow> tl fs \<noteq> []);
                    Some (if valid then TELEGRAM_FINISHED else PBUF_QUEUED, ipr) }
                  else Some (PBUF_QUEUED, ipr) }) })"

section \<open>ip4_reass\<close>

definition find_datagram :: "ip_hdr \<Rightarrow> ip_reassdata list \<Rightarrow> nat option" where
  "find_datagram hdr rs =
     (let i = length (takeWhile (\<lambda>r. \<not> IP_ADDRESSES_AND_ID_MATCH (iphdr r) hdr) rs)
      in if i < length rs then Some i else None)"

definition reass_drop :: "frag \<Rightarrow> reass \<Rightarrow> ip_dgram option \<times> reass" where
  "reass_drop p s = (None, s\<lparr>reass_actions := reass_actions s @ [Freed_Chain (fclen p)]\<rparr>)"

text \<open>\<^verbatim>\<open>nullreturn_ipr\<close>: an entry that was only just made is removed again.\<close>

definition reass_drop_ipr :: "nat \<Rightarrow> frag \<Rightarrow> reass \<Rightarrow> (ip_dgram option \<times> reass) option" where
  "reass_drop_ipr i p s =
     (if rfrags (reassdatagrams s ! i) = [] then do {
        LWIP_ASSERT (i = 0);
        Some (reass_drop p (ip_reass_dequeue_datagram i s)) }
      else Some (reass_drop p s))"

text \<open>
  The complete datagram: its header, its data and the lengths of its pbufs. The header of every fragment but the first is
  hidden (\<^verbatim>\<open>pbuf_remove_header\<close>, on a first pbuf that holds at least the header).
\<close>

definition hide_header :: "nat list \<Rightarrow> nat list" where
  "hide_header ls = (case ls of [] \<Rightarrow> [] | l # ls \<Rightarrow> (l - 20) # ls)"

definition chained_lens :: "nat list list \<Rightarrow> nat list" where
  "chained_lens lss = (case lss of [] \<Rightarrow> [] | ls # lss \<Rightarrow> ls @ concat (map hide_header lss))"

definition reass_finish :: "nat \<Rightarrow> reass \<Rightarrow> (ip_dgram option \<times> reass) option" where
  "reass_finish i s = do {
     let ipr = reassdatagrams s ! i;
     let hdr = set_chksum ((iphdr ipr)\<lparr>ip_len := lwip_htons (datagram_len ipr + IP_HLEN), ip_offset := 0\<rparr>);
     let s = ip_reass_dequeue_datagram i s;
     let clen = sum_list (map rclen (rfrags ipr));
     LWIP_ASSERT (ip_reass_pbufcount s \<ge> clen);
     Some (Some (hdr, concat (map rdata (rfrags ipr)), chained_lens (map rlens (rfrags ipr))),
       s\<lparr>ip_reass_pbufcount := ip_reass_pbufcount s - clen\<rparr>) }"

definition reass_insert :: "nat \<Rightarrow> frag \<Rightarrow> u16 \<Rightarrow> u16 \<Rightarrow> reass \<Rightarrow> (ip_dgram option \<times> reass) option" where
  "reass_insert i p offset len s = do {
     let is_last = (ip_offset (fhdr p) AND lwip_htons IP_MF = 0);
     let dlen = offset + len;
     if is_last \<and> (dlen < offset \<or> dlen > 0xFFFF - IP_HLEN) then reass_drop_ipr i p s
     else do {
       (valid, ipr) \<leftarrow> ip_reass_chain_frag_into_datagram_and_validate (reassdatagrams s ! i) p is_last;
       if valid = PBUF_DROPPED then reass_drop_ipr i p s
       else do {
         let ipr = (if is_last then ipr\<lparr>datagram_len := dlen, rflags := rflags ipr OR IP_REASS_FLAG_LASTFRAG\<rparr> else ipr);
         let s = s\<lparr>reassdatagrams := (reassdatagrams s)[i := ipr], ip_reass_pbufcount := ip_reass_pbufcount s + fclen p\<rparr>;
         if valid = TELEGRAM_FINISHED then reass_finish i s else Some (None, s) } } }"

text \<open>The limit on the queued pbufs: whether there is room, after old datagrams were dropped for it.\<close>

definition reass_room :: "frag \<Rightarrow> reass \<Rightarrow> (bool \<times> reass) option" where
  "reass_room p s =
     (let clen = unat (fclen p) in
      if unat (ip_reass_pbufcount s) + clen > IP_REASS_MAX_PBUFS then do {
        (n, s) \<leftarrow> ip_reass_remove_oldest_datagram (fhdr p) clen s;
        Some (n \<noteq> 0 \<and> unat (ip_reass_pbufcount s) + clen \<le> IP_REASS_MAX_PBUFS, s) }
      else Some (True, s))"

text \<open>The datagram of the fragment: an entry of the list, whose header is replaced by the one of the first fragment, or a new one.\<close>

definition reass_place :: "frag \<Rightarrow> u16 \<Rightarrow> u16 \<Rightarrow> reass \<Rightarrow> (ip_dgram option \<times> reass) option" where
  "reass_place p offset len s =
     (case find_datagram (fhdr p) (reassdatagrams s) of
        None \<Rightarrow> do {
          (ok, s) \<leftarrow> ip_reass_enqueue_new_datagram (fhdr p) (unat (fclen p)) s;
          if \<not> ok then Some (reass_drop p s) else reass_insert 0 p offset len s }
      | Some i \<Rightarrow>
          let ipr = reassdatagrams s ! i;
              ipr = (if lwip_htons (ip_offset (fhdr p)) AND IP_OFFMASK = 0 \<and> lwip_htons (ip_offset (iphdr ipr)) AND IP_OFFMASK \<noteq> 0
                     then ipr\<lparr>iphdr := fhdr p\<rparr> else ipr)
          in reass_insert i p offset len (s\<lparr>reassdatagrams := (reassdatagrams s)[i := ipr]\<rparr>))"

definition ip4_reass :: "frag \<Rightarrow> reass \<Rightarrow> (ip_dgram option \<times> reass) option" where
  "ip4_reass p s =
     (let hdr = fhdr p; hlen = ucast (IPH_HL_BYTES hdr) :: u16; offset = IPH_OFFSET_BYTES hdr; len = lwip_htons (ip_len hdr) in
      if hlen \<noteq> IP_HLEN then Some (reass_drop p s)
      else if hlen > len then Some (reass_drop p s)
      else do {
        (room, s) \<leftarrow> reass_room p s;
        if \<not> room then Some (reass_drop p s) else reass_place p offset (len - hlen) s })"

section \<open>ip4_frag\<close>

text \<open>
  The packets handed to \<^verbatim>\<open>netif->output\<close>, in order; each needs memory for its header and for the pbufs that
  refer to the original data (one answer for each fragment).
\<close>

definition frag_blocks :: "u16 \<Rightarrow> u16" where
  "frag_blocks mtu = (if mtu \<ge> 20 then of_nat ((unat mtu - 20) div 8) else - of_nat ((20 - unat mtu) div 8))"

partial_function (option) frag_loop ::
    "u16 \<Rightarrow> ip_hdr \<Rightarrow> bool \<Rightarrow> u16 \<Rightarrow> u16 \<Rightarrow> u8 list \<Rightarrow> bool list \<Rightarrow> (ip_hdr \<times> u8 list) list
       \<Rightarrow> (err_t \<times> (ip_hdr \<times> u8 list) list) option" where
  "frag_loop mtu hdr mf_set left ofo bs mems sent =
     (if left \<noteq> 0 then
        let nfb = frag_blocks mtu; fragsize = min left (nfb * 8) in
        if mems \<noteq> [] \<and> \<not> hd mems then Some (ERR_MEM, sent)
        else
          let last_one = (int (unat left) \<le> int (unat mtu) - 20);
              tmp = IP_OFFMASK AND ofo;
              tmp = (if \<not> last_one \<or> mf_set then tmp OR IP_MF else tmp);
              fh = set_chksum (hdr\<lparr>ip_offset := lwip_htons tmp, ip_len := lwip_htons (fragsize + IP_HLEN)\<rparr>)
          in frag_loop mtu hdr mf_set (left - fragsize) (ofo + nfb) (drop (unat fragsize) bs) (drop 1 mems)
               (sent @ [(fh, take (unat fragsize) bs)])
      else Some (ERR_OK, sent))"

declare frag_loop.simps [code]

text \<open>The packet is its header and the bytes behind it (\<^verbatim>\<open>p->tot_len - IP_HLEN\<close> of them).\<close>

definition ip4_frag :: "u16 \<Rightarrow> ip_hdr \<Rightarrow> u8 list \<Rightarrow> bool list \<Rightarrow> (err_t \<times> (ip_hdr \<times> u8 list) list) option" where
  "ip4_frag mtu hdr bs mems =
     (if IPH_HL_BYTES hdr \<noteq> 20 then Some (ERR_VAL, [])
      else
        let tmp = lwip_htons (ip_offset hdr)
        in frag_loop mtu hdr (tmp AND IP_MF \<noteq> 0) (of_nat (length bs)) (tmp AND IP_OFFMASK) bs mems [])"

section \<open>Sample packets\<close>

text \<open>Concrete fragments on which the properties are evaluated: the offset in units of 8 bytes, the flag \<open>MF\<close>, and the data.\<close>

definition sample_hdr :: "u16 \<Rightarrow> u16 \<Rightarrow> ip_hdr" where
  "sample_hdr off len = \<lparr>v_hl = 0x45, tos = 0, ip_len = lwip_htons (len + 20), ip_id = 7, ip_offset = lwip_htons off, ttl = 64, proto = 17,
     ip_chksum = 0, ip_src = 0x0100000a, ip_dest = 0x0200000a\<rparr>"

definition sample_frag :: "u16 \<Rightarrow> bool \<Rightarrow> u8 list \<Rightarrow> frag" where
  "sample_frag off mf bs = \<lparr>fhdr = sample_hdr (if mf then off OR IP_MF else off) (of_nat (length bs)), fdata = bs, flens = [20 + length bs]\<rparr>"

definition reass_empty :: reass where
  "reass_empty = \<lparr>reassdatagrams = [], ip_reass_pbufcount = 0, reass_mallocs = [], reass_actions = []\<rparr>"

end
