(* ===== verification/Ip4_Reass.thy ===== *)
theory Ip4_Reass
  imports Ip4_Frag
begin

text \<open>
  The reassembly queue: its invariant, that every operation keeps it and that no assertion fails, and the
  accounting of the queued pbufs.
\<close>

section \<open>The invariant\<close>

definition frag_before :: "rfrag \<Rightarrow> rfrag \<Rightarrow> bool" where
  "frag_before a b \<longleftrightarrow> fstart a < fstart b \<and> fend a \<le> fstart b"

definition frags_ok :: "rfrag list \<Rightarrow> bool" where
  "frags_ok fs \<longleftrightarrow> sorted_wrt frag_before fs \<and> (\<forall>f\<in>set fs. fstart f \<le> fend f)"

definition dgram_ok :: "ip_reassdata \<Rightarrow> bool" where
  "dgram_ok r \<longleftrightarrow> rfrags r \<noteq> [] \<and> frags_ok (rfrags r) \<and> rtimer r \<le> IP_REASS_MAXAGE"

definition dgram_clen :: "ip_reassdata \<Rightarrow> nat" where
  "dgram_clen r = (\<Sum>f\<leftarrow>rfrags r. unat (rclen f))"

definition dgram_key :: "ip_hdr \<Rightarrow> u32 \<times> u32 \<times> u16" where
  "dgram_key h = (ip_src h, ip_dest h, ip_id h)"

definition queued_clen :: "reass \<Rightarrow> nat" where
  "queued_clen s = (\<Sum>r\<leftarrow>reassdatagrams s. dgram_clen r)"

definition reass_ok :: "reass \<Rightarrow> bool" where
  "reass_ok s \<longleftrightarrow> (\<forall>r\<in>set (reassdatagrams s). dgram_ok r)
     \<and> distinct (map (dgram_key \<circ> iphdr) (reassdatagrams s))
     \<and> unat (ip_reass_pbufcount s) = queued_clen s \<and> queued_clen s \<le> IP_REASS_MAX_PBUFS"

definition freed_clen :: "reass \<Rightarrow> nat" where
  "freed_clen s = (\<Sum>a\<leftarrow>reass_actions s. case a of Freed_Chain n \<Rightarrow> unat n | Time_Exceeded _ _ \<Rightarrow> 0)"

lemma match_key: "IP_ADDRESSES_AND_ID_MATCH a b \<longleftrightarrow> dgram_key a = dgram_key b"
  by (simp add: IP_ADDRESSES_AND_ID_MATCH_def dgram_key_def)

definition remove_at :: "nat \<Rightarrow> 'a list \<Rightarrow> 'a list" where
  "remove_at i xs = take i xs @ drop (Suc i) xs"

lemma length_remove_at [simp]: "i < length xs \<Longrightarrow> length (remove_at i xs) = length xs - 1"
  by (simp add: remove_at_def)

lemma set_remove_at: "x \<in> set (remove_at i xs) \<Longrightarrow> x \<in> set xs"
  by (auto simp: remove_at_def dest: in_set_takeD in_set_dropD)

lemma sum_remove_at:
  fixes f :: "'a \<Rightarrow> nat"
  assumes "i < length xs"
  shows "(\<Sum>x\<leftarrow>remove_at i xs. f x) + f (xs ! i) = (\<Sum>x\<leftarrow>xs. f x)"
  using arg_cong [OF id_take_nth_drop [OF assms], of "\<lambda>xs. \<Sum>x\<leftarrow>xs. f x"] by (simp add: remove_at_def)

lemma sum_update:
  fixes f :: "'a \<Rightarrow> nat"
  assumes "i < length xs"
  shows "(\<Sum>x\<leftarrow>xs[i := y]. f x) + f (xs ! i) = (\<Sum>x\<leftarrow>xs. f x) + f y"
  using arg_cong [OF id_take_nth_drop [OF assms], of "\<lambda>xs. \<Sum>x\<leftarrow>xs. f x"] assms
  by (simp add: upd_conv_take_nth_drop)

lemma distinct_remove_at:
  assumes "distinct (map f xs)" shows "distinct (map f (remove_at i xs))"
proof (cases "i < length xs")
  case True
  from assms have "distinct (map f (take i xs @ xs ! i # drop (Suc i) xs))"
    using id_take_nth_drop [OF True] by simp
  then show ?thesis by (auto simp: remove_at_def)
next
  case False with assms show ?thesis by (simp add: remove_at_def)
qed

section \<open>Dropping datagrams\<close>

lemma dequeue_eq: "ip_reass_dequeue_datagram i s = s\<lparr>reassdatagrams := remove_at i (reassdatagrams s)\<rparr>"
  by (simp add: ip_reass_dequeue_datagram_def remove_at_def)

lemma free_rfrags_eq:
  "unat n + (\<Sum>q\<leftarrow>qs. unat (rclen q)) \<le> 0xffff \<Longrightarrow>
     \<exists>m. free_rfrags qs n = Some (m, map (Freed_Chain \<circ> rclen) qs) \<and> unat m = unat n + (\<Sum>q\<leftarrow>qs. unat (rclen q))"
proof (induction qs arbitrary: n)
  case (Cons q qs)
  then have "unat (n + rclen q) = unat n + unat (rclen q)" by (simp add: unat_word_ariths)
  with Cons.prems Cons.IH [of "n + rclen q"] show ?case by (auto simp: add.assoc)
qed simp

lemma free_complete_ok:
  assumes ok: "reass_ok s" and i: "i < length (reassdatagrams s)"
  shows "\<exists>n s'. ip_reass_free_complete_datagram i s = Some (n, s') \<and> reass_ok s'
     \<and> reassdatagrams s' = remove_at i (reassdatagrams s) \<and> unat n = dgram_clen (reassdatagrams s ! i)
     \<and> queued_clen s' + unat n = queued_clen s \<and> freed_clen s' = freed_clen s + unat n"
proof -
  let ?r = "reassdatagrams s ! i"
  have r: "?r \<in> set (reassdatagrams s)" using i by simp
  with ok obtain q qs where q: "rfrags ?r = q # qs" by (auto simp: reass_ok_def dgram_ok_def neq_Nil_conv)
  have sum: "(\<Sum>r\<leftarrow>remove_at i (reassdatagrams s). dgram_clen r) + dgram_clen ?r = queued_clen s"
    using sum_remove_at [OF i, of dgram_clen] by (simp add: queued_clen_def)
  have c: "unat (ip_reass_pbufcount s) = queued_clen s" "queued_clen s \<le> 10" using ok by (simp_all add: reass_ok_def)
  with sum have "(\<Sum>f\<leftarrow>rfrags ?r. unat (rclen f)) \<le> 10" by (simp add: dgram_clen_def)
  with free_rfrags_eq [of 0 "rfrags ?r"]
  obtain m where m: "free_rfrags (rfrags ?r) 0 = Some (m, map (Freed_Chain \<circ> rclen) (rfrags ?r))" "unat m = dgram_clen ?r"
    by (auto simp: dgram_clen_def)
  have le: "m \<le> ip_reass_pbufcount s" using m sum c by (simp add: word_le_nat_alt)
  then have "unat (ip_reass_pbufcount s - m) = queued_clen s - dgram_clen ?r" by (simp add: unat_sub m c)
  moreover have "freed_clen (s\<lparr>reass_actions := reass_actions s @ xs @ map (Freed_Chain \<circ> rclen) (rfrags ?r)\<rparr>) =
      freed_clen s + dgram_clen ?r" if "xs \<in> {[], [Time_Exceeded (iphdr ?r) (rdata q)]}" for xs
    using that by (auto simp: freed_clen_def dgram_clen_def comp_def)
  ultimately show ?thesis using ok m(2) le sum i q m(1) [unfolded q]
    by (auto simp: ip_reass_free_complete_datagram_def Let_def q reass_ok_def dequeue_eq freed_clen_def
        queued_clen_def distinct_remove_at simp del: free_rfrags.simps map_map list.map dest: set_remove_at)
qed

lemma oldest_scan_bounds:
  "oldest_scan hdr i rs oldest others = (oldest', others') \<Longrightarrow>
     (\<forall>j t. oldest = Some (j, t) \<longrightarrow> j < i) \<Longrightarrow>
     (\<forall>j t. oldest' = Some (j, t) \<longrightarrow> j < i + length rs) \<and> others \<le> others'
     \<and> (others' > others \<longrightarrow> oldest' \<noteq> None) \<and> (oldest \<noteq> None \<longrightarrow> oldest' \<noteq> None)"
proof (induction rs arbitrary: i oldest others)
  case (Cons r rs)
  show ?case
  proof (cases "IP_ADDRESSES_AND_ID_MATCH (iphdr r) hdr")
    case True with Cons.prems Cons.IH [of "Suc i"] show ?thesis by fastforce
  next
    case False
    let ?o = "case oldest of None \<Rightarrow> Some (i, rtimer r) | Some (j, t) \<Rightarrow> if rtimer r \<le> t then Some (i, rtimer r) else oldest"
    have "?o \<noteq> None" "\<forall>j t. ?o = Some (j, t) \<longrightarrow> j < Suc i"
      using Cons.prems(2) by (fastforce split: option.splits if_splits)+
    with Cons.IH [of "Suc i" ?o "Suc others"] Cons.prems(1) False show ?thesis by fastforce
  qed
qed auto

text \<open>What dropping old datagrams does: the invariant stays, some datagrams go, and the counts agree.\<close>

definition dropped_to :: "reass \<Rightarrow> nat \<Rightarrow> reass \<Rightarrow> bool" where
  "dropped_to s n s' \<longleftrightarrow> reass_ok s' \<and> set (reassdatagrams s') \<subseteq> set (reassdatagrams s)
     \<and> queued_clen s' + n = queued_clen s \<and> freed_clen s' = freed_clen s + n"

lemma remove_oldest_loop_ok:
  "reass_ok s \<Longrightarrow> \<exists>n s'. remove_oldest_loop hdr needed freed s = Some (freed + n, s') \<and> dropped_to s n s'"
proof (induction "length (reassdatagrams s)" arbitrary: s freed rule: less_induct)
  case less
  obtain oldest others where sc: "oldest_scan hdr 0 (reassdatagrams s) None 0 = (oldest, others)" by fastforce
  note b = oldest_scan_bounds [OF sc, simplified]
  show ?case
  proof (cases oldest)
    case None
    with b have "others = 0" by auto
    with None sc less.prems show ?thesis
      by (subst remove_oldest_loop.simps) (auto simp: dropped_to_def)
  next
    case (Some it)
    obtain i t where it: "it = (i, t)" by fastforce
    with b Some have i: "i < length (reassdatagrams s)" by auto
    from free_complete_ok [OF less.prems i] obtain n s' where
      s': "ip_reass_free_complete_datagram i s = Some (n, s')" "reass_ok s'"
        "reassdatagrams s' = remove_at i (reassdatagrams s)" "queued_clen s' + unat n = queued_clen s"
        "freed_clen s' = freed_clen s + unat n" by auto
    have "length (reassdatagrams s') < length (reassdatagrams s)" using s'(3) i by simp
    from less.hyps [OF this s'(2)] obtain m s'' where
      "remove_oldest_loop hdr needed (freed + unat n) s' = Some (freed + unat n + m, s'')" "dropped_to s' m s''" by blast
    with s' Some sc it show ?thesis
      by (subst remove_oldest_loop.simps)
        (auto simp: dropped_to_def add.assoc subset_iff intro: exI [of _ "unat n + m"] dest: set_remove_at)
  qed
qed

lemma remove_oldest_ok:
  "reass_ok s \<Longrightarrow> \<exists>n s'. ip_reass_remove_oldest_datagram hdr needed s = Some (n, s') \<and> dropped_to s n s'"
  using remove_oldest_loop_ok [of s hdr needed 0] by (simp add: ip_reass_remove_oldest_datagram_def)

section \<open>Chaining\<close>

fun gapless :: "rfrag list \<Rightarrow> bool" where
  "gapless (a # b # fs) = (fend a = fstart b \<and> gapless (b # fs))"
| "gapless _ = True"

text \<open>The reference: the new fragment goes to its place when it lies clear of every queued one.\<close>

definition frag_clear :: "rfrag \<Rightarrow> rfrag list \<Rightarrow> bool" where
  "frag_clear new fs \<longleftrightarrow> (\<forall>q\<in>set fs. frag_before q new \<or> frag_before new q)"

definition frags_upto :: "rfrag \<Rightarrow> rfrag list \<Rightarrow> rfrag list" where
  "frags_upto new fs = takeWhile (\<lambda>q. fstart q < fstart new) fs"

definition frags_behind :: "rfrag \<Rightarrow> rfrag list \<Rightarrow> rfrag list" where
  "frags_behind new fs = dropWhile (\<lambda>q. fstart q < fstart new) fs"

definition frag_insert :: "rfrag \<Rightarrow> rfrag list \<Rightarrow> rfrag list" where
  "frag_insert new fs = frags_upto new fs @ new # frags_behind new fs"

lemmas frag_insert_defs = frag_clear_def frags_upto_def frags_behind_def frag_insert_def

lemma frag_before_trans: "frag_before a b \<Longrightarrow> fstart b \<le> fend b \<Longrightarrow> frag_before b c \<Longrightarrow> frag_before a c"
  by (auto simp: frag_before_def)

lemma gapless_Cons: "gapless (a # fs) \<longleftrightarrow> (case fs of [] \<Rightarrow> True | b # _ \<Rightarrow> fend a = fstart b \<and> gapless fs)"
  by (cases fs) auto

lemma gapless_split: "gapless (xs @ y # zs) \<longleftrightarrow> gapless (xs @ [y]) \<and> gapless (y # zs)"
  by (induction xs rule: gapless.induct) (auto simp: gapless_Cons split: list.splits)

lemma no_holes_after_gapless: "no_holes_after pr fs = gapless (pr # fs)"
  by (induction fs arbitrary: pr) auto

lemma chain_walk_eq:
  "\<lbrakk>frags_ok fs; fstart new \<le> fend new;
    \<forall>pr. prev = Some pr \<longrightarrow> frag_before pr new\<rbrakk> \<Longrightarrow>
   chain_walk new prev valid fs =
     Some (if frag_clear new fs
           then Some (frag_insert new fs,
                  valid \<and> gapless ((case prev of None \<Rightarrow> [] | Some pr \<Rightarrow> [pr]) @ frags_upto new fs @ [new]), frags_behind new fs)
           else None)"
proof (induction fs arbitrary: prev valid)
  case Nil
  then show ?case by (cases prev) (auto simp: frag_insert_defs frag_before_def)
next
  case (Cons q qs)
  have qs: "frags_ok qs" "\<forall>x\<in>set qs. frag_before q x" "fstart q \<le> fend q"
    using Cons.prems(1) by (auto simp: frags_ok_def)
  consider (ins) "fstart new < fstart q" | (same) "fstart new = fstart q" | (over) "fstart q < fstart new" "fstart new < fend q"
    | (go) "fstart q < fstart new" "fend q \<le> fstart new" by fastforce
  then show ?case
  proof cases
    case ins
    then have "frag_clear new (q # qs) \<longleftrightarrow> fend new \<le> fstart q"
      using qs by (auto simp: frag_clear_def frag_before_def)
    moreover have "\<not> fstart new < fend pr" if "prev = Some pr" for pr using Cons.prems(3) that by (auto simp: frag_before_def)
    ultimately show ?thesis using ins by (auto simp: frag_insert_defs split: option.splits)
  next
    case go
    have "frag_before q new" using go by (simp add: frag_before_def)
    with Cons.IH [OF qs(1) Cons.prems(2), of "Some q"] go show ?thesis
      by (cases prev) (auto simp: frag_insert_defs)
  qed (auto simp: frag_clear_def frag_before_def)
qed

lemma frags_upto_behind: "frags_upto new fs @ frags_behind new fs = fs"
  by (simp add: frags_upto_def frags_behind_def)

lemma frag_insert_ok:
  assumes "frags_ok fs" "frag_clear new fs" "fstart new \<le> fend new"
  shows "frags_ok (frag_insert new fs)"
proof -
  note fs = frags_upto_behind [of new fs]
  have s: "sorted_wrt frag_before (frags_upto new fs @ frags_behind new fs)" using assms(1) fs by (simp add: frags_ok_def)
  have up: "\<forall>q\<in>set (frags_upto new fs). frag_before q new"
    using assms(2) by (auto simp: frags_upto_def frag_clear_def frag_before_def dest!: set_takeWhileD)
  have down: "\<forall>q\<in>set (frags_behind new fs). frag_before new q"
  proof (cases "frags_behind new fs")
    case (Cons q qs)
    then have q: "\<not> fstart q < fstart new" by (metis dropWhile_eq_Cons_conv frags_behind_def)
    have "q \<in> set fs" using Cons by (metis frags_behind_def list.set_intros(1) set_dropWhileD)
    with assms q have b: "frag_before new q" "fstart q \<le> fend q"
      by (auto simp: frag_clear_def frag_before_def frags_ok_def)
    moreover have "\<forall>x\<in>set qs. frag_before q x" using s Cons by (simp add: sorted_wrt_append)
    ultimately show ?thesis using Cons frag_before_trans by auto
  qed simp
  have "\<forall>q\<in>set (frags_upto new fs @ frags_behind new fs). fstart q \<le> fend q"
    using assms(1) fs by (simp add: frags_ok_def)
  with s up down assms(3) show ?thesis
    unfolding frags_ok_def frag_insert_def by (auto simp: sorted_wrt_append)
qed

lemma set_frag_insert [simp]: "set (frag_insert new fs) = insert new (set fs)"
  using arg_cong [OF frags_upto_behind, of set] by (simp add: frag_insert_def)

lemma sum_frag_insert:
  fixes f :: "rfrag \<Rightarrow> nat"
  shows "(\<Sum>q\<leftarrow>frag_insert new fs. f q) = f new + (\<Sum>q\<leftarrow>fs. f q)"
  using arg_cong [OF frags_upto_behind, of "\<lambda>xs. \<Sum>x\<leftarrow>xs. f x"] by (simp add: frag_insert_def)

section \<open>One fragment\<close>

abbreviation frag_len :: "frag \<Rightarrow> u16" where
  "frag_len p \<equiv> lwip_htons (ip_len (fhdr p)) - IP_HLEN"

definition rfrag_of :: "frag \<Rightarrow> rfrag" where
  "rfrag_of p = \<lparr>fstart = IPH_OFFSET_BYTES (fhdr p), fend = IPH_OFFSET_BYTES (fhdr p) + frag_len p,
     rdata = fdata p, rlens = flens p\<rparr>"

abbreviation is_last_frag :: "frag \<Rightarrow> bool" where
  "is_last_frag p \<equiv> ip_offset (fhdr p) AND lwip_htons IP_MF = 0"

text \<open>A fragment that \<^verbatim>\<open>ip4_input\<close> hands over: an offset or the flag \<open>MF\<close>.\<close>

definition real_fragment :: "frag \<Rightarrow> bool" where
  "real_fragment p \<longleftrightarrow> IPH_OFFSET_BYTES (fhdr p) \<noteq> 0 \<or> \<not> is_last_frag p"

definition frag_header_ok :: "frag \<Rightarrow> bool" where
  "frag_header_ok p \<longleftrightarrow> IPH_HL_BYTES (fhdr p) = 20 \<and> lwip_htons (ip_len (fhdr p)) \<ge> 20"

text \<open>When the queue of a datagram takes the fragment, and when that completes it.\<close>

definition frag_fits :: "frag \<Rightarrow> rfrag list \<Rightarrow> bool" where
  "frag_fits p fs \<longleftrightarrow> fstart (rfrag_of p) \<le> fend (rfrag_of p) \<and> frag_clear (rfrag_of p) fs"

definition frags_complete :: "rfrag list \<Rightarrow> bool" where
  "frags_complete fs \<longleftrightarrow> fs \<noteq> [] \<and> fstart (hd fs) = 0 \<and> gapless fs"

definition dgram_fresh :: "ip_reassdata \<Rightarrow> bool" where
  "dgram_fresh r \<longleftrightarrow> rfrags r = [] \<longrightarrow> rflags r = 0"

lemma frag_insert_single: "frag_insert new fs = [q] \<Longrightarrow> fs = [] \<and> q = new"
  using frags_upto_behind [of new fs]
  by (auto simp: frag_insert_def append_eq_Cons_conv)

lemma chain_frag_eq:
  assumes ok: "frags_ok (rfrags r)" and hdr: "frag_header_ok p" and real: "real_fragment p" and fresh: "dgram_fresh r"
  shows "ip_reass_chain_frag_into_datagram_and_validate r p (is_last_frag p) =
    (if frag_fits p (rfrags r)
     then let fs = frag_insert (rfrag_of p) (rfrags r)
          in Some (if (is_last_frag p \<or> rflags r AND IP_REASS_FLAG_LASTFRAG \<noteq> 0) \<and> frags_complete fs
                   then TELEGRAM_FINISHED else PBUF_QUEUED, r\<lparr>rfrags := fs\<rparr>)
     else Some (PBUF_DROPPED, r))"
proof -
  let ?new = "rfrag_of p" and ?fs = "frag_insert (rfrag_of p) (rfrags r)"
  have walk: "fstart ?new \<le> fend ?new \<Longrightarrow> chain_walk ?new None True (rfrags r) =
      Some (if frag_clear ?new (rfrags r)
            then Some (?fs, gapless (frags_upto ?new (rfrags r) @ [?new]), frags_behind ?new (rfrags r)) else None)"
    using chain_walk_eq [OF ok, of ?new None True] by simp
  have gap: "gapless ?fs \<longleftrightarrow> gapless (frags_upto ?new (rfrags r) @ [?new]) \<and> no_holes_after ?new (frags_behind ?new (rfrags r))"
    unfolding frag_insert_def no_holes_after_gapless by (rule gapless_split)
  have ne: "?fs \<noteq> []" by (simp add: frag_insert_def)
  have two: "tl ?fs \<noteq> []" if "is_last_frag p \<or> rflags r AND 1 \<noteq> 0" "fstart (hd ?fs) = 0"
  proof
    assume "tl ?fs = []"
    with ne have "?fs = [hd ?fs]" by (metis list.collapse)
    from frag_insert_single [OF this] have "rfrags r = []" "hd ?fs = ?new" by auto
    with that real fresh show False by (auto simp: real_fragment_def rfrag_of_def dgram_fresh_def)
  qed
  have hl: "ucast (IPH_HL_BYTES (fhdr p)) = (20 :: u16)" "\<not> 20 > lwip_htons (ip_len (fhdr p))"
    using hdr by (auto simp: frag_header_ok_def)
  have eq: "ip_reass_chain_frag_into_datagram_and_validate r p (is_last_frag p) =
    (if fend ?new < fstart ?new then Some (PBUF_DROPPED, r)
     else do {
       w \<leftarrow> chain_walk ?new None True (rfrags r);
       (case w of
          None \<Rightarrow> Some (PBUF_DROPPED, r)
        | Some (fs, valid, rest) \<Rightarrow>
            if is_last_frag p \<or> rflags r AND 1 \<noteq> 0 then do {
              let valid = (valid \<and> fs \<noteq> [] \<and> fstart (hd fs) = 0 \<and> no_holes_after ?new rest);
              LWIP_ASSERT (valid \<longrightarrow> tl fs \<noteq> []);
              Some (if valid then TELEGRAM_FINISHED else PBUF_QUEUED, r\<lparr>rfrags := fs\<rparr>) }
            else Some (PBUF_QUEUED, r\<lparr>rfrags := fs\<rparr>)) })"
    unfolding ip_reass_chain_frag_into_datagram_and_validate_def Let_def hl rfrag_of_def using hl(2) by simp
  consider (over) "fend ?new < fstart ?new" | (hit) "fstart ?new \<le> fend ?new" "\<not> frag_clear ?new (rfrags r)"
    | (fit) "fstart ?new \<le> fend ?new" "frag_clear ?new (rfrags r)" by fastforce
  then show ?thesis
  proof cases
    case fit
    have "ip_reass_chain_frag_into_datagram_and_validate r p (is_last_frag p) =
      Some (if (is_last_frag p \<or> rflags r AND 1 \<noteq> 0) \<and> frags_complete ?fs then TELEGRAM_FINISHED else PBUF_QUEUED, r\<lparr>rfrags := ?fs\<rparr>)"
      using fit two ne by (auto simp: eq walk frags_complete_def gap Let_def)
    with fit show ?thesis by (simp add: frag_fits_def Let_def)
  qed (auto simp: eq walk frag_fits_def)
qed

definition frag_accepted :: "frag \<Rightarrow> rfrag list \<Rightarrow> bool" where
  "frag_accepted p fs \<longleftrightarrow> frag_fits p fs \<and> (is_last_frag p \<longrightarrow> fend (rfrag_of p) \<le> 0xFFFF - IP_HLEN)"

definition dgram_add :: "frag \<Rightarrow> ip_reassdata \<Rightarrow> ip_reassdata" where
  "dgram_add p r = (let r = r\<lparr>rfrags := frag_insert (rfrag_of p) (rfrags r)\<rparr> in
     if is_last_frag p then r\<lparr>datagram_len := fend (rfrag_of p), rflags := rflags r OR IP_REASS_FLAG_LASTFRAG\<rparr> else r)"

definition dgram_done :: "ip_reassdata \<Rightarrow> bool" where
  "dgram_done r \<longleftrightarrow> rflags r AND IP_REASS_FLAG_LASTFRAG \<noteq> 0 \<and> frags_complete (rfrags r)"

lemma dgram_add_simps [simp]:
  "rfrags (dgram_add p r) = frag_insert (rfrag_of p) (rfrags r)" "iphdr (dgram_add p r) = iphdr r"
  "rtimer (dgram_add p r) = rtimer r"
  "rflags (dgram_add p r) AND 1 \<noteq> 0 \<longleftrightarrow> is_last_frag p \<or> rflags r AND 1 \<noteq> 0"
  by (auto simp: dgram_add_def Let_def bit.conj_disj_distrib2)

lemma reass_insert_eq:
  assumes "frags_ok (rfrags (reassdatagrams s ! i))" "frag_header_ok p" "real_fragment p" "dgram_fresh (reassdatagrams s ! i)"
  shows "reass_insert i p (IPH_OFFSET_BYTES (fhdr p)) (frag_len p) s =
    (let r = dgram_add p (reassdatagrams s ! i);
         s' = s\<lparr>reassdatagrams := (reassdatagrams s)[i := r], ip_reass_pbufcount := ip_reass_pbufcount s + fclen p\<rparr>
     in if frag_accepted p (rfrags (reassdatagrams s ! i))
        then if dgram_done r then reass_finish i s' else Some (None, s')
        else reass_drop_ipr i p s)"
proof -
  let ?r = "reassdatagrams s ! i"
  have e: "IPH_OFFSET_BYTES (fhdr p) = fstart (rfrag_of p)" "fstart (rfrag_of p) + frag_len p = fend (rfrag_of p)"
    by (simp_all add: rfrag_of_def)
  show ?thesis
  proof (cases "is_last_frag p \<and> (fend (rfrag_of p) < fstart (rfrag_of p) \<or> fend (rfrag_of p) > 0xFFFF - IP_HLEN)")
    case True
    then have "\<not> frag_accepted p (rfrags ?r)" by (auto simp: frag_accepted_def frag_fits_def)
    with True show ?thesis by (simp add: reass_insert_def e Let_def)
  next
    case False
    then have acc: "frag_accepted p (rfrags ?r) \<longleftrightarrow> frag_fits p (rfrags ?r)"
      by (auto simp: frag_accepted_def)
    show ?thesis
    proof (cases "frag_fits p (rfrags ?r)")
      case True
      with False show ?thesis unfolding reass_insert_def acc Let_def e chain_frag_eq [OF assms]
        by (auto simp: dgram_add_def dgram_done_def Let_def bit.conj_disj_distrib2 split del: if_split)
          (auto simp: Let_def dgram_add_def)
    next
      case f: False
      with False show ?thesis unfolding reass_insert_def acc Let_def e chain_frag_eq [OF assms] by auto
    qed
  qed
qed

text \<open>During a call, the entry that was just made has no fragment yet.\<close>

definition reass_open :: "nat \<Rightarrow> reass \<Rightarrow> bool" where
  "reass_open i s \<longleftrightarrow> i < length (reassdatagrams s)
     \<and> (\<forall>r\<in>set (remove_at i (reassdatagrams s)). dgram_ok r)
     \<and> frags_ok (rfrags (reassdatagrams s ! i)) \<and> rtimer (reassdatagrams s ! i) \<le> IP_REASS_MAXAGE
     \<and> (rfrags (reassdatagrams s ! i) = [] \<longrightarrow> i = 0 \<and> rflags (reassdatagrams s ! i) = 0)
     \<and> distinct (map (dgram_key \<circ> iphdr) (reassdatagrams s))
     \<and> unat (ip_reass_pbufcount s) = queued_clen s"

lemma in_set_update_remove: "i < length xs \<Longrightarrow> x \<in> set (xs[i := y]) \<longleftrightarrow> x = y \<or> x \<in> set (remove_at i xs)"
  by (auto simp: upd_conv_take_nth_drop remove_at_def)

lemma remove_at_update [simp]: "remove_at i (xs[i := y]) = remove_at i xs"
  by (simp add: remove_at_def)

lemma all_remove_nth: "i < length xs \<Longrightarrow> (\<forall>x\<in>set xs. P x) \<longleftrightarrow> P (xs ! i) \<and> (\<forall>x\<in>set (remove_at i xs). P x)"
  using in_set_update_remove [of i xs _ "xs ! i"] by auto

lemma map_update_same: "f y = f (xs ! i) \<Longrightarrow> map f (xs[i := y]) = map f xs"
  by (metis list_update_id map_update)

text \<open>The pbufs that a call returns to its caller.\<close>

definition ret_clen :: "ip_dgram option \<Rightarrow> nat" where
  "ret_clen r = (case r of None \<Rightarrow> 0 | Some (_, _, ls) \<Rightarrow> unat (of_nat (length ls) :: u16))"

lemma rclen_rfrag_of [simp]: "rclen (rfrag_of p) = fclen p"
  by (simp add: rfrag_of_def rclen_def fclen_def)

lemma clen_chained: "of_nat (length (chained_lens (map rlens fs))) = (\<Sum>f\<leftarrow>fs. rclen f)"
proof -
  have "length (hide_header ls) = length ls" for ls by (simp add: hide_header_def split: list.splits)
  then have "length (chained_lens (map rlens fs)) = (\<Sum>f\<leftarrow>fs. length (rlens f))"
    by (simp add: chained_lens_def length_concat comp_def split: list.splits) (auto simp: comp_def)
  moreover have "of_nat (\<Sum>f\<leftarrow>fs. length (rlens f)) = (\<Sum>f\<leftarrow>fs. rclen f)" by (induction fs) (simp_all add: rclen_def)
  ultimately show ?thesis by simp
qed

lemma freed_drop: "freed_clen (s\<lparr>reass_actions := reass_actions s @ [Freed_Chain n]\<rparr>) = freed_clen s + unat n"
  by (simp add: freed_clen_def)

lemma reass_drop_ok: "reass_ok s \<Longrightarrow> reass_drop p s = (res, s')
   \<Longrightarrow> reass_ok s' \<and> res = None \<and> queued_clen s' = queued_clen s \<and> freed_clen s' = freed_clen s + unat (fclen p)"
  by (auto simp: reass_drop_def reass_ok_def queued_clen_def freed_clen_def)

lemma queued_remove: "i < length (reassdatagrams s) \<Longrightarrow>
   queued_clen (s\<lparr>reassdatagrams := remove_at i (reassdatagrams s)\<rparr>) + dgram_clen (reassdatagrams s ! i) = queued_clen s"
  using sum_remove_at [of i "reassdatagrams s" dgram_clen] by (simp add: queued_clen_def)

lemma queued_update: "i < length (reassdatagrams s) \<Longrightarrow>
   queued_clen (s\<lparr>reassdatagrams := (reassdatagrams s)[i := r]\<rparr>) + dgram_clen (reassdatagrams s ! i) = queued_clen s + dgram_clen r"
  using sum_update [of i "reassdatagrams s" dgram_clen] by (simp add: queued_clen_def)

lemma queued_more [simp]:
  "queued_clen (s\<lparr>ip_reass_pbufcount := n\<rparr>) = queued_clen s" "freed_clen (s\<lparr>ip_reass_pbufcount := n\<rparr>) = freed_clen s"
  "freed_clen (s\<lparr>reassdatagrams := rs\<rparr>) = freed_clen s" "queued_clen (s\<lparr>reass_actions := acts\<rparr>) = queued_clen s"
  "freed_clen (s\<lparr>reass_mallocs := ms\<rparr>) = freed_clen s" "queued_clen (s\<lparr>reass_mallocs := ms\<rparr>) = queued_clen s"
  by (simp_all add: queued_clen_def freed_clen_def)

lemma reass_open_ok: "reass_open i s \<Longrightarrow> rfrags (reassdatagrams s ! i) \<noteq> [] \<Longrightarrow> queued_clen s \<le> 10 \<Longrightarrow> reass_ok s"
  using all_remove_nth [of i "reassdatagrams s" dgram_ok] by (auto simp: reass_open_def reass_ok_def dgram_ok_def)

lemma reass_drop_ipr_ok:
  assumes "reass_open i s" "queued_clen s \<le> 10"
  shows "\<exists>s'. reass_drop_ipr i p s = Some (None, s') \<and> reass_ok s' \<and> queued_clen s' = queued_clen s
     \<and> freed_clen s' = freed_clen s + unat (fclen p)"
proof (cases "rfrags (reassdatagrams s ! i) = []")
  case True
  let ?s = "s\<lparr>reassdatagrams := remove_at i (reassdatagrams s)\<rparr>"
  have "queued_clen ?s = queued_clen s"
    using queued_remove [of i s] assms True by (auto simp: reass_open_def dgram_clen_def)
  with assms True have "reass_ok ?s" by (simp add: reass_open_def reass_ok_def distinct_remove_at)
  with True \<open>queued_clen ?s = queued_clen s\<close> assms(1) show ?thesis
    using reass_drop_ok [of ?s p] by (cases "reass_drop p ?s") (auto simp: reass_drop_ipr_def dequeue_eq reass_open_def)
next
  case False
  with reass_drop_ok [OF reass_open_ok [OF assms(1) False assms(2)], of p] show ?thesis
    by (cases "reass_drop p s") (auto simp: reass_drop_ipr_def)
qed

lemma reass_finish_ok:
  assumes "reass_open i s" "rfrags (reassdatagrams s ! i) \<noteq> []" "queued_clen s \<le> 10"
  shows "\<exists>res s'. reass_finish i s = Some (Some res, s') \<and> reass_ok s' \<and> queued_clen s' + ret_clen (Some res) = queued_clen s
     \<and> freed_clen s' = freed_clen s"
proof -
  let ?r = "reassdatagrams s ! i"
  have i: "i < length (reassdatagrams s)" using assms(1) by (simp add: reass_open_def)
  note q = queued_remove [OF i]
  have "unat (\<Sum>f\<leftarrow>fs. rclen f) = (\<Sum>f\<leftarrow>fs. unat (rclen f))" if "(\<Sum>f\<leftarrow>fs. unat (rclen f)) \<le> 10" for fs
    using that by (induction fs) (auto simp: unat_word_ariths)
  from this [of "rfrags ?r"] q assms(3) have n: "unat (\<Sum>f\<leftarrow>rfrags ?r. rclen f) = dgram_clen ?r"
    by (simp add: dgram_clen_def)
  have le: "(\<Sum>f\<leftarrow>rfrags ?r. rclen f) \<le> ip_reass_pbufcount s"
    using n q assms(1) by (simp add: word_le_nat_alt reass_open_def)
  have "unat (ip_reass_pbufcount s - (\<Sum>f\<leftarrow>rfrags ?r. rclen f)) = queued_clen (s\<lparr>reassdatagrams := remove_at i (reassdatagrams s)\<rparr>)"
    using le n q assms(1) by (simp add: unat_sub reass_open_def)
  with n le q assms show ?thesis
    by (auto simp: reass_finish_def Let_def dequeue_eq ret_clen_def clen_chained reass_ok_def reass_open_def distinct_remove_at)
qed

lemma reass_insert_ok:
  assumes op: "reass_open i s" and cap: "queued_clen s + unat (fclen p) \<le> 10" and p: "frag_header_ok p" "real_fragment p"
  shows "\<exists>res s'. reass_insert i p (IPH_OFFSET_BYTES (fhdr p)) (frag_len p) s = Some (res, s') \<and> reass_ok s'
     \<and> queued_clen s' + freed_clen s' + ret_clen res = queued_clen s + freed_clen s + unat (fclen p)"
proof (cases "frag_accepted p (rfrags (reassdatagrams s ! i))")
  case False
  with reass_insert_eq [of s i p] reass_drop_ipr_ok [OF op, of p] assms show ?thesis
    by (fastforce simp: reass_open_def dgram_fresh_def ret_clen_def)
next
  case True
  let ?r = "dgram_add p (reassdatagrams s ! i)"
  let ?s = "s\<lparr>reassdatagrams := (reassdatagrams s)[i := ?r], ip_reass_pbufcount := ip_reass_pbufcount s + fclen p\<rparr>"
  have i: "i < length (reassdatagrams s)" using op by (simp add: reass_open_def)
  have q: "queued_clen ?s = queued_clen s + unat (fclen p)"
    using queued_update [OF i, of ?r] by (simp add: dgram_clen_def sum_frag_insert)
  have ne: "rfrags ?r \<noteq> []" by (simp add: frag_insert_def)
  have "unat (ip_reass_pbufcount s + fclen p) = queued_clen s + unat (fclen p)"
    using cap op by (simp add: unat_word_ariths reass_open_def)
  moreover have "map (dgram_key \<circ> iphdr) ((reassdatagrams s)[i := ?r]) = map (dgram_key \<circ> iphdr) (reassdatagrams s)"
    by (rule map_update_same) simp
  moreover have "frags_ok (rfrags ?r)" using True op
    by (auto simp: frag_accepted_def frag_fits_def reass_open_def intro: frag_insert_ok)
  ultimately have op': "reass_open i ?s" using op ne q by (simp add: reass_open_def del: map_map)
  have eq: "reass_insert i p (IPH_OFFSET_BYTES (fhdr p)) (frag_len p) s = (if dgram_done ?r then reass_finish i ?s else Some (None, ?s))"
    using True op p by (subst reass_insert_eq) (auto simp: reass_open_def dgram_fresh_def Let_def)
  from reass_finish_ok [OF op'] reass_open_ok [OF op'] ne i q cap show ?thesis unfolding eq
    by (cases "dgram_done ?r") (fastforce simp: ret_clen_def)+
qed

section \<open>The whole call\<close>

lemma find_datagram_None: "find_datagram hdr rs = None \<longleftrightarrow> dgram_key hdr \<notin> set (map (dgram_key \<circ> iphdr) rs)"
  by (induction rs) (auto simp: find_datagram_def match_key Let_def split: if_splits)

lemma find_datagram_Some: "find_datagram hdr rs = Some i \<Longrightarrow> i < length rs \<and> dgram_key (iphdr (rs ! i)) = dgram_key hdr"
  using nth_length_takeWhile [of "\<lambda>r. \<not> IP_ADDRESSES_AND_ID_MATCH (iphdr r) hdr" rs]
  by (auto simp: find_datagram_def Let_def match_key split: if_splits)

lemma reass_malloc_ok: "reass_malloc s = (b, s') \<Longrightarrow> dropped_to s0 n s \<Longrightarrow> dropped_to s0 n s'"
  by (auto simp: reass_malloc_def dropped_to_def reass_ok_def split: list.splits)

lemma dropped_refl: "reass_ok s \<Longrightarrow> dropped_to s 0 s"
  by (simp add: dropped_to_def)

lemma enqueue_ok:
  assumes ok: "reass_ok s" and new: "dgram_key hdr \<notin> set (map (dgram_key \<circ> iphdr) (reassdatagrams s))"
  shows "\<exists>b s'. ip_reass_enqueue_new_datagram hdr clen s = Some (b, s') \<and> (if b then reass_open 0 s' else reass_ok s')
     \<and> queued_clen s' \<le> queued_clen s \<and> queued_clen s' + freed_clen s' = queued_clen s + freed_clen s"
proof -
  have "\<exists>n b s'. (case reass_malloc s of (b, s1) \<Rightarrow>
      (if b then Some (True, s1)
       else do { (n, s2) \<leftarrow> ip_reass_remove_oldest_datagram hdr clen s1; Some (if n \<ge> clen then reass_malloc s2 else (False, s2)) }))
      = Some (b, s') \<and> dropped_to s n s'"
  proof (cases "reass_malloc s")
    case (Pair b s1)
    have d1: "dropped_to s 0 s1" using reass_malloc_ok [OF Pair dropped_refl] ok by simp
    then have "reass_ok s1" by (simp add: dropped_to_def)
    from remove_oldest_ok [OF this] obtain n s2 where
      r: "ip_reass_remove_oldest_datagram hdr clen s1 = Some (n, s2)" "dropped_to s1 n s2" by blast
    with d1 have d2: "dropped_to s n s2" by (auto simp: dropped_to_def)
    obtain b3 s3 where m3: "reass_malloc s2 = (b3, s3)" by fastforce
    with reass_malloc_ok [OF m3 d2] d1 d2 r Pair show ?thesis by (cases b) auto
  qed
  then obtain n b s' where e: "ip_reass_enqueue_new_datagram hdr clen s =
      (if \<not> b then Some (False, s')
       else Some (True, s'\<lparr>reassdatagrams := \<lparr>rfrags = [], iphdr = hdr, datagram_len = 0, rflags = 0, rtimer = 15\<rparr> # reassdatagrams s'\<rparr>))"
      and d: "dropped_to s n s'"
    by (auto simp: ip_reass_enqueue_new_datagram_def split: prod.splits)
  have "dgram_key hdr \<notin> (dgram_key \<circ> iphdr) ` set (reassdatagrams s')"
    using new d by (auto simp: dropped_to_def)
  with d show ?thesis unfolding e
    by (auto simp: dropped_to_def reass_open_def reass_ok_def remove_at_def frags_ok_def queued_clen_def dgram_clen_def)
qed

lemma ip4_reass_eq:
  "ip4_reass p s = (if frag_header_ok p then do {
       (room, s) \<leftarrow> reass_room p s;
       if \<not> room then Some (reass_drop p s) else reass_place p (IPH_OFFSET_BYTES (fhdr p)) (frag_len p) s }
     else Some (reass_drop p s))"
proof -
  have "(ucast (IPH_HL_BYTES (fhdr p)) :: u16) = 20 \<longleftrightarrow> IPH_HL_BYTES (fhdr p) = 20"
    by (auto simp: word_unat_eq_iff unat_ucast_up)
  then show ?thesis
    by (cases "IPH_HL_BYTES (fhdr p) = 20") (auto simp: ip4_reass_def frag_header_ok_def Let_def not_le cong: if_cong)
qed

lemma reass_room_ok:
  assumes "reass_ok s"
  shows "\<exists>room s' n. reass_room p s = Some (room, s') \<and> dropped_to s n s' \<and> (room \<longrightarrow> queued_clen s' + unat (fclen p) \<le> 10)"
  using remove_oldest_ok [OF assms, of "fhdr p" "unat (fclen p)"] dropped_refl [OF assms] assms
  by (fastforce simp: reass_room_def Let_def dropped_to_def reass_ok_def)

definition first_header :: "frag \<Rightarrow> ip_reassdata \<Rightarrow> ip_reassdata" where
  "first_header p r = (if lwip_htons (ip_offset (fhdr p)) AND IP_OFFMASK = 0 \<and> lwip_htons (ip_offset (iphdr r)) AND IP_OFFMASK \<noteq> 0
     then r\<lparr>iphdr := fhdr p\<rparr> else r)"

lemma first_header_simps [simp]:
  "rfrags (first_header p r) = rfrags r" "rflags (first_header p r) = rflags r" "rtimer (first_header p r) = rtimer r"
  "datagram_len (first_header p r) = datagram_len r" "dgram_clen (first_header p r) = dgram_clen r"
  by (simp_all add: first_header_def dgram_clen_def)

lemma reass_open_found:
  assumes ok: "reass_ok s" and f: "find_datagram (fhdr p) (reassdatagrams s) = Some i"
  shows "reass_open i (s\<lparr>reassdatagrams := (reassdatagrams s)[i := first_header p (reassdatagrams s ! i)]\<rparr>)"
proof -
  note i = find_datagram_Some [OF f]
  have "dgram_ok (reassdatagrams s ! i)" using ok i by (simp add: reass_ok_def)
  moreover have "map (dgram_key \<circ> iphdr) ((reassdatagrams s)[i := first_header p (reassdatagrams s ! i)]) = map (dgram_key \<circ> iphdr) (reassdatagrams s)"
    using i by (intro map_update_same) (simp add: first_header_def)
  moreover have "\<forall>r\<in>set (remove_at i (reassdatagrams s)). dgram_ok r" using ok by (auto simp: reass_ok_def dest: set_remove_at)
  ultimately show ?thesis
    using i ok queued_update [of i s "first_header p (reassdatagrams s ! i)"]
    by (auto simp: reass_open_def reass_ok_def dgram_ok_def simp del: map_map)
qed

lemma reass_place_ok:
  assumes ok: "reass_ok s" and cap: "queued_clen s + unat (fclen p) \<le> 10" and p: "frag_header_ok p" "real_fragment p"
  shows "\<exists>res s'. reass_place p (IPH_OFFSET_BYTES (fhdr p)) (frag_len p) s = Some (res, s') \<and> reass_ok s'
     \<and> queued_clen s' + freed_clen s' + ret_clen res = queued_clen s + freed_clen s + unat (fclen p)"
proof (cases "find_datagram (fhdr p) (reassdatagrams s)")
  case None
  then have "dgram_key (fhdr p) \<notin> set (map (dgram_key \<circ> iphdr) (reassdatagrams s))" by (simp only: find_datagram_None not_False_eq_True)
  from enqueue_ok [OF ok this, of "unat (fclen p)"] obtain b s1 where
    e: "ip_reass_enqueue_new_datagram (fhdr p) (unat (fclen p)) s = Some (b, s1)" "if b then reass_open 0 s1 else reass_ok s1"
      "queued_clen s1 \<le> queued_clen s" "queued_clen s1 + freed_clen s1 = queued_clen s + freed_clen s" by blast
  show ?thesis
  proof (cases b)
    case True
    with e cap reass_insert_ok [of 0 s1 p] p None show ?thesis by (auto simp: reass_place_def)
  next
    case False
    with e reass_drop_ok [of s1 p] None show ?thesis
      by (cases "reass_drop p s1") (auto simp: reass_place_def ret_clen_def)
  qed
next
  case (Some i)
  let ?s = "s\<lparr>reassdatagrams := (reassdatagrams s)[i := first_header p (reassdatagrams s ! i)]\<rparr>"
  have q: "queued_clen ?s = queued_clen s"
    using queued_update [of i s "first_header p (reassdatagrams s ! i)"] find_datagram_Some [OF Some] by simp
  with reass_insert_ok [OF reass_open_found [OF ok Some] _ p] cap Some show ?thesis
    by (simp add: reass_place_def Let_def first_header_def)
qed

lemma ip4_reass_ok:
  assumes ok: "reass_ok s" and real: "real_fragment p"
  shows "\<exists>res s'. ip4_reass p s = Some (res, s') \<and> reass_ok s'
     \<and> queued_clen s' + freed_clen s' + ret_clen res = queued_clen s + freed_clen s + unat (fclen p)"
proof (cases "frag_header_ok p")
  case False
  with reass_drop_ok [OF ok, of p] show ?thesis
    by (cases "reass_drop p s") (auto simp: ip4_reass_eq ret_clen_def)
next
  case True
  from reass_room_ok [OF ok, of p] obtain room s1 n where
    r: "reass_room p s = Some (room, s1)" "dropped_to s n s1" "room \<Longrightarrow> queued_clen s1 + unat (fclen p) \<le> 10" by blast
  then have ok1: "reass_ok s1" by (simp add: dropped_to_def)
  have e: "queued_clen s1 + freed_clen s1 = queued_clen s + freed_clen s" using r(2) by (auto simp: dropped_to_def)
  show ?thesis
  proof (cases room)
    case t: True
    with reass_place_ok [OF ok1 r(3) [OF t] True real] r(1) True e show ?thesis by (simp add: ip4_reass_eq)
  next
    case False
    with reass_drop_ok [OF ok1, of p] r(1) True e show ?thesis
      by (cases "reass_drop p s1") (auto simp: ip4_reass_eq ret_clen_def)
  qed
qed

text \<open>
  C18. In every state of the reassembly queue and for every fragment that \<^verbatim>\<open>ip4_input\<close> hands over, \<^verbatim>\<open>ip4_reass\<close>
  returns: no assertion fails and dropping old datagrams ends. It keeps the invariant (sorted, disjoint fragments, no two
  entries for the same datagram, at most \<^verbatim>\<open>IP_REASS_MAX_PBUFS\<close> pbufs, counted right), and every pbuf is
  queued, freed or returned, none twice.
\<close>

theorem ip4_reass_keeps_queue:
  assumes "reass_ok s" and "real_fragment p"
  shows "\<exists>res s'. ip4_reass p s = Some (res, s') \<and> reass_ok s'
     \<and> queued_clen s' + freed_clen s' + ret_clen res = queued_clen s + freed_clen s + unat (fclen p)"
  using assms by (rule ip4_reass_ok)

theorem ip4_reass_keeps_queue_witness:
  "\<exists>res s'. ip4_reass (sample_frag 1 False [1, 2, 3]) reass_empty = Some (res, s') \<and> reass_ok s'
     \<and> queued_clen s' + freed_clen s' + ret_clen res = queued_clen reass_empty + freed_clen reass_empty + unat (fclen (sample_frag 1 False [1, 2, 3]))"
  by (rule ip4_reass_keeps_queue) code_simp+

end
