(* ===== verification/Ip4_Train.thy ===== *)
theory Ip4_Train
  imports Ip4_Reass "HOL-Library.Multiset"
begin

text \<open>
  What the reassembly queue promises: datagrams that stay incomplete are given up, and the fragments of a datagram, in
  whatever order they arrive, give the datagram.
\<close>

section \<open>The timer\<close>

lemma unat_dec: "0 < unat w \<Longrightarrow> unat (w - 1) = unat w - 1"
  by (rule unat_minus_one) auto

lemma reass_ok_tick:
  assumes "reass_ok s" "i < length (reassdatagrams s)" and pos: "rtimer (reassdatagrams s ! i) > 0"
  shows "reass_ok (s\<lparr>reassdatagrams := (reassdatagrams s)[i := (reassdatagrams s ! i)\<lparr>rtimer := rtimer (reassdatagrams s ! i) - 1\<rparr>]\<rparr>)"
proof -
  let ?r = "(reassdatagrams s ! i)\<lparr>rtimer := rtimer (reassdatagrams s ! i) - 1\<rparr>"
  have "reassdatagrams s ! i \<in> set (reassdatagrams s)" using assms(2) by simp
  with assms(1) have r: "dgram_ok (reassdatagrams s ! i)" by (simp add: reass_ok_def)
  then have "dgram_ok ?r" using pos by (auto simp: dgram_ok_def word_le_nat_alt word_less_nat_alt unat_dec)
  moreover have "map (dgram_key \<circ> iphdr) ((reassdatagrams s)[i := ?r]) = map (dgram_key \<circ> iphdr) (reassdatagrams s)"
    by (rule map_update_same) simp
  moreover have "queued_clen (s\<lparr>reassdatagrams := (reassdatagrams s)[i := ?r]\<rparr>) = queued_clen s"
    using queued_update [OF assms(2), of ?r] by (simp add: dgram_clen_def)
  moreover have "\<forall>r\<in>set (remove_at i (reassdatagrams s)). dgram_ok r"
    using assms(1) by (auto simp: reass_ok_def dest: set_remove_at)
  ultimately show ?thesis using assms by (auto simp: reass_ok_def in_set_update_remove simp del: map_map)
qed

definition tick_dgrams :: "ip_reassdata list \<Rightarrow> ip_reassdata list" where
  "tick_dgrams rs = map (\<lambda>r. r\<lparr>rtimer := rtimer r - 1\<rparr>) (filter (\<lambda>r. rtimer r > 0) rs)"

lemma reass_tmr_loop_ok:
  "reass_ok s \<Longrightarrow> i \<le> length (reassdatagrams s) \<Longrightarrow> \<exists>s'. reass_tmr_loop i s = Some s' \<and> reass_ok s'
     \<and> reassdatagrams s' = take i (reassdatagrams s) @ tick_dgrams (drop i (reassdatagrams s))
     \<and> queued_clen s' + freed_clen s' = queued_clen s + freed_clen s"
proof (induction i s rule: reass_tmr_loop.induct)
  case (1 i s)
  let ?r = "reassdatagrams s ! i"
  consider (fin) "\<not> i < length (reassdatagrams s)" | (tick) "i < length (reassdatagrams s)" "rtimer ?r > 0"
    | (out) "i < length (reassdatagrams s)" "\<not> rtimer ?r > 0" by blast
  then show ?case
  proof cases
    case fin
    then show ?thesis using "1.prems" by (subst reass_tmr_loop.simps) (simp add: tick_dgrams_def)
  next
    case tick
    let ?s = "s\<lparr>reassdatagrams := (reassdatagrams s)[i := ?r\<lparr>rtimer := rtimer ?r - 1\<rparr>]\<rparr>"
    have q: "queued_clen ?s = queued_clen s" using queued_update [OF tick(1), of "?r\<lparr>rtimer := rtimer ?r - 1\<rparr>"]
      by (simp add: dgram_clen_def)
    have "\<exists>s'. reass_tmr_loop (Suc i) ?s = Some s' \<and> reass_ok s'
      \<and> reassdatagrams s' = take (Suc i) (reassdatagrams ?s) @ tick_dgrams (drop (Suc i) (reassdatagrams ?s))
      \<and> queued_clen s' + freed_clen s' = queued_clen ?s + freed_clen ?s"
      by (rule "1.IH"(1) [OF tick(1) refl tick(2) reass_ok_tick]) (use tick "1.prems" in auto)
    with tick q show ?thesis
      by (subst reass_tmr_loop.simps)
        (simp add: Let_def take_Suc_conv_app_nth Cons_nth_drop_Suc [symmetric] tick_dgrams_def del: reass_tmr_loop.simps)
  next
    case out
    from free_complete_ok [OF "1.prems"(1) out(1)] obtain n s1 where
      f: "ip_reass_free_complete_datagram i s = Some (n, s1)" "reass_ok s1" "reassdatagrams s1 = remove_at i (reassdatagrams s)"
        "queued_clen s1 + unat n = queued_clen s" "freed_clen s1 = freed_clen s + unat n" by blast
    have "\<exists>s'. reass_tmr_loop i s1 = Some s' \<and> reass_ok s'
      \<and> reassdatagrams s' = take i (reassdatagrams s1) @ tick_dgrams (drop i (reassdatagrams s1))
      \<and> queued_clen s' + freed_clen s' = queued_clen s1 + freed_clen s1"
      by (rule "1.IH"(2) [OF out(1) refl out(2) f(1) refl f(2)]) (use f(3) out in simp)
    moreover have "queued_clen s1 + freed_clen s1 = queued_clen s + freed_clen s" using f by simp
    ultimately show ?thesis using out f(1,3)
      by (subst reass_tmr_loop.simps)
        (simp add: Let_def remove_at_def Cons_nth_drop_Suc [symmetric] tick_dgrams_def del: reass_tmr_loop.simps)
  qed
qed

lemma ip_reass_tmr_ok:
  assumes "reass_ok s"
  shows "\<exists>s'. ip_reass_tmr s = Some s' \<and> reass_ok s' \<and> reassdatagrams s' = tick_dgrams (reassdatagrams s)
     \<and> queued_clen s' + freed_clen s' = queued_clen s + freed_clen s"
  using reass_tmr_loop_ok [OF assms, of 0] by (simp add: ip_reass_tmr_def)

primrec reass_ticks :: "nat \<Rightarrow> reass \<Rightarrow> reass option" where
  "reass_ticks 0 s = Some s"
| "reass_ticks (Suc n) s = ip_reass_tmr s \<bind> reass_ticks n"

lemma reass_ticks_empty:
  "reass_ok s \<Longrightarrow> \<forall>r\<in>set (reassdatagrams s). unat (rtimer r) < n \<Longrightarrow>
   \<exists>s'. reass_ticks n s = Some s' \<and> reassdatagrams s' = [] \<and> queued_clen s' + freed_clen s' = queued_clen s + freed_clen s"
proof (induction n arbitrary: s)
  case (Suc n)
  from ip_reass_tmr_ok [OF Suc.prems(1)] obtain s1 where
    s1: "ip_reass_tmr s = Some s1" "reass_ok s1" "reassdatagrams s1 = tick_dgrams (reassdatagrams s)"
      "queued_clen s1 + freed_clen s1 = queued_clen s + freed_clen s" by blast
  have "\<forall>r\<in>set (reassdatagrams s1). unat (rtimer r) < n"
    using Suc.prems(2) by (fastforce simp: s1(3) tick_dgrams_def unat_dec word_less_nat_alt)
  from Suc.IH [OF s1(2) this] s1 show ?case by auto
qed (auto simp: list_all_iff [symmetric] intro: ccontr)

text \<open>
  C22. A datagram that stays incomplete does not occupy the queue for ever: after 16 calls of \<^verbatim>\<open>ip_reass_tmr\<close>
  (every call returns) the queue is empty, and every pbuf that was queued has been freed.
\<close>

theorem ip_reass_tmr_empties:
  assumes "reass_ok s"
  shows "\<exists>s'. reass_ticks 16 s = Some s' \<and> reassdatagrams s' = [] \<and> freed_clen s' = freed_clen s + queued_clen s"
proof -
  have "\<forall>r\<in>set (reassdatagrams s). unat (rtimer r) < 16"
    using assms by (auto simp: reass_ok_def dgram_ok_def word_le_nat_alt)
  from reass_ticks_empty [OF assms this] show ?thesis by (auto simp: queued_clen_def)
qed

theorem ip_reass_tmr_empties_witness:
  "\<exists>s'. reass_ticks 16 (reass_empty\<lparr>reassdatagrams := [\<lparr>rfrags = [rfrag_of (sample_frag 1 False [1, 2, 3])],
       iphdr = sample_hdr 1 3, datagram_len = 0, rflags = 0, rtimer = 15\<rparr>], ip_reass_pbufcount := 1\<rparr>) = Some s'
     \<and> reassdatagrams s' = []
     \<and> freed_clen s' = freed_clen (reass_empty\<lparr>reassdatagrams := [\<lparr>rfrags = [rfrag_of (sample_frag 1 False [1, 2, 3])],
       iphdr = sample_hdr 1 3, datagram_len = 0, rflags = 0, rtimer = 15\<rparr>], ip_reass_pbufcount := 1\<rparr>)
       + queued_clen (reass_empty\<lparr>reassdatagrams := [\<lparr>rfrags = [rfrag_of (sample_frag 1 False [1, 2, 3])],
       iphdr = sample_hdr 1 3, datagram_len = 0, rflags = 0, rtimer = 15\<rparr>], ip_reass_pbufcount := 1\<rparr>)"
  by (rule ip_reass_tmr_empties) code_simp

section \<open>The fragments of a datagram\<close>

text \<open>
  The fragments of a datagram in their order: the headers agree on the addresses and the identification, every one
  carries data, together they cover the data without a gap from offset 0, and exactly the last one has \<open>MF\<close> clear.
\<close>

definition fragment_train :: "frag list \<Rightarrow> bool" where
  "fragment_train ps \<longleftrightarrow> length ps \<ge> 2 \<and> frags_complete (map rfrag_of ps)
     \<and> (\<forall>p\<in>set ps. frag_header_ok p \<and> dgram_key (fhdr p) = dgram_key (fhdr (hd ps)) \<and> fstart (rfrag_of p) < fend (rfrag_of p))
     \<and> (\<forall>p\<in>set (butlast ps). \<not> is_last_frag p) \<and> is_last_frag (last ps) \<and> fend (rfrag_of (last ps)) \<le> 0xFFFF - IP_HLEN"

text \<open>The datagram: the header of the first fragment with the length of the whole and no offset, the data, the lengths of the pbufs.\<close>

definition reassembled :: "frag list \<Rightarrow> ip_dgram" where
  "reassembled ps = (set_chksum ((fhdr (hd ps))\<lparr>ip_len := lwip_htons (fend (rfrag_of (last ps)) + IP_HLEN), ip_offset := 0\<rparr>),
     concat (map fdata ps), chained_lens (map flens ps))"

lemma gapless_sorted:
  "gapless fs \<Longrightarrow> \<forall>f\<in>set fs. fstart f < fend f \<Longrightarrow> sorted_wrt frag_before fs"
proof (induction fs rule: gapless.induct)
  case (1 a b fs)
  then have s: "sorted_wrt frag_before (b # fs)" by simp
  have ab: "frag_before a b" using 1 by (simp add: frag_before_def)
  moreover have "frag_before a f" if "f \<in> set fs" for f
    using frag_before_trans [OF ab, of f] s 1(3) that by (simp add: less_imp_le)
  ultimately show ?case using s by simp
qed auto

lemma frag_before_unique:
  assumes "sorted_wrt frag_before xs" "sorted_wrt frag_before ys" "set xs = set ys"
  shows "xs = ys"
proof -
  have s: "sorted_wrt (<) (map fstart zs)" if "sorted_wrt frag_before zs" for zs
    unfolding sorted_wrt_map using that by (rule sorted_wrt_mono_rel [rotated]) (simp add: frag_before_def)
  have "set (map fstart ys) = set (map fstart xs)" using assms(3) by simp
  then have "map fstart ys = map fstart xs" by (rule strict_sorted_equal [OF s [OF assms(1)] s [OF assms(2)]])
  moreover have "inj_on fstart (set ys \<union> set xs)"
    using s [OF assms(2)] assms(3) by (simp add: strict_sorted_iff distinct_map)
  ultimately show ?thesis by (rule map_inj_on [symmetric])
qed

lemma gapless_filter_all:
  "gapless (a # fs) \<Longrightarrow> sorted_wrt frag_before (a # fs) \<Longrightarrow> gapless (filter P (a # fs)) \<Longrightarrow> P a \<Longrightarrow> P (last (a # fs))
    \<Longrightarrow> \<forall>f\<in>set (a # fs). P f"
proof (induction fs arbitrary: a)
  case (Cons b fs)
  let ?l = "filter P (b # fs)"
  have "last (b # fs) \<in> set ?l" using Cons.prems(5) by (simp del: filter.simps)
  then obtain h t where l: "?l = h # t" by (cases ?l) auto
  with Cons.prems(3,4) have "fstart h = fend a" by (simp del: filter.simps add: filter.simps(2) [of P a])
  then have h: "fstart h = fstart b" using Cons.prems(1) by simp
  have "h \<in> set ?l" unfolding l by simp
  then have "h \<in> set (b # fs)" "P h" by (simp_all del: filter.simps)
  with h Cons.prems(2) have "h = b" by (auto simp: frag_before_def)
  moreover have "gapless ?l" using Cons.prems(3,4) by (simp del: filter.simps add: filter.simps(2) [of P a] l)
  ultimately have "\<forall>f\<in>set (b # fs). P f" using \<open>P h\<close> Cons.prems by (intro Cons.IH) (simp_all del: filter.simps)
  with Cons.prems(4) show ?case by simp
qed simp

lemma offset_bytes_0: "IPH_OFFSET_BYTES h = 0 \<longleftrightarrow> lwip_htons (ip_offset h) AND IP_OFFMASK = 0"
proof -
  let ?w = "lwip_htons (ip_offset h) AND IP_OFFMASK"
  have "unat ?w \<le> 0x1fff" using word_and_le1 [of _ "0x1fff :: u16"] by (simp add: word_le_nat_alt)
  then have "unat (?w * 8) = unat ?w * 8" by (simp add: unat_word_ariths)
  then show ?thesis by (auto simp: IPH_OFFSET_BYTES_def word_unat_eq_iff)
qed

lemma sorted_wrt_cases: "sorted_wrt R xs \<Longrightarrow> a \<in> set xs \<Longrightarrow> b \<in> set xs \<Longrightarrow> a \<noteq> b \<Longrightarrow> R a b \<or> R b a"
  by (induction xs) auto

lemma train_sorted: "fragment_train ps \<Longrightarrow> sorted_wrt frag_before (map rfrag_of ps)"
  by (rule gapless_sorted) (auto simp: fragment_train_def frags_complete_def)

lemma train_ne: "fragment_train ps \<Longrightarrow> ps \<noteq> []"
  by (auto simp: fragment_train_def)

lemma sorted_before_distinct: "sorted_wrt frag_before fs \<Longrightarrow> distinct fs"
  by (induction fs) (auto simp: frag_before_def)

lemma train_distinct: "fragment_train ps \<Longrightarrow> distinct (map rfrag_of ps)"
  by (rule sorted_before_distinct [OF train_sorted])

lemma train_last: "fragment_train ps \<Longrightarrow> p \<in> set ps \<Longrightarrow> is_last_frag p \<longleftrightarrow> p = last ps"
  by (cases ps rule: rev_cases) (auto simp: fragment_train_def)

lemma train_first:
  assumes t: "fragment_train ps" and p: "p \<in> set ps"
  shows "IPH_OFFSET_BYTES (fhdr p) = 0 \<longleftrightarrow> p = hd ps"
proof -
  have z: "fstart (rfrag_of (hd ps)) = 0" using t train_ne [OF t] by (simp add: fragment_train_def frags_complete_def hd_map)
  moreover have "0 < fstart (rfrag_of p)" if "p \<noteq> hd ps"
    using train_sorted [OF t] p that z by (cases ps) (auto simp: frag_before_def)
  ultimately show ?thesis by (cases "p = hd ps") (auto simp: rfrag_of_def)
qed

lemma train_real:
  assumes t: "fragment_train ps" and p: "p \<in> set ps"
  shows "real_fragment p"
proof -
  have "hd ps \<noteq> last ps" using t train_distinct [OF t]
    by (cases ps) (auto simp: fragment_train_def distinct_map)
  with train_first [OF t p] train_last [OF t p] show ?thesis by (auto simp: real_fragment_def)
qed

abbreviation arrived :: "frag list \<Rightarrow> frag list \<Rightarrow> rfrag list" where
  "arrived ps xs \<equiv> map rfrag_of (filter (\<lambda>p. p \<in> set xs) ps)"

lemma arrived_sorted: "fragment_train ps \<Longrightarrow> sorted_wrt frag_before (arrived ps xs)"
  using train_sorted [of ps] by (simp add: sorted_wrt_map sorted_wrt_filter)

lemma arrived_ok: "fragment_train ps \<Longrightarrow> frags_ok (arrived ps xs)"
  using arrived_sorted [of ps xs] by (auto simp: frags_ok_def fragment_train_def less_imp_le)

lemma arrived_accepts:
  assumes t: "fragment_train ps" and p: "p \<in> set ps" "p \<notin> set xs"
  shows "frag_accepted p (arrived ps xs)"
proof -
  have "frag_clear (rfrag_of p) (arrived ps xs)"
    using sorted_wrt_cases [OF train_sorted [OF t], of _ "rfrag_of p"] train_distinct [OF t] p
    by (fastforce simp: frag_clear_def distinct_map inj_on_def)
  with t p train_last [OF t p(1)] show ?thesis
    by (auto simp: frag_accepted_def frag_fits_def fragment_train_def less_imp_le)
qed

lemma arrived_insert:
  assumes t: "fragment_train ps" and p: "p \<in> set ps" "p \<notin> set xs"
  shows "frag_insert (rfrag_of p) (arrived ps xs) = arrived ps (xs @ [p])"
proof (rule frag_before_unique)
  have "frag_fits p (arrived ps xs)" using arrived_accepts [OF assms] by (simp add: frag_accepted_def)
  then show "sorted_wrt frag_before (frag_insert (rfrag_of p) (arrived ps xs))"
    using frag_insert_ok [OF arrived_ok [OF t]] by (simp add: frag_fits_def frags_ok_def)
  show "sorted_wrt frag_before (arrived ps (xs @ [p]))" by (rule arrived_sorted [OF t])
qed (use p in auto)

lemma arrived_complete:
  assumes t: "fragment_train ps" and l: "last ps \<in> set xs" and c: "frags_complete (arrived ps xs)"
  shows "set ps \<subseteq> set xs"
proof -
  obtain a qs where ps: "ps = a # qs" using train_ne [OF t] by (cases ps) auto
  let ?P = "\<lambda>f. f \<in> rfrag_of ` set xs"
  have inj: "inj_on rfrag_of (set ps)" using train_distinct [OF t] by (simp add: distinct_map)
  have *: "rfrag_of p \<in> rfrag_of ` (set xs \<inter> set ps) \<longleftrightarrow> p \<in> set xs" if "p \<in> set ps" for p
    using inj_on_image_mem_iff [OF inj that, of "set xs \<inter> set ps"] that by simp
  have fl: "filter (\<lambda>f. f \<in> rfrag_of ` (set xs \<inter> set ps)) (map rfrag_of ps) = arrived ps xs"
    unfolding filter_map comp_def by (rule arg_cong [OF filter_cong [OF refl]]) (rule *)
  have "\<forall>f\<in>set (map rfrag_of ps). f \<in> rfrag_of ` (set xs \<inter> set ps)" unfolding ps list.map
  proof (rule gapless_filter_all)
    show "gapless (rfrag_of a # map rfrag_of qs)" using t by (simp add: ps fragment_train_def frags_complete_def)
    show "sorted_wrt frag_before (rfrag_of a # map rfrag_of qs)" using train_sorted [OF t] by (simp add: ps)
    show "gapless (filter (\<lambda>f. f \<in> rfrag_of ` (set xs \<inter> set (a # qs))) (rfrag_of a # map rfrag_of qs))"
      using fl c unfolding ps list.map by (simp only: frags_complete_def)
    have "hd (arrived ps xs) \<in> set (arrived ps xs)" using c by (simp only: frags_complete_def hd_in_set not_False_eq_True)
    then obtain p where p: "p \<in> set ps" "p \<in> set xs" "hd (arrived ps xs) = rfrag_of p" by auto
    then have "p = a" using c train_first [OF t p(1)] by (simp add: frags_complete_def rfrag_of_def ps)
    with p show "rfrag_of a \<in> rfrag_of ` (set xs \<inter> set (a # qs))" by (simp add: ps)
    show "last (rfrag_of a # map rfrag_of qs) \<in> rfrag_of ` (set xs \<inter> set (a # qs))"
      using l last_in_set [of ps] by (auto simp: ps last_map split: if_splits)
  qed
  with * show ?thesis by auto
qed

section \<open>Arrival in any order\<close>

primrec reass_run :: "frag list \<Rightarrow> reass \<Rightarrow> (ip_dgram option list \<times> reass) option" where
  "reass_run [] s = Some ([], s)"
| "reass_run (p # ps) s = do {
     (r, s) \<leftarrow> ip4_reass p s;
     (rs, s) \<leftarrow> reass_run ps s;
     Some (r # rs, s) }"

definition train_dgram :: "frag list \<Rightarrow> frag list \<Rightarrow> ip_reassdata \<Rightarrow> bool" where
  "train_dgram ps xs r \<longleftrightarrow> rfrags r = arrived ps xs \<and> (rflags r AND 1 \<noteq> 0 \<longleftrightarrow> last ps \<in> set xs)
     \<and> (last ps \<in> set xs \<longrightarrow> datagram_len r = fend (rfrag_of (last ps)))"

definition train_header :: "frag list \<Rightarrow> frag list \<Rightarrow> ip_hdr \<Rightarrow> bool" where
  "train_header ps xs h \<longleftrightarrow> dgram_key h = dgram_key (fhdr (hd ps))
     \<and> (if hd ps \<in> set xs then h = fhdr (hd ps) else IPH_OFFSET_BYTES h \<noteq> 0)"

lemma train_dgram_add:
  assumes t: "fragment_train ps" and p: "p \<in> set ps" "p \<notin> set xs" and r: "train_dgram ps xs r"
  shows "train_dgram ps (xs @ [p]) (dgram_add p r)"
proof -
  have "rfrags (dgram_add p r) = arrived ps (xs @ [p])" using r arrived_insert [OF t p] by (simp add: train_dgram_def)
  moreover have "datagram_len (dgram_add p r) = (if is_last_frag p then fend (rfrag_of p) else datagram_len r)"
    by (simp add: dgram_add_def Let_def)
  ultimately show ?thesis using train_last [OF t p(1)] r
    by (auto simp: train_dgram_def)
qed

lemma train_header_first:
  assumes t: "fragment_train ps" and p: "p \<in> set ps" and h: "train_header ps xs (iphdr r)"
  shows "train_header ps (xs @ [p]) (iphdr (first_header p r))"
proof -
  have "iphdr (first_header p r) =
      (if IPH_OFFSET_BYTES (fhdr p) = 0 \<and> IPH_OFFSET_BYTES (iphdr r) \<noteq> 0 then fhdr p else iphdr r)"
    by (simp add: first_header_def offset_bytes_0)
  moreover have "IPH_OFFSET_BYTES (fhdr (hd ps)) = 0" using train_first [OF t] train_ne [OF t] by simp
  moreover have "dgram_key (fhdr p) = dgram_key (fhdr (hd ps))" using t p by (simp add: fragment_train_def)
  ultimately show ?thesis using h train_first [OF t p]
    by (cases "hd ps \<in> set xs"; cases "p = hd ps") (auto simp: train_header_def)
qed

lemma train_done:
  assumes t: "fragment_train ps" and r: "train_dgram ps xs r" and xs: "set xs \<subseteq> set ps"
  shows "dgram_done r \<longleftrightarrow> set xs = set ps"
proof
  assume "dgram_done r" with arrived_complete [OF t] r xs show "set xs = set ps" by (auto simp: dgram_done_def train_dgram_def)
next
  assume e: "set xs = set ps"
  then have "last ps \<in> set xs" using last_in_set [OF train_ne [OF t]] by simp
  moreover have "arrived ps xs = map rfrag_of ps" using e by simp
  ultimately show "dgram_done r" using r t by (simp add: dgram_done_def train_dgram_def fragment_train_def)
qed

text \<open>Where the queue has a datagram at its head and room, a fragment of it goes through the following path.\<close>

lemma ip4_reass_head:
  assumes p: "frag_header_ok p" "real_fragment p" and k: "dgram_key (iphdr r) = dgram_key (fhdr p)"
    and s: "reassdatagrams s = r # rs" and cap: "unat (ip_reass_pbufcount s) + unat (fclen p) \<le> 10"
    and r: "frags_ok (rfrags r)" "rfrags r \<noteq> []" and acc: "frag_accepted p (rfrags r)"
  shows "ip4_reass p s =
    (let r' = dgram_add p (first_header p r);
         s' = s\<lparr>reassdatagrams := r' # rs, ip_reass_pbufcount := ip_reass_pbufcount s + fclen p\<rparr>
     in if dgram_done r' then reass_finish 0 s' else Some (None, s'))"
proof -
  have "reass_room p s = Some (True, s)" using cap by (simp add: reass_room_def Let_def)
  moreover have "find_datagram (fhdr p) (reassdatagrams s) = Some 0" using k s by (simp add: find_datagram_def match_key)
  ultimately have "ip4_reass p s = reass_insert 0 p (IPH_OFFSET_BYTES (fhdr p)) (frag_len p) (s\<lparr>reassdatagrams := first_header p r # rs\<rparr>)"
    using p(1) s by (simp add: ip4_reass_eq reass_place_def Let_def first_header_def)
  also have "\<dots> = (let r' = dgram_add p (first_header p r);
         s' = s\<lparr>reassdatagrams := r' # rs, ip_reass_pbufcount := ip_reass_pbufcount s + fclen p\<rparr>
     in if dgram_done r' then reass_finish 0 s' else Some (None, s'))"
    using p r acc by (subst reass_insert_eq) (simp_all add: dgram_fresh_def Let_def)
  finally show ?thesis .
qed

lemma ip4_reass_new:
  assumes p: "frag_header_ok p" "real_fragment p"
    and k: "dgram_key (fhdr p) \<notin> (dgram_key \<circ> iphdr) ` set (reassdatagrams s)" and mem: "reass_mallocs s = []"
    and cap: "unat (ip_reass_pbufcount s) + unat (fclen p) \<le> 10" and acc: "frag_accepted p []"
  shows "ip4_reass p s =
    (let r' = dgram_add p \<lparr>rfrags = [], iphdr = fhdr p, datagram_len = 0, rflags = 0, rtimer = 15\<rparr>;
         s' = s\<lparr>reassdatagrams := r' # reassdatagrams s, ip_reass_pbufcount := ip_reass_pbufcount s + fclen p\<rparr>
     in if dgram_done r' then reass_finish 0 s' else Some (None, s'))"
proof -
  let ?r = "\<lparr>rfrags = [], iphdr = fhdr p, datagram_len = 0, rflags = 0, rtimer = 15\<rparr>"
  have "reass_room p s = Some (True, s)" using cap by (simp add: reass_room_def Let_def)
  moreover have "find_datagram (fhdr p) (reassdatagrams s) = None" using k by (simp add: find_datagram_None)
  ultimately have "ip4_reass p s = reass_insert 0 p (IPH_OFFSET_BYTES (fhdr p)) (frag_len p) (s\<lparr>reassdatagrams := ?r # reassdatagrams s\<rparr>)"
    using p(1) mem by (simp add: ip4_reass_eq reass_place_def ip_reass_enqueue_new_datagram_def reass_malloc_def)
  also have "\<dots> = (let r' = dgram_add p ?r;
         s' = s\<lparr>reassdatagrams := r' # reassdatagrams s, ip_reass_pbufcount := ip_reass_pbufcount s + fclen p\<rparr>
     in if dgram_done r' then reass_finish 0 s' else Some (None, s'))"
    using p acc by (subst reass_insert_eq) (simp_all add: dgram_fresh_def Let_def frags_ok_def)
  finally show ?thesis .
qed

abbreviation train_state :: "reass \<Rightarrow> ip_reassdata \<Rightarrow> frag list \<Rightarrow> reass" where
  "train_state s r xs \<equiv> s\<lparr>reassdatagrams := r # reassdatagrams s, ip_reass_pbufcount := ip_reass_pbufcount s + (\<Sum>p\<leftarrow>xs. fclen p)\<rparr>"

lemma unat_sum_clen:
  "unat n + (\<Sum>p\<leftarrow>xs. unat (fclen p)) \<le> 10 \<Longrightarrow> unat (n + (\<Sum>p\<leftarrow>xs. fclen p)) = unat n + (\<Sum>p\<leftarrow>xs. unat (fclen p))"
proof (induction xs arbitrary: n)
  case (Cons p xs)
  then have e: "unat (n + fclen p) = unat n + unat (fclen p)" by (simp add: unat_word_ariths)
  with Cons show ?case using Cons.IH [of "n + fclen p"] by (simp add: add.assoc)
qed simp

lemma sum_list_mset_eq:
  fixes f :: "'a \<Rightarrow> 'b :: comm_monoid_add"
  assumes "mset xs = mset ys" shows "(\<Sum>x\<leftarrow>xs. f x) = (\<Sum>x\<leftarrow>ys. f x)"
  using arg_cong [OF assms, of "\<lambda>m. sum_mset (image_mset f m)"] by (simp flip: sum_mset_sum_list)

lemma train_finish:
  assumes t: "fragment_train ps" and xs: "mset xs = mset ps" and r: "train_dgram ps xs r" "train_header ps xs (iphdr r)"
    and cap: "unat (ip_reass_pbufcount s) + (\<Sum>p\<leftarrow>ps. unat (fclen p)) \<le> 10"
  shows "reass_finish 0 (train_state s r xs) = Some (Some (reassembled ps), s)"
proof -
  have set: "set xs = set ps" using xs by (rule mset_eq_setD)
  have sum: "(\<Sum>p\<leftarrow>xs. fclen p) = (\<Sum>p\<leftarrow>ps. fclen p)" by (rule sum_list_mset_eq [OF xs])
  have "last ps \<in> set xs" "hd ps \<in> set xs" using set train_ne [OF t] by simp_all
  with r set have "rfrags r = map rfrag_of ps" "datagram_len r = fend (rfrag_of (last ps))" "iphdr r = fhdr (hd ps)"
    by (simp_all add: train_dgram_def train_header_def)
  moreover have "rclen \<circ> rfrag_of = fclen" "rdata \<circ> rfrag_of = fdata" "rlens \<circ> rfrag_of = flens"
    by (auto simp: rfrag_of_def rclen_def fclen_def)
  moreover have "(\<Sum>p\<leftarrow>ps. fclen p) \<le> ip_reass_pbufcount s + (\<Sum>p\<leftarrow>ps. fclen p)"
    using unat_sum_clen [OF cap] unat_sum_clen [of 0 ps] cap by (simp add: word_le_nat_alt)
  ultimately show ?thesis
    by (simp add: reass_finish_def Let_def sum ip_reass_dequeue_datagram_def reassembled_def)
qed

lemma replicate_pred: "ys \<noteq> [] \<Longrightarrow> replicate (length ys) x = x # replicate (length ys - 1) x"
  by (cases ys) auto

lemma train_run:
  "\<lbrakk>fragment_train ps; mset (xs @ ys) = mset ps; xs \<noteq> []; ys \<noteq> []; train_dgram ps xs r; train_header ps xs (iphdr r);
    unat (ip_reass_pbufcount s) + (\<Sum>p\<leftarrow>ps. unat (fclen p)) \<le> 10\<rbrakk> \<Longrightarrow>
   reass_run ys (train_state s r xs) = Some (replicate (length ys - 1) None @ [Some (reassembled ps)], s)"
proof (induction ys arbitrary: xs r)
  case (Cons p ys)
  note t = Cons.prems(1)
  have set: "set (xs @ p # ys) = set ps" using Cons.prems(2) by (rule mset_eq_setD)
  have dis: "distinct (xs @ p # ys)"
    using mset_eq_imp_distinct_iff [OF Cons.prems(2)] train_distinct [OF t] by (simp add: distinct_map)
  have p: "p \<in> set ps" "p \<notin> set xs" using set dis by auto
  let ?r = "dgram_add p (first_header p r)"
  have sum: "(\<Sum>p\<leftarrow>ps. unat (fclen p)) = (\<Sum>p\<leftarrow>xs @ p # ys. unat (fclen p))" by (rule sum_list_mset_eq [OF Cons.prems(2) [symmetric]])
  have r': "train_dgram ps (xs @ [p]) ?r"
    by (rule train_dgram_add [OF t p]) (use Cons.prems(5) in \<open>simp add: train_dgram_def\<close>)
  have h': "train_header ps (xs @ [p]) (iphdr ?r)"
    using train_header_first [OF t p(1) Cons.prems(6)] by simp
  have "rfrags r \<noteq> []" using Cons.prems(3,5) set by (cases xs) (auto simp: train_dgram_def filter_empty_conv)
  then have "ip4_reass p (train_state s r xs) =
      (let s' = train_state s ?r (xs @ [p]) in if dgram_done ?r then reass_finish 0 s' else Some (None, s'))"
    using Cons.prems t p arrived_accepts [OF t p] arrived_ok [OF t] unat_sum_clen [of "ip_reass_pbufcount s" xs] sum
    by (subst ip4_reass_head [where r = r and rs = "reassdatagrams s"])
      (auto simp: train_real train_dgram_def train_header_def fragment_train_def Let_def add.assoc)
  moreover have "dgram_done ?r \<longleftrightarrow> ys = []"
  proof -
    have "set (xs @ [p]) \<subseteq> set ps" using set by auto
    from train_done [OF t r' this] set dis show ?thesis by (cases ys) auto
  qed
  moreover have "ys = [] \<Longrightarrow> reass_finish 0 (train_state s ?r (xs @ [p])) = Some (Some (reassembled ps), s)"
    using Cons.prems(2,7) by (intro train_finish [OF t _ r' h']) simp_all
  moreover have "ys \<noteq> [] \<Longrightarrow> reass_run ys (train_state s ?r (xs @ [p])) = Some (replicate (length ys - 1) None @ [Some (reassembled ps)], s)"
    using Cons.prems(2,7) by (intro Cons.IH [OF t _ _ _ r' h']) simp_all
  ultimately show ?case by (cases "ys = []") (simp_all add: Let_def replicate_pred)
qed simp

lemma train_any_order:
  assumes t: "fragment_train ps" and qs: "mset qs = mset ps" and mem: "reass_mallocs s = []"
    and k: "dgram_key (fhdr (hd ps)) \<notin> (dgram_key \<circ> iphdr) ` set (reassdatagrams s)"
    and cap: "unat (ip_reass_pbufcount s) + (\<Sum>p\<leftarrow>ps. unat (fclen p)) \<le> 10"
  shows "reass_run qs s = Some (replicate (length qs - 1) None @ [Some (reassembled ps)], s)"
proof -
  have len: "length qs \<ge> 2" using t mset_eq_length [OF qs] by (simp add: fragment_train_def)
  then obtain p ys where q: "qs = p # ys" "ys \<noteq> []" by (cases qs) (auto simp: Suc_le_length_iff)
  have set: "set qs = set ps" by (rule mset_eq_setD [OF qs])
  then have p: "p \<in> set ps" using q by auto
  let ?new = "\<lparr>rfrags = [], iphdr = fhdr p, datagram_len = 0, rflags = 0, rtimer = 15\<rparr>"
  let ?r = "dgram_add p ?new"
  have "distinct qs" using mset_eq_imp_distinct_iff [OF qs] train_distinct [OF t] by (simp add: distinct_map)
  have "train_dgram ps [] ?new" by (simp add: train_dgram_def)
  from train_dgram_add [OF t p _ this] have r: "train_dgram ps [p] ?r" by simp
  have h: "train_header ps [p] (iphdr ?r)" using t p train_first [OF t p] by (auto simp: train_header_def fragment_train_def)
  have c: "unat (ip_reass_pbufcount s) + unat (fclen p) \<le> 10"
    using cap sum_list_mset_eq [OF qs, of "\<lambda>p. unat (fclen p)"] q by simp
  have "\<not> dgram_done ?r" using train_done [OF t r] p set q \<open>distinct qs\<close> by (cases ys) auto
  then have "ip4_reass p s = Some (None, train_state s ?r [p])"
    using t p k mem c arrived_accepts [OF t p, of "[]"]
    by (subst ip4_reass_new) (auto simp: train_real fragment_train_def Let_def)
  moreover have "reass_run ys (train_state s ?r [p]) = Some (replicate (length ys - 1) None @ [Some (reassembled ps)], s)"
    using qs q cap by (intro train_run [OF t _ _ _ r h]) simp_all
  ultimately show ?thesis using q by (simp add: replicate_pred)
qed

text \<open>
  C17. The fragments of a datagram, received in any order by a queue that has no other fragments of the same
  identification and has room for them, give the datagram: every call but the last returns nothing, the last one returns the header of
  the first fragment (with the length of the whole, without offset, and with its checksum) and the data in the right order, and the
  queue is as it was before.
\<close>

theorem ip4_reass_any_order:
  assumes "fragment_train ps" and "mset qs = mset ps" and "reass_mallocs s = []"
    and "dgram_key (fhdr (hd ps)) \<notin> (dgram_key \<circ> iphdr) ` set (reassdatagrams s)"
    and "unat (ip_reass_pbufcount s) + (\<Sum>p\<leftarrow>ps. unat (fclen p)) \<le> 10"
  shows "reass_run qs s = Some (replicate (length qs - 1) None @ [Some (reassembled ps)], s)"
  using assms by (rule train_any_order)

theorem ip4_reass_any_order_witness:
  "reass_run [sample_frag 1 False [9], sample_frag 0 True [1, 2, 3, 4, 5, 6, 7, 8]] reass_empty =
     Some ([None, Some (reassembled [sample_frag 0 True [1, 2, 3, 4, 5, 6, 7, 8], sample_frag 1 False [9]])], reass_empty)"
proof -
  have "fragment_train [sample_frag 0 True [1, 2, 3, 4, 5, 6, 7, 8], sample_frag 1 False [9]]" by code_simp
  from ip4_reass_any_order [OF this, of "[sample_frag 1 False [9], sample_frag 0 True [1, 2, 3, 4, 5, 6, 7, 8]]" reass_empty]
  show ?thesis by (simp add: reass_empty_def) (simp add: sample_frag_def fclen_def add_mset_commute)
qed

text \<open>
  The queue accepts several fragments with \<open>MF\<close> clear: the length in the header of the result is then the end of the one that came
  last, while the data goes on behind it.
\<close>

theorem ip4_reass_two_last_fragments:
  "map_option (\<lambda>(rs, s). map (map_option (\<lambda>(h, d, n). (lwip_htons (ip_len h), length d))) rs)
     (reass_run [sample_frag 2 False [1, 1, 1, 1, 1, 1, 1, 1], sample_frag 1 False [2, 2, 2, 2, 2, 2, 2, 2],
       sample_frag 0 True [3, 3, 3, 3, 3, 3, 3, 3]] reass_empty)
   = Some [None, None, Some (36, 24)]"
  by code_simp

end
