(* ===== verification/Ip4_Cut.thy ===== *)
theory Ip4_Cut
  imports Ip4_Train
begin

text \<open>
  \<^verbatim>\<open>ip4_frag\<close>: the packets that it sends, and that reassembling them gives the datagram back.
\<close>

unbundle bit_operations_syntax

section \<open>The packets\<close>

definition piece_header :: "ip_hdr \<Rightarrow> u16 \<Rightarrow> bool \<Rightarrow> nat \<Rightarrow> ip_hdr" where
  "piece_header hdr ofo mf n = set_chksum (hdr\<lparr>ip_offset := lwip_htons (if mf then IP_OFFMASK AND ofo OR IP_MF else IP_OFFMASK AND ofo),
     ip_len := lwip_htons (of_nat n + IP_HLEN)\<rparr>)"

text \<open>The packets for \<open>room\<close> bytes behind the header in each of them.\<close>

function ip_pieces :: "nat \<Rightarrow> ip_hdr \<Rightarrow> bool \<Rightarrow> u16 \<Rightarrow> u8 list \<Rightarrow> (ip_hdr \<times> u8 list) list" where
  "ip_pieces room hdr mf ofo bs =
     (if bs = [] \<or> room < 8 then []
      else let n = min (length bs) (room div 8 * 8)
           in (piece_header hdr ofo (length bs > room \<or> mf) n, take n bs)
                # ip_pieces room hdr mf (ofo + of_nat (room div 8)) (drop n bs))"
  by pat_completeness auto
termination
  by (relation "measure (\<lambda>(room, hdr, mf, ofo, bs). length bs)") auto

declare ip_pieces.simps [simp del]

text \<open>How far the memory goes: the first refusal stops the loop.\<close>

definition granted :: "bool list \<Rightarrow> (ip_hdr \<times> u8 list) list \<Rightarrow> err_t \<times> (ip_hdr \<times> u8 list) list" where
  "granted mems ps = (let k = length (takeWhile id mems)
     in if k < length mems \<and> k < length ps then (ERR_MEM, take k ps) else (ERR_OK, ps))"

lemma granted_Nil [simp]: "granted mems [] = (ERR_OK, [])"
  by (simp add: granted_def Let_def)

lemma granted_Cons: "granted mems (p # ps) =
   (if mems \<noteq> [] \<and> \<not> hd mems then (ERR_MEM, []) else let (e, qs) = granted (drop 1 mems) ps in (e, p # qs))"
  by (cases mems) (auto simp: granted_def Let_def)

lemma frag_loop_step:
  assumes "left \<noteq> 0" "\<not> (mems \<noteq> [] \<and> \<not> hd mems)" "min left (frag_blocks mtu * 8) = fs" "unat fs = n"
    "(int (unat left) \<le> int (unat mtu) - 20) = (\<not> mo)"
  shows "frag_loop mtu hdr mf left ofo bs mems sent = frag_loop mtu hdr mf (left - fs) (ofo + frag_blocks mtu) (drop n bs) (drop 1 mems)
     (sent @ [(piece_header hdr ofo (mo \<or> mf) n, take n bs)])"
proof -
  have "of_nat n = fs" using assms(4) by auto
  then show ?thesis using assms(1,2,4)
    by (subst frag_loop.simps) (simp only: assms(3,5) Let_def piece_header_def if_True if_False not_not split: if_splits, simp)
qed

lemma frag_loop_eq:
  assumes "28 \<le> mtu" "length bs \<le> 65535"
  shows "frag_loop mtu hdr mf (of_nat (length bs)) ofo bs mems sent =
     Some (case granted mems (ip_pieces (unat mtu - 20) hdr mf ofo bs) of (e, qs) \<Rightarrow> (e, sent @ qs))"
  using assms
proof (induction "length bs" arbitrary: bs ofo mems sent rule: less_induct)
  case less
  have mtu: "28 \<le> unat mtu" "unat mtu < 65536" using less.prems(1) unat_u16_lt by (auto simp: word_le_nat_alt)
  let ?room = "unat mtu - 20" let ?n = "min (length bs) (?room div 8 * 8)"
  have nfb: "frag_blocks mtu = of_nat (?room div 8)" using mtu by (simp add: frag_blocks_def word_le_nat_alt)
  have left: "unat (of_nat (length bs) :: u16) = length bs" using less.prems by (simp add: unat_of_nat_small)
  have "(of_nat (?room div 8) * 8 :: u16) = of_nat (?room div 8 * 8)" by simp
  moreover have "unat (of_nat (?room div 8 * 8) :: u16) = ?room div 8 * 8"
    using mtu by (intro unat_of_nat_u16) linarith
  ultimately have size: "min (of_nat (length bs)) (frag_blocks mtu * 8) = (of_nat ?n :: u16)"
    using left by (auto simp: nfb min_def word_le_nat_alt)
  show ?case
  proof (cases "bs = []")
    case True
    then show ?thesis by (subst frag_loop.simps) (simp add: ip_pieces.simps)
  next
    case False
    then have ne: "(of_nat (length bs) :: u16) \<noteq> 0" using left by (metis length_0_conv unat_0)
    have pos: "0 < ?n" using False mtu by auto
    have un: "unat (of_nat ?n :: u16) = ?n" using less.prems by (intro unat_of_nat_small) simp
    have rest: "(of_nat (length bs) - of_nat ?n :: u16) = of_nat (length (drop ?n bs))" by (simp add: of_nat_diff)
    have last: "(int (unat (of_nat (length bs) :: u16)) \<le> int (unat mtu) - 20) = (\<not> length bs > ?room)"
      unfolding left using mtu by linarith
    have IH: "frag_loop mtu hdr mf (of_nat (length (drop ?n bs))) (ofo + frag_blocks mtu) (drop ?n bs) (drop 1 mems) sent' =
        Some (case granted (drop 1 mems) (ip_pieces ?room hdr mf (ofo + frag_blocks mtu) (drop ?n bs)) of (e, qs) \<Rightarrow> (e, sent' @ qs))" for sent'
      using False pos less.prems by (intro less.hyps) auto
    have pieces: "ip_pieces ?room hdr mf ofo bs = (piece_header hdr ofo (length bs > ?room \<or> mf) ?n, take ?n bs)
        # ip_pieces ?room hdr mf (ofo + frag_blocks mtu) (drop ?n bs)"
      using False mtu by (subst ip_pieces.simps) (simp add: Let_def nfb)
    show ?thesis
    proof (cases "mems \<noteq> [] \<and> \<not> hd mems")
      case True
      then show ?thesis using ne by (subst frag_loop.simps) (simp add: pieces granted_Cons Let_def)
    next
      case g: False
      show ?thesis unfolding frag_loop_step [OF ne g size un last] rest IH pieces granted_Cons
        using g by (auto split: prod.splits)
    qed
  qed
qed

lemma concat_pieces: "8 \<le> room \<Longrightarrow> concat (map snd (ip_pieces room hdr mf ofo bs)) = bs"
  by (induction room hdr mf ofo bs rule: ip_pieces.induct) (subst ip_pieces.simps, auto simp: Let_def)

section \<open>What a receiver sees\<close>

lemma offmask: "(0x1fff :: u16) = mask 13" "(0x2000 :: u16) = push_bit 13 1"
  by (simp_all add: mask_eq_exp_minus_1 push_bit_eq_mult)

lemma htons_and: "lwip_htons a AND lwip_htons b = lwip_htons (a AND b)"
proof -
  have e: "lwip_htons x = push_bit 8 (take_bit 8 x) OR drop_bit 8 x" for x
    unfolding lwip_htons_def and_mask_lit drop_bit_and drop_lits
    by (auto simp add: bit_eq_iff bit_simps dest: bit_imp_le_length)
  show ?thesis unfolding e by (rule bit_word_eqI) (auto simp: bit_simps dest: bit_imp_le_length)
qed

lemma htons_0: "lwip_htons x = 0 \<longleftrightarrow> x = 0"
proof -
  have "lwip_htons 0 = 0" by (simp add: lwip_htons_def)
  then show ?thesis by (metis lwip_htons_invol)
qed

lemma piece_bits:
  assumes "unat ofo < 8192"
  shows "(if mf then IP_OFFMASK AND ofo OR IP_MF else IP_OFFMASK AND ofo) AND IP_OFFMASK = (ofo :: u16)"
    "(if mf then IP_OFFMASK AND ofo OR IP_MF else IP_OFFMASK AND ofo) AND IP_MF = (if mf then IP_MF else 0)"
proof -
  have "take_bit 13 ofo = ofo" using assms by (simp add: word_unat_eq_iff unsigned_take_bit_eq take_bit_nat_eq_self)
  then have "ofo AND mask 13 = ofo" by (simp add: take_bit_eq_mask)
  then have m: "ofo AND IP_OFFMASK = ofo" by (simp only: offmask)
  have "ofo AND IP_MF = ofo AND (IP_OFFMASK AND IP_MF)" by (simp only: and.assoc [symmetric] m)
  then have f: "ofo AND IP_MF = 0" by simp
  show "(if mf then IP_OFFMASK AND ofo OR IP_MF else IP_OFFMASK AND ofo) AND IP_OFFMASK = (ofo :: u16)"
    "(if mf then IP_OFFMASK AND ofo OR IP_MF else IP_OFFMASK AND ofo) AND IP_MF = (if mf then IP_MF else 0)"
    by (simp_all add: and.commute [of IP_OFFMASK] m f bit.conj_disj_distrib2)
qed

lemma set_chksum_simps [simp]:
  "v_hl (set_chksum h) = v_hl h" "ip_len (set_chksum h) = ip_len h" "ip_id (set_chksum h) = ip_id h"
  "ip_offset (set_chksum h) = ip_offset h" "ip_src (set_chksum h) = ip_src h" "ip_dest (set_chksum h) = ip_dest h"
  by (simp_all add: set_chksum_def Let_def)

lemma piece_frag:
  assumes p: "fhdr p = piece_header hdr ofo mf n" and hl: "IPH_HL_BYTES hdr = 20" and n: "8 * unat ofo + n \<le> 65515"
  shows "unat (fstart (rfrag_of p)) = 8 * unat ofo" "unat (fend (rfrag_of p)) = 8 * unat ofo + n"
    "is_last_frag p \<longleftrightarrow> \<not> mf" "frag_header_ok p" "dgram_key (fhdr p) = dgram_key hdr"
proof -
  have o: "unat ofo < 8192" using n by simp
  have "unat (of_nat n :: u16) = n" using n by (intro unat_of_nat_u16) simp
  then have len: "unat (of_nat n + 20 :: u16) = n + 20" "(of_nat n + 20 :: u16) - 20 = of_nat n"
    using n by (simp_all add: unat_word_ariths)
  have off: "IPH_OFFSET_BYTES (fhdr p) = ofo * 8"
    using o by (simp add: p piece_header_def IPH_OFFSET_BYTES_def lwip_htons_invol piece_bits)
  have u8: "unat (ofo * 8) = 8 * unat ofo" using o by (simp add: unat_word_ariths)
  then show "unat (fstart (rfrag_of p)) = 8 * unat ofo" by (simp add: rfrag_of_def off)
  have "rfrag_of p = \<lparr>fstart = ofo * 8, fend = ofo * 8 + of_nat n, rdata = fdata p, rlens = flens p\<rparr>"
    unfolding rfrag_of_def off by (simp add: p piece_header_def lwip_htons_invol)
  then show "unat (fend (rfrag_of p)) = 8 * unat ofo + n"
    using n u8 \<open>unat (of_nat n) = n\<close> by (simp add: unat_word_ariths(1) [of "ofo * 8"])
  show "is_last_frag p \<longleftrightarrow> \<not> mf"
    using o by (simp add: p piece_header_def htons_and piece_bits htons_0)
  show "frag_header_ok p" using hl len
    by (simp add: frag_header_ok_def p piece_header_def IPH_HL_BYTES_def lwip_htons_invol word_le_nat_alt)
  show "dgram_key (fhdr p) = dgram_key hdr" by (simp add: p piece_header_def dgram_key_def)
qed

definition frag_payload :: "frag \<Rightarrow> ip_hdr \<times> u8 list" where
  "frag_payload p = (fhdr p, fdata p)"

lemma pieces_train:
  assumes "8 dvd room" "8 \<le> room" "room \<le> 65515" "IPH_HL_BYTES hdr = 20" "bs \<noteq> []" "8 * unat ofo + length bs \<le> 65515"
    "map frag_payload ps = ip_pieces room hdr False ofo bs"
  shows "ps \<noteq> [] \<and> gapless (map rfrag_of ps) \<and> unat (fstart (rfrag_of (hd ps))) = 8 * unat ofo
    \<and> unat (fend (rfrag_of (last ps))) = 8 * unat ofo + length bs
    \<and> (\<forall>p\<in>set ps. frag_header_ok p \<and> dgram_key (fhdr p) = dgram_key hdr \<and> fstart (rfrag_of p) < fend (rfrag_of p))
    \<and> (\<forall>p\<in>set (butlast ps). \<not> is_last_frag p) \<and> is_last_frag (last ps) \<and> (length bs > room \<longrightarrow> length ps \<ge> 2)"
  using assms(5-)
proof (induction "length bs" arbitrary: bs ofo ps rule: less_induct)
  case less
  have room: "room div 8 * 8 = room" using assms(1) by simp
  let ?n = "min (length bs) room" and ?o = "ofo + of_nat (room div 8)"
  have pc: "ip_pieces room hdr False ofo bs = (piece_header hdr ofo (length bs > room) ?n, take ?n bs) # ip_pieces room hdr False ?o (drop ?n bs)"
    using less.prems(1) assms(2) room by (subst ip_pieces.simps) (simp add: Let_def)
  then obtain p qs where ps: "ps = p # qs" "fhdr p = piece_header hdr ofo (length bs > room) ?n"
      "map frag_payload qs = ip_pieces room hdr False ?o (drop ?n bs)"
    using less.prems(3) by (cases ps) (auto simp: frag_payload_def)
  have "8 * unat ofo + ?n \<le> 65515" using less.prems(2) by simp
  note p = piece_frag [OF ps(2) assms(4) this]
  have lt: "fstart (rfrag_of p) < fend (rfrag_of p)" using p(1,2) less.prems(1) assms(2) by (simp add: word_less_nat_alt)
  show ?case
  proof (cases "length bs > room")
    case False
    then have "qs = []" using ps(3) by (simp add: ip_pieces.simps)
    with False p lt show ?thesis by (simp add: ps(1))
  next
    case True
    have "unat (of_nat (room div 8) :: u16) = room div 8" using assms(3) by (intro unat_of_nat_u16) simp
    then have "unat ?o = unat ofo + room div 8" using less.prems(2) True by (simp add: unat_word_ariths)
    then have o: "8 * unat ?o = 8 * unat ofo + room" using room by simp
    from True less.prems(2) assms(2) ps(3) o
    have IH: "qs \<noteq> [] \<and> gapless (map rfrag_of qs) \<and> unat (fstart (rfrag_of (hd qs))) = 8 * unat ?o
      \<and> unat (fend (rfrag_of (last qs))) = 8 * unat ?o + length (drop ?n bs)
      \<and> (\<forall>p\<in>set qs. frag_header_ok p \<and> dgram_key (fhdr p) = dgram_key hdr \<and> fstart (rfrag_of p) < fend (rfrag_of p))
      \<and> (\<forall>p\<in>set (butlast qs). \<not> is_last_frag p) \<and> is_last_frag (last qs) \<and> (length (drop ?n bs) > room \<longrightarrow> length qs \<ge> 2)"
      by (intro less.hyps) auto
    then obtain q rs where qs: "qs = q # rs" by (cases qs) auto
    have "fend (rfrag_of p) = fstart (rfrag_of q)" using IH p(2) True o by (simp add: qs word_unat_eq_iff)
    with IH True p lt o show ?thesis by (auto simp: ps(1) qs)
  qed
qed

section \<open>The properties\<close>

lemma ip4_frag_eq:
  assumes "28 \<le> mtu" "IPH_HL_BYTES hdr = 20" "length bs \<le> 65515"
  shows "ip4_frag mtu hdr bs mems = Some (granted mems (ip_pieces (unat mtu - 20) hdr (lwip_htons (ip_offset hdr) AND IP_MF \<noteq> 0)
     (lwip_htons (ip_offset hdr) AND IP_OFFMASK) bs))"
  using frag_loop_eq [OF assms(1), of bs] assms(2,3) by (simp add: ip4_frag_def Let_def)

lemma set_chksum_valid: "NOT (lwip_standard_chksum a (hdr_bytes (set_chksum h))) = 0"
proof -
  let ?xs = "[v_hl h, tos h] @ bytes16 (ip_len h) @ bytes16 (ip_id h) @ bytes16 (ip_offset h) @ [ttl h, proto h]"
  let ?ys = "bytes32 (ip_src h) @ bytes32 (ip_dest h)"
  have z: "hdr_bytes (h\<lparr>ip_chksum := 0\<rparr>) = ?xs @ 0 # 0 # ?ys" by (simp add: hdr_bytes_def bytes16_def)
  have "hdr_bytes (set_chksum h) = ?xs @ bytes16 (NOT (lwip_standard_chksum 0 (?xs @ 0 # 0 # ?ys))) @ ?ys"
    unfolding set_chksum_def Let_def z by (simp add: hdr_bytes_def)
  moreover have "NOT (lwip_standard_chksum a (?xs @ bytes16 (NOT (lwip_standard_chksum 0 (?xs @ 0 # 0 # ?ys))) @ ?ys)) = 0"
    by (rule chksum2.chk_complement [OF _ _ refl]) (simp_all add: bytes16_def bytes32_def)
  ultimately show ?thesis by (simp only:)
qed

lemma pieces_fit:
  "p \<in> set (ip_pieces room hdr mf ofo bs) \<Longrightarrow> snd p \<noteq> [] \<and> length (snd p) \<le> room
     \<and> ip_len (fst p) = lwip_htons (of_nat (length (snd p)) + 20) \<and> NOT (lwip_standard_chksum a (hdr_bytes (fst p))) = 0"
proof (induction room hdr mf ofo bs rule: ip_pieces.induct)
  case (1 room hdr mf ofo bs)
  show ?case
  proof (cases "bs = [] \<or> room < 8")
    case False
    let ?n = "min (length bs) (room div 8 * 8)"
    have n: "0 < ?n" "?n \<le> room" using False by (auto simp: min_def)
    consider "p = (piece_header hdr ofo (length bs > room \<or> mf) ?n, take ?n bs)"
      | "p \<in> set (ip_pieces room hdr mf (ofo + of_nat (room div 8)) (drop ?n bs))"
      using "1.prems" False by (subst (asm) ip_pieces.simps) (auto simp: Let_def)
    then show ?thesis
    proof cases
      case 1
      then show ?thesis using n set_chksum_valid by (simp add: piece_header_def)
    next
      case 2
      with "1.IH" False show ?thesis by blast
    qed
  qed (use "1.prems" in \<open>simp add: ip_pieces.simps\<close>)
qed

lemma pieces_headers:
  "p \<in> set (ip_pieces room hdr mf ofo bs) \<Longrightarrow> v_hl (fst p) = v_hl hdr \<and> ip_src (fst p) = ip_src hdr \<and> ip_dest (fst p) = ip_dest hdr"
proof (induction room hdr mf ofo bs rule: ip_pieces.induct)
  case (1 room hdr mf ofo bs)
  then show ?case by (subst (asm) (2) ip_pieces.simps) (auto simp: Let_def piece_header_def split: if_splits)
qed

text \<open>
  C23. \<^verbatim>\<open>ip4_frag\<close> with an MTU of at least 28 ends. While memory is granted, the packets it sends carry the data
  of the datagram, in order and completely, none of them is longer than the MTU, none is empty, and the length field and the header
  checksum of each are right. When an allocation is refused, the packets before it have been sent and the error is \<open>ERR_MEM\<close>.
\<close>

theorem ip4_frag_cuts:
  assumes "28 \<le> mtu" "IPH_HL_BYTES hdr = 20" "length bs \<le> 65515"
  shows "\<exists>ps. concat (map snd ps) = bs
     \<and> (\<forall>p\<in>set ps. snd p \<noteq> [] \<and> 20 + length (snd p) \<le> unat mtu \<and> ip_len (fst p) = lwip_htons (of_nat (length (snd p)) + 20)
          \<and> NOT (lwip_standard_chksum 0 (hdr_bytes (fst p))) = 0)
     \<and> (\<forall>mems. ip4_frag mtu hdr bs mems =
          Some (let k = length (takeWhile id mems) in if k < length mems \<and> k < length ps then (ERR_MEM, take k ps) else (ERR_OK, ps)))"
proof -
  let ?ps = "ip_pieces (unat mtu - 20) hdr (lwip_htons (ip_offset hdr) AND IP_MF \<noteq> 0) (lwip_htons (ip_offset hdr) AND IP_OFFMASK) bs"
  have "28 \<le> unat mtu" using assms(1) by (simp add: word_le_nat_alt)
  then have "concat (map snd ?ps) = bs" by (intro concat_pieces) simp
  moreover have "snd p \<noteq> [] \<and> 20 + length (snd p) \<le> unat mtu \<and> ip_len (fst p) = lwip_htons (of_nat (length (snd p)) + 20)
          \<and> NOT (lwip_standard_chksum 0 (hdr_bytes (fst p))) = 0" if "p \<in> set ?ps" for p
    using pieces_fit [OF that, of 0] \<open>28 \<le> unat mtu\<close> by auto
  moreover have "ip4_frag mtu hdr bs mems = Some (granted mems ?ps)" for mems by (rule ip4_frag_eq [OF assms])
  ultimately show ?thesis unfolding granted_def by blast
qed

theorem ip4_frag_cuts_witness:
  "\<exists>ps. concat (map snd ps) = replicate 20 (7 :: u8)
     \<and> (\<forall>p\<in>set ps. snd p \<noteq> [] \<and> 20 + length (snd p) \<le> unat (30 :: u16) \<and> ip_len (fst p) = lwip_htons (of_nat (length (snd p)) + 20)
          \<and> NOT (lwip_standard_chksum 0 (hdr_bytes (fst p))) = 0)
     \<and> (\<forall>mems. ip4_frag 30 (sample_hdr 0 20) (replicate 20 7) mems =
          Some (let k = length (takeWhile id mems) in if k < length mems \<and> k < length ps then (ERR_MEM, take k ps) else (ERR_OK, ps)))"
  by (rule ip4_frag_cuts) (simp, code_simp, simp)

lemma frag_train:
  assumes mtu: "28 \<le> mtu" "8 dvd (unat mtu - 20)" and hdr: "IPH_HL_BYTES hdr = 20" "lwip_htons (ip_offset hdr) AND 0x3fff = 0"
    and bs: "unat mtu < length bs + 20" "length bs \<le> 65515"
    and ps: "ip4_frag mtu hdr bs [] = Some (ERR_OK, map frag_payload ps)"
  shows "fragment_train ps \<and> map frag_payload ps = ip_pieces (unat mtu - 20) hdr False 0 bs
     \<and> unat (fend (rfrag_of (last ps))) = length bs \<and> dgram_key (fhdr (hd ps)) = dgram_key hdr"
proof -
  let ?room = "unat mtu - 20"
  have m: "28 \<le> unat mtu" using mtu(1) by (simp add: word_le_nat_alt)
  have mf: "lwip_htons (ip_offset hdr) AND IP_MF = 0" "lwip_htons (ip_offset hdr) AND IP_OFFMASK = 0"
  proof -
    have *: "lwip_htons (ip_offset hdr) AND c = (lwip_htons (ip_offset hdr) AND 0x3fff) AND c" if "0x3fff AND c = c" for c
      using that by (simp add: and.assoc)
    show "lwip_htons (ip_offset hdr) AND IP_MF = 0" "lwip_htons (ip_offset hdr) AND IP_OFFMASK = 0"
      by (subst *; simp add: hdr(2))+
  qed
  have out: "map frag_payload ps = ip_pieces ?room hdr False 0 bs"
    using ps unfolding ip4_frag_eq [OF mtu(1) hdr(1) bs(2)] mf by (simp add: granted_def)
  have tr: "ps \<noteq> [] \<and> gapless (map rfrag_of ps) \<and> unat (fstart (rfrag_of (hd ps))) = 8 * unat (0 :: u16)
    \<and> unat (fend (rfrag_of (last ps))) = 8 * unat (0 :: u16) + length bs
    \<and> (\<forall>p\<in>set ps. frag_header_ok p \<and> dgram_key (fhdr p) = dgram_key hdr \<and> fstart (rfrag_of p) < fend (rfrag_of p))
    \<and> (\<forall>p\<in>set (butlast ps). \<not> is_last_frag p) \<and> is_last_frag (last ps) \<and> (length bs > ?room \<longrightarrow> length ps \<ge> 2)"
    by (rule pieces_train [OF mtu(2) _ _ hdr(1) _ _ out]) (use m bs unat_u16_lt [of mtu] in auto)
  have hdp: "hd ps \<in> set ps" using tr by simp
  have "fragment_train ps"
    using tr hdp bs m by (simp add: fragment_train_def frags_complete_def hd_map word_unat_eq_iff word_le_nat_alt)
  with out tr hdp show ?thesis by simp
qed

lemma frag_reass_any_order:
  assumes mtu: "28 \<le> mtu" "8 dvd (unat mtu - 20)" and hdr: "IPH_HL_BYTES hdr = 20" "lwip_htons (ip_offset hdr) AND 0x3fff = 0"
    and bs: "unat mtu < length bs + 20" "length bs \<le> 65515"
    and ps: "ip4_frag mtu hdr bs [] = Some (ERR_OK, map frag_payload ps)" and qs: "mset qs = mset ps"
    and s: "reass_mallocs s = []" "dgram_key hdr \<notin> (dgram_key \<circ> iphdr) ` set (reassdatagrams s)"
      "unat (ip_reass_pbufcount s) + (\<Sum>p\<leftarrow>ps. unat (fclen p)) \<le> 10"
  shows "reass_run qs s = Some (replicate (length qs - 1) None @
     [Some (set_chksum (hdr\<lparr>ip_len := lwip_htons (of_nat (length bs) + 20), ip_offset := 0\<rparr>), bs, chained_lens (map flens ps))], s)"
proof -
  let ?room = "unat mtu - 20"
  have m: "28 \<le> unat mtu" using mtu(1) by (simp add: word_le_nat_alt)
  have t: "fragment_train ps" and out: "map frag_payload ps = ip_pieces (unat mtu - 20) hdr False 0 bs"
      and fin: "unat (fend (rfrag_of (last ps))) = length bs" and k: "dgram_key (fhdr (hd ps)) = dgram_key hdr"
    using frag_train [OF mtu hdr bs ps] by auto
  have e: "fend (rfrag_of (last ps)) = of_nat (length bs)" using fin bs(2) by (simp add: word_unat_eq_iff unat_of_nat_u16)
  have "map snd (map frag_payload ps) = map fdata ps" by (simp add: frag_payload_def)
  then have "concat (map fdata ps) = bs" using out concat_pieces [of ?room hdr False 0 bs] m by simp
  moreover have "fhdr (hd ps) = piece_header hdr 0 (length bs > ?room) (min (length bs) ?room)"
  proof -
    have "map frag_payload ps = (piece_header hdr 0 (length bs > ?room) (min (length bs) ?room), take (min (length bs) ?room) bs)
        # ip_pieces ?room hdr False (of_nat (?room div 8)) (drop (min (length bs) ?room) bs)"
      unfolding out using m bs mtu(2) by (subst ip_pieces.simps) (auto simp: Let_def)
    then show ?thesis by (cases ps) (auto simp: frag_payload_def)
  qed
  then have "set_chksum ((fhdr (hd ps))\<lparr>ip_len := n, ip_offset := 0\<rparr>) = set_chksum (hdr\<lparr>ip_len := n, ip_offset := 0\<rparr>)" for n
    by (simp add: piece_header_def set_chksum_def Let_def)
  ultimately have "reassembled ps = (set_chksum (hdr\<lparr>ip_len := lwip_htons (of_nat (length bs) + 20), ip_offset := 0\<rparr>), bs, chained_lens (map flens ps))"
    by (simp add: reassembled_def e)
  with train_any_order [OF t qs s(1) _ s(3)] s(2) show ?thesis by (simp add: k)
qed

text \<open>
  C19. Fragmentation and reassembly are inverse: a datagram longer than the MTU (at least 28, and such that the room behind the header is a
  multiple of 8, as with the 1500 of the interface) that \<^verbatim>\<open>ip4_frag\<close> cuts is given back by \<^verbatim>\<open>ip4_reass\<close>, in
  whatever order its fragments arrive and in however many pbufs, as long as there is room for them.
\<close>

theorem ip4_frag_reass:
  assumes "28 \<le> mtu" "8 dvd (unat mtu - 20)" and "IPH_HL_BYTES hdr = 20" "lwip_htons (ip_offset hdr) AND 0x3fff = 0"
    and "unat mtu < length bs + 20" "length bs \<le> 65515"
    and "ip4_frag mtu hdr bs [] = Some (ERR_OK, map frag_payload ps)" and "mset qs = mset ps"
    and "reass_mallocs s = []" "dgram_key hdr \<notin> (dgram_key \<circ> iphdr) ` set (reassdatagrams s)"
      "unat (ip_reass_pbufcount s) + (\<Sum>p\<leftarrow>ps. unat (fclen p)) \<le> 10"
  shows "reass_run qs s = Some (replicate (length qs - 1) None @
     [Some (set_chksum (hdr\<lparr>ip_len := lwip_htons (of_nat (length bs) + 20), ip_offset := 0\<rparr>), bs, chained_lens (map flens ps))], s)"
  using assms by (rule frag_reass_any_order)

theorem ip4_frag_reass_witness:
  "reass_run (rev (map (\<lambda>(h, d). \<lparr>fhdr = h, fdata = d, flens = [20 + length d]\<rparr>) (ip_pieces 16 (sample_hdr 0 20) False 0 (replicate 20 7)))) reass_empty =
     Some ([None, Some (set_chksum ((sample_hdr 0 20)\<lparr>ip_len := lwip_htons (of_nat (length (replicate 20 (7 :: u8))) + 20), ip_offset := 0\<rparr>),
       replicate 20 7, [36, 4])], reass_empty)"
proof -
  let ?ps = "map (\<lambda>(h, d). \<lparr>fhdr = h, fdata = d, flens = [20 + length d]\<rparr>) (ip_pieces 16 (sample_hdr 0 20) False 0 (replicate 20 7))"
  have f: "ip4_frag 36 (sample_hdr 0 20) (replicate 20 7) [] = Some (ERR_OK, map frag_payload ?ps)" by code_simp
  have l: "length ?ps = 2" by code_simp
  have c: "(\<Sum>p\<leftarrow>?ps. unat (fclen p)) = 2" "chained_lens (map flens ?ps) = [36, 4]" by code_simp+
  have h: "IPH_HL_BYTES (sample_hdr 0 20) = 20" "lwip_htons (ip_offset (sample_hdr 0 20)) AND 0x3fff = 0" by code_simp+
  from ip4_frag_reass [OF _ _ h _ _ f, of "rev ?ps" reass_empty] show ?thesis
    unfolding length_rev l c by (simp add: reass_empty_def)
qed

section \<open>Where the packets are wrong\<close>

text \<open>
  When the room behind the header is not a multiple of 8, the fragment before the last one can already have \<open>MF\<close> clear
  (\<open>last\<close> compares with the MTU and not with the size that the fragment gets). Then the receiver takes the datagram for complete too early:
  with an MTU of 30, the 18 bytes of the datagram arrive as 16.
\<close>

theorem ip4_frag_early_last:
  "do { (e, out) \<leftarrow> ip4_frag 30 (sample_hdr 0 18) (replicate 18 7) [];
        (rs, s) \<leftarrow> reass_run (take 2 (map (\<lambda>(h, d). \<lparr>fhdr = h, fdata = d, flens = [20 + length d]\<rparr>) out)) reass_empty;
        Some (length out, map (map_option (\<lambda>(h, d, n). d)) rs) }
   = Some (3, [None, Some (replicate 16 7)])"
  by code_simp

text \<open>With an MTU between 20 and 27, a fragment gets no data at all and the loop does not end.\<close>

lemma frag_loop_stuck:
  "frag_loop mtu hdr mf left ofo bs mems sent = Some r \<Longrightarrow> frag_blocks mtu = 0 \<Longrightarrow> left \<noteq> 0 \<Longrightarrow> mems \<noteq> []"
proof (induction rule: frag_loop.raw_induct [rotated 1, consumes 1, case_names step])
  case (step loop mtu hdr mf left ofo bs mems sent y)
  show ?case
  proof
    assume "mems = []"
    with step.prems obtain sent' where "loop mtu hdr mf left ofo bs [] sent' = Some y"
      using step.hyps by (auto simp: Let_def)
    from step.IH [OF this] step.prems show False by simp
  qed
qed

theorem ip4_frag_tiny_mtu:
  assumes "20 \<le> unat mtu" "unat mtu < 28" "bs \<noteq> []" "length bs \<le> 65515" "IPH_HL_BYTES hdr = 20"
  shows "ip4_frag mtu hdr bs [] = None"
proof -
  have z: "frag_blocks mtu = 0" using assms(1,2) by (simp add: frag_blocks_def word_le_nat_alt)
  have "unat (of_nat (length bs) :: u16) = length bs" using assms(4) by (intro unat_of_nat_u16) simp
  then have "(of_nat (length bs) :: u16) \<noteq> 0" using assms(3) by (metis length_0_conv unat_0)
  with frag_loop_stuck [OF _ z] assms(5) show ?thesis
    by (simp add: ip4_frag_def Let_def) (metis not_None_eq)
qed

end
