(* ===== verification/Ip4.thy ===== *)
theory Ip4
  imports Ip4_Cut Ip4_Addr
begin

text \<open>
  IPv4 input and output (\<^verbatim>\<open>ipv4/ip4.c\<close>, \<^verbatim>\<open>ip.c\<close>) in the configuration of this port: one interface that accepts
  every packet, no forwarding, no checksum test on input, the checksum of the header computed on the way on output. A packet is
  the lengths of its pbufs and its bytes; the operations of \<^verbatim>\<open>pbuf.c\<close> used here are those of the theories \<open>Pbuf_*\<close>, seen on the
  bytes. A read outside the first pbuf is \<open>None\<close>. What a packet is handed to is the result.
\<close>

unbundle bit_operations_syntax

section \<open>Packets and interfaces\<close>

record pkt =
  plens :: "nat list"
  pdata :: "u8 list"

record netif =
  nif_ip :: ip4_addr_t
  nif_mask :: ip4_addr_t
  nif_mtu :: u16
  nif_up :: bool
  nif_broadcast :: bool

definition pkt_ok :: "pkt \<Rightarrow> bool" where
  "pkt_ok p \<longleftrightarrow> plens p \<noteq> [] \<and> sum_list (plens p) = length (pdata p) \<and> length (pdata p) \<le> 65535"

text \<open>\<^verbatim>\<open>pbuf_realloc\<close> cuts the chain after the pbuf that holds the last byte.\<close>

fun trim_lens :: "nat \<Rightarrow> nat list \<Rightarrow> nat list" where
  "trim_lens n [] = []"
| "trim_lens n (l # ls) = (if n \<le> l then [n] else l # trim_lens (n - l) ls)"

definition pkt_realloc :: "nat \<Rightarrow> pkt \<Rightarrow> pkt" where
  "pkt_realloc n p = \<lparr>plens = trim_lens n (plens p), pdata = take n (pdata p)\<rparr>"

text \<open>\<^verbatim>\<open>pbuf_remove_header\<close> fails when the first pbuf is too short.\<close>

definition pkt_remove_header :: "nat \<Rightarrow> pkt \<Rightarrow> pkt option" where
  "pkt_remove_header n p =
     (case plens p of
        [] \<Rightarrow> None
      | l # ls \<Rightarrow> if n \<le> l then Some \<lparr>plens = (l - n) # ls, pdata = drop n (pdata p)\<rparr> else None)"

text \<open>Bytes of the first pbuf.\<close>

definition pkt_first :: "pkt \<Rightarrow> nat" where
  "pkt_first p = (case plens p of [] \<Rightarrow> 0 | l # _ \<Rightarrow> l)"

definition pkt_u8 :: "pkt \<Rightarrow> nat \<Rightarrow> u8 option" where
  "pkt_u8 p i = (if i < pkt_first p \<and> i < length (pdata p) then Some (pdata p ! i) else None)"

definition pkt_u16 :: "pkt \<Rightarrow> nat \<Rightarrow> u16 option" where
  "pkt_u16 p i = do { a \<leftarrow> pkt_u8 p i; b \<leftarrow> pkt_u8 p (i + 1); Some (le16 a b) }"

definition pkt_u32 :: "pkt \<Rightarrow> nat \<Rightarrow> u32 option" where
  "pkt_u32 p i = do { a \<leftarrow> pkt_u8 p i; b \<leftarrow> pkt_u8 p (i + 1); c \<leftarrow> pkt_u8 p (i + 2); d \<leftarrow> pkt_u8 p (i + 3); Some (le32 a b c d) }"

text \<open>The fields of \<^verbatim>\<open>struct ip_hdr\<close> at the start of the packet.\<close>

definition pkt_ip_hdr :: "pkt \<Rightarrow> ip_hdr option" where
  "pkt_ip_hdr p = do {
     a \<leftarrow> pkt_u8 p 0; b \<leftarrow> pkt_u8 p 1; c \<leftarrow> pkt_u16 p 2; d \<leftarrow> pkt_u16 p 4; e \<leftarrow> pkt_u16 p 6;
     f \<leftarrow> pkt_u8 p 8; g \<leftarrow> pkt_u8 p 9; h \<leftarrow> pkt_u16 p 10; i \<leftarrow> pkt_u32 p 12; j \<leftarrow> pkt_u32 p 16;
     Some \<lparr>v_hl = a, tos = b, ip_len = c, ip_id = d, ip_offset = e, ttl = f, proto = g, ip_chksum = h, ip_src = i, ip_dest = j\<rparr> }"

definition ip4_addr_ismulticast :: "ip4_addr_t \<Rightarrow> bool" where
  "ip4_addr_ismulticast a \<longleftrightarrow> a AND lwip_htonl 0xf0000000 = lwip_htonl 0xe0000000"

abbreviation ip4_addr_isbroadcast :: "ip4_addr_t \<Rightarrow> netif \<Rightarrow> bool" where
  "ip4_addr_isbroadcast a n \<equiv> ip4_addr_isbroadcast_u32 a (nif_broadcast n) (nif_ip n) (nif_mask n)"

section \<open>Input\<close>

datatype ip4_result =
    Ip4_Dropped
  | Ip4_Queued
  | Ip4_Raw
  | Ip4_To_Udp ip_hdr pkt
  | Ip4_To_Tcp ip_hdr pkt
  | Ip4_To_Icmp ip_hdr "u8 list" pkt
  | Ip4_Other ip_hdr
  | Ip4_Unreachable ip_hdr pkt

datatype raw_input_state_t = RAW_INPUT_NONE | RAW_INPUT_EATEN | RAW_INPUT_DELIVERED

abbreviation (input) IP_PROTO_ICMP :: u8 where "IP_PROTO_ICMP \<equiv> 1"
abbreviation (input) IP_PROTO_UDP :: u8 where "IP_PROTO_UDP \<equiv> 17"
abbreviation (input) IP_PROTO_TCP :: u8 where "IP_PROTO_TCP \<equiv> 6"

text \<open>This port accepts every packet on the first interface.\<close>

definition ip4_input_accept :: "netif \<Rightarrow> bool" where
  "ip4_input_accept n = True"

text \<open>The packet of a reassembled datagram: the new header stands in front of its data, in the first pbuf.\<close>

definition dgram_pkt :: "ip_dgram \<Rightarrow> pkt" where
  "dgram_pkt d = (case d of (h, bs, ls) \<Rightarrow> \<lparr>plens = ls, pdata = hdr_bytes h @ bs\<rparr>)"

text \<open>
  The protocols. \<^verbatim>\<open>raw_input\<close> has seen the packet before; \<open>hlen\<close> is the header length that the caller found. ICMP
  also needs the options of the header.
\<close>

definition ip4_dispatch :: "netif \<Rightarrow> raw_input_state_t \<Rightarrow> ip_hdr \<Rightarrow> nat \<Rightarrow> pkt \<Rightarrow> ip4_result" where
  "ip4_dispatch inp raw hdr hlen p =
     (if raw = RAW_INPUT_EATEN then Ip4_Raw
      else
        let q = (case pkt_remove_header hlen p of Some q \<Rightarrow> q | None \<Rightarrow> p) in
        if proto hdr = IP_PROTO_UDP then Ip4_To_Udp hdr q
        else if proto hdr = IP_PROTO_TCP then Ip4_To_Tcp hdr q
        else if proto hdr = IP_PROTO_ICMP then Ip4_To_Icmp hdr (take (hlen - 20) (drop 20 (pdata p))) q
        else if raw = RAW_INPUT_DELIVERED then Ip4_Other hdr
        else if \<not> ip4_addr_isbroadcast (ip_dest hdr) inp \<and> \<not> ip4_addr_ismulticast (ip_dest hdr) then Ip4_Unreachable hdr p
        else Ip4_Dropped)"

definition ip4_input :: "(pkt \<Rightarrow> raw_input_state_t) \<Rightarrow> netif \<Rightarrow> pkt \<Rightarrow> reass \<Rightarrow> (ip4_result \<times> reass) option" where
  "ip4_input raw_input inp p s = do {
     vhl \<leftarrow> pkt_u8 p 0;
     if drop_bit 4 vhl \<noteq> 4 then Some (Ip4_Dropped, s)
     else do {
       let iphdr_hlen = unat ((vhl AND 0x0f) * 4);
       len \<leftarrow> pkt_u16 p 2;
       let iphdr_len = unat (lwip_htons len);
       let p = (if iphdr_len < length (pdata p) then pkt_realloc iphdr_len p else p);
       if iphdr_hlen > pkt_first p \<or> iphdr_len > length (pdata p) \<or> iphdr_hlen < 20 then Some (Ip4_Dropped, s)
       else do {
         hdr \<leftarrow> pkt_ip_hdr p;
         let for_us = (if ip4_addr_ismulticast (ip_dest hdr) then nif_up inp \<and> nif_ip inp \<noteq> 0 else ip4_input_accept inp);
         if ip4_addr_isbroadcast (ip_src hdr) inp \<or> ip4_addr_ismulticast (ip_src hdr) then Some (Ip4_Dropped, s)
         else if \<not> for_us then Some (Ip4_Dropped, s)
         else if ip_offset hdr AND lwip_htons (IP_OFFMASK OR IP_MF) \<noteq> 0 then do {
           (r, s) \<leftarrow> ip4_reass \<lparr>fhdr = hdr, fdata = drop iphdr_hlen (pdata p), flens = plens p\<rparr> s;
           Some (case r of
                   None \<Rightarrow> Ip4_Queued
                 | Some d \<Rightarrow> ip4_dispatch inp (raw_input (dgram_pkt d)) (fst d) iphdr_hlen (dgram_pkt d), s) }
         else Some (ip4_dispatch inp (raw_input p) hdr iphdr_hlen p, s) } } }"

section \<open>Output\<close>

datatype ip_out =
    Out_Netif "u8 list"
  | Out_Loop "u8 list"

text \<open>
  The sum of the header while it is filled in: the 16-bit words as the machine reads them, folded twice.
\<close>

definition ip4_inline_chksum :: "u8 \<Rightarrow> u8 \<Rightarrow> u8 \<Rightarrow> u8 \<Rightarrow> u16 \<Rightarrow> u16 \<Rightarrow> ip4_addr_t \<Rightarrow> ip4_addr_t \<Rightarrow> u16" where
  "ip4_inline_chksum tt pr ts vhl len ident src dest =
     (let c = 0 :: u32;
          c = c + ucast (lwip_htons (ucast pr OR push_bit 8 (ucast tt)));
          c = c + (dest AND 0xFFFF);
          c = c + drop_bit 16 dest;
          c = c + ucast (lwip_htons (ucast ts OR push_bit 8 (ucast vhl)));
          c = c + ucast len;
          c = c + ucast ident;
          c = c + (src AND 0xFFFF);
          c = c + drop_bit 16 src;
          c = drop_bit 16 c + (c AND 0xFFFF);
          c = drop_bit 16 c + c;
          c = NOT c
      in ucast c)"

text \<open>
  \<^verbatim>\<open>ip4_output_if_src\<close>. The packet is its bytes; whether there is room for the header in front of it
  (\<^verbatim>\<open>pbuf_add_header\<close>, which also refuses a packet of more than 65535 bytes) is a parameter, as are the answers of the allocator to \<^verbatim>\<open>ip4_frag\<close>. The destination is
  \<open>None\<close> for \<^verbatim>\<open>LWIP_IP_HDRINCL\<close>, when the bytes begin with a header. The state is the next identification. The result is
  the error, the packets that leave and the state; the output function of the interface answers \<open>ERR_OK\<close>.
\<close>

definition ip4_send :: "netif \<Rightarrow> ip_hdr \<Rightarrow> u8 list \<Rightarrow> bool list \<Rightarrow> (err_t \<times> ip_out list) option" where
  "ip4_send n hdr bs mems =
     (if ip_dest hdr = nif_ip n then Some (ERR_OK, [Out_Loop (hdr_bytes hdr @ bs)])
      else if nif_mtu n \<noteq> 0 \<and> 20 + length bs > unat (nif_mtu n) then do {
        (e, ps) \<leftarrow> ip4_frag (nif_mtu n) hdr bs mems;
        Some (e, map (\<lambda>(h, d). Out_Netif (hdr_bytes h @ d)) ps) }
      else Some (ERR_OK, [Out_Netif (hdr_bytes hdr @ bs)]))"

definition ip4_output_if_src ::
    "netif \<Rightarrow> bool \<Rightarrow> bool list \<Rightarrow> u8 list \<Rightarrow> ip4_addr_t \<Rightarrow> ip4_addr_t \<Rightarrow> u8 \<Rightarrow> u8 \<Rightarrow> u8 \<Rightarrow> u16
       \<Rightarrow> (err_t \<times> ip_out list \<times> u16) option" where
  "ip4_output_if_src n room mems bs src dest tt ts pr ident =
     (if \<not> (room \<and> int (20 + length bs) \<le> 0xffff) then Some (ERR_BUF, [], ident)
      else do {
        let len = lwip_htons (of_nat (20 + length bs));
        let hdr = \<lparr>v_hl = 0x45, tos = ts, ip_len = len, ip_id = lwip_htons ident, ip_offset = 0, ttl = tt, proto = pr,
                   ip_chksum = ip4_inline_chksum tt pr ts 0x45 len (lwip_htons ident) src dest, ip_src = src, ip_dest = dest\<rparr>;
        (e, out) \<leftarrow> ip4_send n hdr bs mems;
        Some (e, out, ident + 1) })"

text \<open>The branch for \<^verbatim>\<open>LWIP_IP_HDRINCL\<close>: the header is there already.\<close>

definition ip4_output_hdrincl :: "netif \<Rightarrow> bool list \<Rightarrow> pkt \<Rightarrow> (err_t \<times> ip_out list) option" where
  "ip4_output_hdrincl n mems p =
     (if pkt_first p < 20 then Some (ERR_BUF, [])
      else do {
        hdr \<leftarrow> pkt_ip_hdr p;
        if ip_dest hdr = nif_ip n then Some (ERR_OK, [Out_Loop (pdata p)])
        else if nif_mtu n \<noteq> 0 \<and> length (pdata p) > unat (nif_mtu n) then do {
          (e, ps) \<leftarrow> ip4_frag (nif_mtu n) hdr (drop 20 (pdata p)) mems;
          Some (e, map (\<lambda>(h, d). Out_Netif (hdr_bytes h @ d)) ps) }
        else Some (ERR_OK, [Out_Netif (pdata p)]) })"

definition ip4_output_if ::
    "netif \<Rightarrow> bool \<Rightarrow> bool list \<Rightarrow> u8 list \<Rightarrow> ip4_addr_t option \<Rightarrow> ip4_addr_t \<Rightarrow> u8 \<Rightarrow> u8 \<Rightarrow> u8 \<Rightarrow> u16
       \<Rightarrow> (err_t \<times> ip_out list \<times> u16) option" where
  "ip4_output_if n room mems bs src dest tt ts pr ident =
     (let src_used = (case src of None \<Rightarrow> nif_ip n | Some a \<Rightarrow> if a = 0 then nif_ip n else a)
      in ip4_output_if_src n room mems bs src_used dest tt ts pr ident)"

text \<open>No routing: the first interface, if there is one.\<close>

definition ip4_route :: "netif list \<Rightarrow> netif option" where
  "ip4_route ns = (case ns of [] \<Rightarrow> None | n # _ \<Rightarrow> Some n)"

definition ip4_output ::
    "netif list \<Rightarrow> bool \<Rightarrow> bool list \<Rightarrow> u8 list \<Rightarrow> ip4_addr_t option \<Rightarrow> ip4_addr_t \<Rightarrow> u8 \<Rightarrow> u8 \<Rightarrow> u8 \<Rightarrow> u16
       \<Rightarrow> (err_t \<times> ip_out list \<times> u16) option" where
  "ip4_output ns room mems bs src dest tt ts pr ident =
     (case ip4_route ns of
        None \<Rightarrow> Some (ERR_RTE, [], ident)
      | Some n \<Rightarrow> ip4_output_if n room mems bs src dest tt ts pr ident)"

end
