(* ===== verification/Ip_Any.thy ===== *)
theory Ip_Any
  imports Ip4
begin

text \<open>
  The macros of \<^verbatim>\<open>ip_addr.h\<close>, \<^verbatim>\<open>ip6_addr.h\<close> and \<^verbatim>\<open>ip6_zone.h\<close> for addresses of either version, and what
  \<^verbatim>\<open>netif.c\<close> and \<^verbatim>\<open>ip6.c\<close> add to an interface for IPv6: its index, its IPv6 addresses and the route.
\<close>

unbundle bit_operations_syntax

section \<open>IPv6 addresses\<close>

definition ip6_addr_isany :: "ip6_addr_t \<Rightarrow> bool" where
  "ip6_addr_isany a \<longleftrightarrow> addr0 a = 0 \<and> addr1 a = 0 \<and> addr2 a = 0 \<and> addr3 a = 0"

definition ip6_addr_cmp_zoneless :: "ip6_addr_t \<Rightarrow> ip6_addr_t \<Rightarrow> bool" where
  "ip6_addr_cmp_zoneless a b \<longleftrightarrow> addr0 a = addr0 b \<and> addr1 a = addr1 b \<and> addr2 a = addr2 b \<and> addr3 a = addr3 b"

definition ip6_addr_cmp :: "ip6_addr_t \<Rightarrow> ip6_addr_t \<Rightarrow> bool" where
  "ip6_addr_cmp a b \<longleftrightarrow> ip6_addr_cmp_zoneless a b \<and> zone a = zone b"

definition ip6_addr_islinklocal :: "ip6_addr_t \<Rightarrow> bool" where
  "ip6_addr_islinklocal a \<longleftrightarrow> addr0 a AND lwip_htonl 0xffc00000 = lwip_htonl 0xfe800000"

definition ip6_addr_ismulticast :: "ip6_addr_t \<Rightarrow> bool" where
  "ip6_addr_ismulticast a \<longleftrightarrow> addr0 a AND lwip_htonl 0xff000000 = lwip_htonl 0xff000000"

definition ip6_addr_ismulticast_iflocal :: "ip6_addr_t \<Rightarrow> bool" where
  "ip6_addr_ismulticast_iflocal a \<longleftrightarrow> addr0 a AND lwip_htonl 0xff8f0000 = lwip_htonl 0xff010000"

definition ip6_addr_ismulticast_linklocal :: "ip6_addr_t \<Rightarrow> bool" where
  "ip6_addr_ismulticast_linklocal a \<longleftrightarrow> addr0 a AND lwip_htonl 0xff8f0000 = lwip_htonl 0xff020000"

text \<open>\<^verbatim>\<open>ip6_addr_has_scope\<close> and \<^verbatim>\<open>ip6_addr_lacks_zone\<close> for the type \<^verbatim>\<open>IP6_UNKNOWN\<close>, the only one used here.\<close>

definition ip6_addr_has_scope :: "ip6_addr_t \<Rightarrow> bool" where
  "ip6_addr_has_scope a \<longleftrightarrow> ip6_addr_islinklocal a \<or> ip6_addr_ismulticast_iflocal a \<or> ip6_addr_ismulticast_linklocal a"

definition ip6_addr_lacks_zone :: "ip6_addr_t \<Rightarrow> bool" where
  "ip6_addr_lacks_zone a \<longleftrightarrow> zone a = 0 \<and> ip6_addr_has_scope a"

section \<open>Addresses of either version\<close>

definition IP4_ADDR_ANY :: ip_addr_t where
  "IP4_ADDR_ANY = \<lparr>u_addr = \<lparr>addr0 = 0, addr1 = 0, addr2 = 0, addr3 = 0, zone = 0\<rparr>, iptype = IPADDR_TYPE_V4\<rparr>"

definition IP_ANY_TYPE :: ip_addr_t where
  "IP_ANY_TYPE = IP4_ADDR_ANY\<lparr>iptype := IPADDR_TYPE_ANY\<rparr>"

text \<open>Copying an address that is not an IPv6 address clears the words behind the first one.\<close>

definition ip_addr_set :: "ip_addr_t \<Rightarrow> ip_addr_t" where
  "ip_addr_set src =
     (if IP_IS_V6 src then src
      else \<lparr>u_addr = \<lparr>addr0 = ip_2_ip4 src, addr1 = 0, addr2 = 0, addr3 = 0, zone = 0\<rparr>, iptype = iptype src\<rparr>)"

definition ip_addr_copy_from_ip4 :: "ip4_addr_t \<Rightarrow> ip_addr_t" where
  "ip_addr_copy_from_ip4 a = \<lparr>u_addr = \<lparr>addr0 = a, addr1 = 0, addr2 = 0, addr3 = 0, zone = 0\<rparr>, iptype = IPADDR_TYPE_V4\<rparr>"

definition ip_addr_set_any :: "bool \<Rightarrow> ip_addr_t" where
  "ip_addr_set_any is_ipv6 = IP4_ADDR_ANY\<lparr>iptype := (if is_ipv6 then IPADDR_TYPE_V6 else IPADDR_TYPE_V4)\<rparr>"

definition ip_addr_cmp :: "ip_addr_t \<Rightarrow> ip_addr_t \<Rightarrow> bool" where
  "ip_addr_cmp a b \<longleftrightarrow> iptype a = iptype b
     \<and> (if IP_IS_V6 a then ip6_addr_cmp (ip_2_ip6 a) (ip_2_ip6 b) else ip_2_ip4 a = ip_2_ip4 b)"

definition ip_addr_isany :: "ip_addr_t \<Rightarrow> bool" where
  "ip_addr_isany a \<longleftrightarrow> (if IP_IS_V6 a then ip6_addr_isany (ip_2_ip6 a) else ip_2_ip4 a = 0)"

definition ip_addr_isbroadcast :: "ip_addr_t \<Rightarrow> netif \<Rightarrow> bool" where
  "ip_addr_isbroadcast a n \<longleftrightarrow> \<not> IP_IS_V6 a \<and> ip4_addr_isbroadcast (ip_2_ip4 a) n"

definition ip_addr_ismulticast :: "ip_addr_t \<Rightarrow> bool" where
  "ip_addr_ismulticast a \<longleftrightarrow> (if IP_IS_V6 a then ip6_addr_ismulticast (ip_2_ip6 a) else ip4_addr_ismulticast (ip_2_ip4 a))"

lemma ip_addr_from_ip4_simps [simp]: "iptype (ip_addr_copy_from_ip4 a) = 0" "ip_2_ip4 (ip_addr_copy_from_ip4 a) = a" "\<not> IP_IS_V6 (ip_addr_copy_from_ip4 a)"
  by (simp_all add: ip_addr_copy_from_ip4_def ip_2_ip4_def IP_IS_V6_def)

lemma ip_addr_set_simps [simp]: "iptype (ip_addr_set a) = iptype a" "ip_2_ip4 (ip_addr_set a) = ip_2_ip4 a"
  "ip_addr_set (ip_addr_set a) = ip_addr_set a"
  by (simp_all add: ip_addr_set_def ip_2_ip4_def IP_IS_V6_def)

lemma ip_addr_cmp_refl [simp]: "ip_addr_cmp a a"
  by (simp add: ip_addr_cmp_def ip6_addr_cmp_def ip6_addr_cmp_zoneless_def)

lemma ip_addr_cmp_sym: "ip_addr_cmp a b \<longleftrightarrow> ip_addr_cmp b a"
  by (auto simp: ip_addr_cmp_def ip6_addr_cmp_def ip6_addr_cmp_zoneless_def IP_IS_V6_def)

lemma ip_addr_cmp_set [simp]: "ip_addr_cmp (ip_addr_set a) b \<longleftrightarrow> ip_addr_cmp a b" "ip_addr_cmp b (ip_addr_set a) \<longleftrightarrow> ip_addr_cmp b a"
  by (auto simp: ip_addr_cmp_def ip_addr_set_def IP_IS_V6_def ip_2_ip4_def)

lemma ip_addr_isany_set [simp]: "ip_addr_isany (ip_addr_set a) \<longleftrightarrow> ip_addr_isany a"
  by (auto simp: ip_addr_isany_def ip_addr_set_def IP_IS_V6_def ip_2_ip4_def)

section \<open>Interfaces\<close>

record xnetif =
  xif :: netif
  xif_idx :: u8
  xif_ip6 :: "(ip6_addr_t \<times> u8) list"

text \<open>No routing: the first interface.\<close>

definition ip6_route :: "xnetif list \<Rightarrow> xnetif option" where
  "ip6_route ns = (case ns of [] \<Rightarrow> None | n # _ \<Rightarrow> Some n)"

definition ip6_addr_select_zone :: "xnetif list \<Rightarrow> ip6_addr_t \<Rightarrow> ip6_addr_t" where
  "ip6_addr_select_zone ns dest =
     (case ip6_route ns of None \<Rightarrow> dest | Some n \<Rightarrow> dest\<lparr>zone := (if ip6_addr_has_scope dest then xif_idx n else 0)\<rparr>)"

definition netif_get_by_index :: "xnetif list \<Rightarrow> u8 \<Rightarrow> xnetif option" where
  "netif_get_by_index ns idx = (if idx = 0 then None else find (\<lambda>n. xif_idx n = idx) ns)"

text \<open>The position of the address among those of the interface that are not invalid (state 0), or \<^verbatim>\<open>-1\<close>.\<close>

fun ip6_addr_search :: "ip6_addr_t \<Rightarrow> int \<Rightarrow> (ip6_addr_t \<times> u8) list \<Rightarrow> int" where
  "ip6_addr_search a i [] = - 1"
| "ip6_addr_search a i ((b, st) # bs) = (if st \<noteq> 0 \<and> ip6_addr_cmp_zoneless b a then i else ip6_addr_search a (i + 1) bs)"

definition netif_get_ip6_addr_match :: "xnetif \<Rightarrow> ip6_addr_t \<Rightarrow> int" where
  "netif_get_ip6_addr_match n a =
     (if zone a \<noteq> 0 \<and> zone a \<noteq> xif_idx n then - 1 else ip6_addr_search a 0 (xif_ip6 n))"

end
