(* ===== verification/Port_Search.thy ===== *)
theory Port_Search
  imports Lwip_Prelude
begin

text \<open>
  The search for a free local port, which \<^verbatim>\<open>udp_new_port\<close> and \<^verbatim>\<open>tcp_new_port\<close> share: the ports of the dynamic range are tried
  one after the other, at most 16384 times. The locale \<open>port_range\<close> states what the search needs of the step from one port to
  the next; UDP and TCP interpret it.
\<close>

section \<open>The loop\<close>

text \<open>
  The jump back to \<^verbatim>\<open>again\<close>: \<open>step\<close> is the next port, \<open>taken\<close> walks over the control blocks (and is \<open>None\<close> if one of them is
  not allocated), \<open>n\<close> counts the ports in use that were tried. The result is the port found or 0, and the last port tried.
\<close>

function port_loop :: "(u16 \<Rightarrow> u16) \<Rightarrow> (u16 \<Rightarrow> bool option) \<Rightarrow> u16 \<Rightarrow> u16 \<Rightarrow> (u16 \<times> u16) option" where
  "port_loop step taken n port =
     (let port = step port in
      case taken port of
        None \<Rightarrow> None
      | Some False \<Rightarrow> Some (port, port)
      | Some True \<Rightarrow> if n + 1 > 0xffff - 0xc000 then Some (0, port) else port_loop step taken (n + 1) port)"
  by pat_completeness auto
termination
proof (relation "measure (\<lambda>(_, _, n, _). 65536 - unat (n + 1))", goal_cases)
  case (2 step taken n port p)
  then have "unat (n + 1) \<le> 0x3fff" by (simp add: word_less_nat_alt)
  moreover from this have "unat (n + 1 + 1) = unat (n + 1) + 1" by (subst unat_add_lem [THEN iffD1]) simp_all
  ultimately show ?case by simp
qed simp

declare port_loop.simps [simp del]

section \<open>What the search finds\<close>

locale port_range =
  fixes step :: "u16 \<Rightarrow> u16" and ports :: "u16 set"
  assumes step_in: "p \<in> ports \<Longrightarrow> step p \<in> ports"
    and cover: "p \<in> ports \<Longrightarrow> q \<in> ports \<Longrightarrow> \<exists>k < 16384. (step ^^ k) (step p) = q"
    and no_zero: "0 \<notin> ports"
begin

lemma loop_result:
  assumes "\<And>p. p \<in> ports \<Longrightarrow> taken p = Some (p \<in> U)" and "port \<in> ports" and "unat n < 16384"
  shows "\<exists>r last. port_loop step taken n port = Some (r, last) \<and> last \<in> ports
    \<and> (if \<forall>k < 16384 - unat n. (step ^^ k) (step port) \<in> U then r = 0 else r = last \<and> r \<notin> U)"
  using assms(2,3)
proof (induction "16384 - unat n" arbitrary: n port)
  case (Suc m)
  have in_: "step port \<in> ports" by (rule step_in [OF Suc.prems(1)])
  have n1: "unat (n + 1) = unat n + 1" using Suc.prems(2) by (subst unat_add_lem [THEN iffD1]) simp_all
  show ?case
  proof (cases "step port \<in> U")
    case False
    have "port_loop step taken n port = Some (step port, step port)"
      using assms(1) [OF in_] False by (subst port_loop.simps) (simp add: Let_def)
    moreover have "\<not> (\<forall>k < 16384 - unat n. (step ^^ k) (step port) \<in> U)" using False Suc.prems(2) by (auto intro!: exI [of _ 0])
    ultimately show ?thesis using in_ False by auto
  next
    case True
    have split: "(\<forall>k < 16384 - unat n. (step ^^ k) (step port) \<in> U) \<longleftrightarrow> (\<forall>k < 16384 - unat (n + 1). (step ^^ k) (step (step port)) \<in> U)"
    proof -
      have "16384 - unat n = Suc (16384 - unat (n + 1))" using n1 Suc.prems(2) by simp
      then show ?thesis using True by (simp add: All_less_Suc2 funpow_swap1)
    qed
    have loop: "port_loop step taken n port = (if n + 1 > 0x3fff then Some (0, step port) else port_loop step taken (n + 1) (step port))"
      using assms(1) [OF in_] True by (subst port_loop.simps) (simp add: Let_def)
    show ?thesis
    proof (cases "n + 1 > 0x3fff")
      case True
      then have "unat (n + 1) = 16384" using n1 Suc.prems(2) by (simp add: word_less_nat_alt)
      then show ?thesis unfolding split loop using True in_ by simp
    next
      case False
      then have "unat (n + 1) < 16384" by (simp add: word_less_nat_alt)
      moreover have "m = 16384 - unat (n + 1)" using Suc.hyps(2) n1 by simp
      ultimately show ?thesis unfolding split loop using Suc.hyps(1) [of "n + 1" "step port"] in_ False by simp
    qed
  qed
qed simp

text \<open>The search fails exactly when every port of the range is in use.\<close>

lemma search:
  assumes "\<And>p. p \<in> ports \<Longrightarrow> taken p = Some (p \<in> U)" and "port \<in> ports"
  shows "\<exists>r last. port_loop step taken 0 port = Some (r, last) \<and> last \<in> ports
    \<and> (if ports \<subseteq> U then r = 0 else r \<in> ports - U)"
proof -
  have "(step ^^ k) (step port) \<in> ports" for k by (induction k) (use step_in assms(2) in auto)
  then have *: "(\<forall>k < 16384. (step ^^ k) (step port) \<in> U) \<longleftrightarrow> ports \<subseteq> U" using cover [OF assms(2)] by blast
  from loop_result [OF assms(1,2), of 0] show ?thesis unfolding * [symmetric] by (auto split: if_splits)
qed

end

end
