(* ===== verification/Tcp_Conn.thy ===== *)
theory Tcp_Conn
  imports Tcp_Out Ip_Any Port_Search
begin

text \<open>
  The control blocks of TCP (\<^verbatim>\<open>tcp.c\<close>): the four lists they are on, allocation, binding, listening, opening, closing and
  aborting. Control blocks live in memory, a list is the list of their addresses; access to a block that is not allocated is
  \<open>None\<close>. A callback of the application may change everything: it is a function on the whole state.
\<close>

unbundle bit_operations_syntax

section \<open>State\<close>

datatype tcp_recv_fn = Tcp_Recv_Null | Recv_Fn nat
datatype tcp_accept_fn = Tcp_Accept_Null | Accept_Fn nat

text \<open>
  A control block: the connection (\<open>conn\<close>) and the fields that concern its place in the stack. \<open>listener\<close> and \<open>local_ip_any\<close>
  of the connection are read from \<open>t_listener\<close> and \<open>t_local_ip\<close> here. A listening block uses the fields of \<^verbatim>\<open>struct tcp_pcb_listen\<close>.
\<close>

record tcb =
  conn :: tcp_pcb
  t_local_ip :: ip_addr_t
  t_remote_ip :: ip_addr_t
  t_netif_idx :: u8
  t_so_options :: u8
  t_tos :: u8
  t_ttl :: u8
  t_prio :: u8
  t_last_timer :: u8
  t_pollinterval :: u8
  t_keep_idle :: u32
  t_listener :: "nat option"
  t_callback_arg :: nat
  t_recv :: "tcp_recv_fn option"
  t_sent :: "nat option"
  t_connected :: "nat option"
  t_poll :: "nat option"
  t_errf :: "nat option"
  t_accept :: "tcp_accept_fn option"

text \<open>
  The static variables of the file, the answers of the layers below, and the trace of what is sent. \<open>pcb_allocs\<close>: the
  addresses that the allocator finds (one that is in use counts as none), \<open>seg_allocs\<close>: whether memory is found for a
  segment, \<open>ip_results\<close> and \<open>ctl_results\<close>: what becomes of segments and of control segments. A list that is used up answers:
  no control block, memory, success.
\<close>

record tcp_stack =
  tcp_mem :: "nat \<Rightarrow> tcb option"
  tcp_bound_pcbs :: "nat list"
  tcp_listen_pcbs :: "nat list"
  tcp_active_pcbs :: "nat list"
  tcp_tw_pcbs :: "nat list"
  tcp_active_pcbs_changed :: bool
  last_tcp_port :: u16
  timer_toggle :: u8
  tcp_timer_started :: bool
  tcp_timer_ctr :: u8
  ticks :: u32
  last_iss :: u32
  tcp_input_pcb :: "nat option"
  input_close :: bool
  pcb_allocs :: "nat option list"
  seg_allocs :: "bool list"
  ip_results :: "err_t list"
  ctl_results :: "send_result list"
  tcp_trace :: "(nat option \<times> tcp_action) list"

datatype tcp_event =
    Ev_Accept nat nat "nat option" err_t
  | Ev_Sent nat nat nat u16
  | Ev_Recv nat nat nat "u8 list option" err_t
  | Ev_Poll nat nat nat
  | Ev_Err nat nat err_t

text \<open>
  What is outside: the interfaces, the choice of an IPv6 source address and the path MTU of IPv6 (\<^verbatim>\<open>ip6.c\<close>, \<^verbatim>\<open>nd6.c\<close>),
  and the application.
\<close>

record tcp_world =
  w_netifs :: "xnetif list"
  w_ip6_source :: "xnetif \<Rightarrow> ip6_addr_t \<Rightarrow> ip_addr_t option"
  w_nd6_mtu :: "ip6_addr_t \<Rightarrow> xnetif option \<Rightarrow> u16"
  w_app :: "tcp_event \<Rightarrow> tcp_stack \<Rightarrow> (err_t \<times> tcp_stack) option"

abbreviation (input) TF_CLOSEPEND :: u16 where "TF_CLOSEPEND \<equiv> 0x08"
abbreviation (input) TCP_SND_BUF :: u16 where "TCP_SND_BUF \<equiv> 32768"
abbreviation (input) INITIAL_MSS :: u16 where "INITIAL_MSS \<equiv> 536"
abbreviation (input) TCP_PRIO_NORMAL :: u8 where "TCP_PRIO_NORMAL \<equiv> 64"
abbreviation (input) TCP_PRIO_MAX :: u8 where "TCP_PRIO_MAX \<equiv> 127"

definition upd_tcb :: "nat \<Rightarrow> (tcb \<Rightarrow> tcb) \<Rightarrow> tcp_stack \<Rightarrow> tcp_stack option" where
  "upd_tcb a f s = do { b \<leftarrow> tcp_mem s a; Some (s\<lparr>tcp_mem := (tcp_mem s)(a \<mapsto> f b)\<rparr>) }"

definition upd_conn :: "nat \<Rightarrow> (tcp_pcb \<Rightarrow> tcp_pcb) \<Rightarrow> tcp_stack \<Rightarrow> tcp_stack option" where
  "upd_conn a f = upd_tcb a (\<lambda>b. b\<lparr>conn := f (conn b)\<rparr>)"

section \<open>Lists\<close>

text \<open>
  Registering a block that is on the list already makes the list cyclic, and the next walk over it never ends: \<open>None\<close>.
\<close>

definition TCP_REG :: "nat \<Rightarrow> nat list \<Rightarrow> nat list option" where
  "TCP_REG a xs = (if a \<in> set xs then None else Some (a # xs))"

text \<open>\<open>tcp_timer_started\<close> is \<^verbatim>\<open>tcpip_tcp_timer_active\<close>: \<^verbatim>\<open>TCP_REG\<close> ends with a call of \<^verbatim>\<open>tcp_timer_needed\<close>, which starts the timer when it is
  not running and there is something for it to do.\<close>

definition timer_needed :: "tcp_stack \<Rightarrow> tcp_stack" where
  "timer_needed s = (if tcp_active_pcbs s \<noteq> [] \<or> tcp_tw_pcbs s \<noteq> [] then s\<lparr>tcp_timer_started := True\<rparr> else s)"

definition TCP_REG_ACTIVE :: "nat \<Rightarrow> tcp_stack \<Rightarrow> tcp_stack option" where
  "TCP_REG_ACTIVE a s = do {
     xs \<leftarrow> TCP_REG a (tcp_active_pcbs s);
     Some ((timer_needed (s\<lparr>tcp_active_pcbs := xs\<rparr>))\<lparr>tcp_active_pcbs_changed := True\<rparr>) }"

definition TCP_RMV_ACTIVE :: "nat \<Rightarrow> tcp_stack \<Rightarrow> tcp_stack" where
  "TCP_RMV_ACTIVE a s = s\<lparr>tcp_active_pcbs := remove1 a (tcp_active_pcbs s), tcp_active_pcbs_changed := True\<rparr>"

definition TCP_RMV_BOUND :: "nat \<Rightarrow> tcp_stack \<Rightarrow> tcp_stack" where
  "TCP_RMV_BOUND a s = s\<lparr>tcp_bound_pcbs := remove1 a (tcp_bound_pcbs s)\<rparr>"

definition state_of :: "tcp_stack \<Rightarrow> nat \<Rightarrow> tcp_state option" where
  "state_of s a = map_option (\<lambda>b. state (conn b)) (tcp_mem s a)"

definition tcp_pcbs_sane :: "tcp_stack \<Rightarrow> bool" where
  "tcp_pcbs_sane s \<longleftrightarrow>
     (\<forall>a \<in> set (tcp_active_pcbs s). state_of s a \<notin> {None, Some CLOSED, Some LISTEN, Some TIME_WAIT})
     \<and> (\<forall>a \<in> set (tcp_tw_pcbs s). state_of s a = Some TIME_WAIT)"

section \<open>Sending\<close>

definition tcp_route :: "tcp_world \<Rightarrow> tcb option \<Rightarrow> xnetif option" where
  "tcp_route w b =
     (case b of
        Some b \<Rightarrow> if t_netif_idx b \<noteq> 0 then netif_get_by_index (w_netifs w) (t_netif_idx b) else ip6_route (w_netifs w)
      | None \<Rightarrow> ip6_route (w_netifs w))"

definition ip_netif_get_local_ip :: "tcp_world \<Rightarrow> xnetif \<Rightarrow> ip_addr_t \<Rightarrow> ip_addr_t option" where
  "ip_netif_get_local_ip w n dest =
     (if IP_IS_V6 dest then w_ip6_source w n (ip_2_ip6 dest) else Some (ip_addr_copy_from_ip4 (nif_ip (xif n))))"

definition route_mtu_of :: "tcp_world \<Rightarrow> ip_addr_t \<Rightarrow> xnetif option \<Rightarrow> u16 option" where
  "route_mtu_of w dest n = (if IP_IS_V6 dest then Some (w_nd6_mtu w (ip_2_ip6 dest) n) else map_option (\<lambda>n. nif_mtu (xif n)) n)"

definition ctl_result :: "tcp_stack \<Rightarrow> send_result" where
  "ctl_result s = (case ctl_results s of [] \<Rightarrow> Send_Result ERR_OK | r # _ \<Rightarrow> r)"

definition seg_alloc :: "tcp_stack \<Rightarrow> bool" where
  "seg_alloc s = (case seg_allocs s of [] \<Rightarrow> True | r # _ \<Rightarrow> r)"

text \<open>\<^verbatim>\<open>tcp_output\<close> for a block: the model of sending with what the stack knows of routes and interfaces.\<close>

definition output_env :: "tcp_world \<Rightarrow> nat \<Rightarrow> tcb \<Rightarrow> tcp_stack \<Rightarrow> out_env" where
  "output_env w a b s =
     (let n = tcp_route w (Some b)
      in \<lparr>is_input_pcb = (tcp_input_pcb s = Some a), route_found = (n \<noteq> None),
          netif_has_ip = (case n of None \<Rightarrow> False | Some n \<Rightarrow> ip_netif_get_local_ip w n (t_remote_ip b) \<noteq> None),
          out_v6 = IP_IS_V6 (t_remote_ip b),
          out_mtu = (case route_mtu_of w (t_remote_ip b) n of None \<Rightarrow> 0 | Some m \<Rightarrow> m),
          out_ticks = ticks s, empty_ack = ctl_result s\<rparr>)"

definition pcb_output :: "tcp_world \<Rightarrow> nat \<Rightarrow> tcp_stack \<Rightarrow> (err_t \<times> tcp_stack) option" where
  "pcb_output w a s = do {
     b \<leftarrow> tcp_mem s a;
     (err, r) \<leftarrow> tcp_output (output_env w a b s)
       \<lparr>opcb = (conn b)\<lparr>local_ip_any := ip_addr_isany (t_local_ip b)\<rparr>, oresults = ip_results s, oactions = []\<rparr>;
     let ip = (if ip_addr_isany (t_local_ip b) \<and> \<not> local_ip_any (opcb r)
               then (case tcp_route w (Some b) of
                       None \<Rightarrow> t_local_ip b
                     | Some n \<Rightarrow> (case ip_netif_get_local_ip w n (t_remote_ip b) of None \<Rightarrow> t_local_ip b | Some ip \<Rightarrow> ip))
               else t_local_ip b);
     Some (err, s\<lparr>tcp_mem := (tcp_mem s)(a \<mapsto> b\<lparr>conn := opcb r, t_local_ip := ip\<rparr>), ip_results := oresults r,
       ctl_results := drop 1 (ctl_results s), tcp_trace := tcp_trace s @ map (Pair (Some a)) (oactions r)\<rparr>) }"

definition stack_rst :: "nat option \<Rightarrow> u32 \<Rightarrow> u32 \<Rightarrow> u16 \<Rightarrow> u16 \<Rightarrow> tcp_stack \<Rightarrow> tcp_stack" where
  "stack_rst a sq ak lport rport s =
     (let wnd = lwip_htons TCP_WND;
          field = lwip_htons wnd;
          acts = (if ctl_result s = Send_Result ERR_OK then [(a, Sent_Rst sq ak (lwip_htons field) lport rport)] else [])
      in s\<lparr>tcp_trace := tcp_trace s @ acts, ctl_results := drop 1 (ctl_results s)\<rparr>)"

section \<open>Releasing control blocks\<close>

definition tcp_free :: "nat \<Rightarrow> tcp_stack \<Rightarrow> tcp_stack option" where
  "tcp_free a s = do {
     b \<leftarrow> tcp_mem s a;
     LWIP_ASSERT (state (conn b) \<noteq> LISTEN);
     Some (s\<lparr>tcp_mem := (tcp_mem s)(a := None)\<rparr>) }"

text \<open>\<^verbatim>\<open>tcp_free_listen\<close> makes the same check.\<close>

definition tcp_free_listen :: "nat \<Rightarrow> tcp_stack \<Rightarrow> tcp_stack option" where
  "tcp_free_listen a s = do {
     b \<leftarrow> tcp_mem s a;
     LWIP_ASSERT (state (conn b) \<noteq> LISTEN);
     Some (s\<lparr>tcp_mem := (tcp_mem s)(a := None)\<rparr>) }"

text \<open>\<^verbatim>\<open>tcp_pcb_remove\<close> behind the removal from the list.\<close>

definition pcb_close :: "tcp_world \<Rightarrow> nat \<Rightarrow> tcp_stack \<Rightarrow> tcp_stack option" where
  "pcb_close w a s = do {
     s \<leftarrow> upd_conn a tcp_pcb_purge s;
     b \<leftarrow> tcp_mem s a;
     s \<leftarrow> (if state (conn b) \<noteq> TIME_WAIT \<and> state (conn b) \<noteq> LISTEN \<and> has16 (pcb_flags (conn b)) TF_ACK_DELAY
          then do { s \<leftarrow> upd_conn a tcp_ack_now s; (_, s) \<leftarrow> pcb_output w a s; Some s } else Some s);
     b \<leftarrow> tcp_mem s a;
     LWIP_ASSERT (state (conn b) \<noteq> LISTEN \<longrightarrow> unsent (conn b) = [] \<and> unacked (conn b) = [] \<and> ooseq (conn b) = []);
     s \<leftarrow> upd_conn a (\<lambda>p. p\<lparr>state := CLOSED, local_port := 0\<rparr>) s;
     LWIP_ASSERT (tcp_pcbs_sane s);
     Some s }"

definition TCP_PCB_REMOVE_ACTIVE :: "tcp_world \<Rightarrow> nat \<Rightarrow> tcp_stack \<Rightarrow> tcp_stack option" where
  "TCP_PCB_REMOVE_ACTIVE w a s = pcb_close w a (TCP_RMV_ACTIVE a s)"

definition remove_tw :: "tcp_world \<Rightarrow> nat \<Rightarrow> tcp_stack \<Rightarrow> tcp_stack option" where
  "remove_tw w a s = pcb_close w a (s\<lparr>tcp_tw_pcbs := remove1 a (tcp_tw_pcbs s)\<rparr>)"

definition remove_listen :: "tcp_world \<Rightarrow> nat \<Rightarrow> tcp_stack \<Rightarrow> tcp_stack option" where
  "remove_listen w a s = pcb_close w a (s\<lparr>tcp_listen_pcbs := remove1 a (tcp_listen_pcbs s)\<rparr>)"

text \<open>\<^verbatim>\<open>TCP_EVENT_ERR\<close>: the error callback, if there is one.\<close>

definition event_err :: "tcp_world \<Rightarrow> nat option \<Rightarrow> nat \<Rightarrow> err_t \<Rightarrow> tcp_stack \<Rightarrow> tcp_stack option" where
  "event_err w errf arg err s =
     (case errf of None \<Rightarrow> Some s | Some f \<Rightarrow> do { (_, s) \<leftarrow> w_app w (Ev_Err f arg err) s; Some s })"

definition tcp_abandon :: "tcp_world \<Rightarrow> nat \<Rightarrow> bool \<Rightarrow> tcp_stack \<Rightarrow> tcp_stack option" where
  "tcp_abandon w a reset s = do {
     b \<leftarrow> tcp_mem s a;
     let p = conn b;
     LWIP_ASSERT (state p \<noteq> LISTEN);
     if state p = TIME_WAIT then do {
       s \<leftarrow> remove_tw w a s;
       tcp_free a s }
     else do {
       s \<leftarrow> (if state p = CLOSED then Some (if local_port p \<noteq> 0 then TCP_RMV_BOUND a s else s)
            else TCP_PCB_REMOVE_ACTIVE w a s);
       let s = (if state p \<noteq> CLOSED \<and> reset
                then stack_rst (Some a) (snd_nxt p) (rcv_nxt p) (local_port p) (remote_port p) s else s);
       s \<leftarrow> tcp_free a s;
       event_err w (t_errf b) (t_callback_arg b) ERR_ABRT s } }"

definition abort_pcb :: "tcp_world \<Rightarrow> nat \<Rightarrow> tcp_stack \<Rightarrow> tcp_stack option" where
  "abort_pcb w a s = tcp_abandon w a True s"

text \<open>When a listening block is closed, its connections forget it.\<close>

definition forget_listener :: "nat \<Rightarrow> tcb \<Rightarrow> tcb" where
  "forget_listener l b = (if t_listener b = Some l then b\<lparr>t_listener := None\<rparr> else b)"

fun tcp_remove_listener :: "nat \<Rightarrow> nat list \<Rightarrow> tcp_stack \<Rightarrow> tcp_stack option" where
  "tcp_remove_listener l [] s = Some s"
| "tcp_remove_listener l (a # as) s = do { s \<leftarrow> upd_tcb a (forget_listener l) s; tcp_remove_listener l as s }"

definition tcp_listen_closed :: "nat \<Rightarrow> tcp_stack \<Rightarrow> tcp_stack option" where
  "tcp_listen_closed a s = do {
     LWIP_ASSERT (state_of s a = Some LISTEN);
     s \<leftarrow> tcp_remove_listener a (tcp_bound_pcbs s) s;
     s \<leftarrow> tcp_remove_listener a (tcp_active_pcbs s) s;
     tcp_remove_listener a (tcp_tw_pcbs s) s }"

section \<open>Closing\<close>

definition enqueue_fin :: "nat \<Rightarrow> tcp_stack \<Rightarrow> (err_t \<times> tcp_stack) option" where
  "enqueue_fin a s = do {
     b \<leftarrow> tcp_mem s a;
     (err, p) \<leftarrow> tcp_send_fin (seg_alloc s) (conn b);
     Some (err, s\<lparr>tcp_mem := (tcp_mem s)(a \<mapsto> b\<lparr>conn := p\<rparr>), seg_allocs := drop 1 (seg_allocs s)\<rparr>) }"

definition tcp_close_shutdown_fin :: "tcp_world \<Rightarrow> nat \<Rightarrow> tcp_stack \<Rightarrow> (err_t \<times> tcp_stack) option" where
  "tcp_close_shutdown_fin w a s = do {
     b \<leftarrow> tcp_mem s a;
     case (case state (conn b) of
             SYN_RCVD \<Rightarrow> Some FIN_WAIT_1 | ESTABLISHED \<Rightarrow> Some FIN_WAIT_1 | CLOSE_WAIT \<Rightarrow> Some LAST_ACK | _ \<Rightarrow> None) of
       None \<Rightarrow> Some (ERR_OK, s)
     | Some st \<Rightarrow> do {
         (err, s) \<leftarrow> enqueue_fin a s;
         if err = ERR_OK then do {
           s \<leftarrow> upd_conn a (\<lambda>p. p\<lparr>state := st\<rparr>) s;
           (_, s) \<leftarrow> pcb_output w a s;
           Some (ERR_OK, s) }
         else if err = ERR_MEM then do { s \<leftarrow> upd_conn a (tcp_set_flags TF_CLOSEPEND) s; Some (ERR_OK, s) }
         else Some (err, s) } }"

text \<open>
  During input processing of the same connection the block is not freed but marked (\<^verbatim>\<open>tcp_trigger_input_pcb_close\<close>).
\<close>

definition tcp_close_shutdown :: "tcp_world \<Rightarrow> nat \<Rightarrow> bool \<Rightarrow> tcp_stack \<Rightarrow> (err_t \<times> tcp_stack) option" where
  "tcp_close_shutdown w a rst_on_unacked_data s = do {
     b \<leftarrow> tcp_mem s a;
     let p = conn b;
     if rst_on_unacked_data \<and> (state p = ESTABLISHED \<or> state p = CLOSE_WAIT) \<and> (refused_data p \<noteq> None \<or> rcv_wnd p \<noteq> TCP_WND) then do {
       LWIP_ASSERT (has16 (pcb_flags p) TF_RXCLOSED);
       let s = stack_rst (Some a) (snd_nxt p) (rcv_nxt p) (local_port p) (remote_port p) s;
       s \<leftarrow> upd_conn a tcp_pcb_purge s;
       let s = TCP_RMV_ACTIVE a s;
       s \<leftarrow> (if tcp_input_pcb s = Some a then Some (s\<lparr>input_close := True\<rparr>) else tcp_free a s);
       Some (ERR_OK, s) }
     else
       (case state p of
          CLOSED \<Rightarrow> do {
            s \<leftarrow> tcp_free a (if local_port p \<noteq> 0 then TCP_RMV_BOUND a s else s);
            Some (ERR_OK, s) }
        | LISTEN \<Rightarrow> do {
            s \<leftarrow> tcp_listen_closed a s;
            s \<leftarrow> remove_listen w a s;
            s \<leftarrow> tcp_free_listen a s;
            Some (ERR_OK, s) }
        | SYN_SENT \<Rightarrow> do {
            s \<leftarrow> TCP_PCB_REMOVE_ACTIVE w a s;
            s \<leftarrow> tcp_free a s;
            Some (ERR_OK, s) }
        | _ \<Rightarrow> tcp_close_shutdown_fin w a s) }"

definition tcp_close :: "tcp_world \<Rightarrow> nat \<Rightarrow> tcp_stack \<Rightarrow> (err_t \<times> tcp_stack) option" where
  "tcp_close w a s = do {
     b \<leftarrow> tcp_mem s a;
     s \<leftarrow> (if state (conn b) \<noteq> LISTEN then upd_conn a (tcp_set_flags TF_RXCLOSED) s else Some s);
     tcp_close_shutdown w a True s }"

definition tcp_shutdown :: "tcp_world \<Rightarrow> nat \<Rightarrow> bool \<Rightarrow> bool \<Rightarrow> tcp_stack \<Rightarrow> (err_t \<times> tcp_stack) option" where
  "tcp_shutdown w a shut_rx shut_tx s = do {
     b \<leftarrow> tcp_mem s a;
     if state (conn b) = LISTEN then Some (ERR_CONN, s)
     else do {
       s \<leftarrow> (if shut_rx then upd_conn a (tcp_set_flags TF_RXCLOSED) s else Some s);
       if shut_rx \<and> shut_tx then tcp_close_shutdown w a True s
       else do {
         s \<leftarrow> (if shut_rx then upd_conn a (\<lambda>p. p\<lparr>refused_data := None\<rparr>) s else Some s);
         if shut_tx then
           if state (conn b) \<in> {SYN_RCVD, ESTABLISHED, CLOSE_WAIT} then tcp_close_shutdown w a shut_rx s
           else Some (ERR_CONN, s)
         else Some (ERR_OK, s) } } }"

end
