(* ===== verification/Tcp_Open.thy ===== *)
theory Tcp_Open
  imports Tcp_Conn
begin

text \<open>
  Control blocks of TCP, continued (\<^verbatim>\<open>tcp.c\<close>): ports, binding, allocation (which aborts old connections when memory is
  short), listening, opening a connection, the calls that set callbacks, and a change of an interface address. Also the SYN
  that reaches a listening block (\<^verbatim>\<open>tcp_listen_input\<close> of \<^verbatim>\<open>tcp_in.c\<close>).
\<close>

unbundle bit_operations_syntax

section \<open>Ports and binding\<close>

abbreviation (input) TCP_LOCAL_PORT_RANGE_START :: u16 where "TCP_LOCAL_PORT_RANGE_START \<equiv> 0xc000"
abbreviation (input) TCP_LOCAL_PORT_RANGE_END :: u16 where "TCP_LOCAL_PORT_RANGE_END \<equiv> 0xffff"

definition TCP_ENSURE_LOCAL_PORT_RANGE :: "u32 \<Rightarrow> u16" where
  "TCP_ENSURE_LOCAL_PORT_RANGE r = ucast ((r AND ucast (NOT TCP_LOCAL_PORT_RANGE_START)) + ucast TCP_LOCAL_PORT_RANGE_START)"

text \<open>\<open>r\<close> is the value of \<^verbatim>\<open>rand()\<close>.\<close>

definition tcp_init :: "u32 \<Rightarrow> tcp_stack \<Rightarrow> tcp_stack" where
  "tcp_init r s = s\<lparr>last_tcp_port := TCP_ENSURE_LOCAL_PORT_RANGE r\<rparr>"

definition tcp_pcb_lists :: "tcp_stack \<Rightarrow> nat list" where
  "tcp_pcb_lists s = tcp_listen_pcbs s @ tcp_bound_pcbs s @ tcp_active_pcbs s @ tcp_tw_pcbs s"

fun tcp_port_in_use :: "(nat \<Rightarrow> tcb option) \<Rightarrow> u16 \<Rightarrow> nat list \<Rightarrow> bool option" where
  "tcp_port_in_use m port [] = Some False"
| "tcp_port_in_use m port (a # as) = do {
     b \<leftarrow> m a;
     if local_port (conn b) = port then Some True else tcp_port_in_use m port as }"

definition next_tcp_port :: "u16 \<Rightarrow> u16" where
  "next_tcp_port port = (if port + 1 = TCP_LOCAL_PORT_RANGE_END then TCP_LOCAL_PORT_RANGE_START else port + 1)"

definition tcp_new_port :: "tcp_stack \<Rightarrow> (u16 \<times> tcp_stack) option" where
  "tcp_new_port s = do {
     (r, port) \<leftarrow> port_loop next_tcp_port (\<lambda>p. tcp_port_in_use (tcp_mem s) p (tcp_pcb_lists s)) 0 (last_tcp_port s);
     Some (r, s\<lparr>last_tcp_port := port\<rparr>) }"

fun tcp_bind_conflict :: "(nat \<Rightarrow> tcb option) \<Rightarrow> ip_addr_t \<Rightarrow> u16 \<Rightarrow> nat list \<Rightarrow> bool option" where
  "tcp_bind_conflict m ip port [] = Some False"
| "tcp_bind_conflict m ip port (a # as) = do {
     b \<leftarrow> m a;
     if local_port (conn b) = port \<and> (IP_IS_V6 ip \<longleftrightarrow> IP_IS_V6 (t_local_ip b))
        \<and> (ip_addr_isany (t_local_ip b) \<or> ip_addr_isany ip \<or> ip_addr_cmp (t_local_ip b) ip)
     then Some True
     else tcp_bind_conflict m ip port as }"

text \<open>Here the zone of an address is looked for as that of a unicast address (\<^verbatim>\<open>IP6_UNICAST\<close>).\<close>

definition unicast_lacks_zone :: "ip_addr_t \<Rightarrow> bool" where
  "unicast_lacks_zone a \<longleftrightarrow> IP_IS_V6 a \<and> zone (ip_2_ip6 a) = 0 \<and> ip6_addr_islinklocal (ip_2_ip6 a)"

definition tcp_bind :: "tcp_world \<Rightarrow> nat \<Rightarrow> ip_addr_t option \<Rightarrow> u16 \<Rightarrow> tcp_stack \<Rightarrow> (err_t \<times> tcp_stack) option" where
  "tcp_bind w a ipaddr port s = do {
     let ipaddr = (case ipaddr of None \<Rightarrow> IP4_ADDR_ANY | Some ip \<Rightarrow> ip);
     b \<leftarrow> tcp_mem s a;
     LWIP_ASSERT (state (conn b) = CLOSED);
     let ipaddr = (if unicast_lacks_zone ipaddr
                   then (ip_addr_set ipaddr)\<lparr>u_addr := ip6_addr_select_zone (w_netifs w) (ip_2_ip6 ipaddr)\<rparr> else ipaddr);
     (err, port, s) \<leftarrow>
       (if port = 0 then do { (p, s) \<leftarrow> tcp_new_port s; Some (if p = 0 then ERR_BUF else ERR_OK, p, s) }
        else do { c \<leftarrow> tcp_bind_conflict (tcp_mem s) ipaddr port (tcp_pcb_lists s); Some (if c then ERR_USE else ERR_OK, port, s) });
     if err \<noteq> ERR_OK then Some (err, s)
     else do {
       s \<leftarrow> upd_tcb a (\<lambda>b. b\<lparr>
              t_local_ip := (if \<not> ip_addr_isany ipaddr \<or> iptype ipaddr \<noteq> iptype (t_local_ip b) then ip_addr_set ipaddr else t_local_ip b),
              conn := (conn b)\<lparr>local_port := port\<rparr>\<rparr>) s;
       xs \<leftarrow> TCP_REG a (tcp_bound_pcbs s);
       Some (ERR_OK, timer_needed (s\<lparr>tcp_bound_pcbs := xs\<rparr>)) } }"

definition tcp_bind_netif :: "nat \<Rightarrow> xnetif option \<Rightarrow> tcp_stack \<Rightarrow> tcp_stack option" where
  "tcp_bind_netif a n = upd_tcb a (\<lambda>b. b\<lparr>t_netif_idx := (case n of None \<Rightarrow> 0 | Some n \<Rightarrow> xif_idx n)\<rparr>)"

section \<open>Allocation\<close>

text \<open>The oldest candidate: the last one in the list with the greatest time since its last activity.\<close>

fun kill_scan :: "(tcb \<Rightarrow> bool) \<Rightarrow> u32 \<Rightarrow> (nat \<Rightarrow> tcb option) \<Rightarrow> u32 \<Rightarrow> nat option \<Rightarrow> nat list \<Rightarrow> nat option option" where
  "kill_scan c now m inactivity inactive [] = Some inactive"
| "kill_scan c now m inactivity inactive (a # as) = do {
     b \<leftarrow> m a;
     if c b \<and> now - tmr (conn b) \<ge> inactivity then kill_scan c now m (now - tmr (conn b)) (Some a) as
     else kill_scan c now m inactivity inactive as }"

definition tcp_kill_timewait :: "tcp_world \<Rightarrow> tcp_stack \<Rightarrow> tcp_stack option" where
  "tcp_kill_timewait w s = do {
     r \<leftarrow> kill_scan (\<lambda>_. True) (ticks s) (tcp_mem s) 0 None (tcp_tw_pcbs s);
     case r of None \<Rightarrow> Some s | Some a \<Rightarrow> abort_pcb w a s }"

definition tcp_kill_state :: "tcp_world \<Rightarrow> tcp_state \<Rightarrow> tcp_stack \<Rightarrow> tcp_stack option" where
  "tcp_kill_state w st s = do {
     LWIP_ASSERT (st = CLOSING \<or> st = LAST_ACK);
     r \<leftarrow> kill_scan (\<lambda>b. state (conn b) = st) (ticks s) (tcp_mem s) 0 None (tcp_active_pcbs s);
     case r of None \<Rightarrow> Some s | Some a \<Rightarrow> tcp_abandon w a False s }"

fun kill_prio_scan :: "u32 \<Rightarrow> (nat \<Rightarrow> tcb option) \<Rightarrow> u8 \<Rightarrow> u32 \<Rightarrow> nat option \<Rightarrow> nat list \<Rightarrow> nat option option" where
  "kill_prio_scan now m mprio inactivity inactive [] = Some inactive"
| "kill_prio_scan now m mprio inactivity inactive (a # as) = do {
     b \<leftarrow> m a;
     if t_prio b < mprio \<or> t_prio b = mprio \<and> now - tmr (conn b) \<ge> inactivity
     then kill_prio_scan now m (t_prio b) (now - tmr (conn b)) (Some a) as
     else kill_prio_scan now m mprio inactivity inactive as }"

definition tcp_kill_prio :: "tcp_world \<Rightarrow> u8 \<Rightarrow> tcp_stack \<Rightarrow> tcp_stack option" where
  "tcp_kill_prio w prio s =
     (let mprio = min TCP_PRIO_MAX prio in
      if mprio = 0 then Some s
      else do {
        r \<leftarrow> kill_prio_scan (ticks s) (tcp_mem s) (mprio - 1) 0 None (tcp_active_pcbs s);
        case r of None \<Rightarrow> Some s | Some a \<Rightarrow> abort_pcb w a s })"

fun closepend_loop :: "tcp_world \<Rightarrow> nat list \<Rightarrow> tcp_stack \<Rightarrow> tcp_stack option" where
  "closepend_loop w [] s = Some s"
| "closepend_loop w (a # as) s = do {
     b \<leftarrow> tcp_mem s a;
     s \<leftarrow> (if has16 (pcb_flags (conn b)) TF_CLOSEPEND
          then do {
            s \<leftarrow> upd_conn a (tcp_clear_flags TF_CLOSEPEND) s;
            (_, s) \<leftarrow> tcp_close_shutdown_fin w a s;
            Some s }
          else Some s);
     closepend_loop w as s }"

definition tcp_handle_closepend :: "tcp_world \<Rightarrow> tcp_stack \<Rightarrow> tcp_stack option" where
  "tcp_handle_closepend w s = closepend_loop w (tcp_active_pcbs s) s"

text \<open>\<^verbatim>\<open>memp_malloc\<close> of a control block: the next answer, if that address is free.\<close>

definition malloc_pcb :: "tcp_stack \<Rightarrow> nat option \<times> tcp_stack" where
  "malloc_pcb s =
     (case pcb_allocs s of
        [] \<Rightarrow> (None, s)
      | r # rs \<Rightarrow> ((case r of None \<Rightarrow> None | Some a \<Rightarrow> if tcp_mem s a = None then Some a else None), s\<lparr>pcb_allocs := rs\<rparr>))"

text \<open>One attempt after something was given up.\<close>

definition retry_malloc :: "(tcp_stack \<Rightarrow> tcp_stack option) \<Rightarrow> nat option \<times> tcp_stack \<Rightarrow> (nat option \<times> tcp_stack) option" where
  "retry_malloc kill r =
     (case r of (Some a, s) \<Rightarrow> Some (Some a, s) | (None, s) \<Rightarrow> do { s \<leftarrow> kill s; Some (malloc_pcb s) })"

definition zero_ip :: ip_addr_t where
  "zero_ip = IP4_ADDR_ANY"

definition new_conn :: "u32 \<Rightarrow> tcp_pcb" where
  "new_conn now = \<lparr>state = CLOSED, local_port = 0, remote_port = 0, pcb_flags = 0, polltmr = 0, tmr = now,
     rcv_nxt = 0, rcv_wnd = TCP_WND, rcv_ann_wnd = TCP_WND, rcv_ann_right_edge = 0, rtime = -1, mss = INITIAL_MSS,
     rttest = 0, rtseq = 0, sa = 0, sv = 6, rto = 6, nrtx = 0, dupacks = 0, lastack = 0, cwnd = 1, ssthresh = TCP_SND_BUF,
     rto_end = 0, snd_nxt = 0, snd_wl1 = 0, snd_wl2 = 0, snd_lbb = 0, snd_wnd = 0, snd_wnd_max = 0, snd_buf = TCP_SND_BUF,
     snd_queuelen = 0, unsent_oversize = 0, bytes_acked = 0, unsent = [], unacked = [], ooseq = [], refused_data = None,
     listener = False, persist_probe = 0, keep_cnt_sent = 0, persist_cnt = 0, persist_backoff = 0, local_ip_any = True\<rparr>"

definition new_tcb :: "u8 \<Rightarrow> u32 \<Rightarrow> u8 \<Rightarrow> tcb" where
  "new_tcb prio now ctr = \<lparr>conn = new_conn now, t_local_ip = zero_ip, t_remote_ip = zero_ip, t_netif_idx = 0, t_so_options = 0,
     t_tos = 0, t_ttl = 64, t_prio = prio, t_last_timer = ctr, t_pollinterval = 0, t_keep_idle = 7200000, t_listener = None,
     t_callback_arg = 0, t_recv = Some Tcp_Recv_Null, t_sent = None, t_connected = None, t_poll = None, t_errf = None,
     t_accept = None\<rparr>"

definition tcp_alloc :: "tcp_world \<Rightarrow> u8 \<Rightarrow> tcp_stack \<Rightarrow> (nat option \<times> tcp_stack) option" where
  "tcp_alloc w prio s = do {
     let r = malloc_pcb s;
     r \<leftarrow> retry_malloc (\<lambda>s. do { s \<leftarrow> tcp_handle_closepend w s; tcp_kill_timewait w s }) r;
     r \<leftarrow> retry_malloc (tcp_kill_state w LAST_ACK) r;
     r \<leftarrow> retry_malloc (tcp_kill_state w CLOSING) r;
     (a, s) \<leftarrow> retry_malloc (tcp_kill_prio w prio) r;
     Some (a, case a of
                None \<Rightarrow> s
              | Some a \<Rightarrow> s\<lparr>tcp_mem := (tcp_mem s)(a \<mapsto> new_tcb prio (ticks s) (tcp_timer_ctr s))\<rparr>) }"

definition tcp_new :: "tcp_world \<Rightarrow> tcp_stack \<Rightarrow> (nat option \<times> tcp_stack) option" where
  "tcp_new w s = tcp_alloc w TCP_PRIO_NORMAL s"

definition tcp_new_ip_type :: "tcp_world \<Rightarrow> u8 \<Rightarrow> tcp_stack \<Rightarrow> (nat option \<times> tcp_stack) option" where
  "tcp_new_ip_type w type s = do {
     (r, s) \<leftarrow> tcp_alloc w TCP_PRIO_NORMAL s;
     case r of
       None \<Rightarrow> Some (None, s)
     | Some a \<Rightarrow> do {
         s \<leftarrow> upd_tcb a (\<lambda>b. b\<lparr>t_local_ip := (t_local_ip b)\<lparr>iptype := type\<rparr>, t_remote_ip := (t_remote_ip b)\<lparr>iptype := type\<rparr>\<rparr>) s;
         Some (Some a, s) } }"

section \<open>Listening\<close>

text \<open>The listening block is a smaller one of its own; the given block is freed. Fields it does not have are those of a new block.\<close>

definition listen_tcb :: "tcp_stack \<Rightarrow> tcb \<Rightarrow> tcb" where
  "listen_tcb s b = (new_tcb (t_prio b) (ticks s) (tcp_timer_ctr s))\<lparr>
     conn := (new_conn (ticks s))\<lparr>state := LISTEN, local_port := local_port (conn b)\<rparr>, t_callback_arg := t_callback_arg b,
     t_so_options := t_so_options b, t_netif_idx := 0, t_ttl := t_ttl b, t_tos := t_tos b,
     t_remote_ip := zero_ip\<lparr>iptype := iptype (t_local_ip b)\<rparr>, t_local_ip := ip_addr_set (t_local_ip b),
     t_accept := Some Tcp_Accept_Null\<rparr>"

definition tcp_listen_with_backlog_and_err :: "nat \<Rightarrow> tcp_stack \<Rightarrow> (nat option \<times> err_t \<times> tcp_stack) option" where
  "tcp_listen_with_backlog_and_err a s = do {
     b \<leftarrow> tcp_mem s a;
     LWIP_ASSERT (state (conn b) = CLOSED);
     case malloc_pcb s of
       (None, s) \<Rightarrow> Some (None, ERR_MEM, s)
     | (Some l, s) \<Rightarrow> do {
         let s = s\<lparr>tcp_mem := (tcp_mem s)(l \<mapsto> listen_tcb s b)\<rparr>;
         s \<leftarrow> tcp_free a (if local_port (conn b) \<noteq> 0 then TCP_RMV_BOUND a s else s);
         xs \<leftarrow> TCP_REG l (tcp_listen_pcbs s);
         Some (Some l, ERR_OK, timer_needed (s\<lparr>tcp_listen_pcbs := xs\<rparr>)) } }"

definition tcp_listen_with_backlog :: "nat \<Rightarrow> tcp_stack \<Rightarrow> (nat option \<times> tcp_stack) option" where
  "tcp_listen_with_backlog a s = do { (l, _, s) \<leftarrow> tcp_listen_with_backlog_and_err a s; Some (l, s) }"

section \<open>Opening a connection\<close>

definition tcp_next_iss :: "tcp_stack \<Rightarrow> u32 \<times> tcp_stack" where
  "tcp_next_iss s = (let i = last_iss s + ticks s in (i, s\<lparr>last_iss := i\<rparr>))"

text \<open>The queueing of a SYN; \<open>ERR_MEM\<close> leaves the block in CLOSED.\<close>

definition enqueue_syn :: "nat \<Rightarrow> u8 \<Rightarrow> tcp_stack \<Rightarrow> (err_t \<times> tcp_stack) option" where
  "enqueue_syn a fl s = do {
     b \<leftarrow> tcp_mem s a;
     (err, p) \<leftarrow> tcp_enqueue_flags (seg_alloc s) fl (conn b);
     Some (err, s\<lparr>tcp_mem := (tcp_mem s)(a \<mapsto> b\<lparr>conn := p\<rparr>), seg_allocs := drop 1 (seg_allocs s)\<rparr>) }"

definition connect_conn :: "u32 \<Rightarrow> u16 \<Rightarrow> tcp_pcb \<Rightarrow> tcp_pcb" where
  "connect_conn i m p = p\<lparr>rcv_nxt := 0, snd_nxt := i, lastack := i - 1, snd_wl2 := i - 1, snd_lbb := i - 1,
     rcv_wnd := TCP_WND, rcv_ann_wnd := TCP_WND, rcv_ann_right_edge := 0, snd_wnd := TCP_WND, mss := m, cwnd := 1\<rparr>"

text \<open>The second half of \<^verbatim>\<open>tcp_connect\<close>: the addresses are known.\<close>

definition connect_syn :: "tcp_world \<Rightarrow> nat \<Rightarrow> xnetif \<Rightarrow> ip_addr_t \<Rightarrow> ip_addr_t \<Rightarrow> nat option \<Rightarrow> tcp_stack \<Rightarrow> (err_t \<times> tcp_stack) option" where
  "connect_syn w a n local_ip remote_ip cb s = do {
     s \<leftarrow> upd_tcb a (\<lambda>b. b\<lparr>t_local_ip := local_ip, t_remote_ip := remote_ip\<rparr>) s;
     b \<leftarrow> tcp_mem s a;
     let old_local_port = local_port (conn b);
     (port, s) \<leftarrow> (if old_local_port = 0 then tcp_new_port s else Some (old_local_port, s));
     s \<leftarrow> upd_conn a (\<lambda>p. p\<lparr>local_port := port\<rparr>) s;
     if port = 0 then Some (ERR_BUF, s)
     else do {
       let (i, s) = tcp_next_iss s;
       let m = tcp_eff_send_mss_netif INITIAL_MSS (IP_IS_V6 remote_ip) (route_mtu_of w remote_ip (Some n));
       s \<leftarrow> upd_tcb a (\<lambda>b. b\<lparr>conn := connect_conn i m (conn b), t_connected := cb\<rparr>) s;
       (err, s) \<leftarrow> enqueue_syn a TCP_SYN s;
       if err = ERR_OK then do {
         s \<leftarrow> upd_conn a (\<lambda>p. p\<lparr>state := SYN_SENT\<rparr>) s;
         s \<leftarrow> TCP_REG_ACTIVE a (if old_local_port \<noteq> 0 then TCP_RMV_BOUND a s else s);
         (_, s) \<leftarrow> pcb_output w a s;
         Some (ERR_OK, s) }
       else Some (err, s) } }"

definition tcp_connect :: "tcp_world \<Rightarrow> nat \<Rightarrow> ip_addr_t \<Rightarrow> u16 \<Rightarrow> nat option \<Rightarrow> tcp_stack \<Rightarrow> (err_t \<times> tcp_stack) option" where
  "tcp_connect w a ipaddr port cb s = do {
     b \<leftarrow> tcp_mem s a;
     LWIP_ASSERT (state (conn b) = CLOSED);
     s \<leftarrow> upd_tcb a (\<lambda>b. b\<lparr>t_remote_ip := ip_addr_set ipaddr, conn := (conn b)\<lparr>remote_port := port\<rparr>\<rparr>) s;
     case tcp_route w (Some b) of
       None \<Rightarrow> Some (ERR_RTE, s)
     | Some n \<Rightarrow>
         (case (if ip_addr_isany (t_local_ip b) then map_option ip_addr_set (ip_netif_get_local_ip w n ipaddr) else Some (t_local_ip b)) of
            None \<Rightarrow> Some (ERR_RTE, s)
          | Some local_ip \<Rightarrow>
              let ip = ip_addr_set ipaddr;
                  remote_ip = (if unicast_lacks_zone ip then ip\<lparr>u_addr := (ip_2_ip6 ip)\<lparr>zone := xif_idx n\<rparr>\<rparr> else ip)
              in connect_syn w a n local_ip remote_ip cb s) }"

section \<open>Calls of the application\<close>

definition pcb_recved :: "tcp_world \<Rightarrow> nat \<Rightarrow> u16 \<Rightarrow> tcp_stack \<Rightarrow> tcp_stack option" where
  "pcb_recved w a len s = do {
     b \<leftarrow> tcp_mem s a;
     (out, p) \<leftarrow> tcp_recved len (conn b);
     s \<leftarrow> upd_conn a (\<lambda>_. p) s;
     if out then do { (_, s) \<leftarrow> pcb_output w a s; Some s } else Some s }"

definition tcp_recv_null :: "tcp_world \<Rightarrow> nat \<Rightarrow> u8 list option \<Rightarrow> err_t \<Rightarrow> tcp_stack \<Rightarrow> (err_t \<times> tcp_stack) option" where
  "tcp_recv_null w a d err s =
     (case d of
        Some bs \<Rightarrow> do { s \<leftarrow> pcb_recved w a (of_nat (length bs)) s; Some (ERR_OK, s) }
      | None \<Rightarrow> if err = ERR_OK then tcp_close w a s else Some (ERR_OK, s))"

definition tcp_accept_null :: "tcp_world \<Rightarrow> nat \<Rightarrow> tcp_stack \<Rightarrow> (err_t \<times> tcp_stack) option" where
  "tcp_accept_null w a s = do { s \<leftarrow> abort_pcb w a s; Some (ERR_ABRT, s) }"

definition tcp_setprio :: "nat \<Rightarrow> u8 \<Rightarrow> tcp_stack \<Rightarrow> tcp_stack option" where
  "tcp_setprio a prio = upd_tcb a (\<lambda>b. b\<lparr>t_prio := prio\<rparr>)"

definition tcp_arg :: "nat \<Rightarrow> nat \<Rightarrow> tcp_stack \<Rightarrow> tcp_stack option" where
  "tcp_arg a arg = upd_tcb a (\<lambda>b. b\<lparr>t_callback_arg := arg\<rparr>)"

text \<open>\<^verbatim>\<open>tcp_recv\<close>, \<^verbatim>\<open>tcp_sent\<close>, \<^verbatim>\<open>tcp_err\<close> and \<^verbatim>\<open>tcp_poll\<close> must not be used on a listening block.\<close>

definition set_callback :: "nat \<Rightarrow> (tcb \<Rightarrow> tcb) \<Rightarrow> tcp_stack \<Rightarrow> tcp_stack option" where
  "set_callback a f s = do { b \<leftarrow> tcp_mem s a; LWIP_ASSERT (state (conn b) \<noteq> LISTEN); upd_tcb a f s }"

definition tcp_recv :: "nat \<Rightarrow> tcp_recv_fn option \<Rightarrow> tcp_stack \<Rightarrow> tcp_stack option" where
  "tcp_recv a f = set_callback a (\<lambda>b. b\<lparr>t_recv := f\<rparr>)"

definition tcp_sent :: "nat \<Rightarrow> nat option \<Rightarrow> tcp_stack \<Rightarrow> tcp_stack option" where
  "tcp_sent a f = set_callback a (\<lambda>b. b\<lparr>t_sent := f\<rparr>)"

definition tcp_err :: "nat \<Rightarrow> nat option \<Rightarrow> tcp_stack \<Rightarrow> tcp_stack option" where
  "tcp_err a f = set_callback a (\<lambda>b. b\<lparr>t_errf := f\<rparr>)"

definition tcp_poll :: "nat \<Rightarrow> nat option \<Rightarrow> u8 \<Rightarrow> tcp_stack \<Rightarrow> tcp_stack option" where
  "tcp_poll a f interval = set_callback a (\<lambda>b. b\<lparr>t_poll := f, t_pollinterval := interval\<rparr>)"

definition tcp_accept :: "nat \<Rightarrow> tcp_accept_fn option \<Rightarrow> tcp_stack \<Rightarrow> tcp_stack option" where
  "tcp_accept a f s = do { b \<leftarrow> tcp_mem s a; if state (conn b) = LISTEN then upd_tcb a (\<lambda>b. b\<lparr>t_accept := f\<rparr>) s else Some s }"

end
