(* ===== verification/Tcp_Conn_Ok.thy ===== *)
theory Tcp_Conn_Ok
  imports Tcp_Conn
begin

text \<open>
  What every operation keeps of a single connection: segments on the queues fit the segment size and carry no RST, the
  persist timer runs only with nothing in flight and something to send, a closed connection has empty queues, and the
  announced window never shrinks by more than it may. Sending keeps it in every environment.
\<close>

unbundle bit_operations_syntax

section \<open>The invariant\<close>

definition seg_ok :: "u16 \<Rightarrow> tcp_seg \<Rightarrow> bool" where
  "seg_ok m seg \<longleftrightarrow> \<not> has8 (sflags seg) TCP_RST \<and> slen seg \<le> m"

definition persist_ok :: "tcp_pcb \<Rightarrow> bool" where
  "persist_ok p \<longleftrightarrow> persist_backoff p > 0 \<longrightarrow> unacked p = [] \<and> unsent p \<noteq> [] \<and> persist_backoff p \<le> 7"

definition ann_wnd_ok :: "tcp_pcb \<Rightarrow> bool" where
  "ann_wnd_ok p \<longleftrightarrow> TCP_SEQ_GT (rcv_nxt p) (rcv_ann_right_edge p) \<or> rcv_ann_right_edge p - rcv_nxt p \<le> 0xffff"

definition no_queues :: "tcp_pcb \<Rightarrow> bool" where
  "no_queues p \<longleftrightarrow> unsent p = [] \<and> unacked p = [] \<and> ooseq p = []"

definition conn_ok :: "tcp_pcb \<Rightarrow> bool" where
  "conn_ok p \<longleftrightarrow> (\<forall>seg \<in> set (unsent p) \<union> set (unacked p). seg_ok (mss p) seg) \<and> persist_ok p \<and> ann_wnd_ok p
     \<and> (state p \<in> {CLOSED, TIME_WAIT} \<longrightarrow> no_queues p)"

text \<open>What sending leaves alone.\<close>

definition conn_same :: "tcp_pcb \<Rightarrow> tcp_pcb \<Rightarrow> bool" where
  "conn_same p q \<longleftrightarrow> state q = state p \<and> local_port q = local_port p \<and> remote_port q = remote_port p \<and> mss q = mss p
     \<and> ooseq q = ooseq p \<and> refused_data q = refused_data p \<and> tmr q = tmr p \<and> rcv_nxt q = rcv_nxt p \<and> rcv_wnd q = rcv_wnd p
     \<and> nrtx q = nrtx p"

lemma conn_same_refl [simp]: "conn_same p p"
  by (simp add: conn_same_def)

lemma conn_same_trans: "conn_same p q \<Longrightarrow> conn_same q r \<Longrightarrow> conn_same p r"
  by (simp add: conn_same_def)

lemma seg_ok_ack [simp]: "seg_ok m (seg\<lparr>sflags := sflags seg OR TCP_ACK\<rparr>) \<longleftrightarrow> seg_ok m seg"
proof -
  have "(sflags seg OR TCP_ACK) AND TCP_RST = sflags seg AND TCP_RST" by (simp add: bit.conj_disj_distrib2)
  then show ?thesis by (simp add: seg_ok_def has8_def)
qed

lemma seg_ok_soversize [simp]: "seg_ok m (seg\<lparr>soversize := n\<rparr>) \<longleftrightarrow> seg_ok m seg"
  by (simp add: seg_ok_def)

lemma ann_wnd_ok_fresh [simp]: "ann_wnd_ok (p\<lparr>rcv_ann_right_edge := rcv_nxt p + ucast (v :: u16)\<rparr>)"
proof -
  have "(ucast v :: u32) \<le> 0xffff" using unat_u16_lt [of v] by (simp add: word_le_nat_alt unat_ucast_up)
  then show ?thesis by (simp add: ann_wnd_ok_def)
qed

text \<open>Fields that do not matter for the invariant.\<close>

definition conn_core :: "tcp_pcb \<Rightarrow> tcp_seg list \<times> tcp_seg list \<times> tcp_seg list \<times> u16 \<times> u8 \<times> tcp_state \<times> u32 \<times> u32" where
  "conn_core p = (unsent p, unacked p, ooseq p, mss p, persist_backoff p, state p, rcv_nxt p, rcv_ann_right_edge p)"

lemma conn_ok_core: "conn_core p = conn_core q \<Longrightarrow> conn_ok p \<longleftrightarrow> conn_ok q"
  by (simp add: conn_core_def conn_ok_def persist_ok_def ann_wnd_ok_def no_queues_def)

lemma conn_ok_flags [simp]: "conn_ok (tcp_set_flags f p) \<longleftrightarrow> conn_ok p" "conn_ok (tcp_clear_flags f p) \<longleftrightarrow> conn_ok p"
  "conn_ok (tcp_ack_now p) \<longleftrightarrow> conn_ok p"
  by (rule conn_ok_core, simp add: conn_core_def tcp_set_flags_def tcp_clear_flags_def tcp_ack_now_def)+

lemma conn_same_flags [simp]: "conn_same p (tcp_set_flags f p)" "conn_same p (tcp_clear_flags f p)" "conn_same p (tcp_ack_now p)"
  by (simp_all add: conn_same_def tcp_set_flags_def tcp_clear_flags_def tcp_ack_now_def)

lemma conn_ok_edge: "conn_ok p \<Longrightarrow> conn_ok (p\<lparr>rcv_ann_right_edge := rcv_nxt p + ucast (v :: u16)\<rparr>)"
  using ann_wnd_ok_fresh [of p v] by (simp add: conn_ok_def persist_ok_def no_queues_def)

section \<open>Sending\<close>

lemma insert_unsent_set [simp]: "set (insert_unsent seg us) = insert seg (set us)"
  by (induction us) auto

lemma send_empty_ack_ok:
  assumes "conn_ok p"
  shows "conn_ok (snd (snd (tcp_send_empty_ack r p)))" "conn_same p (snd (snd (tcp_send_empty_ack r p)))"
proof -
  let ?q = "p\<lparr>rcv_ann_right_edge := rcv_nxt p + ucast (rcv_ann_wnd p)\<rparr>"
  have q: "conn_ok ?q" by (rule conn_ok_edge [OF assms])
  have s: "conn_same p ?q" by (simp add: conn_same_def)
  show "conn_ok (snd (snd (tcp_send_empty_ack r p)))"
    using q assms by (auto simp: tcp_send_empty_ack_def tcp_output_alloc_header_def split: send_result.splits err_t.splits)
  show "conn_same p (snd (snd (tcp_send_empty_ack r p)))"
    using s by (auto simp: tcp_send_empty_ack_def tcp_output_alloc_header_def conn_same_def tcp_set_flags_def tcp_clear_flags_def
        split: send_result.splits err_t.splits)
qed

lemma output_empty_ack_ok:
  "conn_ok (opcb s) \<Longrightarrow> conn_ok (opcb (snd (output_empty_ack env s)))"
  "conn_ok (opcb s) \<Longrightarrow> conn_same (opcb s) (opcb (snd (output_empty_ack env s)))"
  using send_empty_ack_ok [of "opcb s" "empty_ack env"] by (auto simp: output_empty_ack_def split: prod.splits)

lemma output_done_ok: "conn_ok (opcb s) \<Longrightarrow> conn_ok (opcb (snd (output_done s)))" "conn_same (opcb s) (opcb (snd (output_done s)))"
  by (simp_all add: output_done_def)

lemma output_segment_ok:
  assumes "tcp_output_segment env seg s = (err, s')"
  shows "conn_ok (opcb s) \<Longrightarrow> conn_ok (opcb s')" "conn_same (opcb s) (opcb s')" "persist_backoff (opcb s') = persist_backoff (opcb s)"
    "unsent (opcb s') = unsent (opcb s)"
proof -
  let ?q = "(opcb s)\<lparr>rcv_ann_right_edge := rcv_nxt (opcb s) + ucast (rcv_ann_wnd (opcb s))\<rparr>"
  have "sbusy seg \<and> s' = s \<or> conn_core (opcb s') = conn_core ?q \<and> conn_same (opcb s) (opcb s')"
    using assms by (auto simp: tcp_output_segment_def Let_def conn_core_def conn_same_def split: if_splits)
  then show "conn_ok (opcb s) \<Longrightarrow> conn_ok (opcb s')" "conn_same (opcb s) (opcb s')" "persist_backoff (opcb s') = persist_backoff (opcb s)"
      "unsent (opcb s') = unsent (opcb s)"
    using conn_ok_edge [of "opcb s" "rcv_ann_wnd (opcb s)"] conn_ok_core [of "opcb s'" ?q] by (auto simp: conn_core_def)
qed

lemma output_sent_ok:
  assumes "conn_ok p" "unsent p = seg # rest" "persist_backoff p = 0"
  shows "conn_ok (output_sent seg rest p)" "conn_same p (output_sent seg rest p)" "persist_backoff (output_sent seg rest p) = 0"
    "unsent (output_sent seg rest p) = rest"
proof -
  have "state p \<notin> {CLOSED, TIME_WAIT}" using assms by (auto simp: conn_ok_def no_queues_def)
  then show "conn_ok (output_sent seg rest p)"
    using assms by (auto simp: output_sent_def put_unacked_def Let_def conn_ok_def persist_ok_def ann_wnd_ok_def tcp_clear_flags_def)
qed (use assms in \<open>simp_all add: output_sent_def put_unacked_def Let_def conn_same_def tcp_clear_flags_def\<close>)

lemma output_loop_ok:
  assumes "conn_ok (opcb s)" "unsent (opcb s) = segs" "persist_backoff (opcb s) = 0"
  shows "\<exists>r s'. output_loop env wnd segs s = Some (r, s') \<and> conn_ok (opcb s') \<and> conn_same (opcb s) (opcb s')"
  using assms
proof (induction segs arbitrary: s)
  case (Cons seg rest)
  define seg' where "seg' = (if state (opcb s) \<noteq> SYN_SENT then seg\<lparr>sflags := sflags seg OR TCP_ACK\<rparr> else seg)"
  define s0 where "s0 = s\<lparr>opcb := (opcb s)\<lparr>unsent := seg' # rest\<rparr>\<rparr>"
  obtain err s1 where s1: "tcp_output_segment env seg' s0 = (err, s1)" by (cases "tcp_output_segment env seg' s0")
  define s2 where "s2 = s1\<lparr>opcb := output_sent seg' rest (opcb s1)\<rparr>"
  define go where "go \<longleftrightarrow> sseq seg - lastack (opcb s) + ucast (slen seg) \<le> wnd
      \<and> (tcp_do_output_nagle (opcb s) \<or> has16 (pcb_flags (opcb s)) (TF_NAGLEMEMERR OR TF_FIN))"
  have rst: "\<not> has8 (sflags seg) TCP_RST" using Cons.prems by (auto simp: conn_ok_def seg_ok_def)
  have seg': "seg_ok m seg' \<longleftrightarrow> seg_ok m seg" for m by (simp add: seg'_def)
  have c: "conn_ok (opcb s0)" "conn_same (opcb s) (opcb s0)" "persist_backoff (opcb s0) = 0" "unsent (opcb s0) = seg' # rest"
    using Cons.prems by (simp_all add: s0_def conn_ok_def persist_ok_def ann_wnd_ok_def no_queues_def conn_same_def seg')
  note o = output_segment_ok [OF s1]
  have s1ok: "conn_ok (opcb s1)" "conn_same (opcb s) (opcb s1)" "persist_backoff (opcb s1) = 0" "unsent (opcb s1) = seg' # rest"
    using o c conn_same_trans [OF c(2) o(2)] by simp_all
  note os = output_sent_ok [OF s1ok(1,4,3)]
  have step: "output_loop env wnd (seg # rest) s = (if \<not> go then Some (None, s)
      else if err \<noteq> ERR_OK then Some (Some err, s1\<lparr>opcb := tcp_set_flags TF_NAGLEMEMERR (opcb s1)\<rparr>) else output_loop env wnd rest s2)"
    using rst unfolding output_loop.simps(2) Let_def seg'_def [symmetric] s0_def [symmetric] s1 go_def
    by (simp add: s2_def)
  obtain r s' where "output_loop env wnd rest s2 = Some (r, s')" "conn_ok (opcb s')" "conn_same (opcb s2) (opcb s')"
    using Cons.IH [of s2] os by (auto simp: s2_def)
  moreover have "conn_same (opcb s) (opcb s2)" using conn_same_trans [OF s1ok(2) os(2)] by (simp add: s2_def)
  ultimately have rest: "\<exists>r s'. output_loop env wnd rest s2 = Some (r, s') \<and> conn_ok (opcb s') \<and> conn_same (opcb s) (opcb s')"
    by (blast intro: conn_same_trans)
  have "conn_ok (tcp_set_flags TF_NAGLEMEMERR (opcb s1))" "conn_same (opcb s) (tcp_set_flags TF_NAGLEMEMERR (opcb s1))"
    using s1ok(1) conn_same_trans [OF s1ok(2) conn_same_flags(1)] by simp_all
  then show ?case unfolding step using rest Cons.prems(1) by simp
qed simp

lemma tcp_output_ok:
  assumes "conn_ok (opcb s)" "state (opcb s) \<noteq> LISTEN"
  shows "\<exists>err s'. tcp_output env s = Some (err, s') \<and> conn_ok (opcb s') \<and> conn_same (opcb s) (opcb s')"
proof (cases "unsent (opcb s)")
  case Nil
  then show ?thesis
    using assms output_empty_ack_ok [of s env] output_done_ok [of s]
    by (cases "output_empty_ack env s"; cases "output_done s") (auto simp: tcp_output_def Let_def)
next
  case (Cons seg segs)
  let ?p = "opcb s" and ?wnd = "ucast (min (snd_wnd (opcb s)) (cwnd (opcb s))) :: u32"
  let ?s1 = "s\<lparr>opcb := start_persist ?wnd (?p\<lparr>local_ip_any := False\<rparr>)\<rparr>"
  let ?s2 = "s\<lparr>opcb := ?p\<lparr>local_ip_any := False, persist_backoff := 0\<rparr>\<rparr>"
  have 1: "conn_ok (opcb ?s1)" "conn_same ?p (opcb ?s1)"
    using assms Cons by (auto simp: start_persist_def conn_ok_def persist_ok_def ann_wnd_ok_def no_queues_def conn_same_def)
  have 2: "conn_ok (opcb ?s2)" "conn_same ?p (opcb ?s2)" "unsent (opcb ?s2) = seg # segs" "persist_backoff (opcb ?s2) = 0"
    using assms Cons by (auto simp: conn_ok_def persist_ok_def ann_wnd_ok_def no_queues_def conn_same_def)
  obtain r s3 where 3: "output_loop env ?wnd (seg # segs) ?s2 = Some (r, s3)" "conn_ok (opcb s3)" "conn_same (opcb ?s2) (opcb s3)"
    using output_loop_ok [OF 2(1,3,4), of env ?wnd] by blast
  let ?s4 = "if unsent (opcb s3) = [] then s3\<lparr>opcb := (opcb s3)\<lparr>unsent_oversize := 0\<rparr>\<rparr> else s3"
  have 4: "conn_ok (opcb ?s4)" "conn_same ?p (opcb ?s4)" "conn_same ?p (opcb s3)"
    using 3(2,3) 2(2) conn_ok_core [of "(opcb s3)\<lparr>unsent_oversize := 0\<rparr>" "opcb s3"] by (auto simp: conn_core_def conn_same_def)
  show ?thesis
  proof (cases "is_input_pcb env \<or> \<not> route_found env \<or> local_ip_any ?p \<and> \<not> netif_has_ip env")
    case True
    then show ?thesis using assms Cons by (auto simp: tcp_output_def Let_def)
  next
    case False
    then have go: "\<not> is_input_pcb env" "route_found env" "\<not> (local_ip_any ?p \<and> \<not> netif_has_ip env)" by auto
    show ?thesis
    proof (cases "sseq seg - lastack ?p + ucast (slen seg) > ?wnd")
      case True
      then have "tcp_output env s = Some (if has16 (pcb_flags ?p) TF_ACK_NOW then output_empty_ack env ?s1 else output_done ?s1)"
        using assms(2) Cons go by (auto simp: tcp_output_def Let_def)
      moreover have "conn_ok (opcb (snd (output_empty_ack env ?s1)))" "conn_same ?p (opcb (snd (output_empty_ack env ?s1)))"
          "conn_ok (opcb (snd (output_done ?s1)))" "conn_same ?p (opcb (snd (output_done ?s1)))"
        using 1 output_empty_ack_ok [of ?s1 env] output_done_ok [of ?s1] by (auto intro: conn_same_trans)
      ultimately show ?thesis
        by (cases "output_empty_ack env ?s1"; cases "output_done ?s1"; cases "has16 (pcb_flags ?p) TF_ACK_NOW") simp_all
    next
      case False
      then have "tcp_output env s = (case r of Some err \<Rightarrow> Some (err, s3) | None \<Rightarrow> Some (output_done ?s4))"
        using assms(2) Cons go 3(1) by (auto simp: tcp_output_def Let_def split: option.splits simp del: output_loop.simps)
      moreover have "conn_ok (opcb (snd (output_done ?s4)))" "conn_same ?p (opcb (snd (output_done ?s4)))"
        using 4 output_done_ok [of ?s4] by (auto intro: conn_same_trans)
      ultimately show ?thesis using 3(2) 4(3) by (cases r; cases "output_done ?s4") auto
    qed
  qed
qed

end
