(* ===== verification/Tcp_Stack_Ok.thy ===== *)
theory Tcp_Stack_Ok
  imports Tcp_Open Tcp_Conn_Ok
begin

text \<open>
  The invariant of the control blocks (the axioms in \<^verbatim>\<open>priv/tcp_priv.h\<close> and the checks of \<^verbatim>\<open>tcp_pcbs_sane\<close>): the lists hold
  allocated blocks, each at most once; a block is on the list that its state says; every connection is well-formed; a
  connection refers to a listening block only while that is listening.
\<close>

unbundle bit_operations_syntax

section \<open>The invariant\<close>

definition placed :: "tcp_stack \<Rightarrow> nat \<Rightarrow> tcp_pcb \<Rightarrow> bool" where
  "placed s a p \<longleftrightarrow> (a \<in> set (tcp_listen_pcbs s) \<longleftrightarrow> state p = LISTEN)
     \<and> (a \<in> set (tcp_active_pcbs s) \<longleftrightarrow> state p \<notin> {CLOSED, LISTEN, TIME_WAIT})
     \<and> (a \<in> set (tcp_tw_pcbs s) \<longleftrightarrow> state p = TIME_WAIT)
     \<and> (a \<in> set (tcp_bound_pcbs s) \<longrightarrow> state p = CLOSED \<and> local_port p \<noteq> 0)"

definition listener_ok :: "tcp_stack \<Rightarrow> tcb \<Rightarrow> bool" where
  "listener_ok s b \<longleftrightarrow> (case t_listener b of None \<Rightarrow> True
     | Some l \<Rightarrow> l \<in> set (tcp_listen_pcbs s) \<and> state (conn b) \<notin> {CLOSED, LISTEN})"

definition tcb_ok :: "tcp_stack \<Rightarrow> nat \<Rightarrow> tcb \<Rightarrow> bool" where
  "tcb_ok s a b \<longleftrightarrow> placed s a (conn b) \<and> conn_ok (conn b) \<and> listener_ok s b"

definition lists_ok :: "tcp_stack \<Rightarrow> bool" where
  "lists_ok s \<longleftrightarrow> distinct (tcp_bound_pcbs s) \<and> distinct (tcp_listen_pcbs s) \<and> distinct (tcp_active_pcbs s) \<and> distinct (tcp_tw_pcbs s)
     \<and> (\<forall>a \<in> set (tcp_pcb_lists s). tcp_mem s a \<noteq> None)"

text \<open>While there are connections, the timer runs.\<close>

definition timer_ok :: "tcp_stack \<Rightarrow> bool" where
  "timer_ok s \<longleftrightarrow> tcp_timer_started s \<or> tcp_active_pcbs s = [] \<and> tcp_tw_pcbs s = []"

definition stack_ok :: "tcp_stack \<Rightarrow> bool" where
  "stack_ok s \<longleftrightarrow> timer_ok s \<and> lists_ok s \<and> (\<forall>a b. tcp_mem s a = Some b \<longrightarrow> tcb_ok s a b) \<and> tcp_input_pcb s = None"

lemma timer_ok_mem [simp]: "timer_ok (s\<lparr>tcp_mem := m\<rparr>) = timer_ok s" "timer_ok (s\<lparr>last_tcp_port := p\<rparr>) = timer_ok s"
  by (simp_all add: timer_ok_def)

lemma timer_needed_ok: "stack_ok s \<Longrightarrow> timer_needed s = s"
  by (cases s) (auto simp: stack_ok_def timer_ok_def timer_needed_def)

lemma stack_okD:
  assumes "stack_ok s" "tcp_mem s a = Some b"
  shows "placed s a (conn b)" "conn_ok (conn b)" "listener_ok s b"
  using assms by (auto simp: stack_ok_def tcb_ok_def)

lemma stack_ok_mem: "stack_ok s \<Longrightarrow> a \<in> set (tcp_pcb_lists s) \<Longrightarrow> \<exists>b. tcp_mem s a = Some b"
  by (auto simp: stack_ok_def lists_ok_def)

text \<open>What the invariant is about.\<close>

definition stack_core :: "tcp_stack \<Rightarrow> (nat \<Rightarrow> tcb option) \<times> nat list \<times> nat list \<times> nat list \<times> nat list \<times> nat option \<times> bool" where
  "stack_core s = (tcp_mem s, tcp_bound_pcbs s, tcp_listen_pcbs s, tcp_active_pcbs s, tcp_tw_pcbs s, tcp_input_pcb s, tcp_timer_started s)"

lemma stack_ok_core: "stack_core s = stack_core s' \<Longrightarrow> stack_ok s = stack_ok s'"
  by (simp add: stack_core_def stack_ok_def timer_ok_def lists_ok_def tcb_ok_def placed_def listener_ok_def tcp_pcb_lists_def split: option.splits)

lemma stack_ok_pcbs_sane: "stack_ok s \<Longrightarrow> tcp_pcbs_sane s"
  by (fastforce simp: stack_ok_def lists_ok_def tcp_pcbs_sane_def state_of_def tcb_ok_def placed_def tcp_pcb_lists_def)

section \<open>Steps that change one block\<close>

definition io_step :: "nat \<Rightarrow> tcb \<Rightarrow> tcp_stack \<Rightarrow> tcp_stack \<Rightarrow> bool" where
  "io_step a b' s s' \<longleftrightarrow> (\<exists>i c g t. s' = s\<lparr>tcp_mem := (tcp_mem s)(a \<mapsto> b'), ip_results := i, ctl_results := c, seg_allocs := g, tcp_trace := t\<rparr>)"

lemma io_stepI: "io_step a b' s (s\<lparr>tcp_mem := (tcp_mem s)(a \<mapsto> b'), ip_results := i, ctl_results := c, tcp_trace := t\<rparr>)"
proof -
  have "s\<lparr>tcp_mem := (tcp_mem s)(a \<mapsto> b'), ip_results := i, ctl_results := c, tcp_trace := t\<rparr>
    = s\<lparr>tcp_mem := (tcp_mem s)(a \<mapsto> b'), ip_results := i, ctl_results := c, seg_allocs := seg_allocs s, tcp_trace := t\<rparr>" by simp
  then show ?thesis unfolding io_step_def by blast
qed

lemma io_step_trans: "io_step a b1 s s1 \<Longrightarrow> io_step a b2 s1 s2 \<Longrightarrow> io_step a b2 s s2"
  unfolding io_step_def by (elim exE) (simp, blast)

lemma io_step_mem: "io_step a b' s s' \<Longrightarrow> tcp_mem s' = (tcp_mem s)(a \<mapsto> b')"
  by (auto simp: io_step_def)

lemma io_step_fields:
  assumes "io_step a b' s s'"
  shows "tcp_bound_pcbs s' = tcp_bound_pcbs s" "tcp_listen_pcbs s' = tcp_listen_pcbs s" "tcp_active_pcbs s' = tcp_active_pcbs s"
    "tcp_tw_pcbs s' = tcp_tw_pcbs s" "tcp_input_pcb s' = tcp_input_pcb s" "tcp_timer_ctr s' = tcp_timer_ctr s" "ticks s' = ticks s"
    "tcp_active_pcbs_changed s' = tcp_active_pcbs_changed s" "pcb_allocs s' = pcb_allocs s" "tcp_timer_started s' = tcp_timer_started s"
  using assms by (auto simp: io_step_def)

text \<open>All but one block, and what the lists say of the others, stays as it is.\<close>

definition distinct_lists :: "tcp_stack \<Rightarrow> bool" where
  "distinct_lists s \<longleftrightarrow> distinct (tcp_bound_pcbs s) \<and> distinct (tcp_listen_pcbs s) \<and> distinct (tcp_active_pcbs s) \<and> distinct (tcp_tw_pcbs s)"

definition elsewhere :: "nat \<Rightarrow> tcp_stack \<Rightarrow> tcp_stack \<Rightarrow> bool" where
  "elsewhere a s s' \<longleftrightarrow> (\<forall>x. x \<noteq> a \<longrightarrow> tcp_mem s' x = tcp_mem s x
       \<and> (x \<in> set (tcp_bound_pcbs s') \<longleftrightarrow> x \<in> set (tcp_bound_pcbs s)) \<and> (x \<in> set (tcp_listen_pcbs s') \<longleftrightarrow> x \<in> set (tcp_listen_pcbs s))
       \<and> (x \<in> set (tcp_active_pcbs s') \<longleftrightarrow> x \<in> set (tcp_active_pcbs s)) \<and> (x \<in> set (tcp_tw_pcbs s') \<longleftrightarrow> x \<in> set (tcp_tw_pcbs s)))
     \<and> (distinct_lists s \<longrightarrow> distinct_lists s') \<and> (timer_ok s \<longrightarrow> timer_ok s') \<and> tcp_input_pcb s' = tcp_input_pcb s
     \<and> tcp_timer_ctr s' = tcp_timer_ctr s \<and> ticks s' = ticks s
     \<and> (\<not> tcp_active_pcbs_changed s' \<longrightarrow> \<not> tcp_active_pcbs_changed s \<and> tcp_active_pcbs s' = tcp_active_pcbs s)"

text \<open>
  What the timers need of calls that happen while they run: the clock stands still, no block becomes one that this round of
  the timer has not seen, and a change of the list of active connections is flagged.
\<close>

definition calm :: "tcp_stack \<Rightarrow> tcp_stack \<Rightarrow> bool" where
  "calm s s' \<longleftrightarrow> tcp_timer_ctr s' = tcp_timer_ctr s \<and> ticks s' = ticks s
     \<and> (\<forall>x b'. tcp_mem s' x = Some b' \<longrightarrow> t_last_timer b' = tcp_timer_ctr s \<or> (\<exists>b. tcp_mem s x = Some b \<and> t_last_timer b' = t_last_timer b))
     \<and> (\<not> tcp_active_pcbs_changed s' \<longrightarrow> \<not> tcp_active_pcbs_changed s \<and> tcp_active_pcbs s' = tcp_active_pcbs s)"

definition at_home :: "tcp_stack \<Rightarrow> nat \<Rightarrow> bool" where
  "at_home s a \<longleftrightarrow> (case tcp_mem s a of None \<Rightarrow> a \<notin> set (tcp_pcb_lists s) | Some b \<Rightarrow> tcb_ok s a b)"

lemma calm_refl [simp]: "calm s s"
  by (simp add: calm_def)

lemma calm_trans: "calm s s1 \<Longrightarrow> calm s1 s2 \<Longrightarrow> calm s s2"
  unfolding calm_def by (metis)

lemma calm_elsewhere:
  assumes "elsewhere a s s'"
    and "\<And>b'. tcp_mem s' a = Some b' \<Longrightarrow> t_last_timer b' = tcp_timer_ctr s \<or> (\<exists>b. tcp_mem s a = Some b \<and> t_last_timer b' = t_last_timer b)"
  shows "calm s s'"
  using assms unfolding elsewhere_def calm_def by metis

lemma elsewhere_refl [simp]: "elsewhere a s s"
  by (simp add: elsewhere_def)

lemma elsewhere_trans [trans]: "elsewhere a s s1 \<Longrightarrow> elsewhere a s1 s2 \<Longrightarrow> elsewhere a s s2"
  by (simp add: elsewhere_def)

lemma elsewhere_io: "io_step a b' s s' \<Longrightarrow> elsewhere a s s'"
  by (auto simp: io_step_def elsewhere_def distinct_lists_def timer_ok_def)

lemma stack_ok_elsewhere:
  assumes ok: "stack_ok s" and e: "elsewhere a s s'" and h: "at_home s' a"
    and l: "a \<in> set (tcp_listen_pcbs s) \<Longrightarrow> a \<in> set (tcp_listen_pcbs s') \<or> (\<forall>x b. tcp_mem s' x = Some b \<longrightarrow> t_listener b \<noteq> Some a)"
  shows "stack_ok s'"
proof -
  have "tcb_ok s' x b" if x: "tcp_mem s' x = Some b" for x b
  proof (cases "x = a")
    case True
    then show ?thesis using x h by (simp add: at_home_def)
  next
    case False
    then have "tcb_ok s x b" using x e ok by (simp add: elsewhere_def stack_ok_def)
    moreover have "placed s' x p \<longleftrightarrow> placed s x p" for p using False e by (simp add: placed_def elsewhere_def)
    moreover have "listener_ok s' b" if "listener_ok s b"
    proof (cases "t_listener b")
      case (Some y)
      then show ?thesis using that l x e by (cases "y = a") (auto simp: listener_ok_def elsewhere_def)
    qed (simp add: listener_ok_def)
    ultimately show ?thesis by (simp add: tcb_ok_def)
  qed
  moreover have "tcp_mem s' x \<noteq> None" if "x \<in> set (tcp_pcb_lists s')" for x
    using that e h ok by (cases "x = a") (auto simp: at_home_def elsewhere_def stack_ok_def lists_ok_def tcp_pcb_lists_def split: option.splits)
  ultimately show ?thesis
    using ok e by (simp add: stack_ok_def lists_ok_def elsewhere_def distinct_lists_def)
qed

section \<open>Sending and releasing\<close>

definition tcb_same :: "tcb \<Rightarrow> tcb \<Rightarrow> bool" where
  "tcb_same b b' \<longleftrightarrow> conn_same (conn b) (conn b') \<and> b' = b\<lparr>conn := conn b', t_local_ip := t_local_ip b'\<rparr>"

lemma tcb_sameD:
  assumes "tcb_same b b'"
  shows "state (conn b') = state (conn b)" "local_port (conn b') = local_port (conn b)" "t_listener b' = t_listener b"
    "t_last_timer b' = t_last_timer b" "t_errf b' = t_errf b" "t_callback_arg b' = t_callback_arg b" "ooseq (conn b') = ooseq (conn b)"
proof -
  have e: "b' = b\<lparr>conn := conn b', t_local_ip := t_local_ip b'\<rparr>" and c: "conn_same (conn b) (conn b')" using assms by (simp_all add: tcb_same_def)
  show "state (conn b') = state (conn b)" "local_port (conn b') = local_port (conn b)" "ooseq (conn b') = ooseq (conn b)"
    using c by (simp_all add: conn_same_def)
  show "t_listener b' = t_listener b" "t_last_timer b' = t_last_timer b" "t_errf b' = t_errf b" "t_callback_arg b' = t_callback_arg b"
    by (subst e, simp)+
qed

lemma tcb_same_refl [simp]: "tcb_same b b"
  by (simp add: tcb_same_def)

lemma tcb_same_conn: "conn_same (conn b) p \<Longrightarrow> tcb_same b (b\<lparr>conn := p\<rparr>)"
  by (simp add: tcb_same_def)

lemma tcb_same_trans: "tcb_same b b1 \<Longrightarrow> tcb_same b1 b2 \<Longrightarrow> tcb_same b b2"
  by (cases b; cases b1; cases b2) (auto simp: tcb_same_def intro: conn_same_trans)

lemma upd_conn_io: "tcp_mem s a = Some b \<Longrightarrow> upd_conn a f s = Some (s\<lparr>tcp_mem := (tcp_mem s)(a \<mapsto> b\<lparr>conn := f (conn b)\<rparr>)\<rparr>)"
  by (simp add: upd_conn_def upd_tcb_def)

lemma io_step_upd: "io_step a b (s :: tcp_stack) (s\<lparr>tcp_mem := (tcp_mem s)(a \<mapsto> b)\<rparr>)"
proof -
  have "s\<lparr>tcp_mem := (tcp_mem s)(a \<mapsto> b)\<rparr> = s\<lparr>tcp_mem := (tcp_mem s)(a \<mapsto> b), ip_results := ip_results s,
     ctl_results := ctl_results s, seg_allocs := seg_allocs s, tcp_trace := tcp_trace s\<rparr>" by simp
  then show ?thesis unfolding io_step_def by blast
qed

lemma pcb_output_step:
  assumes "tcp_mem s a = Some b"
    and "tcp_output (output_env w a b s) \<lparr>opcb = (conn b)\<lparr>local_ip_any := ip_addr_isany (t_local_ip b)\<rparr>, oresults = ip_results s, oactions = []\<rparr> = Some (err, r)"
    and "conn_same (conn b) (opcb r)"
  shows "\<exists>s' b'. pcb_output w a s = Some (err, s') \<and> io_step a b' s s' \<and> conn b' = opcb r \<and> tcb_same b b'"
proof -
  define ip where "ip = (if ip_addr_isany (t_local_ip b) \<and> \<not> local_ip_any (opcb r)
               then (case tcp_route w (Some b) of
                       None \<Rightarrow> t_local_ip b
                     | Some n \<Rightarrow> (case ip_netif_get_local_ip w n (t_remote_ip b) of None \<Rightarrow> t_local_ip b | Some ip \<Rightarrow> ip))
               else t_local_ip b)"
  have "tcb_same b (b\<lparr>conn := opcb r, t_local_ip := ip\<rparr>)" using assms(3) by (simp add: tcb_same_def)
  moreover have "pcb_output w a s = Some (err, s\<lparr>tcp_mem := (tcp_mem s)(a \<mapsto> b\<lparr>conn := opcb r, t_local_ip := ip\<rparr>), ip_results := oresults r,
       ctl_results := drop 1 (ctl_results s), tcp_trace := tcp_trace s @ map (Pair (Some a)) (oactions r)\<rparr>)"
    using assms(1,2) by (simp add: pcb_output_def ip_def)
  ultimately show ?thesis using io_stepI by fastforce
qed

lemma pcb_output_ok:
  assumes "tcp_mem s a = Some b" "conn_ok (conn b)" "state (conn b) \<noteq> LISTEN"
  shows "\<exists>err s' b'. pcb_output w a s = Some (err, s') \<and> io_step a b' s s' \<and> conn_ok (conn b') \<and> tcb_same b b'"
proof -
  let ?o = "\<lparr>opcb = (conn b)\<lparr>local_ip_any := ip_addr_isany (t_local_ip b)\<rparr>, oresults = ip_results s, oactions = []\<rparr>"
  have "conn_ok (opcb ?o)" using assms(2) conn_ok_core [of "opcb ?o" "conn b"] by (simp add: conn_core_def)
  then obtain err r where r: "tcp_output (output_env w a b s) ?o = Some (err, r)" "conn_ok (opcb r)" "conn_same (opcb ?o) (opcb r)"
    using tcp_output_ok [of ?o "output_env w a b s"] assms(3) by auto
  have "conn_same (conn b) (opcb r)" using r(3) by (simp add: conn_same_def)
  from pcb_output_step [OF assms(1) r(1) this] show ?thesis using r(2) by metis
qed

text \<open>With nothing to send, only an empty acknowledgement can go out.\<close>

lemma pcb_output_idle:
  assumes "tcp_mem s a = Some b" "no_queues (conn b)" "state (conn b) \<noteq> LISTEN"
  shows "\<exists>err s' b'. pcb_output w a s = Some (err, s') \<and> io_step a b' s s' \<and> no_queues (conn b') \<and> tcb_same b b'"
proof -
  let ?o = "\<lparr>opcb = (conn b)\<lparr>local_ip_any := ip_addr_isany (t_local_ip b)\<rparr>, oresults = ip_results s, oactions = []\<rparr>"
  have "\<exists>err r. tcp_output (output_env w a b s) ?o = Some (err, r) \<and> no_queues (opcb r) \<and> conn_same (conn b) (opcb r)"
    using assms(2,3)
    by (auto simp: tcp_output_def Let_def no_queues_def conn_same_def output_empty_ack_def output_done_def tcp_send_empty_ack_def
        tcp_output_alloc_header_def tcp_set_flags_def tcp_clear_flags_def split: send_result.splits err_t.splits)
  then obtain err r where "tcp_output (output_env w a b s) ?o = Some (err, r)" "no_queues (opcb r)" "conn_same (conn b) (opcb r)" by blast
  from pcb_output_step [OF assms(1) this(1,3)] this(2) show ?thesis by metis
qed

lemma stack_rst_core [simp]: "tcp_mem (stack_rst c sq ak lp rp s) = tcp_mem s" "elsewhere a s (stack_rst c sq ak lp rp s)"
    "set (tcp_pcb_lists (stack_rst c sq ak lp rp s)) = set (tcp_pcb_lists s)" "tcp_input_pcb (stack_rst c sq ak lp rp s) = tcp_input_pcb s"
    "tcp_listen_pcbs (stack_rst c sq ak lp rp s) = tcp_listen_pcbs s" "tcp_active_pcbs (stack_rst c sq ak lp rp s) = tcp_active_pcbs s"
  by (simp_all add: stack_rst_def Let_def elsewhere_def distinct_lists_def timer_ok_def tcp_pcb_lists_def)

lemma conn_ok_purge: "conn_ok p \<Longrightarrow> state p \<noteq> LISTEN \<Longrightarrow> no_queues (tcp_pcb_purge p)"
  by (auto simp: tcp_pcb_purge_def conn_ok_def no_queues_def)


lemma purge_sel [simp]: "state (tcp_pcb_purge p) = state p" "local_port (tcp_pcb_purge p) = local_port p" "pcb_flags (tcp_pcb_purge p) = pcb_flags p"
  by (simp_all add: tcp_pcb_purge_def)

lemma upd_conn_step:
  assumes "tcp_mem s a = Some b"
  shows "\<exists>s'. upd_conn a f s = Some s' \<and> io_step a (b\<lparr>conn := f (conn b)\<rparr>) s s'"
  using assms io_step_upd by (auto simp: upd_conn_io)

lemma tcp_pcbs_sane_io:
  assumes "tcp_pcbs_sane s" "io_step a b' s s'" "a \<notin> set (tcp_active_pcbs s)" "a \<notin> set (tcp_tw_pcbs s)"
  shows "tcp_pcbs_sane s'"
proof -
  have "state_of s' x = state_of s x" if "x \<noteq> a" for x using that io_step_mem [OF assms(2)] by (simp add: state_of_def)
  then show ?thesis using assms(1,3,4) io_step_fields(3,4) [OF assms(2)] unfolding tcp_pcbs_sane_def by metis
qed

lemma pcb_close_ok:
  assumes b: "tcp_mem s a = Some b" and ok: "conn_ok (conn b)" and sane: "tcp_pcbs_sane s"
    and off: "a \<notin> set (tcp_active_pcbs s)" "a \<notin> set (tcp_tw_pcbs s)"
  shows "\<exists>s' b'. pcb_close w a s = Some s' \<and> io_step a b' s s' \<and> state (conn b') = CLOSED \<and> t_errf b' = t_errf b \<and> t_callback_arg b' = t_callback_arg b"
proof -
  define p1 b1 where "p1 = tcp_pcb_purge (conn b)" and "b1 = b\<lparr>conn := p1\<rparr>"
  obtain s1 where s1: "upd_conn a tcp_pcb_purge s = Some s1" "io_step a b1 s s1"
    using upd_conn_step [OF b, of tcp_pcb_purge] by (auto simp: b1_def p1_def)
  have m1: "tcp_mem s1 a = Some b1" using io_step_mem [OF s1(2)] by simp
  have sel: "conn b1 = p1" "t_errf b1 = t_errf b" "t_callback_arg b1 = t_callback_arg b" by (simp_all add: b1_def)
  have nq: "state (conn b1) \<noteq> LISTEN \<Longrightarrow> no_queues (conn b1)" using conn_ok_purge [OF ok] by (simp add: sel p1_def)
  have "\<exists>s2 b2. (if state (conn b1) \<noteq> TIME_WAIT \<and> state (conn b1) \<noteq> LISTEN \<and> has16 (pcb_flags (conn b1)) TF_ACK_DELAY
          then do { s \<leftarrow> upd_conn a tcp_ack_now s1; (_, s) \<leftarrow> pcb_output w a s; Some s } else Some s1) = Some s2
      \<and> tcp_mem s2 a = Some b2 \<and> io_step a b2 s s2 \<and> tcb_same b1 b2 \<and> (state (conn b2) \<noteq> LISTEN \<longrightarrow> no_queues (conn b2))"
  proof (cases "state (conn b1) \<noteq> TIME_WAIT \<and> state (conn b1) \<noteq> LISTEN \<and> has16 (pcb_flags (conn b1)) TF_ACK_DELAY")
    case True
    let ?b = "b1\<lparr>conn := tcp_ack_now (conn b1)\<rparr>"
    obtain s2 where s2: "upd_conn a tcp_ack_now s1 = Some s2" "io_step a ?b s1 s2" using upd_conn_step [OF m1] by blast
    have m2: "tcp_mem s2 a = Some ?b" using io_step_mem [OF s2(2)] by simp
    have "no_queues (conn ?b)" "state (conn ?b) \<noteq> LISTEN" using nq True by (simp_all add: no_queues_def tcp_ack_now_def tcp_set_flags_def)
    from pcb_output_idle [OF m2 this, of w]
    obtain err s3 b3 where s3: "pcb_output w a s2 = Some (err, s3)" "io_step a b3 s2 s3" "no_queues (conn b3)" "tcb_same ?b b3" by blast
    have "tcb_same b1 b3" using tcb_same_trans [OF tcb_same_conn s3(4)] by simp
    moreover have "io_step a b3 s s3" using s1(2) s2(2) s3(2) by (blast intro: io_step_trans)
    moreover have "tcp_mem s3 a = Some b3" using io_step_mem [OF s3(2)] by simp
    ultimately show ?thesis using s2(1) s3(1,3) True by auto
  next
    case False
    then show ?thesis using s1(2) m1 nq by auto
  qed
  then obtain s2 b2 where s2: "(if state (conn b1) \<noteq> TIME_WAIT \<and> state (conn b1) \<noteq> LISTEN \<and> has16 (pcb_flags (conn b1)) TF_ACK_DELAY
          then do { s \<leftarrow> upd_conn a tcp_ack_now s1; (_, s) \<leftarrow> pcb_output w a s; Some s } else Some s1) = Some s2"
      "tcp_mem s2 a = Some b2" "io_step a b2 s s2" "tcb_same b1 b2" "state (conn b2) \<noteq> LISTEN \<longrightarrow> no_queues (conn b2)" by blast
  let ?b = "b2\<lparr>conn := (conn b2)\<lparr>state := CLOSED, local_port := 0\<rparr>\<rparr>"
  obtain s3 where s3: "upd_conn a (\<lambda>p. p\<lparr>state := CLOSED, local_port := 0\<rparr>) s2 = Some s3" "io_step a ?b s2 s3" using upd_conn_step [OF s2(2)] by blast
  have io: "io_step a ?b s s3" using s2(3) s3(2) by (rule io_step_trans)
  have "tcp_pcbs_sane s3" using tcp_pcbs_sane_io [OF sane io off] .
  moreover have "LWIP_ASSERT (state (conn b2) \<noteq> LISTEN \<longrightarrow> unsent (conn b2) = [] \<and> unacked (conn b2) = [] \<and> ooseq (conn b2) = []) = Some ()"
    using s2(5) by (simp add: no_queues_def)
  ultimately have "pcb_close w a s = Some s3" unfolding pcb_close_def using s1(1) m1 s2(1,2) s3(1) by simp
  moreover have "t_errf ?b = t_errf b" "t_callback_arg ?b = t_callback_arg b" using tcb_sameD(5,6) [OF s2(4)] sel by simp_all
  ultimately show ?thesis using io by fastforce
qed

end
