(* ===== verification/Tcp_Stack_Calls.thy ===== *)
theory Tcp_Stack_Calls
  imports Tcp_Stack_Ok
begin

text \<open>
  Every call of the application on an allocated block returns and keeps the invariant of the control blocks, whatever the
  layers below answer. The locale \<open>tcp_application\<close> says what is needed of the callbacks of the application.
\<close>

unbundle bit_operations_syntax

section \<open>Taking a block off its list\<close>

lemma elsewhere_rmv [simp]: "elsewhere a s (TCP_RMV_ACTIVE a s)" "elsewhere a s (TCP_RMV_BOUND a s)"
    "elsewhere a s (s\<lparr>tcp_tw_pcbs := remove1 a (tcp_tw_pcbs s)\<rparr>)" "elsewhere a s (s\<lparr>tcp_listen_pcbs := remove1 a (tcp_listen_pcbs s)\<rparr>)"
  by (auto simp: elsewhere_def TCP_RMV_ACTIVE_def TCP_RMV_BOUND_def distinct_lists_def timer_ok_def)

definition removed :: "nat \<Rightarrow> tcp_stack \<Rightarrow> tcp_stack \<Rightarrow> bool" where
  "removed a s s1 \<longleftrightarrow> elsewhere a s s1 \<and> a \<notin> set (tcp_pcb_lists s1) \<and> (\<exists>b'. tcp_mem s1 a = Some b' \<and> state (conn b') \<noteq> LISTEN)"

lemma removed_rst: "removed a s s1 \<Longrightarrow> removed a s (stack_rst c sq ak lp rp s1)"
  by (auto simp: removed_def intro: elsewhere_trans [OF _ stack_rst_core(2)])

lemma free_removed:
  assumes "removed a s s1"
  shows "\<exists>s2. tcp_free a s1 = Some s2 \<and> elsewhere a s s2 \<and> tcp_mem s2 a = None \<and> at_home s2 a"
proof -
  obtain b' where b': "tcp_mem s1 a = Some b'" "state (conn b') \<noteq> LISTEN" using assms by (auto simp: removed_def)
  let ?s2 = "s1\<lparr>tcp_mem := (tcp_mem s1)(a := None)\<rparr>"
  have "elsewhere a s1 ?s2" by (simp add: elsewhere_def distinct_lists_def timer_ok_def)
  then have "elsewhere a s ?s2" using assms elsewhere_trans unfolding removed_def by blast
  moreover have "tcp_free a s1 = Some ?s2" using b' by (simp add: tcp_free_def)
  moreover have "at_home ?s2 a" using assms by (simp add: removed_def at_home_def tcp_pcb_lists_def)
  ultimately show ?thesis by auto
qed

lemma close_removed:
  assumes "stack_ok s" "tcp_mem s a = Some b"
    and s0: "elsewhere a s s0" "tcp_mem s0 = tcp_mem s" "a \<notin> set (tcp_pcb_lists s0)"
  shows "\<exists>s1. pcb_close w a s0 = Some s1 \<and> removed a s s1"
proof -
  have off: "a \<notin> set (tcp_active_pcbs s0)" "a \<notin> set (tcp_tw_pcbs s0)" using s0(3) by (simp_all add: tcp_pcb_lists_def)
  have "state_of s0 x = state_of s x" for x by (simp add: state_of_def s0(2))
  moreover have "x \<in> set (tcp_active_pcbs s0) \<Longrightarrow> x \<in> set (tcp_active_pcbs s)" "x \<in> set (tcp_tw_pcbs s0) \<Longrightarrow> x \<in> set (tcp_tw_pcbs s)" for x
    using s0(1) off by (cases "x = a"; simp add: elsewhere_def)+
  ultimately have sane: "tcp_pcbs_sane s0" using stack_ok_pcbs_sane [OF assms(1)] by (simp add: tcp_pcbs_sane_def)
  have "tcp_mem s0 a = Some b" using assms(2) s0(2) by simp
  from pcb_close_ok [OF this stack_okD(2) [OF assms(1,2)] sane off, of w]
  obtain s1 b' where s1: "pcb_close w a s0 = Some s1" "io_step a b' s0 s1" "state (conn b') = CLOSED" by blast
  have "elsewhere a s s1" using s0(1) elsewhere_io [OF s1(2)] elsewhere_trans by blast
  moreover have "a \<notin> set (tcp_pcb_lists s1)" using s0(3) io_step_fields(1-4) [OF s1(2)] by (simp add: tcp_pcb_lists_def)
  ultimately show ?thesis using s1 io_step_mem [OF s1(2)] by (auto simp: removed_def)
qed

lemma remove_active_ok:
  assumes "stack_ok s" "tcp_mem s a = Some b" "state (conn b) \<notin> {CLOSED, LISTEN, TIME_WAIT}"
  shows "\<exists>s1. TCP_PCB_REMOVE_ACTIVE w a s = Some s1 \<and> removed a s s1"
  unfolding TCP_PCB_REMOVE_ACTIVE_def
proof (rule close_removed [OF assms(1,2)])
  show "a \<notin> set (tcp_pcb_lists (TCP_RMV_ACTIVE a s))"
    using stack_okD(1) [OF assms(1,2)] assms(1,3) by (auto simp: placed_def tcp_pcb_lists_def TCP_RMV_ACTIVE_def stack_ok_def lists_ok_def)
qed (simp, simp add: TCP_RMV_ACTIVE_def)

lemma remove_tw_ok:
  assumes "stack_ok s" "tcp_mem s a = Some b" "state (conn b) = TIME_WAIT"
  shows "\<exists>s1. remove_tw w a s = Some s1 \<and> removed a s s1"
  unfolding remove_tw_def
proof (rule close_removed [OF assms(1,2)])
  show "a \<notin> set (tcp_pcb_lists (s\<lparr>tcp_tw_pcbs := remove1 a (tcp_tw_pcbs s)\<rparr>))"
    using stack_okD(1) [OF assms(1,2)] assms(1,3) by (auto simp: placed_def tcp_pcb_lists_def stack_ok_def lists_ok_def)
qed simp_all

lemma rmv_bound_ok:
  assumes "stack_ok s" "tcp_mem s a = Some b" "state (conn b) = CLOSED"
  shows "removed a s (if local_port (conn b) \<noteq> 0 then TCP_RMV_BOUND a s else s)"
  using stack_okD(1) [OF assms(1,2)] assms
  by (auto simp: removed_def placed_def tcp_pcb_lists_def TCP_RMV_BOUND_def stack_ok_def lists_ok_def elsewhere_def distinct_lists_def timer_ok_def)

lemma stack_ok_released:
  assumes "stack_ok s" "elsewhere a s s'" "at_home s' a" "tcp_mem s a = Some b" "state (conn b) \<noteq> LISTEN"
  shows "stack_ok s'"
  using stack_ok_elsewhere [OF assms(1-3)] stack_okD(1) [OF assms(1,4)] assms(5) by (auto simp: placed_def)

section \<open>Applications\<close>

text \<open>Events concern connections that are active.\<close>

fun event_ok :: "tcp_stack \<Rightarrow> tcp_event \<Rightarrow> bool" where
  "event_ok s (Ev_Accept f arg (Some a) err) = (a \<in> set (tcp_active_pcbs s))"
| "event_ok s (Ev_Accept f arg None err) = True"
| "event_ok s (Ev_Sent f arg a n) = (a \<in> set (tcp_active_pcbs s))"
| "event_ok s (Ev_Recv f arg a d err) = (a \<in> set (tcp_active_pcbs s))"
| "event_ok s (Ev_Poll f arg a) = (a \<in> set (tcp_active_pcbs s))"
| "event_ok s (Ev_Err f arg err) = True"

locale tcp_application =
  fixes w :: tcp_world
  assumes app_ok: "stack_ok s \<Longrightarrow> event_ok s ev \<Longrightarrow> \<exists>err s'. w_app w ev s = Some (err, s') \<and> stack_ok s' \<and> calm s s'"
begin

lemma event_err_ok: "stack_ok s \<Longrightarrow> \<exists>s'. event_err w f arg err s = Some s' \<and> stack_ok s' \<and> calm s s'"
proof (cases f)
  case (Some g)
  assume "stack_ok s"
  from app_ok [OF this, of "Ev_Err g arg err"] show ?thesis using Some by (auto simp: event_err_def)
qed (simp add: event_err_def)

lemma tcp_abandon_ok:
  assumes ok: "stack_ok s" and b: "tcp_mem s a = Some b" "state (conn b) \<noteq> LISTEN"
  shows "\<exists>s'. tcp_abandon w a reset s = Some s' \<and> stack_ok s' \<and> calm s s'"
proof (cases "state (conn b) = TIME_WAIT")
  case True
  from remove_tw_ok [OF ok b(1) this] obtain s1 where s1: "remove_tw w a s = Some s1" "removed a s s1" by blast
  from free_removed [OF this(2)] obtain s2 where s2: "tcp_free a s1 = Some s2" "elsewhere a s s2" "at_home s2 a" "tcp_mem s2 a = None" by blast
  have "stack_ok s2" by (rule stack_ok_released [OF ok s2(2,3) b])
  moreover have "calm s s2" by (rule calm_elsewhere [OF s2(2)]) (simp add: s2(4))
  ultimately show ?thesis using s1(1) s2(1) b True by (auto simp: tcp_abandon_def)
next
  case False
  have "\<exists>s1. (if state (conn b) = CLOSED then Some (if local_port (conn b) \<noteq> 0 then TCP_RMV_BOUND a s else s)
            else TCP_PCB_REMOVE_ACTIVE w a s) = Some s1 \<and> removed a s s1"
    using rmv_bound_ok [OF ok b(1)] remove_active_ok [OF ok b(1)] b(2) False by auto
  then obtain s1 where s1: "(if state (conn b) = CLOSED then Some (if local_port (conn b) \<noteq> 0 then TCP_RMV_BOUND a s else s)
            else TCP_PCB_REMOVE_ACTIVE w a s) = Some s1" "removed a s s1" by blast
  define s2 where "s2 = (if state (conn b) \<noteq> CLOSED \<and> reset
      then stack_rst (Some a) (snd_nxt (conn b)) (rcv_nxt (conn b)) (local_port (conn b)) (remote_port (conn b)) s1 else s1)"
  have "removed a s s2" using s1(2) by (simp add: s2_def removed_rst)
  from free_removed [OF this] obtain s3 where s3: "tcp_free a s2 = Some s3" "elsewhere a s s3" "at_home s3 a" "tcp_mem s3 a = None" by blast
  have "stack_ok s3" by (rule stack_ok_released [OF ok s3(2,3) b])
  from event_err_ok [OF this] obtain s4 where s4: "event_err w (t_errf b) (t_callback_arg b) ERR_ABRT s3 = Some s4" "stack_ok s4" "calm s3 s4" by blast
  have "calm s s3" by (rule calm_elsewhere [OF s3(2)]) (simp add: s3(4))
  then have "calm s s4" using s4(3) by (rule calm_trans)
  moreover have "tcp_abandon w a reset s = event_err w (t_errf b) (t_callback_arg b) ERR_ABRT s3"
    using b s1(1) s3(1) False unfolding tcp_abandon_def Let_def s2_def by simp
  ultimately show ?thesis using s4 by simp
qed

lemmas abort_pcb_ok = tcp_abandon_ok [where reset = True, folded abort_pcb_def]

end

section \<open>Closing\<close>

lemma stack_ok_step:
  assumes "stack_ok s" "tcp_mem s a = Some b" "io_step a b' s s'" "conn_ok (conn b')" "placed s a (conn b')" "listener_ok s b'"
  shows "stack_ok s'"
proof (rule stack_ok_elsewhere [OF assms(1) elsewhere_io [OF assms(3)]])
  note f = io_step_fields [OF assms(3)]
  have "placed s' a (conn b')" "listener_ok s' b'" using assms(5,6) by (simp_all add: placed_def listener_ok_def f split: option.splits)
  then show "at_home s' a" using io_step_mem [OF assms(3)] assms(4) by (simp add: at_home_def tcb_ok_def)
  show "a \<in> set (tcp_listen_pcbs s') \<or> (\<forall>x b. tcp_mem s' x = Some b \<longrightarrow> t_listener b \<noteq> Some a)" if "a \<in> set (tcp_listen_pcbs s)"
    using that f by simp
qed

lemma listener_ok_state:
  "listener_ok s b \<Longrightarrow> t_listener b' = t_listener b \<Longrightarrow> state (conn b') = state (conn b) \<or> state (conn b') \<notin> {CLOSED, LISTEN} \<Longrightarrow> listener_ok s b'"
  by (auto simp: listener_ok_def split: option.splits)

lemma stack_ok_same:
  assumes "stack_ok s" "tcp_mem s a = Some b" "io_step a b' s s'" "conn_ok (conn b')" "tcb_same b b'"
  shows "stack_ok s'"
proof (rule stack_ok_step [OF assms(1-4)])
  note f = tcb_sameD [OF assms(5)]
  show "placed s a (conn b')" using stack_okD(1) [OF assms(1,2)] by (simp add: placed_def f)
  show "listener_ok s b'" by (rule listener_ok_state [OF stack_okD(3) [OF assms(1,2)]]) (simp_all add: f)
qed

lemma calm_io:
  assumes "io_step a b' s s'" "tcp_mem s a = Some b" "t_last_timer b' = t_last_timer b"
  shows "calm s s'"
  by (rule calm_elsewhere [OF elsewhere_io [OF assms(1)]]) (use io_step_mem [OF assms(1)] assms(2,3) in auto)

lemma upd_conn_ok:
  assumes "stack_ok s" "tcp_mem s a = Some b" "conn_ok (f (conn b))" "conn_same (conn b) (f (conn b))"
  shows "\<exists>s'. upd_conn a f s = Some s' \<and> stack_ok s' \<and> io_step a (b\<lparr>conn := f (conn b)\<rparr>) s s'"
  using upd_conn_step [OF assms(2), of f] stack_ok_same [OF assms(1,2)] tcb_same_conn [OF assms(4)] assms(3) by fastforce

lemma stack_output_ok:
  assumes "stack_ok s" "tcp_mem s a = Some b" "state (conn b) \<noteq> LISTEN"
  shows "\<exists>err s' b'. pcb_output w a s = Some (err, s') \<and> stack_ok s' \<and> io_step a b' s s' \<and> tcb_same b b'"
  using pcb_output_ok [OF assms(2) stack_okD(2) [OF assms(1,2)] assms(3), of w] stack_ok_same [OF assms(1,2)] by blast

definition flags_queued :: "tcp_pcb \<Rightarrow> tcp_pcb \<Rightarrow> bool" where
  "flags_queued p q \<longleftrightarrow> (\<exists>u l f n. q = p\<lparr>unsent := u, unsent_oversize := 0, snd_lbb := l, pcb_flags := f, snd_queuelen := n\<rparr>
     \<and> (\<forall>seg \<in> set u. seg \<in> set (unsent p) \<or> seg_ok (mss p) seg) \<and> u \<noteq> [])"

lemma flags_queued_ok:
  assumes "flags_queued p q" "conn_ok p"
  shows "st \<notin> {CLOSED, TIME_WAIT} \<Longrightarrow> conn_ok (q\<lparr>state := st\<rparr>)" "state p \<notin> {CLOSED, TIME_WAIT} \<Longrightarrow> conn_ok q" "conn_same p q"
proof -
  obtain u l f n where q: "q = p\<lparr>unsent := u, unsent_oversize := 0, snd_lbb := l, pcb_flags := f, snd_queuelen := n\<rparr>"
      "\<forall>seg \<in> set u. seg \<in> set (unsent p) \<or> seg_ok (mss p) seg" "u \<noteq> []" using assms(1) unfolding flags_queued_def by blast
  show "st \<notin> {CLOSED, TIME_WAIT} \<Longrightarrow> conn_ok (q\<lparr>state := st\<rparr>)" "state p \<notin> {CLOSED, TIME_WAIT} \<Longrightarrow> conn_ok q"
    using assms(2) q(2,3) unfolding q(1) by (auto simp: conn_ok_def persist_ok_def ann_wnd_ok_def)
  show "conn_same p q" unfolding q(1) by (simp add: conn_same_def)
qed

lemma enqueue_flags_ok:
  assumes "conn_ok p" "fl AND (TCP_SYN OR TCP_FIN) \<noteq> 0" "\<not> has8 fl TCP_RST"
  shows "\<exists>err q. tcp_enqueue_flags m fl p = Some (err, q) \<and> (err = ERR_OK \<and> flags_queued p q \<or> err = ERR_MEM \<and> q = tcp_set_flags TF_NAGLEMEMERR p)"
proof (cases m)
  case False
  then show ?thesis using assms by (simp add: tcp_enqueue_flags_def)
next
  case True
  let ?seg = "\<lparr>sseq = snd_lbb p, sflags = fl, slen = 0, sdata = [], sclen = 1, sbusy = False, soversize = 0\<rparr>"
  have "\<exists>l f n. tcp_enqueue_flags m fl p
      = Some (ERR_OK, p\<lparr>unsent := unsent p @ [?seg], unsent_oversize := 0, snd_lbb := l, pcb_flags := f, snd_queuelen := n\<rparr>)"
    using True assms(2)
    by (intro exI [of _ "if has8 fl TCP_SYN \<or> has8 fl TCP_FIN then snd_lbb p + 1 else snd_lbb p"]
        exI [of _ "if has8 fl TCP_FIN then pcb_flags p OR TF_FIN else pcb_flags p"] exI [of _ "snd_queuelen p + 1"])
      (simp add: tcp_enqueue_flags_def Let_def tcp_set_flags_def)
  moreover have "seg_ok (mss p) ?seg" using assms(3) by (simp add: seg_ok_def)
  then have "flags_queued p (p\<lparr>unsent := unsent p @ [?seg], unsent_oversize := 0, snd_lbb := l, pcb_flags := f, snd_queuelen := n\<rparr>)" for l f n
    unfolding flags_queued_def by (intro exI [of _ "unsent p @ [?seg]"] exI [of _ l] exI [of _ f] exI [of _ n]) auto
  ultimately show ?thesis by blast
qed

lemma send_fin_ok:
  assumes "conn_ok p" "state p \<notin> {CLOSED, TIME_WAIT}"
  shows "\<exists>err q. tcp_send_fin m p = Some (err, q) \<and> conn_ok q \<and> conn_same p q \<and> (err = ERR_OK \<or> err = ERR_MEM)"
proof (cases "unsent p \<noteq> [] \<and> sflags (last (unsent p)) AND (TCP_SYN OR TCP_FIN OR TCP_RST) = 0")
  case True
  let ?seg = "last (unsent p)" and ?us = "butlast (unsent p)"
  let ?q = "p\<lparr>unsent := ?us @ [?seg\<lparr>sflags := sflags ?seg OR TCP_FIN\<rparr>]\<rparr>"
  have in_: "seg_ok (mss p) ?seg" "set ?us \<subseteq> set (unsent p)" using assms(1) True by (auto simp: conn_ok_def dest: in_set_butlastD)
  have "(sflags ?seg OR TCP_FIN) AND TCP_RST = sflags ?seg AND TCP_RST" by (simp add: bit.conj_disj_distrib2)
  then have "seg_ok (mss p) (?seg\<lparr>sflags := sflags ?seg OR TCP_FIN\<rparr>)" using in_(1) by (simp add: seg_ok_def has8_def)
  then have "conn_ok ?q" using assms in_(2) True by (auto simp: conn_ok_def persist_ok_def ann_wnd_ok_def)
  then have "conn_ok (tcp_set_flags TF_FIN ?q)" by simp
  moreover have "conn_same p (tcp_set_flags TF_FIN ?q)" by (simp add: conn_same_def tcp_set_flags_def)
  ultimately show ?thesis using True by (simp add: tcp_send_fin_def Let_def)
next
  case False
  have e: "tcp_send_fin m p = tcp_enqueue_flags m TCP_FIN p" using False by (auto simp: tcp_send_fin_def)
  obtain err q where "tcp_enqueue_flags m TCP_FIN p = Some (err, q)" "err = ERR_OK \<and> flags_queued p q \<or> err = ERR_MEM \<and> q = tcp_set_flags TF_NAGLEMEMERR p"
    using enqueue_flags_ok [OF assms(1), of TCP_FIN m] by (auto simp: has8_def)
  then show ?thesis unfolding e using flags_queued_ok(2,3) [OF _ assms(1)] assms by auto
qed

lemma close_fin_ok:
  assumes ok: "stack_ok s" and b: "tcp_mem s a = Some b"
  shows "\<exists>err s'. tcp_close_shutdown_fin w a s = Some (err, s') \<and> stack_ok s' \<and> (\<exists>b'. io_step a b' s s' \<and> t_last_timer b' = t_last_timer b)"
proof (cases "state (conn b) \<in> {SYN_RCVD, ESTABLISHED, CLOSE_WAIT}")
  case False
  have "io_step a b s s" using io_step_upd [of a b s] b by (simp add: fun_upd_idem)
  moreover have "tcp_close_shutdown_fin w a s = Some (ERR_OK, s)" using False b by (auto simp: tcp_close_shutdown_fin_def split: tcp_state.splits)
  ultimately show ?thesis using ok by blast
next
  case True
  define st where "st = (if state (conn b) = CLOSE_WAIT then LAST_ACK else FIN_WAIT_1)"
  have cfin: "tcp_close_shutdown_fin w a s = do {
         (err, s) \<leftarrow> enqueue_fin a s;
         if err = ERR_OK then do {
           s \<leftarrow> upd_conn a (\<lambda>p. p\<lparr>state := st\<rparr>) s;
           (_, s) \<leftarrow> pcb_output w a s;
           Some (ERR_OK, s) }
         else if err = ERR_MEM then do { s \<leftarrow> upd_conn a (tcp_set_flags TF_CLOSEPEND) s; Some (ERR_OK, s) }
         else Some (err, s) }"
    using True b unfolding st_def by (auto simp: tcp_close_shutdown_fin_def)
  have "state (conn b) \<notin> {CLOSED, TIME_WAIT}" using True by auto
  from send_fin_ok [OF stack_okD(2) [OF ok b] this, of "seg_alloc s"]
  obtain err q where q: "tcp_send_fin (seg_alloc s) (conn b) = Some (err, q)" "conn_ok q" "conn_same (conn b) q" "err = ERR_OK \<or> err = ERR_MEM" by blast
  let ?b = "b\<lparr>conn := q\<rparr>"
  define s1 where "s1 = s\<lparr>tcp_mem := (tcp_mem s)(a \<mapsto> ?b), seg_allocs := drop 1 (seg_allocs s)\<rparr>"
  have s1: "enqueue_fin a s = Some (err, s1)" using q(1) b by (simp add: enqueue_fin_def s1_def)
  have "s1 = s\<lparr>tcp_mem := (tcp_mem s)(a \<mapsto> ?b), ip_results := ip_results s, ctl_results := ctl_results s, seg_allocs := drop 1 (seg_allocs s), tcp_trace := tcp_trace s\<rparr>"
    by (simp add: s1_def)
  then have io1: "io_step a ?b s s1" unfolding io_step_def by blast
  have ok1: "stack_ok s1" using stack_ok_same [OF ok b io1] q(2) tcb_same_conn [OF q(3)] by simp
  have m1: "tcp_mem s1 a = Some ?b" by (simp add: s1_def)
  have lt: "t_last_timer ?b = t_last_timer b" by simp
  show ?thesis
  proof (cases "err = ERR_OK")
    case False
    then have mem: "err = ERR_MEM" using q(4) by simp
    obtain s2 where s2: "upd_conn a (tcp_set_flags TF_CLOSEPEND) s1 = Some s2" "stack_ok s2" "io_step a (?b\<lparr>conn := tcp_set_flags TF_CLOSEPEND (conn ?b)\<rparr>) s1 s2"
      using upd_conn_ok [OF ok1 m1, of "tcp_set_flags TF_CLOSEPEND"] stack_okD(2) [OF ok1 m1] by auto
    have "io_step a (?b\<lparr>conn := tcp_set_flags TF_CLOSEPEND (conn ?b)\<rparr>) s s2" using io1 s2(3) by (rule io_step_trans)
    moreover have "tcp_close_shutdown_fin w a s = Some (ERR_OK, s2)" unfolding cfin using s1 mem s2(1) by simp
    ultimately show ?thesis using s2(2) by (intro exI [of _ ERR_OK] exI [of _ s2]) (auto intro!: exI)
  next
    case e: True
    let ?b2 = "?b\<lparr>conn := q\<lparr>state := st\<rparr>\<rparr>"
    obtain s2 where s2: "upd_conn a (\<lambda>p. p\<lparr>state := st\<rparr>) s1 = Some s2" "io_step a ?b2 s1 s2" using upd_conn_step [OF m1, of "\<lambda>p. p\<lparr>state := st\<rparr>"] by auto
    have sq: "state q = state (conn b)" "local_port q = local_port (conn b)" using q(3) by (simp_all add: conn_same_def)
    have "conn_ok (conn ?b2)" using q(2) True by (auto simp: conn_ok_def persist_ok_def ann_wnd_ok_def st_def)
    moreover have "placed s1 a (conn ?b2)" using stack_okD(1) [OF ok1 m1] True by (auto simp: placed_def st_def sq)
    moreover have "listener_ok s1 ?b2" by (rule listener_ok_state [OF stack_okD(3) [OF ok1 m1]]) (auto simp: st_def)
    ultimately have ok2: "stack_ok s2" by (rule stack_ok_step [OF ok1 m1 s2(2)])
    have m2: "tcp_mem s2 a = Some ?b2" using io_step_mem [OF s2(2)] by simp
    have "state (conn ?b2) \<noteq> LISTEN" by (simp add: st_def)
    from stack_output_ok [OF ok2 m2 this, of w]
    obtain e3 s3 b3 where s3: "pcb_output w a s2 = Some (e3, s3)" "stack_ok s3" "io_step a b3 s2 s3" "tcb_same ?b2 b3" by blast
    have "io_step a b3 s s3" using io1 s2(2) s3(3) by (blast intro: io_step_trans)
    moreover have "t_last_timer b3 = t_last_timer b" using tcb_sameD(4) [OF s3(4)] by simp
    moreover have "tcp_close_shutdown_fin w a s = Some (ERR_OK, s3)" unfolding cfin using s1 e s2(1) s3(1) by simp
    ultimately show ?thesis using s3(2) by blast
  qed
qed

text \<open>After a listening block is closed, no connection refers to it.\<close>

lemma remove_listener_ok:
  assumes "\<forall>x \<in> set as. tcp_mem s x \<noteq> None"
  shows "tcp_remove_listener l as s = Some (s\<lparr>tcp_mem := (\<lambda>x. if x \<in> set as then map_option (forget_listener l) (tcp_mem s x) else tcp_mem s x)\<rparr>)"
  using assms
proof (induction "as" arbitrary: s)
  case (Cons a as)
  then obtain b where b: "tcp_mem s a = Some b" by auto
  have idem: "forget_listener l (forget_listener l x) = forget_listener l x" for x by (simp add: forget_listener_def)
  let ?s = "s\<lparr>tcp_mem := (tcp_mem s)(a \<mapsto> forget_listener l b)\<rparr>"
  have "tcp_remove_listener l (a # as) s = tcp_remove_listener l as ?s" using b by (simp add: upd_tcb_def)
  also have "\<dots> = Some (?s\<lparr>tcp_mem := (\<lambda>x. if x \<in> set as then map_option (forget_listener l) (tcp_mem ?s x) else tcp_mem ?s x)\<rparr>)"
    using Cons.prems by (intro Cons.IH) auto
  also have "(\<lambda>x. if x \<in> set as then map_option (forget_listener l) (tcp_mem ?s x) else tcp_mem ?s x)
      = (\<lambda>x. if x \<in> set (a # as) then map_option (forget_listener l) (tcp_mem s x) else tcp_mem s x)"
    using b by (auto simp: fun_eq_iff idem)
  finally show ?case by simp
qed simp

lemma forget_sel [simp]: "conn (forget_listener l b) = conn b" "t_last_timer (forget_listener l b) = t_last_timer b" "t_listener (forget_listener l b) \<noteq> Some l"
  "t_listener b = None \<Longrightarrow> forget_listener l b = b"
  by (simp_all add: forget_listener_def)

lemma listen_closed_ok:
  assumes ok: "stack_ok s" and b: "tcp_mem s a = Some b" "state (conn b) = LISTEN"
  shows "\<exists>m. tcp_listen_closed a s = Some (s\<lparr>tcp_mem := m\<rparr>) \<and> stack_ok (s\<lparr>tcp_mem := m\<rparr>) \<and> m a = Some b
    \<and> (\<forall>x y. m x = Some y \<longrightarrow> t_listener y \<noteq> Some a) \<and> calm s (s\<lparr>tcp_mem := m\<rparr>)"
proof -
  define A where "A = set (tcp_bound_pcbs s) \<union> set (tcp_active_pcbs s) \<union> set (tcp_tw_pcbs s)"
  define m where "m = (\<lambda>x. if x \<in> A then map_option (forget_listener a) (tcp_mem s x) else tcp_mem s x)"
  have idem: "forget_listener a (forget_listener a x) = forget_listener a x" for x by (simp add: forget_listener_def)
  have al: "\<forall>x \<in> set (tcp_bound_pcbs s). tcp_mem s x \<noteq> None" "\<forall>x \<in> set (tcp_active_pcbs s). tcp_mem s x \<noteq> None" "\<forall>x \<in> set (tcp_tw_pcbs s). tcp_mem s x \<noteq> None"
    using ok by (auto simp: stack_ok_def lists_ok_def tcp_pcb_lists_def)
  have "tcp_listen_closed a s = Some (s\<lparr>tcp_mem := m\<rparr>)"
    using al b by (auto simp: tcp_listen_closed_def state_of_def remove_listener_ok m_def A_def fun_eq_iff idem option.map_comp comp_def)
  moreover have ma: "m a = Some b"
    using stack_okD(1) [OF ok b(1)] b by (auto simp: m_def A_def placed_def)
  moreover have no: "\<forall>x y. m x = Some y \<longrightarrow> t_listener y \<noteq> Some a"
  proof (intro allI impI)
    fix x y assume y: "m x = Some y"
    show "t_listener y \<noteq> Some a"
    proof (cases "x \<in> A")
      case True
      then show ?thesis using y by (auto simp: m_def)
    next
      case False
      then have y': "tcp_mem s x = Some y" using y by (simp add: m_def)
      have "state (conn y) \<in> {CLOSED, LISTEN}" using False stack_okD(1) [OF ok y'] by (auto simp: A_def placed_def)
      then show ?thesis using stack_okD(3) [OF ok y'] by (auto simp: listener_ok_def split: option.splits)
    qed
  qed
  moreover have "stack_ok (s\<lparr>tcp_mem := m\<rparr>)"
  proof -
    have "tcb_ok (s\<lparr>tcp_mem := m\<rparr>) x y" if y: "m x = Some y" for x y
    proof -
      obtain z where z: "tcp_mem s x = Some z" "y = z \<or> y = forget_listener a z" using y by (auto simp: m_def split: if_splits)
      then have "conn y = conn z" "t_listener y = None \<or> t_listener y = t_listener z" by (auto simp: forget_listener_def)
      then show ?thesis using stack_okD [OF ok z(1)] by (auto simp: tcb_ok_def placed_def listener_ok_def split: option.splits)
    qed
    moreover have "m x \<noteq> None \<longleftrightarrow> tcp_mem s x \<noteq> None" for x by (simp add: m_def)
    ultimately show ?thesis using ok by (simp add: stack_ok_def lists_ok_def tcp_pcb_lists_def)
  qed
  moreover have "calm s (s\<lparr>tcp_mem := m\<rparr>)" by (auto simp: calm_def m_def split: if_splits)
  ultimately show ?thesis by blast
qed

lemma close_listen_ok:
  assumes ok: "stack_ok s" and b: "tcp_mem s a = Some b" "state (conn b) = LISTEN"
  shows "\<exists>s1 s2 s3. tcp_listen_closed a s = Some s1 \<and> remove_listen w a s1 = Some s2 \<and> tcp_free_listen a s2 = Some s3 \<and> stack_ok s3 \<and> calm s s3"
proof -
  from listen_closed_ok [OF assms] obtain m where m: "tcp_listen_closed a s = Some (s\<lparr>tcp_mem := m\<rparr>)" "stack_ok (s\<lparr>tcp_mem := m\<rparr>)" "m a = Some b"
      "\<forall>x y. m x = Some y \<longrightarrow> t_listener y \<noteq> Some a" "calm s (s\<lparr>tcp_mem := m\<rparr>)" by blast
  define s1 where "s1 = s\<lparr>tcp_mem := m\<rparr>"
  note s1 = m [folded s1_def]
  have m1: "tcp_mem s1 = m" by (simp add: s1_def)
  have b1: "tcp_mem s1 a = Some b" using s1(3) m1 by simp
  have "a \<notin> set (tcp_pcb_lists (s1\<lparr>tcp_listen_pcbs := remove1 a (tcp_listen_pcbs s1)\<rparr>))"
    using stack_okD(1) [OF s1(2) b1] s1(2) b(2) by (auto simp: placed_def tcp_pcb_lists_def stack_ok_def lists_ok_def)
  from close_removed [OF s1(2) b1 elsewhere_rmv(4) _ this, of w]
  obtain s2 where s2: "remove_listen w a s1 = Some s2" "removed a s1 s2" by (auto simp: remove_listen_def)
  from free_removed [OF s2(2)] obtain s3 where s3: "tcp_free a s2 = Some s3" "elsewhere a s1 s3" "tcp_mem s3 a = None" "at_home s3 a" by blast
  have "\<forall>x y. tcp_mem s3 x = Some y \<longrightarrow> t_listener y \<noteq> Some a"
  proof (intro allI impI)
    fix x y assume y: "tcp_mem s3 x = Some y"
    then have "x \<noteq> a" using s3(3) by auto
    then have "tcp_mem s1 x = Some y" using y s3(2) by (simp add: elsewhere_def)
    then show "t_listener y \<noteq> Some a" using s1(4) m1 by simp
  qed
  then have "stack_ok s3" using stack_ok_elsewhere [OF s1(2) s3(2,4)] by simp
  moreover have "calm s1 s3" by (rule calm_elsewhere [OF s3(2)]) (simp add: s3(3))
  then have "calm s s3" using s1(5) calm_trans by blast
  moreover have "tcp_free_listen a s2 = tcp_free a s2" by (simp add: tcp_free_listen_def tcp_free_def)
  ultimately show ?thesis using s1(1) s2(1) s3(1) by metis
qed

lemma tcp_close_shutdown_ok:
  assumes ok: "stack_ok s" and b: "tcp_mem s a = Some b" and rx: "r \<Longrightarrow> state (conn b) \<in> {ESTABLISHED, CLOSE_WAIT} \<Longrightarrow> has16 (pcb_flags (conn b)) TF_RXCLOSED"
  shows "\<exists>err s'. tcp_close_shutdown w a r s = Some (err, s') \<and> stack_ok s' \<and> calm s s'"
proof (cases "r \<and> (state (conn b) = ESTABLISHED \<or> state (conn b) = CLOSE_WAIT) \<and> (refused_data (conn b) \<noteq> None \<or> rcv_wnd (conn b) \<noteq> TCP_WND)")
  case True
  let ?p = "conn b"
  define s1 where "s1 = stack_rst (Some a) (snd_nxt ?p) (rcv_nxt ?p) (local_port ?p) (remote_port ?p) s"
  have m1: "tcp_mem s1 a = Some b" using b by (simp add: s1_def)
  obtain s2 where s2: "upd_conn a tcp_pcb_purge s1 = Some s2" "io_step a (b\<lparr>conn := tcp_pcb_purge ?p\<rparr>) s1 s2" using upd_conn_step [OF m1, of tcp_pcb_purge] by blast
  define s3 where "s3 = TCP_RMV_ACTIVE a s2"
  have e: "elsewhere a s s3" unfolding s3_def
    by (rule elsewhere_trans [OF _ elsewhere_rmv(1)], rule elsewhere_trans [OF _ elsewhere_io [OF s2(2)]]) (simp add: s1_def)
  have l: "tcp_bound_pcbs s3 = tcp_bound_pcbs s" "tcp_listen_pcbs s3 = tcp_listen_pcbs s" "tcp_tw_pcbs s3 = tcp_tw_pcbs s"
      "tcp_active_pcbs s3 = remove1 a (tcp_active_pcbs s)" "tcp_mem s3 = tcp_mem s2" "tcp_input_pcb s3 = None"
    using io_step_fields [OF s2(2)] ok by (simp_all add: s3_def TCP_RMV_ACTIVE_def s1_def stack_rst_def Let_def stack_ok_def)
  have "removed a s s3" unfolding removed_def
    using e True stack_okD(1) [OF ok b] ok io_step_mem [OF s2(2)] by (auto simp: placed_def tcp_pcb_lists_def l stack_ok_def lists_ok_def)
  from free_removed [OF this] obtain s4 where s4: "tcp_free a s3 = Some s4" "elsewhere a s s4" "at_home s4 a" "tcp_mem s4 a = None" by blast
  have "calm s s4" by (rule calm_elsewhere [OF s4(2)]) (simp add: s4(4))
  moreover have "stack_ok s4" by (rule stack_ok_released [OF ok s4(2,3) b]) (use True in auto)
  moreover have "tcp_close_shutdown w a r s = Some (ERR_OK, s4)"
    using b True rx s2(1) s4(1) l(6) unfolding tcp_close_shutdown_def Let_def s1_def s3_def by auto
  ultimately show ?thesis by blast
next
  case False
  have c: "tcp_close_shutdown w a r s = (case state (conn b) of
          CLOSED \<Rightarrow> do {
            s \<leftarrow> tcp_free a (if local_port (conn b) \<noteq> 0 then TCP_RMV_BOUND a s else s);
            Some (ERR_OK, s) }
        | LISTEN \<Rightarrow> do {
            s \<leftarrow> tcp_listen_closed a s;
            s \<leftarrow> remove_listen w a s;
            s \<leftarrow> tcp_free_listen a s;
            Some (ERR_OK, s) }
        | SYN_SENT \<Rightarrow> do {
            s \<leftarrow> TCP_PCB_REMOVE_ACTIVE w a s;
            s \<leftarrow> tcp_free a s;
            Some (ERR_OK, s) }
        | _ \<Rightarrow> tcp_close_shutdown_fin w a s)"
    using b False unfolding tcp_close_shutdown_def Let_def by auto
  consider "state (conn b) = CLOSED" | "state (conn b) = LISTEN" | "state (conn b) = SYN_SENT" | "state (conn b) \<notin> {CLOSED, LISTEN, SYN_SENT}" by auto
  then show ?thesis
  proof cases
    case 1
    from free_removed [OF rmv_bound_ok [OF ok b this]]
    obtain s2 where s2: "tcp_free a (if local_port (conn b) \<noteq> 0 then TCP_RMV_BOUND a s else s) = Some s2" "elsewhere a s s2" "at_home s2 a" "tcp_mem s2 a = None" by blast
    have "stack_ok s2" by (rule stack_ok_released [OF ok s2(2,3) b]) (use 1 in simp)
    moreover have "calm s s2" by (rule calm_elsewhere [OF s2(2)]) (simp add: s2(4))
    ultimately show ?thesis using s2(1) 1 unfolding c by simp
  next
    case 2
    from close_listen_ok [OF ok b this, of w] show ?thesis using 2 unfolding c by auto
  next
    case 3
    then have st: "state (conn b) \<notin> {CLOSED, LISTEN, TIME_WAIT}" "state (conn b) \<noteq> LISTEN" by auto
    from remove_active_ok [OF ok b st(1), of w] obtain s1 where s1: "TCP_PCB_REMOVE_ACTIVE w a s = Some s1" "removed a s s1" by blast
    from free_removed [OF s1(2)] obtain s2 where s2: "tcp_free a s1 = Some s2" "elsewhere a s s2" "at_home s2 a" "tcp_mem s2 a = None" by blast
    have "stack_ok s2" by (rule stack_ok_released [OF ok s2(2,3) b st(2)])
    moreover have "calm s s2" by (rule calm_elsewhere [OF s2(2)]) (simp add: s2(4))
    ultimately show ?thesis using s1(1) s2(1) 3 unfolding c by simp
  next
    case 4
    then have "tcp_close_shutdown w a r s = tcp_close_shutdown_fin w a s" unfolding c by (auto split: tcp_state.splits)
    then show ?thesis using close_fin_ok [OF ok b, of w] calm_io [OF _ b] by fastforce
  qed
qed

lemma has16_set [simp]: "has16 (pcb_flags (tcp_set_flags TF_RXCLOSED p)) TF_RXCLOSED"
  by (simp add: has16_def tcp_set_flags_def bit.conj_disj_distrib2 or_eq_0_iff)

lemma tcp_close_ok:
  assumes ok: "stack_ok s" and b: "tcp_mem s a = Some b"
  shows "\<exists>err s'. tcp_close w a s = Some (err, s') \<and> stack_ok s' \<and> calm s s'"
proof (cases "state (conn b) = LISTEN")
  case True
  then show ?thesis using tcp_close_shutdown_ok [OF ok b, of True w] b by (auto simp: tcp_close_def)
next
  case False
  from upd_conn_ok [OF ok b, of "tcp_set_flags TF_RXCLOSED"] stack_okD(2) [OF ok b]
  obtain s1 where s1: "upd_conn a (tcp_set_flags TF_RXCLOSED) s = Some s1" "stack_ok s1" "io_step a (b\<lparr>conn := tcp_set_flags TF_RXCLOSED (conn b)\<rparr>) s s1" by auto
  have "tcp_mem s1 a = Some (b\<lparr>conn := tcp_set_flags TF_RXCLOSED (conn b)\<rparr>)" using io_step_mem [OF s1(3)] by simp
  from tcp_close_shutdown_ok [OF s1(2) this, of True w]
  obtain err s2 where "tcp_close_shutdown w a True s1 = Some (err, s2)" "stack_ok s2" "calm s1 s2" by auto
  moreover have "calm s s1" by (rule calm_io [OF s1(3) b]) simp
  ultimately show ?thesis using s1(1) False b calm_trans by (auto simp: tcp_close_def)
qed

end
