(* ===== verification/Tcp_Stack_Open.thy ===== *)
theory Tcp_Stack_Open
  imports Tcp_Stack_Calls
begin

text \<open>
  Allocation, binding, listening and opening keep the invariant of the control blocks, and so do the other calls of the
  application; the states after any sequence of calls are \<open>tcp_reach\<close>.
\<close>

unbundle bit_operations_syntax

section \<open>Closed blocks\<close>

lemma upd_tcb_ok:
  assumes ok: "stack_ok s" and b: "tcp_mem s a = Some b"
    and f: "state (conn (f b)) = state (conn b)" "conn_ok (conn (f b))" "t_listener (f b) = t_listener b"
      "a \<in> set (tcp_bound_pcbs s) \<Longrightarrow> local_port (conn (f b)) \<noteq> 0"
  shows "\<exists>s'. upd_tcb a f s = Some s' \<and> stack_ok s' \<and> io_step a (f b) s s'"
proof -
  have io: "io_step a (f b) s (s\<lparr>tcp_mem := (tcp_mem s)(a \<mapsto> f b)\<rparr>)" by (rule io_step_upd)
  have "placed s a (conn (f b))" using stack_okD(1) [OF ok b] f(1,4) by (auto simp: placed_def)
  moreover have "listener_ok s (f b)" by (rule listener_ok_state [OF stack_okD(3) [OF ok b] f(3)]) (simp add: f(1))
  ultimately have "stack_ok (s\<lparr>tcp_mem := (tcp_mem s)(a \<mapsto> f b)\<rparr>)" by (rule stack_ok_step [OF ok b io f(2)])
  then show ?thesis using io b by (simp add: upd_tcb_def)
qed

lemma tcp_port_in_use_eq: "\<forall>a \<in> set as. m a \<noteq> None \<Longrightarrow> tcp_port_in_use m port as = Some (\<exists>a \<in> set as. local_port (conn (the (m a))) = port)"
  by (induction "as") auto

lemma tcp_bind_conflict_total: "\<forall>a \<in> set as. m a \<noteq> None \<Longrightarrow> \<exists>c. tcp_bind_conflict m ip port as = Some c"
  by (induction "as") auto

lemma port_loop_total: "(\<And>p. taken p \<noteq> None) \<Longrightarrow> port_loop step taken n port \<noteq> None"
proof (induction step taken n port rule: port_loop.induct)
  case (1 step taken n port)
  then show ?case by (subst port_loop.simps) (auto simp: Let_def split: option.splits bool.splits)
qed

lemma tcp_new_port_total:
  assumes "stack_ok s"
  shows "\<exists>r p. tcp_new_port s = Some (r, s\<lparr>last_tcp_port := p\<rparr>)"
proof -
  have "\<forall>a \<in> set (tcp_pcb_lists s). tcp_mem s a \<noteq> None" using assms by (simp add: stack_ok_def lists_ok_def)
  then have "port_loop next_tcp_port (\<lambda>p. tcp_port_in_use (tcp_mem s) p (tcp_pcb_lists s)) 0 (last_tcp_port s) \<noteq> None"
    by (intro port_loop_total) (simp add: tcp_port_in_use_eq)
  then show ?thesis by (auto simp: tcp_new_port_def)
qed

lemma stack_ok_port [simp]: "stack_ok (s\<lparr>last_tcp_port := p\<rparr>) = stack_ok s"
  by (rule stack_ok_core) (simp add: stack_core_def)

lemma tcp_bind_ok:
  assumes ok: "stack_ok s" and b: "tcp_mem s a = Some b" "state (conn b) = CLOSED" "a \<notin> set (tcp_bound_pcbs s)"
  shows "\<exists>err s'. tcp_bind w a ip port s = Some (err, s') \<and> stack_ok s' \<and> calm s s'"
proof -
  define ip' where "ip' = (case ip of None \<Rightarrow> IP4_ADDR_ANY | Some ip \<Rightarrow> ip)"
  define ip2 where "ip2 = (if unicast_lacks_zone ip' then (ip_addr_set ip')\<lparr>u_addr := ip6_addr_select_zone (w_netifs w) (ip_2_ip6 ip')\<rparr> else ip')"
  define f :: "u16 \<Rightarrow> tcb \<Rightarrow> tcb" where "f port b = b\<lparr>t_local_ip := (if \<not> ip_addr_isany ip2 \<or> iptype ip2 \<noteq> iptype (t_local_ip b) then ip_addr_set ip2 else t_local_ip b),
      conn := (conn b)\<lparr>local_port := port\<rparr>\<rparr>" for port b
  have "\<exists>err port1 p. (if port = 0 then do { (p, s) \<leftarrow> tcp_new_port s; Some (if p = 0 then ERR_BUF else ERR_OK, p, s) }
        else do { c \<leftarrow> tcp_bind_conflict (tcp_mem s) ip2 port (tcp_pcb_lists s); Some (if c then ERR_USE else ERR_OK, port, s) })
      = Some (err, port1, s\<lparr>last_tcp_port := p\<rparr>) \<and> (err = ERR_OK \<longrightarrow> port1 \<noteq> 0)"
  proof (cases "port = 0")
    case True
    then show ?thesis using tcp_new_port_total [OF ok] by auto
  next
    case False
    have "\<forall>a \<in> set (tcp_pcb_lists s). tcp_mem s a \<noteq> None" using ok by (simp add: stack_ok_def lists_ok_def)
    from tcp_bind_conflict_total [OF this] obtain c where "tcp_bind_conflict (tcp_mem s) ip2 port (tcp_pcb_lists s) = Some c" by blast
    then show ?thesis using False by (intro exI [of _ "if c then ERR_USE else ERR_OK"] exI [of _ port] exI [of _ "last_tcp_port s"]) simp
  qed
  then obtain err port1 p where p: "(if port = 0 then do { (p, s) \<leftarrow> tcp_new_port s; Some (if p = 0 then ERR_BUF else ERR_OK, p, s) }
        else do { c \<leftarrow> tcp_bind_conflict (tcp_mem s) ip2 port (tcp_pcb_lists s); Some (if c then ERR_USE else ERR_OK, port, s) })
      = Some (err, port1, s\<lparr>last_tcp_port := p\<rparr>)" "err = ERR_OK \<longrightarrow> port1 \<noteq> 0" by blast
  define s1 where "s1 = s\<lparr>last_tcp_port := p\<rparr>"
  have ok1: "stack_ok s1" "tcp_mem s1 a = Some b" "a \<notin> set (tcp_bound_pcbs s1)" using ok b by (simp_all add: s1_def)
  have bind: "tcp_bind w a ip port s = (if err \<noteq> ERR_OK then Some (err, s1) else do { s \<leftarrow> upd_tcb a (f port1) s1; xs \<leftarrow> TCP_REG a (tcp_bound_pcbs s);
       Some (ERR_OK, timer_needed (s\<lparr>tcp_bound_pcbs := xs\<rparr>)) })"
    using b p(1) unfolding tcp_bind_def Let_def ip'_def [symmetric] ip2_def [symmetric] f_def s1_def by simp
  show ?thesis
  proof (cases "err = ERR_OK")
    case False
    then show ?thesis using ok1 unfolding bind by (simp add: s1_def calm_def)
  next
    case True
    have "conn_ok (conn (f port1 b))"
      using stack_okD(2) [OF ok b(1)] conn_ok_core [of "conn (f port1 b)" "conn b"] by (simp add: f_def conn_core_def)
    then obtain s2 where s2: "upd_tcb a (f port1) s1 = Some s2" "stack_ok s2" "io_step a (f port1 b) s1 s2"
      using upd_tcb_ok [OF ok1(1,2), of "f port1"] p(2) True by (auto simp: f_def)
    let ?s3 = "s2\<lparr>tcp_bound_pcbs := a # tcp_bound_pcbs s2\<rparr>"
    have m: "tcp_mem s2 a = Some (f port1 b)" "tcp_bound_pcbs s2 = tcp_bound_pcbs s1" using io_step_mem [OF s2(3)] io_step_fields [OF s2(3)] by simp_all
    have fb: "state (conn (f port1 b)) = CLOSED" "local_port (conn (f port1 b)) = port1" using b by (simp_all add: f_def)
    have ok3: "stack_ok ?s3"
    proof (rule stack_ok_elsewhere [OF s2(2), of a])
      show "elsewhere a s2 ?s3" using ok1(3) m by (simp add: elsewhere_def distinct_lists_def timer_ok_def)
      show "at_home ?s3 a" using stack_okD [OF s2(2) m(1)] m fb p(2) True
        by (auto simp: at_home_def tcb_ok_def placed_def listener_ok_def split: option.splits)
    qed simp
    have "calm s ?s3"
    proof -
      have "calm s s1" by (auto simp: calm_def s1_def)
      moreover have "calm s1 s2" by (rule calm_io [OF s2(3) ok1(2)]) (simp add: f_def)
      moreover have "calm s2 ?s3" by (simp add: calm_def)
      ultimately show ?thesis by (blast intro: calm_trans)
    qed
    moreover have "tcp_bind w a ip port s = Some (ERR_OK, ?s3)" unfolding bind using True s2(1) m ok1(3) timer_needed_ok [OF ok3] by (simp add: TCP_REG_def)
    ultimately show ?thesis using ok3 by blast
  qed
qed

section \<open>Allocation\<close>

lemma kill_scan_in:
  "\<forall>a \<in> set as. m a \<noteq> None \<Longrightarrow> \<exists>r. kill_scan c now m i x as = Some r \<and> (r = x \<or> (\<exists>a \<in> set as. r = Some a))"
  by (induction "as" arbitrary: i x) (auto, blast+)

lemma kill_prio_scan_in:
  "\<forall>a \<in> set as. m a \<noteq> None \<Longrightarrow> \<exists>r. kill_prio_scan now m p i x as = Some r \<and> (r = x \<or> (\<exists>a \<in> set as. r = Some a))"
  by (induction "as" arbitrary: p i x) (auto, blast+)

lemma closepend_ok:
  assumes "stack_ok s" "\<forall>a \<in> set as. tcp_mem s a \<noteq> None"
  shows "\<exists>s'. closepend_loop w as s = Some s' \<and> stack_ok s' \<and> calm s s'"
  using assms
proof (induction "as" arbitrary: s)
  case (Cons a as)
  then obtain b where b: "tcp_mem s a = Some b" by auto
  show ?case
  proof (cases "has16 (pcb_flags (conn b)) TF_CLOSEPEND")
    case False
    then show ?thesis using Cons b by simp
  next
    case True
    obtain s1 where s1: "upd_conn a (tcp_clear_flags TF_CLOSEPEND) s = Some s1" "stack_ok s1" "io_step a (b\<lparr>conn := tcp_clear_flags TF_CLOSEPEND (conn b)\<rparr>) s s1"
      using upd_conn_ok [OF Cons.prems(1) b, of "tcp_clear_flags TF_CLOSEPEND"] stack_okD(2) [OF Cons.prems(1) b] by auto
    have m1: "tcp_mem s1 a = Some (b\<lparr>conn := tcp_clear_flags TF_CLOSEPEND (conn b)\<rparr>)" using io_step_mem [OF s1(3)] by simp
    from close_fin_ok [OF s1(2) m1, of w] obtain e s2 b2 where s2: "tcp_close_shutdown_fin w a s1 = Some (e, s2)" "stack_ok s2" "io_step a b2 s1 s2"
        "t_last_timer b2 = t_last_timer b" by auto
    have "calm s s1" by (rule calm_io [OF s1(3) b]) simp
    moreover have "calm s1 s2" by (rule calm_io [OF s2(3) m1]) (simp add: s2(4))
    ultimately have c: "calm s s2" by (rule calm_trans)
    have "\<forall>x \<in> set as. tcp_mem s2 x \<noteq> None" using Cons.prems(2) io_step_mem [OF s1(3)] io_step_mem [OF s2(3)] by auto
    from Cons.IH [OF s2(2) this] show ?thesis using b True s1(1) s2(1) calm_trans [OF c] by auto
  qed
qed simp

lemma stack_ok_allocs [simp]: "stack_ok (s\<lparr>pcb_allocs := r\<rparr>) = stack_ok s"
  by (rule stack_ok_core) (simp add: stack_core_def)

lemma malloc_pcb_ok: "stack_ok s \<Longrightarrow> stack_ok (snd (malloc_pcb s)) \<and> calm s (snd (malloc_pcb s)) \<and> (\<forall>a. fst (malloc_pcb s) = Some a \<longrightarrow> tcp_mem (snd (malloc_pcb s)) a = None)"
  by (auto simp: malloc_pcb_def calm_def split: list.splits option.splits)

definition fresh_pcb :: "tcp_stack \<Rightarrow> nat option \<times> tcp_stack \<Rightarrow> bool" where
  "fresh_pcb s0 r \<longleftrightarrow> stack_ok (snd r) \<and> calm s0 (snd r) \<and> (\<forall>a. fst r = Some a \<longrightarrow> tcp_mem (snd r) a = None)"

lemma retry_malloc_ok:
  assumes "fresh_pcb s0 r" and "\<And>s. stack_ok s \<Longrightarrow> \<exists>s'. kill s = Some s' \<and> stack_ok s' \<and> calm s s'"
  shows "\<exists>r'. retry_malloc kill r = Some r' \<and> fresh_pcb s0 r'"
proof (cases r)
  case (Pair x s)
  show ?thesis
  proof (cases x)
    case None
    have s: "stack_ok s" "calm s0 s" using assms(1) Pair by (simp_all add: fresh_pcb_def)
    from assms(2) [OF s(1)] obtain s' where s': "kill s = Some s'" "stack_ok s'" "calm s s'" by blast
    have "calm s0 (snd (malloc_pcb s'))" using s(2) s'(3) malloc_pcb_ok [OF s'(2)] by (blast intro: calm_trans)
    then show ?thesis using s' Pair None malloc_pcb_ok [OF s'(2)] by (simp add: retry_malloc_def fresh_pcb_def)
  qed (use assms(1) Pair in \<open>simp add: retry_malloc_def\<close>)
qed

lemma conn_ok_new [simp]: "conn_ok (new_conn now)"
  by (simp add: conn_ok_def new_conn_def persist_ok_def ann_wnd_ok_def no_queues_def)

lemma stack_ok_new:
  assumes ok: "stack_ok s" and a: "tcp_mem s a = None"
  shows "stack_ok (s\<lparr>tcp_mem := (tcp_mem s)(a \<mapsto> new_tcb prio now ctr)\<rparr>)"
proof (rule stack_ok_elsewhere [OF ok, of a])
  have "a \<notin> set (tcp_pcb_lists s)" using ok a by (auto simp: stack_ok_def lists_ok_def)
  then show "at_home (s\<lparr>tcp_mem := (tcp_mem s)(a \<mapsto> new_tcb prio now ctr)\<rparr>) a"
    by (simp add: at_home_def tcb_ok_def placed_def listener_ok_def new_tcb_def tcp_pcb_lists_def) (simp add: new_conn_def)
qed (simp_all add: elsewhere_def distinct_lists_def timer_ok_def)

context tcp_application
begin

lemma kill_tw_ok: "stack_ok s \<Longrightarrow> \<exists>s'. tcp_kill_timewait w s = Some s' \<and> stack_ok s' \<and> calm s s'"
proof -
  assume ok: "stack_ok s"
  then have al: "\<forall>a \<in> set (tcp_tw_pcbs s). tcp_mem s a \<noteq> None" by (simp add: stack_ok_def lists_ok_def tcp_pcb_lists_def)
  from kill_scan_in [OF this, of "\<lambda>_. True" "ticks s" 0 None]
  obtain r where r: "kill_scan (\<lambda>_. True) (ticks s) (tcp_mem s) 0 None (tcp_tw_pcbs s) = Some r" "r = None \<or> (\<exists>a \<in> set (tcp_tw_pcbs s). r = Some a)" by auto
  show ?thesis
  proof (cases r)
    case (Some a)
    then obtain b where b: "tcp_mem s a = Some b" "a \<in> set (tcp_tw_pcbs s)" using r(2) al by auto
    then have "state (conn b) \<noteq> LISTEN" using stack_okD(1) [OF ok b(1)] by (auto simp: placed_def)
    from abort_pcb_ok [OF ok b(1) this] show ?thesis using r(1) Some by (simp add: tcp_kill_timewait_def)
  qed (use r ok in \<open>simp add: tcp_kill_timewait_def\<close>)
qed

lemma active_abandon_ok:
  assumes ok: "stack_ok s" and a: "a \<in> set (tcp_active_pcbs s)"
  shows "\<exists>s'. tcp_abandon w a reset s = Some s' \<and> stack_ok s' \<and> calm s s'"
proof -
  obtain b where b: "tcp_mem s a = Some b" using stack_ok_mem [OF ok, of a] a by (auto simp: tcp_pcb_lists_def)
  then have "state (conn b) \<noteq> LISTEN" using stack_okD(1) [OF ok b] a by (auto simp: placed_def)
  from tcp_abandon_ok [OF ok b this] show ?thesis .
qed

lemma active_al: "stack_ok s \<Longrightarrow> \<forall>a \<in> set (tcp_active_pcbs s). tcp_mem s a \<noteq> None"
  by (simp add: stack_ok_def lists_ok_def tcp_pcb_lists_def)

lemma kill_state_ok: "stack_ok s \<Longrightarrow> st \<in> {CLOSING, LAST_ACK} \<Longrightarrow> \<exists>s'. tcp_kill_state w st s = Some s' \<and> stack_ok s' \<and> calm s s'"
  using kill_scan_in [OF active_al, of s "\<lambda>b. state (conn b) = st" "ticks s" 0 None] active_abandon_ok [of s _ False]
  by (auto simp: tcp_kill_state_def)

lemma kill_prio_ok: "stack_ok s \<Longrightarrow> \<exists>s'. tcp_kill_prio w prio s = Some s' \<and> stack_ok s' \<and> calm s s'"
  using kill_prio_scan_in [OF active_al, of s "ticks s" "min TCP_PRIO_MAX prio - 1" 0 None] active_abandon_ok [of s _ True]
  by (auto simp: tcp_kill_prio_def Let_def abort_pcb_def)

lemma give_up_ok: "stack_ok s \<Longrightarrow> \<exists>s'. do { s \<leftarrow> tcp_handle_closepend w s; tcp_kill_timewait w s } = Some s' \<and> stack_ok s' \<and> calm s s'"
proof -
  assume ok: "stack_ok s"
  from closepend_ok [OF ok active_al [OF ok], of w] obtain s1 where s1: "tcp_handle_closepend w s = Some s1" "stack_ok s1" "calm s s1"
    by (auto simp: tcp_handle_closepend_def)
  from kill_tw_ok [OF s1(2)] show ?thesis using s1(1) calm_trans [OF s1(3)] by auto
qed

lemma tcp_alloc_ok:
  assumes "stack_ok s"
  shows "\<exists>r s'. tcp_alloc w prio s = Some (r, s') \<and> stack_ok s' \<and> calm s s'
    \<and> (\<forall>a. r = Some a \<longrightarrow> (\<exists>now ctr. tcp_mem s' a = Some (new_tcb prio now ctr)))"
proof -
  have 0: "fresh_pcb s (malloc_pcb s)" using malloc_pcb_ok [OF assms] by (simp add: fresh_pcb_def)
  let ?k = "\<lambda>s. do { s \<leftarrow> tcp_handle_closepend w s; tcp_kill_timewait w s }"
  obtain r1 where 1: "retry_malloc ?k (malloc_pcb s) = Some r1" "fresh_pcb s r1"
    using retry_malloc_ok [OF 0, of ?k] give_up_ok by blast
  obtain r2 where 2: "retry_malloc (tcp_kill_state w LAST_ACK) r1 = Some r2" "fresh_pcb s r2"
    using retry_malloc_ok [OF 1(2), of "tcp_kill_state w LAST_ACK"] kill_state_ok by blast
  obtain r3 where 3: "retry_malloc (tcp_kill_state w CLOSING) r2 = Some r3" "fresh_pcb s r3"
    using retry_malloc_ok [OF 2(2), of "tcp_kill_state w CLOSING"] kill_state_ok by blast
  obtain r s4 where 4: "retry_malloc (tcp_kill_prio w prio) r3 = Some (r, s4)" "fresh_pcb s (r, s4)"
    using retry_malloc_ok [OF 3(2), of "tcp_kill_prio w prio"] kill_prio_ok by (metis surj_pair)
  show ?thesis
  proof (cases r)
    case None
    then show ?thesis using 1 2 3 4 by (simp add: tcp_alloc_def fresh_pcb_def)
  next
    case (Some a)
    let ?s = "s4\<lparr>tcp_mem := (tcp_mem s4)(a \<mapsto> new_tcb prio (ticks s4) (tcp_timer_ctr s4))\<rparr>"
    have "stack_ok ?s" using 4(2) Some by (intro stack_ok_new) (simp_all add: fresh_pcb_def)
    moreover have "calm s4 ?s" by (auto simp: calm_def new_tcb_def)
    then have "calm s ?s" using 4(2) by (auto simp: fresh_pcb_def intro: calm_trans)
    ultimately show ?thesis using 1(1) 2(1) 3(1) 4(1) Some by (auto simp: tcp_alloc_def)
  qed
qed

end

end
