(* ===== verification/Tcp_Stack_Reach.thy ===== *)
theory Tcp_Stack_Reach
  imports Tcp_Stack_Open
begin

text \<open>
  Listening, opening, receiving and the remaining calls keep the invariant; the application of default callbacks
  (\<^verbatim>\<open>tcp_recv_null\<close>, \<^verbatim>\<open>tcp_accept_null\<close>) keeps the contract; the states that calls can reach.
\<close>

unbundle bit_operations_syntax

section \<open>Listening\<close>

lemma tcp_listen_ok:
  assumes ok: "stack_ok s" and b: "tcp_mem s a = Some b" "state (conn b) = CLOSED"
  shows "\<exists>r err s'. tcp_listen_with_backlog_and_err a s = Some (r, err, s') \<and> stack_ok s' \<and> calm s s'
    \<and> (\<forall>l. r = Some l \<longrightarrow> l \<in> set (tcp_listen_pcbs s') \<and> tcp_mem s' a = None \<and> (\<exists>lb. tcp_mem s' l = Some lb \<and> local_port (conn lb) = local_port (conn b)))"
proof -
  obtain r s1 where r: "malloc_pcb s = (r, s1)" by (cases "malloc_pcb s")
  have s1: "stack_ok s1" "calm s s1" "\<And>l. r = Some l \<Longrightarrow> tcp_mem s1 l = None" using malloc_pcb_ok [OF ok] r by simp_all
  have m1: "tcp_mem s1 = tcp_mem s" using r by (auto simp: malloc_pcb_def split: list.splits)
  show ?thesis
  proof (cases r)
    case None
    then show ?thesis using b r s1 by (simp add: tcp_listen_with_backlog_and_err_def)
  next
    case (Some l)
    have l: "tcp_mem s1 l = None" "l \<noteq> a" using s1(3) [OF Some] m1 b(1) by auto
    have b1: "tcp_mem s1 a = Some b" using m1 b(1) by simp
    define s2 where "s2 = (if local_port (conn b) \<noteq> 0 then TCP_RMV_BOUND a s1 else s1)"
    define s3 where "s3 = s2\<lparr>tcp_mem := (tcp_mem s2)(a := None)\<rparr>"
    have rm: "removed a s1 s2" using rmv_bound_ok [OF s1(1) b1 b(2)] by (simp add: s2_def)
    have m2: "tcp_mem s2 = tcp_mem s1" "tcp_listen_pcbs s2 = tcp_listen_pcbs s1" by (simp_all add: s2_def TCP_RMV_BOUND_def)
    have f: "tcp_free a s2 = Some s3" using m2 b1 b(2) by (simp add: tcp_free_def s3_def)
    then have e3: "elsewhere a s1 s3" "at_home s3 a" "tcp_mem s3 a = None" using free_removed [OF rm] by auto
    have ok3: "stack_ok s3" by (rule stack_ok_released [OF s1(1) e3(1,2) b1]) (simp add: b(2))
    have l3: "tcp_mem s3 l = None" using l e3(1) by (simp add: elsewhere_def)
    then have nl: "l \<notin> set (tcp_pcb_lists s3)" using ok3 by (auto simp: stack_ok_def lists_ok_def)
    let ?s = "s3\<lparr>tcp_mem := (tcp_mem s3)(l \<mapsto> listen_tcb s1 b), tcp_listen_pcbs := l # tcp_listen_pcbs s3\<rparr>"
    have lc: "conn (listen_tcb s1 b) = (new_conn (ticks s1))\<lparr>state := LISTEN, local_port := local_port (conn b)\<rparr>" "t_listener (listen_tcb s1 b) = None"
      by (simp_all add: listen_tcb_def new_tcb_def)
    have "conn_ok (conn (listen_tcb s1 b))" unfolding lc by (simp add: conn_ok_def new_conn_def persist_ok_def ann_wnd_ok_def)
    moreover have el: "elsewhere l s3 ?s" using nl by (auto simp: elsewhere_def distinct_lists_def timer_ok_def tcp_pcb_lists_def)
    ultimately have ok4: "stack_ok ?s"
      by (intro stack_ok_elsewhere [OF ok3 el])
        (use nl in \<open>simp_all add: at_home_def tcb_ok_def placed_def listener_ok_def lc tcp_pcb_lists_def\<close>)
    have "calm s1 s3" by (rule calm_elsewhere [OF e3(1)]) (simp add: e3(3))
    moreover have "calm s3 ?s"
      using e3(1) by (auto simp: calm_def listen_tcb_def new_tcb_def elsewhere_def)
    moreover have "tcp_listen_with_backlog_and_err a s = Some (Some l, ERR_OK, ?s)"
    proof -
      have "tcp_free a (if local_port (conn b) \<noteq> 0 then TCP_RMV_BOUND a (s1\<lparr>tcp_mem := (tcp_mem s1)(l \<mapsto> listen_tcb s1 b)\<rparr>)
            else s1\<lparr>tcp_mem := (tcp_mem s1)(l \<mapsto> listen_tcb s1 b)\<rparr>) = Some (s3\<lparr>tcp_mem := (tcp_mem s3)(l \<mapsto> listen_tcb s1 b)\<rparr>)"
        using b1 b(2) l(2) by (simp add: tcp_free_def s3_def s2_def TCP_RMV_BOUND_def fun_upd_twist)
      then show ?thesis using b r Some nl timer_needed_ok [OF ok4] by (simp add: tcp_listen_with_backlog_and_err_def TCP_REG_def tcp_pcb_lists_def)
    qed
    ultimately show ?thesis using ok4 s1(2) e3(3) l(2) lc by (auto intro: calm_trans)
  qed
qed


section \<open>Receiving\<close>

lemma tcp_recved_ok:
  assumes "conn_ok p" "state p \<noteq> LISTEN"
  shows "\<exists>out q. tcp_recved len p = Some (out, q) \<and> conn_ok q \<and> state q = state p \<and> local_port q = local_port p"
proof -
  define p1 where "p1 = (if rcv_wnd p + len > TCP_WND \<or> rcv_wnd p + len < rcv_wnd p then p\<lparr>rcv_wnd := TCP_WND\<rparr> else p\<lparr>rcv_wnd := rcv_wnd p + len\<rparr>)"
  have p1: "conn_core p1 = conn_core p" "local_port p1 = local_port p" by (simp_all add: p1_def conn_core_def)
  then have a: "ann_wnd_ok p1" using assms(1) conn_ok_core [of p1 p] by (simp add: conn_ok_def)
  have "\<exists>i v. tcp_update_rcv_ann_wnd p1 = Some (i, p1\<lparr>rcv_ann_wnd := v\<rparr>)"
    using a by (auto simp: tcp_update_rcv_ann_wnd_def Let_def ann_wnd_ok_def)
  then obtain i v where u: "tcp_update_rcv_ann_wnd p1 = Some (i, p1\<lparr>rcv_ann_wnd := v\<rparr>)" by blast
  let ?q = "p1\<lparr>rcv_ann_wnd := v\<rparr>"
  have q: "conn_ok ?q" "state ?q = state p" "local_port ?q = local_port p"
    using assms(1) p1 conn_ok_core [of ?q p] by (simp_all add: conn_core_def)
  have "tcp_recved len p = (if i \<ge> ucast (min (TCP_WND div 4) (TCP_MSS * 4)) then Some (True, tcp_ack_now ?q) else Some (False, ?q))"
    using assms(2) u unfolding tcp_recved_def p1_def [symmetric] Let_def by simp
  moreover have "conn_ok (tcp_ack_now ?q)" "state (tcp_ack_now ?q) = state p" "local_port (tcp_ack_now ?q) = local_port p"
    using q by (simp, simp_all add: tcp_ack_now_def tcp_set_flags_def)
  ultimately show ?thesis using q by auto
qed

lemma pcb_recved_ok:
  assumes ok: "stack_ok s" and b: "tcp_mem s a = Some b" "state (conn b) \<noteq> LISTEN"
  shows "\<exists>s'. pcb_recved w a len s = Some s' \<and> stack_ok s' \<and> calm s s'"
proof -
  obtain out q where q: "tcp_recved len (conn b) = Some (out, q)" "conn_ok q" "state q = state (conn b)" "local_port q = local_port (conn b)"
    using tcp_recved_ok [OF stack_okD(2) [OF ok b(1)] b(2), of len] by blast
  have "a \<in> set (tcp_bound_pcbs s) \<Longrightarrow> local_port q \<noteq> 0" using stack_okD(1) [OF ok b(1)] q(4) by (simp add: placed_def)
  then obtain s1 where s1: "upd_conn a (\<lambda>_. q) s = Some s1" "stack_ok s1" "io_step a (b\<lparr>conn := q\<rparr>) s s1"
    using upd_tcb_ok [OF ok b(1), of "\<lambda>b. b\<lparr>conn := q\<rparr>"] q by (auto simp: upd_conn_def)
  have m1: "tcp_mem s1 a = Some (b\<lparr>conn := q\<rparr>)" using io_step_mem [OF s1(3)] by simp
  have c1: "calm s s1" by (rule calm_io [OF s1(3) b(1)]) simp
  show ?thesis
  proof (cases out)
    case False
    then show ?thesis using b q s1 c1 by (simp add: pcb_recved_def)
  next
    case True
    obtain e s2 b2 where s2: "pcb_output w a s1 = Some (e, s2)" "stack_ok s2" "io_step a b2 s1 s2" "tcb_same (b\<lparr>conn := q\<rparr>) b2"
      using stack_output_ok [OF s1(2) m1, of w] q(3) b(2) by auto
    have "calm s1 s2" by (rule calm_io [OF s2(3) m1]) (simp add: tcb_sameD(4) [OF s2(4)])
    then show ?thesis using b q s1 s2 True calm_trans [OF c1] by (simp add: pcb_recved_def)
  qed
qed

section \<open>Shutting down\<close>

lemma tcp_shutdown_ok:
  assumes ok: "stack_ok s" and b: "tcp_mem s a = Some b"
  shows "\<exists>err s'. tcp_shutdown w a rx tx s = Some (err, s') \<and> stack_ok s' \<and> calm s s'"
proof (cases "state (conn b) = LISTEN")
  case True
  then show ?thesis using ok b by (simp add: tcp_shutdown_def)
next
  case False
  define b1 where "b1 = (if rx then b\<lparr>conn := tcp_set_flags TF_RXCLOSED (conn b)\<rparr> else b)"
  have b1: "state (conn b1) = state (conn b)" "rx \<Longrightarrow> has16 (pcb_flags (conn b1)) TF_RXCLOSED" "t_last_timer b1 = t_last_timer b"
    by (simp_all add: b1_def tcp_set_flags_def [of _ "conn b", THEN arg_cong [where f = state]])
  have "\<exists>s1. (if rx then upd_conn a (tcp_set_flags TF_RXCLOSED) s else Some s) = Some s1 \<and> stack_ok s1 \<and> tcp_mem s1 a = Some b1 \<and> calm s s1"
  proof (cases rx)
    case True
    obtain s1 where s1: "upd_conn a (tcp_set_flags TF_RXCLOSED) s = Some s1" "stack_ok s1" "io_step a b1 s s1"
      using upd_conn_ok [OF ok b, of "tcp_set_flags TF_RXCLOSED"] stack_okD(2) [OF ok b] True by (auto simp: b1_def)
    then show ?thesis using True calm_io [OF s1(3) b b1(3)] io_step_mem [OF s1(3)] by simp
  qed (use ok b in \<open>simp add: b1_def\<close>)
  then obtain s1 where s1: "(if rx then upd_conn a (tcp_set_flags TF_RXCLOSED) s else Some s) = Some s1" "stack_ok s1" "tcp_mem s1 a = Some b1" "calm s s1" by blast
  define b2 where "b2 = (if rx then b1\<lparr>conn := (conn b1)\<lparr>refused_data := None\<rparr>\<rparr> else b1)"
  have b2: "state (conn b2) = state (conn b)" "rx \<Longrightarrow> has16 (pcb_flags (conn b2)) TF_RXCLOSED" "t_last_timer b2 = t_last_timer b1"
    using b1 by (simp_all add: b2_def)
  have "\<exists>s2. (if rx then upd_conn a (\<lambda>p. p\<lparr>refused_data := None\<rparr>) s1 else Some s1) = Some s2 \<and> stack_ok s2 \<and> tcp_mem s2 a = Some b2 \<and> calm s1 s2"
  proof (cases rx)
    case True
    have "conn_ok ((conn b1)\<lparr>refused_data := None\<rparr>)" using stack_okD(2) [OF s1(2,3)] conn_ok_core [of "(conn b1)\<lparr>refused_data := None\<rparr>" "conn b1"] by (simp add: conn_core_def)
    moreover have "a \<in> set (tcp_bound_pcbs s1) \<Longrightarrow> local_port (conn b1) \<noteq> 0" using stack_okD(1) [OF s1(2,3)] by (simp add: placed_def)
    ultimately obtain s2 where s2: "upd_conn a (\<lambda>p. p\<lparr>refused_data := None\<rparr>) s1 = Some s2" "stack_ok s2" "io_step a b2 s1 s2"
      using upd_tcb_ok [OF s1(2,3), of "\<lambda>b. b\<lparr>conn := (conn b)\<lparr>refused_data := None\<rparr>\<rparr>"] True by (auto simp: b2_def upd_conn_def)
    then show ?thesis using True calm_io [OF s2(3) s1(3) b2(3)] io_step_mem [OF s2(3)] by simp
  qed (use s1 in \<open>simp add: b2_def\<close>)
  then obtain s2 where s2: "(if rx then upd_conn a (\<lambda>p. p\<lparr>refused_data := None\<rparr>) s1 else Some s1) = Some s2" "stack_ok s2" "tcp_mem s2 a = Some b2" "calm s1 s2" by blast
  obtain e3 s3 where s3: "tcp_close_shutdown w a True s1 = Some (e3, s3)" "stack_ok s3" "calm s1 s3" if rx
    using tcp_close_shutdown_ok [OF s1(2,3), of True w] b1(2) by auto
  obtain e4 s4 where s4: "tcp_close_shutdown w a rx s2 = Some (e4, s4)" "stack_ok s4" "calm s2 s4"
    using tcp_close_shutdown_ok [OF s2(2,3), of rx w] b2(2) by auto
  have sd: "tcp_shutdown w a rx tx s = (if rx \<and> tx then tcp_close_shutdown w a True s1
       else if tx then if state (conn b) \<in> {SYN_RCVD, ESTABLISHED, CLOSE_WAIT} then tcp_close_shutdown w a rx s2 else Some (ERR_CONN, s2)
       else Some (ERR_OK, s2))"
    using b False s1(1) s2(1) by (cases rx; cases tx) (simp_all add: tcp_shutdown_def)
  have "calm s s2" "calm s s4" "rx \<Longrightarrow> calm s s3" using calm_trans s1(4) s2(4) s3(3) s4(3) by blast+
  then show ?thesis unfolding sd using s2(2) s3 s4 by auto
qed

section \<open>Opening a connection\<close>

lemma enqueue_syn_step:
  assumes b: "tcp_mem s a = Some b" and ok: "conn_ok (conn b)" and fl: "fl AND (TCP_SYN OR TCP_FIN) \<noteq> 0" "\<not> has8 fl TCP_RST"
  shows "\<exists>err s' q. enqueue_syn a fl s = Some (err, s') \<and> io_step a (b\<lparr>conn := q\<rparr>) s s' \<and> state q = state (conn b) \<and> local_port q = local_port (conn b)
    \<and> (st \<notin> {CLOSED, TIME_WAIT} \<longrightarrow> conn_ok (q\<lparr>state := st\<rparr>)) \<and> (err \<noteq> ERR_OK \<longrightarrow> conn_ok q)"
proof -
  let ?p = "conn b"
  obtain err q where q: "tcp_enqueue_flags (seg_alloc s) fl ?p = Some (err, q)" "err = ERR_OK \<and> flags_queued ?p q \<or> err = ERR_MEM \<and> q = tcp_set_flags TF_NAGLEMEMERR ?p"
    using enqueue_flags_ok [OF ok fl, of "seg_alloc s"] by blast
  have "conn_ok ((tcp_set_flags TF_NAGLEMEMERR ?p)\<lparr>state := st\<rparr>)" if "st \<notin> {CLOSED, TIME_WAIT}"
    using ok that by (auto simp: conn_ok_def persist_ok_def ann_wnd_ok_def tcp_set_flags_def)
  then have k: "conn_ok (q\<lparr>state := st\<rparr>)" if "st \<notin> {CLOSED, TIME_WAIT}"
    using q(2) flags_queued_ok(1) [OF _ ok, of q st] that by auto
  have "conn_same ?p q" using q(2) flags_queued_ok(3) [OF _ ok, of q] by auto
  then have st: "state q = state ?p" "local_port q = local_port ?p" by (simp_all add: conn_same_def)
  let ?s = "s\<lparr>tcp_mem := (tcp_mem s)(a \<mapsto> b\<lparr>conn := q\<rparr>), seg_allocs := drop 1 (seg_allocs s)\<rparr>"
  have "?s = s\<lparr>tcp_mem := (tcp_mem s)(a \<mapsto> b\<lparr>conn := q\<rparr>), ip_results := ip_results s, ctl_results := ctl_results s, seg_allocs := drop 1 (seg_allocs s), tcp_trace := tcp_trace s\<rparr>" by simp
  then have "io_step a (b\<lparr>conn := q\<rparr>) s ?s" unfolding io_step_def by blast
  moreover have "enqueue_syn a fl s = Some (err, ?s)" using b q(1) by (simp add: enqueue_syn_def)
  moreover have "err \<noteq> ERR_OK \<longrightarrow> conn_ok q" using q(2) ok by auto
  ultimately show ?thesis using k st by blast
qed


text \<open>A closed block for which a SYN is queued goes from the list of bound ones to that of active ones.\<close>

lemma activate_ok:
  assumes ok: "stack_ok s" and b: "tcp_mem s a = Some b" "state (conn b) = CLOSED" "local_port (conn b) \<noteq> 0"
    and st: "st \<notin> {CLOSED, LISTEN, TIME_WAIT}" and io: "io_step a (b\<lparr>conn := q\<rparr>) s s1" and q: "conn_ok (q\<lparr>state := st\<rparr>)"
    and old: "old = 0 \<longrightarrow> a \<notin> set (tcp_bound_pcbs s)"
  shows "\<exists>s2 s3. upd_conn a (\<lambda>p. p\<lparr>state := st\<rparr>) s1 = Some s2 \<and> TCP_REG_ACTIVE a (if old \<noteq> 0 then TCP_RMV_BOUND a s2 else s2) = Some s3
    \<and> stack_ok s3 \<and> calm s s3 \<and> tcp_mem s3 a = Some (b\<lparr>conn := q\<lparr>state := st\<rparr>\<rparr>)"
proof -
  let ?b = "b\<lparr>conn := q\<lparr>state := st\<rparr>\<rparr>"
  have "tcp_mem s1 a = Some (b\<lparr>conn := q\<rparr>)" using io_step_mem [OF io] by simp
  from upd_conn_step [OF this, of "\<lambda>p. p\<lparr>state := st\<rparr>"]
  obtain s2 where s2: "upd_conn a (\<lambda>p. p\<lparr>state := st\<rparr>) s1 = Some s2" "io_step a ?b s1 s2" by auto
  have io2: "io_step a ?b s s2" using io s2(2) by (rule io_step_trans)
  note f2 = io_step_fields [OF io2]
  have na: "a \<notin> set (tcp_active_pcbs s)" "a \<notin> set (tcp_listen_pcbs s)" "a \<notin> set (tcp_tw_pcbs s)" using stack_okD(1) [OF ok b(1)] b(2) by (simp_all add: placed_def)
  have d: "distinct (tcp_bound_pcbs s)" using ok by (simp add: stack_ok_def lists_ok_def)
  define s' where "s' = (if old \<noteq> 0 then TCP_RMV_BOUND a s2 else s2)"
  define s3 where "s3 = s'\<lparr>tcp_active_pcbs := a # tcp_active_pcbs s', tcp_timer_started := True, tcp_active_pcbs_changed := True\<rparr>"
  have f': "tcp_active_pcbs s' = tcp_active_pcbs s" "tcp_listen_pcbs s' = tcp_listen_pcbs s" "tcp_tw_pcbs s' = tcp_tw_pcbs s"
      "tcp_mem s' = tcp_mem s2" "a \<notin> set (tcp_bound_pcbs s')"
    using f2 old d by (auto simp: s'_def TCP_RMV_BOUND_def)
  have r: "TCP_REG_ACTIVE a s' = Some s3" using na(1) f'(1) by (simp add: TCP_REG_ACTIVE_def TCP_REG_def timer_needed_def s3_def)
  have "elsewhere a s2 s'" by (simp add: s'_def)
  moreover have "elsewhere a s' s3" using na f' by (auto simp: elsewhere_def s3_def distinct_lists_def timer_ok_def)
  ultimately have e: "elsewhere a s s3" using elsewhere_io [OF io2] by (blast intro: elsewhere_trans)
  have m: "tcp_mem s3 a = Some ?b" using io_step_mem [OF io2] f' by (simp add: s3_def)
  have "listener_ok s3 ?b" using stack_okD(3) [OF ok b(1)] b(2) by (auto simp: listener_ok_def split: option.splits)
  then have "at_home s3 a" using m q st na f' by (auto simp: at_home_def tcb_ok_def placed_def s3_def)
  then have "stack_ok s3" using stack_ok_elsewhere [OF ok e] na by simp
  moreover have "calm s s3" by (rule calm_elsewhere [OF e]) (use m b in auto)
  ultimately show ?thesis using s2(1) r m unfolding s'_def by blast
qed

lemma conn_ok_connect:
  assumes "conn_ok p" "state p = CLOSED"
  shows "conn_ok (connect_conn i m p)" "state (connect_conn i m p) = CLOSED" "local_port (connect_conn i m p) = local_port p"
  using assms by (auto simp: connect_conn_def conn_ok_def no_queues_def persist_ok_def ann_wnd_ok_def)

lemma upd_tcb_chain:
  assumes "stack_ok s" "tcp_mem s a = Some b" "calm s0 s"
    and "state (conn (f b)) = state (conn b)" "conn_ok (conn (f b))" "t_listener (f b) = t_listener b"
      "a \<in> set (tcp_bound_pcbs s) \<Longrightarrow> local_port (conn (f b)) \<noteq> 0" "t_last_timer (f b) = t_last_timer b"
  shows "\<exists>s'. upd_tcb a f s = Some s' \<and> stack_ok s' \<and> tcp_mem s' a = Some (f b) \<and> calm s0 s' \<and> tcp_bound_pcbs s' = tcp_bound_pcbs s"
proof -
  obtain s' where s': "upd_tcb a f s = Some s'" "stack_ok s'" "io_step a (f b) s s'" using upd_tcb_ok [of s a b f, OF assms(1,2,4-7)] by blast
  have "calm s0 s'" using assms(3) calm_io [OF s'(3) assms(2,8)] by (rule calm_trans)
  then show ?thesis using s' io_step_mem [OF s'(3)] io_step_fields [OF s'(3)] by auto
qed

lemma connect_syn_ok:
  assumes ok: "stack_ok s" and b: "tcp_mem s a = Some b" "state (conn b) = CLOSED"
  shows "\<exists>err s'. connect_syn w a n lip rip cb s = Some (err, s') \<and> stack_ok s' \<and> calm s s'"
proof -
  let ?old = "local_port (conn b)" and ?f1 = "\<lambda>b. b\<lparr>t_local_ip := lip, t_remote_ip := rip\<rparr>"
  note c = stack_okD(2) [OF ok b(1)]
  have bd: "a \<in> set (tcp_bound_pcbs s) \<Longrightarrow> ?old \<noteq> 0" using stack_okD(1) [OF ok b(1)] by (simp add: placed_def)
  obtain s1 where s1: "upd_tcb a ?f1 s = Some s1" "stack_ok s1" "tcp_mem s1 a = Some (?f1 b)" "calm s s1" "tcp_bound_pcbs s1 = tcp_bound_pcbs s"
    using upd_tcb_chain [OF ok b(1) calm_refl, of ?f1] c bd by auto
  obtain port pt where pt: "(if ?old = 0 then tcp_new_port s1 else Some (?old, s1)) = Some (port, s1\<lparr>last_tcp_port := pt\<rparr>)" "?old \<noteq> 0 \<longrightarrow> port = ?old"
  proof (cases "?old = 0")
    case True
    then show ?thesis using tcp_new_port_total [OF s1(2)] that by auto
  qed (use that [of ?old "last_tcp_port s1"] in simp)
  define s2 where "s2 = s1\<lparr>last_tcp_port := pt\<rparr>"
  have s2: "stack_ok s2" "tcp_mem s2 a = Some (?f1 b)" "calm s s2" "tcp_bound_pcbs s2 = tcp_bound_pcbs s"
    using s1 by (simp_all add: s2_def calm_def)
  let ?f2 = "\<lambda>b. b\<lparr>conn := (conn b)\<lparr>local_port := port\<rparr>\<rparr>"
  have "conn_ok (conn (?f2 (?f1 b)))" using c conn_ok_core [of "(conn b)\<lparr>local_port := port\<rparr>" "conn b"] by (simp add: conn_core_def)
  moreover have bd2: "a \<in> set (tcp_bound_pcbs s2) \<Longrightarrow> port \<noteq> 0" using bd pt(2) s2(4) by auto
  ultimately obtain s3 where s3: "upd_conn a (\<lambda>p. p\<lparr>local_port := port\<rparr>) s2 = Some s3" "stack_ok s3" "tcp_mem s3 a = Some (?f2 (?f1 b))" "calm s s3" "tcp_bound_pcbs s3 = tcp_bound_pcbs s"
    using upd_tcb_chain [OF s2(1-3), of ?f2] s2(4) by (auto simp: upd_conn_def)
  define i s4 where "i = fst (tcp_next_iss s3)" and "s4 = snd (tcp_next_iss s3)"
  have iss: "tcp_next_iss s3 = (i, s4)" by (simp add: i_def s4_def)
  have core: "stack_core s4 = stack_core s3" by (simp add: s4_def tcp_next_iss_def Let_def stack_core_def)
  have s4: "stack_ok s4" "tcp_mem s4 a = Some (?f2 (?f1 b))" "calm s s4" "tcp_bound_pcbs s4 = tcp_bound_pcbs s"
    using s3 stack_ok_core [OF core] by (simp_all add: s4_def tcp_next_iss_def Let_def calm_def)
  define m where "m = tcp_eff_send_mss_netif INITIAL_MSS (IP_IS_V6 rip) (route_mtu_of w rip (Some n))"
  let ?f3 = "\<lambda>b. b\<lparr>conn := connect_conn i m (conn b), t_connected := cb\<rparr>"
  define b3 where "b3 = ?f3 (?f2 (?f1 b))"
  have "conn_ok (conn (?f2 (?f1 b)))" "state (conn (?f2 (?f1 b))) = CLOSED" using stack_okD(2) [OF s4(1,2)] b(2) by simp_all
  note cc = conn_ok_connect [OF this, of i m]
  have b3: "state (conn b3) = CLOSED" "conn_ok (conn b3)" "local_port (conn b3) = port" using cc by (simp_all add: b3_def)
  have old: "local_port (conn (?f1 b)) = ?old" by simp
  have pre: "connect_syn w a n lip rip cb s = (if port = 0 then Some (ERR_BUF, s3) else do {
       s \<leftarrow> upd_tcb a ?f3 s4;
       (err, s) \<leftarrow> enqueue_syn a TCP_SYN s;
       if err = ERR_OK then do {
         s \<leftarrow> upd_conn a (\<lambda>p. p\<lparr>state := SYN_SENT\<rparr>) s;
         s \<leftarrow> TCP_REG_ACTIVE a (if ?old \<noteq> 0 then TCP_RMV_BOUND a s else s);
         (_, s) \<leftarrow> pcb_output w a s;
         Some (ERR_OK, s) }
       else Some (err, s) })"
    unfolding connect_syn_def Let_def s1(1,3) Option.bind_lunit old pt(1) prod.case s2_def [symmetric] s3(1) iss m_def [symmetric] by (rule refl)
  show ?thesis
  proof (cases "port = 0")
    case True
    then show ?thesis unfolding pre using s3 by simp
  next
    case False
    obtain s5 where s5: "upd_tcb a ?f3 s4 = Some s5" "stack_ok s5" "tcp_mem s5 a = Some b3" "calm s s5" "tcp_bound_pcbs s5 = tcp_bound_pcbs s"
      using upd_tcb_chain [OF s4(1-3), of ?f3] cc s4(4) bd2 s2(4) False b(2) by (auto simp: b3_def)
    obtain err s6 q where s6: "enqueue_syn a TCP_SYN s5 = Some (err, s6)" "io_step a (b3\<lparr>conn := q\<rparr>) s5 s6" "state q = CLOSED" "local_port q = port"
        "conn_ok (q\<lparr>state := SYN_SENT\<rparr>)" "err \<noteq> ERR_OK \<longrightarrow> conn_ok q"
      using enqueue_syn_step [OF s5(3) b3(2), of TCP_SYN SYN_SENT] b3 by (auto simp: has8_def)
    show ?thesis
    proof (cases "err = ERR_OK")
      case err: False
      have "stack_ok s6" by (rule stack_ok_step [OF s5(2,3) s6(2)])
        (use err s6 stack_okD [OF s5(2,3)] b3 in \<open>auto simp: placed_def listener_ok_def split: option.splits\<close>)
      moreover have "calm s5 s6" by (rule calm_io [OF s6(2) s5(3)]) simp
      ultimately show ?thesis unfolding pre using False err s5(1) s6(1) calm_trans [OF s5(4)] by simp
    next
      case True
      have "?old = 0 \<longrightarrow> a \<notin> set (tcp_bound_pcbs s5)" using bd s5(5) by auto
      from activate_ok [OF s5(2,3) b3(1) _ _ s6(2,5) this] False b3(3)
      obtain s7 s8 where s8: "upd_conn a (\<lambda>p. p\<lparr>state := SYN_SENT\<rparr>) s6 = Some s7" "TCP_REG_ACTIVE a (if ?old \<noteq> 0 then TCP_RMV_BOUND a s7 else s7) = Some s8"
        "stack_ok s8" "calm s5 s8" "tcp_mem s8 a = Some (b3\<lparr>conn := q\<lparr>state := SYN_SENT\<rparr>\<rparr>)" by auto
      obtain e9 s9 b9 where s9: "pcb_output w a s8 = Some (e9, s9)" "stack_ok s9" "io_step a b9 s8 s9" "tcb_same (b3\<lparr>conn := q\<lparr>state := SYN_SENT\<rparr>\<rparr>) b9"
        using stack_output_ok [OF s8(3,5), of w] by auto
      have "calm s8 s9" by (rule calm_io [OF s9(3) s8(5)]) (simp add: tcb_sameD(4) [OF s9(4)])
      then have "calm s s9" using s5(4) s8(4) by (blast intro: calm_trans)
      then show ?thesis unfolding pre using False True s5(1) s6(1) s8(1,2) s9(1,2) by simp
    qed
  qed
qed

lemma tcp_connect_ok:
  assumes ok: "stack_ok s" and b: "tcp_mem s a = Some b" "state (conn b) = CLOSED"
  shows "\<exists>err s'. tcp_connect w a ip port cb s = Some (err, s') \<and> stack_ok s' \<and> calm s s'"
proof -
  let ?f = "\<lambda>b. b\<lparr>t_remote_ip := ip_addr_set ip, conn := (conn b)\<lparr>remote_port := port\<rparr>\<rparr>"
  have "conn_ok (conn (?f b))" using stack_okD(2) [OF ok b(1)] conn_ok_core [of "(conn b)\<lparr>remote_port := port\<rparr>" "conn b"] by (simp add: conn_core_def)
  then obtain s0 where s0: "upd_tcb a ?f s = Some s0" "stack_ok s0" "tcp_mem s0 a = Some (?f b)" "calm s s0"
    using upd_tcb_chain [OF ok b(1) calm_refl, of ?f] stack_okD(1) [OF ok b(1)] by (auto simp: placed_def)
  have "state (conn (?f b)) = CLOSED" using b(2) by simp
  then have "\<exists>err s'. connect_syn w a n lip rip cb s0 = Some (err, s') \<and> stack_ok s' \<and> calm s s'" for n lip rip
    using connect_syn_ok [OF s0(2,3), of w n lip rip cb] calm_trans [OF s0(4)] by blast
  then show ?thesis using b s0 by (auto simp: tcp_connect_def Let_def split: option.splits)
qed

end
