(* ===== verification/Tcp_Stack_App.thy ===== *)
theory Tcp_Stack_App
  imports Tcp_Stack_Reach
begin

text \<open>
  Applications that keep the contract \<open>tcp_application\<close>, the calls of an application as data, the states that calls
  reach, and the search for a free port.
\<close>

unbundle bit_operations_syntax

section \<open>Applications that keep the contract\<close>

text \<open>An application that only takes notice of events, and one that uses the default callbacks of the stack.\<close>

definition quiet_world :: "tcp_world \<Rightarrow> tcp_world" where
  "quiet_world w = w\<lparr>w_app := \<lambda>_ s. Some (ERR_OK, s)\<rparr>"

fun default_app :: "tcp_world \<Rightarrow> tcp_event \<Rightarrow> tcp_stack \<Rightarrow> (err_t \<times> tcp_stack) option" where
  "default_app w (Ev_Recv f arg a d err) s = tcp_recv_null w a d err s"
| "default_app w (Ev_Accept f arg (Some a) err) s = tcp_accept_null w a s"
| "default_app w _ s = Some (ERR_OK, s)"

definition default_world :: "tcp_world \<Rightarrow> tcp_world" where
  "default_world w = w\<lparr>w_app := default_app (quiet_world w)\<rparr>"

interpretation quiet: tcp_application "quiet_world w" for w
  by unfold_locales (simp add: quiet_world_def)

lemma active_mem:
  assumes "stack_ok s" "a \<in> set (tcp_active_pcbs s)"
  obtains b where "tcp_mem s a = Some b" "state (conn b) \<noteq> LISTEN"
proof -
  obtain b where b: "tcp_mem s a = Some b" using stack_ok_mem [OF assms(1)] assms(2) by (auto simp: tcp_pcb_lists_def)
  then show ?thesis using that [OF b] stack_okD(1) [OF assms(1) b] assms(2) by (auto simp: placed_def)
qed

lemma tcp_recv_null_ok:
  assumes "stack_ok s" "tcp_mem s a = Some b" "state (conn b) \<noteq> LISTEN"
  shows "\<exists>err s'. tcp_recv_null w a d e s = Some (err, s') \<and> stack_ok s' \<and> calm s s'"
  using pcb_recved_ok [OF assms] tcp_close_ok [OF assms(1,2), of w] assms(1)
  by (cases d) (auto simp: tcp_recv_null_def, metis Option.bind_lunit)

interpretation default: tcp_application "default_world w" for w
proof
  fix s ev assume ok: "stack_ok s" and ev: "event_ok s ev"
  show "\<exists>err s'. w_app (default_world w) ev s = Some (err, s') \<and> stack_ok s' \<and> calm s s'"
  proof (cases "(quiet_world w, ev, s)" rule: default_app.cases)
    case (1 v f arg a d err s')
    then obtain b where "tcp_mem s a = Some b" "state (conn b) \<noteq> LISTEN" using active_mem [OF ok, of a] ev by auto
    from tcp_recv_null_ok [OF ok this] show ?thesis using 1 by (simp add: default_world_def)
  next
    case (2 v f arg a err s')
    then obtain b where "tcp_mem s a = Some b" "state (conn b) \<noteq> LISTEN" using active_mem [OF ok, of a] ev by auto
    from quiet.abort_pcb_ok [OF ok this, of w] show ?thesis using 2 by (auto simp: default_world_def tcp_accept_null_def)
  qed (use ok in \<open>simp_all add: default_world_def\<close>)
qed

section \<open>Calls\<close>

datatype tcp_call =
    Call_New u8
  | Call_Bind nat "ip_addr_t option" u16
  | Call_Bind_Netif nat "xnetif option"
  | Call_Listen nat
  | Call_Connect nat ip_addr_t u16 "nat option"
  | Call_Recved nat u16
  | Call_Output nat
  | Call_Close nat
  | Call_Shutdown nat bool bool
  | Call_Abort nat
  | Call_Setprio nat u8
  | Call_Arg nat nat
  | Call_Recv nat "tcp_recv_fn option"
  | Call_Sent nat "nat option"
  | Call_Err nat "nat option"
  | Call_Poll nat "nat option" u8
  | Call_Accept nat "tcp_accept_fn option"

fun tcp_do :: "tcp_world \<Rightarrow> tcp_call \<Rightarrow> tcp_stack \<Rightarrow> tcp_stack option" where
  "tcp_do w (Call_New type) s = map_option snd (tcp_new_ip_type w type s)"
| "tcp_do w (Call_Bind a ip port) s = map_option snd (tcp_bind w a ip port s)"
| "tcp_do w (Call_Bind_Netif a n) s = tcp_bind_netif a n s"
| "tcp_do w (Call_Listen a) s = map_option snd (tcp_listen_with_backlog a s)"
| "tcp_do w (Call_Connect a ip port cb) s = map_option snd (tcp_connect w a ip port cb s)"
| "tcp_do w (Call_Recved a len) s = pcb_recved w a len s"
| "tcp_do w (Call_Output a) s = map_option snd (pcb_output w a s)"
| "tcp_do w (Call_Close a) s = map_option snd (tcp_close w a s)"
| "tcp_do w (Call_Shutdown a rx tx) s = map_option snd (tcp_shutdown w a rx tx s)"
| "tcp_do w (Call_Abort a) s = abort_pcb w a s"
| "tcp_do w (Call_Setprio a prio) s = tcp_setprio a prio s"
| "tcp_do w (Call_Arg a arg) s = tcp_arg a arg s"
| "tcp_do w (Call_Recv a f) s = tcp_recv a f s"
| "tcp_do w (Call_Sent a f) s = tcp_sent a f s"
| "tcp_do w (Call_Err a f) s = tcp_err a f s"
| "tcp_do w (Call_Poll a f interval) s = tcp_poll a f interval s"
| "tcp_do w (Call_Accept a f) s = tcp_accept a f s"

text \<open>
  When a call is allowed: the block is allocated; it is closed where the code asks for that, for \<^verbatim>\<open>tcp_bind\<close> it is not
  bound before, and where the code refuses listening blocks it is none.
\<close>

definition has_block :: "(tcp_state \<Rightarrow> bool) \<Rightarrow> tcp_stack \<Rightarrow> nat \<Rightarrow> bool" where
  "has_block P s a \<longleftrightarrow> (case tcp_mem s a of None \<Rightarrow> False | Some b \<Rightarrow> P (state (conn b)))"

fun call_ok :: "tcp_call \<Rightarrow> tcp_stack \<Rightarrow> bool" where
  "call_ok (Call_New type) s = True"
| "call_ok (Call_Bind a ip port) s = (has_block (\<lambda>st. st = CLOSED) s a \<and> a \<notin> set (tcp_bound_pcbs s))"
| "call_ok (Call_Bind_Netif a n) s = has_block (\<lambda>_. True) s a"
| "call_ok (Call_Listen a) s = has_block (\<lambda>st. st = CLOSED) s a"
| "call_ok (Call_Connect a ip port cb) s = has_block (\<lambda>st. st = CLOSED) s a"
| "call_ok (Call_Recved a len) s = has_block (\<lambda>st. st \<noteq> LISTEN) s a"
| "call_ok (Call_Output a) s = has_block (\<lambda>st. st \<noteq> LISTEN) s a"
| "call_ok (Call_Close a) s = has_block (\<lambda>_. True) s a"
| "call_ok (Call_Shutdown a rx tx) s = has_block (\<lambda>_. True) s a"
| "call_ok (Call_Abort a) s = has_block (\<lambda>st. st \<noteq> LISTEN) s a"
| "call_ok (Call_Setprio a prio) s = has_block (\<lambda>_. True) s a"
| "call_ok (Call_Arg a arg) s = has_block (\<lambda>_. True) s a"
| "call_ok (Call_Recv a f) s = has_block (\<lambda>st. st \<noteq> LISTEN) s a"
| "call_ok (Call_Sent a f) s = has_block (\<lambda>st. st \<noteq> LISTEN) s a"
| "call_ok (Call_Err a f) s = has_block (\<lambda>st. st \<noteq> LISTEN) s a"
| "call_ok (Call_Poll a f interval) s = has_block (\<lambda>st. st \<noteq> LISTEN) s a"
| "call_ok (Call_Accept a f) s = has_block (\<lambda>_. True) s a"

text \<open>The state the static variables have at the start; what the layers below will answer is open.\<close>

definition tcp_start :: "nat option list \<Rightarrow> bool list \<Rightarrow> err_t list \<Rightarrow> send_result list \<Rightarrow> tcp_stack" where
  "tcp_start pcbs segs ips ctls = \<lparr>tcp_mem = \<lambda>_. None, tcp_bound_pcbs = [], tcp_listen_pcbs = [], tcp_active_pcbs = [], tcp_tw_pcbs = [],
     tcp_active_pcbs_changed = False, last_tcp_port = 0xc000, timer_toggle = 0, tcp_timer_started = False, tcp_timer_ctr = 0, ticks = 0, last_iss = 6510,
     tcp_input_pcb = None, input_close = False, pcb_allocs = pcbs, seg_allocs = segs, ip_results = ips, ctl_results = ctls, tcp_trace = []\<rparr>"

inductive tcp_reach :: "tcp_world \<Rightarrow> tcp_stack \<Rightarrow> bool" for w :: tcp_world where
  start: "tcp_reach w (tcp_init r (tcp_start pcbs segs ips ctls))"
| call: "tcp_reach w s \<Longrightarrow> call_ok c s \<Longrightarrow> tcp_do w c s = Some s' \<Longrightarrow> tcp_reach w s'"

fun tcp_calls :: "tcp_world \<Rightarrow> tcp_call list \<Rightarrow> tcp_stack \<Rightarrow> tcp_stack option" where
  "tcp_calls w [] s = Some s"
| "tcp_calls w (c # cs) s = (if call_ok c s then do { s \<leftarrow> tcp_do w c s; tcp_calls w cs s } else None)"

lemma tcp_calls_reach: "tcp_reach w s \<Longrightarrow> tcp_calls w cs s = Some s' \<Longrightarrow> tcp_reach w s'"
  by (induction cs arbitrary: s) (auto split: if_splits Option.bind_splits intro: tcp_reach.call)

section \<open>Calls keep the invariant\<close>

text \<open>Calls that set a field the invariant does not speak of.\<close>

lemma setter_ok:
  assumes "stack_ok s" "tcp_mem s a = Some b" "conn (f b) = conn b" "t_listener (f b) = t_listener b" "t_last_timer (f b) = t_last_timer b"
  shows "\<exists>s'. upd_tcb a f s = Some s' \<and> stack_ok s' \<and> calm s s'"
  using upd_tcb_chain [where f = f, OF assms(1,2) calm_refl] stack_okD [OF assms(1,2)] assms(3-5) by (auto simp: placed_def)

lemma has_blockE:
  assumes "has_block P s a"
  obtains b where "tcp_mem s a = Some b" "P (state (conn b))"
  using assms by (auto simp: has_block_def split: option.splits)

lemma set_callback_ok:
  assumes "stack_ok s" "has_block (\<lambda>st. st \<noteq> LISTEN) s a"
    and "\<And>b. conn (f b) = conn b" "\<And>b. t_listener (f b) = t_listener b" "\<And>b. t_last_timer (f b) = t_last_timer b"
  shows "\<exists>s'. set_callback a f s = Some s' \<and> stack_ok s' \<and> calm s s'"
  using assms(2)
proof (rule has_blockE)
  fix b assume b: "tcp_mem s a = Some b" "state (conn b) \<noteq> LISTEN"
  from setter_ok [where f = f, OF assms(1) b(1) assms(3-5)] show ?thesis using b by (simp add: set_callback_def)
qed

context tcp_application
begin

lemma tcp_new_ip_type_ok:
  assumes "stack_ok s"
  shows "\<exists>r s'. tcp_new_ip_type w type s = Some (r, s') \<and> stack_ok s' \<and> calm s s'"
proof -
  let ?f = "\<lambda>b. b\<lparr>t_local_ip := (t_local_ip b)\<lparr>iptype := type\<rparr>, t_remote_ip := (t_remote_ip b)\<lparr>iptype := type\<rparr>\<rparr>"
  obtain r s1 where s1: "tcp_alloc w TCP_PRIO_NORMAL s = Some (r, s1)" "stack_ok s1" "calm s s1"
    "\<forall>a. r = Some a \<longrightarrow> (\<exists>now ctr. tcp_mem s1 a = Some (new_tcb TCP_PRIO_NORMAL now ctr))" using tcp_alloc_ok [OF assms] by blast
  show ?thesis
  proof (cases r)
    case (Some a)
    then obtain b where "tcp_mem s1 a = Some b" using s1(4) by blast
    from setter_ok [OF s1(2) this, of ?f] obtain s2 where "upd_tcb a ?f s1 = Some s2" "stack_ok s2" "calm s1 s2" by auto
    then show ?thesis using s1(1) Some calm_trans [OF s1(3)] by (simp add: tcp_new_ip_type_def)
  qed (use s1 in \<open>simp add: tcp_new_ip_type_def\<close>)
qed

lemma tcp_do_ok:
  assumes "stack_ok s" "call_ok c s"
  shows "\<exists>s'. tcp_do w c s = Some s' \<and> stack_ok s' \<and> calm s s'"
proof (cases c)
  case (Call_New type)
  then show ?thesis using tcp_new_ip_type_ok [OF assms(1), of type] by auto
next
  case (Call_Bind a ip port)
  then obtain b where "tcp_mem s a = Some b" "state (conn b) = CLOSED" "a \<notin> set (tcp_bound_pcbs s)" using assms(2) by (auto elim: has_blockE)
  from tcp_bind_ok [OF assms(1) this, of w ip port] show ?thesis using Call_Bind by auto
next
  case (Call_Bind_Netif a n)
  then obtain b where "tcp_mem s a = Some b" using assms(2) by (auto elim: has_blockE)
  from setter_ok [OF assms(1) this] show ?thesis using Call_Bind_Netif by (simp add: tcp_bind_netif_def)
next
  case (Call_Listen a)
  then obtain b where "tcp_mem s a = Some b" "state (conn b) = CLOSED" using assms(2) by (auto elim: has_blockE)
  from tcp_listen_ok [OF assms(1) this] show ?thesis using Call_Listen by (auto simp: tcp_listen_with_backlog_def)
next
  case (Call_Connect a ip port cb)
  then obtain b where "tcp_mem s a = Some b" "state (conn b) = CLOSED" using assms(2) by (auto elim: has_blockE)
  from tcp_connect_ok [OF assms(1) this, of w ip port cb] show ?thesis using Call_Connect by auto
next
  case (Call_Recved a len)
  then obtain b where "tcp_mem s a = Some b" "state (conn b) \<noteq> LISTEN" using assms(2) by (auto elim: has_blockE)
  from pcb_recved_ok [OF assms(1) this] show ?thesis using Call_Recved by simp
next
  case (Call_Output a)
  then obtain b where b: "tcp_mem s a = Some b" "state (conn b) \<noteq> LISTEN" using assms(2) by (auto elim: has_blockE)
  from stack_output_ok [OF assms(1) this, of w] obtain err s' b' where
    "pcb_output w a s = Some (err, s')" "stack_ok s'" "io_step a b' s s'" "tcb_same b b'" by blast
  then show ?thesis using Call_Output calm_io [of a b' s s' b] b(1) tcb_sameD(4) [of b b'] by simp
next
  case (Call_Close a)
  then obtain b where "tcp_mem s a = Some b" using assms(2) by (auto elim: has_blockE)
  from tcp_close_ok [OF assms(1) this, of w] show ?thesis using Call_Close by auto
next
  case (Call_Shutdown a rx tx)
  then obtain b where "tcp_mem s a = Some b" using assms(2) by (auto elim: has_blockE)
  from tcp_shutdown_ok [OF assms(1) this, of w rx tx] show ?thesis using Call_Shutdown by auto
next
  case (Call_Abort a)
  then obtain b where "tcp_mem s a = Some b" "state (conn b) \<noteq> LISTEN" using assms(2) by (auto elim: has_blockE)
  from abort_pcb_ok [OF assms(1) this] show ?thesis using Call_Abort by simp
next
  case (Call_Setprio a prio)
  then obtain b where "tcp_mem s a = Some b" using assms(2) by (auto elim: has_blockE)
  from setter_ok [OF assms(1) this] show ?thesis using Call_Setprio by (simp add: tcp_setprio_def)
next
  case (Call_Arg a arg)
  then obtain b where "tcp_mem s a = Some b" using assms(2) by (auto elim: has_blockE)
  from setter_ok [OF assms(1) this] show ?thesis using Call_Arg by (simp add: tcp_arg_def)
next
  case (Call_Accept a f)
  then obtain b where b: "tcp_mem s a = Some b" using assms(2) by (auto elim: has_blockE)
  from setter_ok [OF assms(1) this] show ?thesis using Call_Accept b assms(1) by (simp add: tcp_accept_def)
qed (use assms in \<open>simp_all add: tcp_recv_def tcp_sent_def tcp_err_def tcp_poll_def set_callback_ok\<close>)

end

lemma tcp_start_ok: "stack_ok (tcp_init r (tcp_start pcbs segs ips ctls))"
  by (simp add: stack_ok_def timer_ok_def lists_ok_def tcp_init_def tcp_start_def tcp_pcb_lists_def)

lemma tcp_reach_ok:
  assumes "tcp_application w" "tcp_reach w s"
  shows "stack_ok s"
  using assms(2) by induction (auto simp: tcp_start_ok dest: tcp_application.tcp_do_ok [OF assms(1)])

section \<open>Free ports\<close>

definition tcp_ports :: "u16 set" where
  "tcp_ports = {0xc000 .. 0xfffe}"

lemma tcp_portsD: "p \<in> tcp_ports \<Longrightarrow> 49152 \<le> unat p" "p \<in> tcp_ports \<Longrightarrow> unat p - 49152 < 16383"
  by (auto simp: tcp_ports_def word_le_nat_alt)

lemma unat_next_tcp_port: "p \<in> tcp_ports \<Longrightarrow> unat (next_tcp_port p) = 49152 + (unat p - 49152 + 1) mod 16383 \<and> next_tcp_port p \<in> tcp_ports"
proof -
  assume p: "p \<in> tcp_ports"
  then have r: "49152 \<le> unat p" "unat p \<le> 65534" by (simp_all add: tcp_ports_def word_le_nat_alt)
  then have u: "unat (p + 1) = unat p + 1" by (subst unat_add_lem [THEN iffD1]) simp_all
  have e: "p + 1 = 0xffff \<longleftrightarrow> unat p = 65534" using u by (auto simp: word_unat_eq_iff)
  show ?thesis
  proof (cases "unat p = 65534")
    case True
    then show ?thesis using e by (simp add: next_tcp_port_def tcp_ports_def)
  next
    case False
    then have "(unat p - 49152 + 1) mod 16383 = unat p - 49152 + 1" using r by simp
    then show ?thesis using e u r False by (simp add: next_tcp_port_def tcp_ports_def word_le_nat_alt)
  qed
qed

lemma unat_next_tcp_ports:
  assumes "p \<in> tcp_ports"
  shows "unat ((next_tcp_port ^^ k) p) = 49152 + (unat p - 49152 + k) mod 16383 \<and> (next_tcp_port ^^ k) p \<in> tcp_ports"
proof (induction k)
  case 0
  then show ?case using assms tcp_portsD [OF assms] by simp
next
  case (Suc k)
  then show ?case by (simp add: unat_next_tcp_port mod_Suc_eq)
qed

interpretation tcp_search: port_range next_tcp_port tcp_ports
proof
  fix p q :: u16 assume p: "p \<in> tcp_ports" and q: "q \<in> tcp_ports"
  let ?a = "unat (next_tcp_port p) - 49152" and ?b = "unat q - 49152"
  have n: "next_tcp_port p \<in> tcp_ports" using p unat_next_tcp_port by simp
  then have a: "?a < 16383" by (rule tcp_portsD)
  have b: "?b < 16383" "unat q = 49152 + ?b" using tcp_portsD [OF q] by simp_all
  let ?k = "(?b + 16383 - ?a) mod 16383"
  have "(?a + ?k) mod 16383 = (?a + (?b + 16383 - ?a)) mod 16383" by (simp only: mod_add_right_eq)
  also have "\<dots> = ?b" using a b(1) by simp
  finally have "unat ((next_tcp_port ^^ ?k) (next_tcp_port p)) = unat q" using unat_next_tcp_ports [OF n, of ?k] b(2) by simp
  then have "(next_tcp_port ^^ ?k) (next_tcp_port p) = q" by (simp only: word_unat_eq_iff)
  moreover have "?k < 16384" using mod_less_divisor [of 16383 "?b + 16383 - ?a"] by linarith
  ultimately show "\<exists>k < 16384. (next_tcp_port ^^ k) (next_tcp_port p) = q" by blast
qed (use unat_next_tcp_port in blast, simp add: tcp_ports_def)

definition tcp_used_ports :: "tcp_stack \<Rightarrow> u16 set" where
  "tcp_used_ports s = (\<lambda>a. local_port (conn (the (tcp_mem s a)))) ` set (tcp_pcb_lists s)"

lemma port_in_use_iff:
  assumes "stack_ok s"
  shows "tcp_port_in_use (tcp_mem s) p (tcp_pcb_lists s) = Some (p \<in> tcp_used_ports s)"
proof -
  have "\<forall>a \<in> set (tcp_pcb_lists s). tcp_mem s a \<noteq> None" using assms by (simp add: stack_ok_def lists_ok_def)
  then show ?thesis by (auto simp: tcp_port_in_use_eq tcp_used_ports_def)
qed

section \<open>Theorems\<close>

text \<open>
  C13. Whatever the application does through the calls of the TCP interface, the control blocks stay consistent: if its callbacks keep the
  contract \<open>tcp_application\<close>, then in every reachable state no block is on two lists or twice on one, every block
  that is on a list is allocated, those on the active list are in states of an open connection and those in TIME-WAIT on their own
  list (so \<^verbatim>\<open>tcp_pcbs_sane\<close> holds), while there are connections the TCP timer runs, and every call that is allowed returns.
\<close>

theorem tcp_reach_safe:
  assumes "tcp_application w" "tcp_reach w s"
  shows "distinct (tcp_pcb_lists s) \<and> (\<forall>a \<in> set (tcp_pcb_lists s). tcp_mem s a \<noteq> None) \<and> tcp_pcbs_sane s
    \<and> (\<forall>a b. tcp_mem s a = Some b \<longrightarrow> (state (conn b) = LISTEN \<longleftrightarrow> a \<in> set (tcp_listen_pcbs s)))
    \<and> (tcp_active_pcbs s @ tcp_tw_pcbs s \<noteq> [] \<longrightarrow> tcp_timer_started s)
    \<and> (\<forall>c. call_ok c s \<longrightarrow> tcp_do w c s \<noteq> None)"
proof -
  have ok: "stack_ok s" by (rule tcp_reach_ok [OF assms])
  have p: "placed s a (conn b)" if "tcp_mem s a = Some b" for a b by (rule stack_okD(1) [OF ok that])
  have "\<exists>b. tcp_mem s a = Some b" if "a \<in> set (tcp_pcb_lists s)" for a by (rule stack_ok_mem [OF ok that])
  then have "distinct (tcp_pcb_lists s)" using ok p by (force simp: stack_ok_def lists_ok_def tcp_pcb_lists_def placed_def)
  moreover have "\<forall>a \<in> set (tcp_pcb_lists s). tcp_mem s a \<noteq> None" using ok by (simp add: stack_ok_def lists_ok_def)
  moreover have "tcp_active_pcbs s @ tcp_tw_pcbs s \<noteq> [] \<longrightarrow> tcp_timer_started s" using ok by (auto simp: stack_ok_def timer_ok_def)
  moreover have "\<forall>c. call_ok c s \<longrightarrow> tcp_do w c s \<noteq> None" using tcp_application.tcp_do_ok [OF assms(1) ok] by fastforce
  ultimately show ?thesis using stack_ok_pcbs_sane [OF ok] p by (simp add: placed_def)
qed


text \<open>
  C15. When \<^verbatim>\<open>rand()\<close> makes \<^verbatim>\<open>tcp_init\<close> choose 0xffff, the last port is out of the range: the increment wraps to 0 without meeting
  the end of the range, \<^verbatim>\<open>tcp_new_port\<close> reports that no port is free although all are, and after that it hands out 1, a port
  below the dynamic range.
\<close>

theorem tcp_new_port_wraps:
  assumes "r AND 0x3fff = 0x3fff" "stack_ok s" "0 \<notin> tcp_used_ports s" "1 \<notin> tcp_used_ports s"
  shows "\<exists>s1 s2. tcp_new_port (tcp_init r s) = Some (0, s1) \<and> tcp_new_port s1 = Some (1, s2)"
proof -
  have "ucast ((r AND 0x3fff) + 0xc000 :: u32) = (0xffff :: u16)" unfolding assms(1) by simp
  then have l: "last_tcp_port (tcp_init r s) = 0xffff" by (simp add: tcp_init_def TCP_ENSURE_LOCAL_PORT_RANGE_def)
  define s0 where "s0 = tcp_init r s"
  have s0: "tcp_port_in_use (tcp_mem s0) p (tcp_pcb_lists s0) = Some (p \<in> tcp_used_ports s)" for p
    using port_in_use_iff [OF assms(2)] by (simp add: s0_def tcp_init_def tcp_pcb_lists_def)
  have n: "next_tcp_port 0xffff = 0" by (simp add: next_tcp_port_def word_unat_eq_iff)
  have "tcp_new_port s0 = Some (0, s0\<lparr>last_tcp_port := 0\<rparr>)"
    using l assms(3) s0 n unfolding tcp_new_port_def by (subst port_loop.simps) (simp add: s0_def [symmetric])
  moreover have "tcp_new_port (s0\<lparr>last_tcp_port := 0\<rparr>) = Some (1, s0\<lparr>last_tcp_port := 1\<rparr>)"
    using assms(4) s0 unfolding tcp_new_port_def by (subst port_loop.simps) (simp add: next_tcp_port_def tcp_pcb_lists_def)
  ultimately show ?thesis unfolding s0_def by blast
qed

section \<open>Witnesses\<close>

definition lone_world :: tcp_world where
  "lone_world = default_world \<lparr>w_netifs = [], w_ip6_source = \<lambda>_ _. None, w_nd6_mtu = \<lambda>_ _. 1280, w_app = \<lambda>_ s. Some (ERR_OK, s)\<rparr>"

definition listen_calls :: "tcp_call list" where
  "listen_calls = [Call_New 0, Call_Bind 3 None 80, Call_Listen 3, Call_New 0, Call_Connect 5 IP4_ADDR_ANY 80 None]"

lemma any_is_v4: "\<not> IP_IS_V6 IP4_ADDR_ANY"
  by (simp add: IP_IS_V6_def IP4_ADDR_ANY_def)

lemma listen_calls_run:
  "\<exists>s. tcp_calls lone_world listen_calls (tcp_init 7 (tcp_start [Some 3, Some 4, Some 5] [] [] [])) = Some s \<and> tcp_pcb_lists s = [4]"
  by (simp add: listen_calls_def tcp_start_def tcp_init_def tcp_new_ip_type_def tcp_alloc_def malloc_pcb_def retry_malloc_def upd_tcb_def
      has_block_def new_tcb_def new_conn_def tcp_bind_def tcp_pcb_lists_def TCP_REG_def tcp_listen_with_backlog_def
      tcp_listen_with_backlog_and_err_def timer_needed_def TCP_RMV_BOUND_def tcp_free_def listen_tcb_def tcp_connect_def tcp_route_def ip6_route_def
      lone_world_def default_world_def unicast_lacks_zone_def any_is_v4)

theorem tcp_reach_safe_witness:
  "\<exists>s. tcp_calls lone_world listen_calls (tcp_init 7 (tcp_start [Some 3, Some 4, Some 5] [] [] [])) = Some s \<and> tcp_pcb_lists s = [4]
    \<and> tcp_pcbs_sane s \<and> tcp_do lone_world (Call_New 0) s \<noteq> None"
proof -
  obtain s where s: "tcp_calls lone_world listen_calls (tcp_init 7 (tcp_start [Some 3, Some 4, Some 5] [] [] [])) = Some s" "tcp_pcb_lists s = [4]"
    using listen_calls_run by blast
  have "tcp_application lone_world" unfolding lone_world_def by (rule default.tcp_application_axioms)
  note safe = tcp_reach_safe [OF this tcp_calls_reach [OF tcp_reach.start s(1)]]
  have "call_ok (Call_New 0) s" by simp
  then show ?thesis using s safe by blast
qed


theorem tcp_new_port_wraps_witness:
  "\<exists>s1 s2. tcp_new_port (tcp_init 0x3fff (tcp_init 7 (tcp_start [] [] [] []))) = Some (0, s1) \<and> tcp_new_port s1 = Some (1, s2)"
  by (rule tcp_new_port_wraps [OF _ tcp_start_ok]) (simp_all add: tcp_used_ports_def tcp_pcb_lists_def tcp_init_def tcp_start_def)

end
