(* ===== verification/Ip4_Theorems.thy ===== *)
theory Ip4_Theorems
  imports Ip4
begin

text \<open>
  IPv4 input and output: input stays inside the packet and keeps the reassembly queue, the checksum computed on the way is
  the one of the header, and what one stack sends another one receives, fragmented or not.
\<close>

unbundle bit_operations_syntax

section \<open>The checksum of the header\<close>

lemma unat_low16: "unat (w AND 0xFFFF :: u32) = unat w mod 65536"
  unfolding and_mask_lit by (simp add: unat_take_bit_word)

lemma unat_high16: "unat (drop_bit 16 w :: u32) = unat w div 65536"
  by (simp add: unat_drop_bit_word)

lemma le_sum_pair16: "le_sum [a, b] = unat (lwip_htons (ucast b OR push_bit 8 (ucast a)))"
proof -
  have "(ucast b OR push_bit 8 (ucast a) :: u16) = le16 b a" by (simp add: le16_def)
  then show ?thesis using unat_u8_lt [of a] unat_u8_lt [of b] by (simp add: unat_lwip_htons unat_le16)
qed

lemma le_sum_word32: "le_sum (bytes32 w) = unat (w AND 0xFFFF) + unat (drop_bit 16 w)"
proof -
  have "drop_bit 16 w AND 0xffff = drop_bit 16 w"
    unfolding and_mask_lit by (rule bit_word_eqI) (auto simp: bit_simps dest: bit_imp_le_length)
  then show ?thesis by (simp add: le_sum_bytes32)
qed

lemma last_fold:
  assumes "unat c < 65536 + 65536"
  shows "ocrep (unat (ucast (drop_bit 16 c + c :: u32) :: u16)) (unat c) \<or> unat c = 131071"
proof -
  have "unat (drop_bit 16 c + c) = unat c div 65536 + unat c" using assms by (subst unat_add_u32) (simp_all add: unat_high16)
  then have "unat (ucast (drop_bit 16 c + c) :: u16) = (unat c div 65536 + unat c) mod 65536"
    by (simp add: unsigned_ucast_eq take_bit_eq_mod)
  moreover have "ocrep ((unat c div 65536 + unat c) mod 65536) (unat c)" if "unat c \<noteq> 131071"
  proof (cases "unat c < 65536")
    case False
    then have "unat c div 65536 = 1" using assms by simp
    then have "(unat c div 65536 + unat c) mod 65536 = unat c - 65535" using False assms that by (simp add: mod_if)
    then show ?thesis using False assms by (simp add: ocrep_def le_mod_geq)
  qed simp
  ultimately show ?thesis by auto
qed

lemma ip4_inline_chksum_value:
  "ip4_inline_chksum (ttl h) (proto h) (tos h) (v_hl h) (ip_len h) (ip_id h) (ip_src h) (ip_dest h) =
     NOT (lwip_standard_chksum a (hdr_bytes (h\<lparr>ip_offset := 0, ip_chksum := 0\<rparr>)))"
proof -
  let ?bs = "hdr_bytes (h\<lparr>ip_offset := 0, ip_chksum := 0\<rparr>)"
  define c where "c = 0 + ucast (lwip_htons (ucast (proto h) OR push_bit 8 (ucast (ttl h)))) + (ip_dest h AND 0xFFFF) + drop_bit 16 (ip_dest h)
    + ucast (lwip_htons (ucast (tos h) OR push_bit 8 (ucast (v_hl h)))) + ucast (ip_len h) + ucast (ip_id h) + (ip_src h AND 0xFFFF)
    + (drop_bit 16 (ip_src h) :: u32)"
  have lo: "unat (w AND 0xFFFF :: u32) < 65536" "unat (drop_bit 16 w :: u32) < 65536" for w :: u32
    using unat_u32_lt [of w] by (simp_all add: unat_low16 unat_high16)
  have u: "unat (ucast v :: u32) = unat v" "unat v < 65536" for v :: u16 by (simp_all add: unat_ucast_up unat_u16_lt)
  have c: "unat c = le_sum ?bs"
    unfolding c_def hdr_bytes_def
    using lo [of "ip_dest h"] lo [of "ip_src h"] u(2) [of "lwip_htons (ucast (proto h) OR push_bit 8 (ucast (ttl h)))"]
      u(2) [of "lwip_htons (ucast (tos h) OR push_bit 8 (ucast (v_hl h)))"] u(2) [of "ip_len h"] u(2) [of "ip_id h"]
    by (simp add: unat_add_u32 u(1) sums_append le_sum_bytes16 le_sum_word32 le_sum_pair16 [symmetric])
  have big: "unat c \<le> 8 * 65535"
    unfolding c_def using lo [of "ip_dest h"] lo [of "ip_src h"] u(2) [of "lwip_htons (ucast (proto h) OR push_bit 8 (ucast (ttl h)))"]
      u(2) [of "lwip_htons (ucast (tos h) OR push_bit 8 (ucast (v_hl h)))"] u(2) [of "ip_len h"] u(2) [of "ip_id h"]
    by (simp add: unat_add_u32 u(1))
  define d where "d = drop_bit 16 c + (c AND 0xFFFF)"
  have dF: "d = FOLD_U32T c" by (simp add: d_def FOLD_U32T_def)
  have d: "unat d \<le> 65535 + 7" using big unfolding dF unat_FOLD_U32T by linarith
  let ?v = "ucast (drop_bit 16 d + d) :: u16"
  have "ocrep (unat ?v) (unat d)" using last_fold [of d] d by auto
  then have "ocrep (unat ?v) (le_sum ?bs)" using ocrep_trans ocrep_FOLD [of c] unfolding dF c by blast
  then have "unat ?v = ocval (le_sum ?bs)" using ocrep_unique unat_u16_lt by blast
  also have "\<dots> = unat (lwip_standard_chksum a ?bs)" by (rule chksum2.chk_value [symmetric]) (simp add: hdr_bytes_def)
  finally have v: "?v = lwip_standard_chksum a ?bs" by (simp only: word_unat_eq_iff)
  have "ip4_inline_chksum (ttl h) (proto h) (tos h) (v_hl h) (ip_len h) (ip_id h) (ip_src h) (ip_dest h) = ucast (NOT (drop_bit 16 d + d))"
    unfolding ip4_inline_chksum_def Let_def d_def c_def ..
  also have "\<dots> = NOT ?v" by (rule bit_word_eqI) (simp add: bit_simps)
  finally show ?thesis unfolding v .
qed

text \<open>
  C24. The checksum that \<^verbatim>\<open>ip4_output_if_src\<close> adds up while it fills in the header is the one that \<^verbatim>\<open>inet_chksum\<close> computes over the
  finished header with a zero checksum field.
\<close>

theorem ip4_inline_chksum_eq:
  "ip4_inline_chksum (ttl h) (proto h) (tos h) (v_hl h) (ip_len h) (ip_id h) (ip_src h) (ip_dest h) =
     NOT (lwip_standard_chksum a (hdr_bytes (h\<lparr>ip_offset := 0, ip_chksum := 0\<rparr>)))"
  by (rule ip4_inline_chksum_value)

section \<open>Input stays inside the packet\<close>

lemma pkt_u8_Some: "i < pkt_first p \<Longrightarrow> i < length (pdata p) \<Longrightarrow> pkt_u8 p i = Some (pdata p ! i)"
  by (simp add: pkt_u8_def)

lemma pkt_u8_0: "1 \<le> pkt_first p \<Longrightarrow> 1 \<le> length (pdata p) \<Longrightarrow> pkt_u8 p 0 = Some (pdata p ! 0)"
  by (cases "pdata p") (auto simp: pkt_u8_def)

lemma pkt_first_le: "pkt_ok p \<Longrightarrow> pkt_first p \<le> length (pdata p)"
  by (cases "plens p") (auto simp: pkt_ok_def pkt_first_def)

lemma pkt_ip_hdr_total: "20 \<le> pkt_first p \<Longrightarrow> 20 \<le> length (pdata p) \<Longrightarrow> \<exists>h. pkt_ip_hdr p = Some h \<and> v_hl h = pdata p ! 0"
  using pkt_u8_0 [of p] by (simp add: pkt_ip_hdr_def pkt_u16_def pkt_u32_def pkt_u8_Some)

lemma sum_trim_lens: "n \<le> sum_list ls \<Longrightarrow> ls \<noteq> [] \<Longrightarrow> sum_list (trim_lens n ls) = n \<and> trim_lens n ls \<noteq> []"
proof (induction n ls rule: trim_lens.induct)
  case (2 n l ls)
  then show ?case by (cases ls) auto
qed simp

lemma pkt_realloc_ok: "pkt_ok p \<Longrightarrow> n \<le> length (pdata p) \<Longrightarrow> pkt_ok (pkt_realloc n p)"
  using sum_trim_lens [of n "plens p"] by (simp add: pkt_ok_def pkt_realloc_def)

lemma frag_bits_real: 
  assumes "ip_offset h AND lwip_htons (IP_OFFMASK OR IP_MF) \<noteq> 0"
  shows "real_fragment \<lparr>fhdr = h, fdata = bs, flens = ls\<rparr>"
proof -
  have "lwip_htons (lwip_htons (ip_offset h)) AND lwip_htons (IP_OFFMASK OR IP_MF) \<noteq> 0" unfolding lwip_htons_invol by (rule assms)
  then have "lwip_htons (ip_offset h) AND (IP_OFFMASK OR IP_MF) \<noteq> 0" unfolding htons_and htons_0 .
  moreover have "ip_offset h AND lwip_htons IP_MF = 0 \<longleftrightarrow> lwip_htons (ip_offset h) AND IP_MF = 0"
    using htons_and [of "lwip_htons (ip_offset h)" IP_MF] htons_0 by (simp add: lwip_htons_invol)
  ultimately show ?thesis
    unfolding real_fragment_def offset_bytes_0 bit.conj_disj_distrib or_eq_0_iff by simp
qed


section \<open>From output to input\<close>

primrec ip4_run :: "(pkt \<Rightarrow> raw_input_state_t) \<Rightarrow> netif \<Rightarrow> pkt list \<Rightarrow> reass \<Rightarrow> (ip4_result list \<times> reass) option" where
  "ip4_run raw_input inp [] s = Some ([], s)"
| "ip4_run raw_input inp (p # ps) s = do {
     (r, s) \<leftarrow> ip4_input raw_input inp p s;
     (rs, s) \<leftarrow> ip4_run raw_input inp ps s;
     Some (r # rs, s) }"

lemma pkt_ip_hdr_parse:
  assumes "pdata p = hdr_bytes h @ bs" "20 \<le> pkt_first p"
  shows "pkt_ip_hdr p = Some h"
proof -
  have "20 \<le> length (pdata p)" using assms(1) by (simp add: hdr_bytes_def)
  then show ?thesis using assms(2) pkt_u8_0 [of p]
    by (simp add: pkt_ip_hdr_def pkt_u16_def pkt_u32_def pkt_u8_Some)
      (simp add: assms(1) hdr_bytes_def bytes16_def bytes32_def le16_bytes16 le32_bytes32)
qed

text \<open>A packet as it arrives: the bytes of a header and the data, the header in the first pbuf, the length field right.\<close>

definition arrives :: "pkt \<Rightarrow> ip_hdr \<Rightarrow> u8 list \<Rightarrow> bool" where
  "arrives p h bs \<longleftrightarrow> pdata p = hdr_bytes h @ bs \<and> 20 \<le> pkt_first p \<and> v_hl h = 0x45
     \<and> ip_len h = lwip_htons (of_nat (length bs) + 20) \<and> 20 + length bs \<le> 65535"

definition addrs_accepted :: "netif \<Rightarrow> ip4_addr_t \<Rightarrow> ip4_addr_t \<Rightarrow> bool" where
  "addrs_accepted inp src dest \<longleftrightarrow> \<not> ip4_addr_isbroadcast src inp \<and> \<not> ip4_addr_ismulticast src
     \<and> (ip4_addr_ismulticast dest \<longrightarrow> nif_up inp \<and> nif_ip inp \<noteq> 0)"

lemma ip4_input_arrives:
  assumes p: "arrives p h bs" and a: "addrs_accepted inp (ip_src h) (ip_dest h)"
  shows "ip4_input raw_input inp p s =
    (if ip_offset h AND lwip_htons (IP_OFFMASK OR IP_MF) \<noteq> 0 then do {
       (r, s) \<leftarrow> ip4_reass \<lparr>fhdr = h, fdata = bs, flens = plens p\<rparr> s;
       Some (case r of
               None \<Rightarrow> Ip4_Queued
             | Some d \<Rightarrow> ip4_dispatch inp (raw_input (dgram_pkt d)) (fst d) 20 (dgram_pkt d), s) }
     else Some (ip4_dispatch inp (raw_input p) h 20 p, s))"
proof -
  have d: "pdata p = hdr_bytes h @ bs" "20 \<le> pkt_first p" "v_hl h = 0x45" using p by (simp_all add: arrives_def)
  have l: "length (hdr_bytes h) = 20" by (simp add: hdr_bytes_def)
  then have len: "length (pdata p) = 20 + length bs" by (simp add: d(1))
  have "unat (of_nat (length bs) + 20 :: u16) = 20 + length bs"
    using p unat_of_nat_u16 [of "20 + length bs"] by (simp add: arrives_def add.commute)
  then have un: "unat (lwip_htons (ip_len h)) = 20 + length bs" using p by (simp add: arrives_def lwip_htons_invol)
  have b: "pkt_u8 p 0 = Some 0x45" "pkt_u16 p 2 = Some (ip_len h)"
    using pkt_u8_0 [of p] d len
    by (simp_all add: pkt_u16_def pkt_u8_Some) (simp_all add: hdr_bytes_def bytes16_def le16_bytes16)
  show ?thesis
    using a d(2) by (simp add: ip4_input_def b un len Let_def pkt_ip_hdr_parse [OF d(1,2)] addrs_accepted_def ip4_input_accept_def l d(1))
qed

lemma ip4_dispatch_udp:
  assumes "proto h = IP_PROTO_UDP" "raw \<noteq> RAW_INPUT_EATEN" "20 \<le> pkt_first p" "pdata p = hdr_bytes h' @ bs"
  shows "\<exists>q. ip4_dispatch inp raw h 20 p = Ip4_To_Udp h q \<and> pdata q = bs \<and> pkt_first q = pkt_first p - 20"
  using assms by (cases "plens p") (auto simp: ip4_dispatch_def pkt_remove_header_def pkt_first_def hdr_bytes_def)

definition pkt_frag :: "pkt \<Rightarrow> frag" where
  "pkt_frag p = \<lparr>fhdr = the (pkt_ip_hdr p), fdata = drop 20 (pdata p), flens = plens p\<rparr>"

lemma pkt_frag_arrives: "arrives p h bs \<Longrightarrow> pkt_frag p = \<lparr>fhdr = h, fdata = bs, flens = plens p\<rparr>"
  by (simp add: pkt_frag_def arrives_def pkt_ip_hdr_parse) (simp add: hdr_bytes_def)

lemma real_frag_bits:
  assumes "real_fragment p"
  shows "ip_offset (fhdr p) AND lwip_htons (IP_OFFMASK OR IP_MF) \<noteq> 0"
proof
  assume "ip_offset (fhdr p) AND lwip_htons (IP_OFFMASK OR IP_MF) = 0"
  then have "lwip_htons (lwip_htons (ip_offset (fhdr p)) AND (IP_OFFMASK OR IP_MF)) = 0" unfolding htons_and [symmetric] lwip_htons_invol .
  then have z: "lwip_htons (ip_offset (fhdr p)) AND IP_OFFMASK = 0" "lwip_htons (ip_offset (fhdr p)) AND IP_MF = 0"
    unfolding htons_0 bit.conj_disj_distrib or_eq_0_iff by simp_all
  then have "lwip_htons (lwip_htons (ip_offset (fhdr p)) AND IP_MF) = 0" by (simp only: htons_0)
  then have "ip_offset (fhdr p) AND lwip_htons IP_MF = 0" unfolding htons_and [symmetric] lwip_htons_invol .
  with z assms show False by (simp add: real_fragment_def offset_bytes_0)
qed

lemma ip4_run_reass:
  assumes "\<And>p. p \<in> set qs \<Longrightarrow> \<exists>h bs. arrives p h bs \<and> addrs_accepted inp (ip_src h) (ip_dest h) \<and> real_fragment (pkt_frag p)"
  shows "ip4_run raw_input inp qs s = map_option (\<lambda>(rs, s). (map (\<lambda>r. case r of None \<Rightarrow> Ip4_Queued
     | Some d \<Rightarrow> ip4_dispatch inp (raw_input (dgram_pkt d)) (fst d) 20 (dgram_pkt d)) rs, s)) (reass_run (map pkt_frag qs) s)"
  using assms
proof (induction qs arbitrary: s)
  case (Cons p qs)
  obtain h bs where p: "arrives p h bs" "addrs_accepted inp (ip_src h) (ip_dest h)" "real_fragment (pkt_frag p)"
    using Cons.prems [of p] by auto
  note e = pkt_frag_arrives [OF p(1)]
  have bits: "ip_offset h AND lwip_htons (IP_OFFMASK OR IP_MF) \<noteq> 0" 
    using real_frag_bits [OF p(3)] unfolding e frag.simps .
  have IH: "\<And>s. ip4_run raw_input inp qs s = map_option (\<lambda>(rs, s). (map (\<lambda>r. case r of None \<Rightarrow> Ip4_Queued
     | Some d \<Rightarrow> ip4_dispatch inp (raw_input (dgram_pkt d)) (fst d) 20 (dgram_pkt d)) rs, s)) (reass_run (map pkt_frag qs) s)"
    using Cons.prems by (intro Cons.IH) simp
  show ?case
  proof (cases "ip4_reass (pkt_frag p) s")
    case None
    then show ?thesis using bits by (simp add: ip4_input_arrives [OF p(1,2)] e)
  next
    case (Some rs)
    obtain r s' where rs: "rs = (r, s')" by fastforce
    show ?thesis using bits Some
      by (cases "reass_run (map pkt_frag qs) s'") (auto simp: ip4_input_arrives [OF p(1,2)] IH e rs split: prod.splits)
  qed
qed simp

lemma frag_arrives:
  assumes mtu: "28 \<le> mtu" and hdr: "v_hl hdr = 0x45" and bs: "length bs \<le> 65515"
    and out: "ip4_frag mtu hdr bs [] = Some (ERR_OK, out)" and p: "(h, d) \<in> set out" "pdata p = hdr_bytes h @ d" "20 \<le> pkt_first p"
  shows "arrives p h d \<and> ip_src h = ip_src hdr \<and> ip_dest h = ip_dest hdr"
proof -
  have hl: "IPH_HL_BYTES hdr = 20" using hdr by (simp add: IPH_HL_BYTES_def)
  have m: "unat mtu < 65536" "28 \<le> unat mtu" using unat_u16_lt mtu by (auto simp: word_le_nat_alt)
  have out: "out = ip_pieces (unat mtu - 20) hdr (lwip_htons (ip_offset hdr) AND IP_MF \<noteq> 0) (lwip_htons (ip_offset hdr) AND IP_OFFMASK) bs"
    using out unfolding ip4_frag_eq [OF mtu hl bs] by (simp add: granted_def)
  note f = pieces_fit [OF p(1) [unfolded out], of 0] and g = pieces_headers [OF p(1) [unfolded out]]
  have "length d \<le> 65515" using f m by (simp, linarith)
  with f g p(2,3) hdr show ?thesis by (auto simp: arrives_def)
qed

definition datagram_header :: "ip4_addr_t \<Rightarrow> ip4_addr_t \<Rightarrow> u8 \<Rightarrow> u8 \<Rightarrow> u8 \<Rightarrow> u16 \<Rightarrow> nat \<Rightarrow> ip_hdr" where
  "datagram_header src dest tt ts pr ident n =
     \<lparr>v_hl = 0x45, tos = ts, ip_len = lwip_htons (of_nat (20 + n)), ip_id = lwip_htons ident, ip_offset = 0, ttl = tt, proto = pr,
      ip_chksum = ip4_inline_chksum tt pr ts 0x45 (lwip_htons (of_nat (20 + n))) (lwip_htons ident) src dest, ip_src = src, ip_dest = dest\<rparr>"

lemma ip4_output_eq:
  "length bs \<le> 65515 \<Longrightarrow> ip4_output_if_src n True mems bs src dest tt ts pr ident =
     map_option (\<lambda>(e, out). (e, out, ident + 1)) (ip4_send n (datagram_header src dest tt ts pr ident (length bs)) bs mems)"
  by (cases "ip4_send n (datagram_header src dest tt ts pr ident (length bs)) bs mems")
    (auto simp: ip4_output_if_src_def datagram_header_def Let_def)

lemma header_facts:
  fixes src dest tt ts ident n
  defines "h \<equiv> datagram_header src dest tt ts IP_PROTO_UDP ident n"
  shows "v_hl h = 0x45" "ip_offset h = 0" "ip_src h = src" "ip_dest h = dest" "proto h = IP_PROTO_UDP" "IPH_HL_BYTES h = 20"
    "lwip_htons (ip_offset h) AND 0x3fff = 0" "dgram_key h = (src, dest, lwip_htons ident)"
  by (simp_all add: h_def datagram_header_def IPH_HL_BYTES_def lwip_htons_def dgram_key_def)

lemma received_payloads:
  assumes mtu: "28 \<le> mtu" and hdr: "v_hl hdr = 0x45" and bs: "length bs \<le> 65515" and out: "ip4_frag mtu hdr bs [] = Some (ERR_OK, os)"
    and ps: "map (Out_Netif \<circ> pdata) ps = map (\<lambda>(h, d). Out_Netif (hdr_bytes h @ d)) os" "\<forall>p\<in>set ps. 20 \<le> pkt_first p"
  shows "map frag_payload (map pkt_frag ps) = os
    \<and> (\<forall>p\<in>set ps. \<exists>h d. arrives p h d \<and> ip_src h = ip_src hdr \<and> ip_dest h = ip_dest hdr)"
proof -
  have l: "length ps = length os" using ps(1) by (metis length_map)
  have *: "arrives (ps ! i) (fst (os ! i)) (snd (os ! i)) \<and> ip_src (fst (os ! i)) = ip_src hdr \<and> ip_dest (fst (os ! i)) = ip_dest hdr"
    if i: "i < length ps" for i
  proof -
    have "map (Out_Netif \<circ> pdata) ps ! i = map (\<lambda>(h, d). Out_Netif (hdr_bytes h @ d)) os ! i" by (simp only: ps(1))
    then have "pdata (ps ! i) = hdr_bytes (fst (os ! i)) @ snd (os ! i)" using i l by (simp add: case_prod_unfold)
    moreover have "(fst (os ! i), snd (os ! i)) \<in> set os" using i l by simp
    ultimately show ?thesis using ps(2) i by (intro frag_arrives [OF mtu hdr bs out]) simp_all
  qed
  then have "frag_payload (pkt_frag (ps ! i)) = os ! i" if "i < length ps" for i
    using pkt_frag_arrives [of "ps ! i" "fst (os ! i)" "snd (os ! i)"] that by (simp add: frag_payload_def)
  then have "map frag_payload (map pkt_frag ps) = os" using l by (intro nth_equalityI) simp_all
  with * show ?thesis unfolding in_set_conv_nth Ball_def by blast
qed

lemma fclen_le: "unat (fclen (pkt_frag p)) \<le> length (plens p)"
  by (simp add: fclen_def pkt_frag_def unat_of_nat)

lemma chained_first: "ps \<noteq> [] \<Longrightarrow> 20 \<le> pkt_first (hd ps) \<Longrightarrow> pkt_first (dgram_pkt (h, bs, chained_lens (map flens (map pkt_frag ps)))) = pkt_first (hd ps)"
  by (cases ps; cases "plens (hd ps)") (auto simp: dgram_pkt_def chained_lens_def pkt_first_def pkt_frag_def)

lemma transfer_frags:
  fixes src dest tt ts ident
  assumes m: "28 \<le> mtu" "8 dvd (unat mtu - 20)" "unat mtu < length bs + 20" "length bs \<le> 65515" and addr: "addrs_accepted inp src dest"
    and os: "ip4_frag mtu (datagram_header src dest tt ts IP_PROTO_UDP ident (length bs)) bs [] = Some (ERR_OK, os)"
    and ps: "map (Out_Netif \<circ> pdata) ps = map (\<lambda>(h, d). Out_Netif (hdr_bytes h @ d)) os" "\<forall>p\<in>set ps. 20 \<le> pkt_first p"
    and qs: "mset qs = mset ps" and raw: "\<forall>p. raw_input p \<noteq> RAW_INPUT_EATEN"
    and s: "reass_mallocs s = []" "(src, dest, lwip_htons ident) \<notin> (dgram_key \<circ> iphdr) ` set (reassdatagrams s)"
      "unat (ip_reass_pbufcount s) + (\<Sum>p\<leftarrow>ps. length (plens p)) \<le> 10"
  shows "\<exists>h q. ip4_run raw_input inp qs s = Some (replicate (length qs - 1) Ip4_Queued @ [Ip4_To_Udp h q], s)
     \<and> pdata q = bs \<and> ip_src h = src \<and> ip_dest h = dest \<and> pkt_first q = pkt_first (hd ps) - 20"
proof -
  let ?h = "datagram_header src dest tt ts IP_PROTO_UDP ident (length bs)" and ?ps = "map pkt_frag ps"
  note h = header_facts [of src dest tt ts ident "length bs"]
  note r = received_payloads [OF m(1) h(1) m(4) os ps]
  have fr: "ip4_frag mtu ?h bs [] = Some (ERR_OK, map frag_payload ?ps)" using os r by simp
  have tr: "fragment_train ?ps" using frag_train [OF m(1,2) h(6,7) m(3,4) fr] by simp
  have run: "ip4_run raw_input inp qs s = map_option (\<lambda>(rs, s). (map (\<lambda>r. case r of None \<Rightarrow> Ip4_Queued
     | Some d \<Rightarrow> ip4_dispatch inp (raw_input (dgram_pkt d)) (fst d) 20 (dgram_pkt d)) rs, s)) (reass_run (map pkt_frag qs) s)"
    using mset_eq_setD [OF qs] train_real [OF tr] r addr h by (intro ip4_run_reass) fastforce
  let ?d = "(set_chksum (?h\<lparr>ip_len := lwip_htons (of_nat (length bs) + 20), ip_offset := 0\<rparr>), bs, chained_lens (map flens ?ps))"
  have "(\<Sum>p\<leftarrow>?ps. unat (fclen p)) \<le> (\<Sum>p\<leftarrow>ps. length (plens p))" by (simp add: comp_def sum_list_mono fclen_le)
  then have d: "reass_run (map pkt_frag qs) s = Some (replicate (length (map pkt_frag qs) - 1) None @ [Some ?d], s)"
    using s qs h by (intro frag_reass_any_order [OF m(1,2) h(6,7) m(3,4) fr]) auto
  have "ps \<noteq> []" using train_ne [OF tr] by simp
  then have "20 \<le> pkt_first (hd ps)" using ps(2) by simp
  with \<open>ps \<noteq> []\<close> have fst_len: "pkt_first (dgram_pkt ?d) = pkt_first (hd ps)" "20 \<le> pkt_first (hd ps)" using chained_first by blast+
  then have "20 \<le> pkt_first (dgram_pkt ?d)" by simp
  moreover have "proto (fst ?d) = IP_PROTO_UDP" "ip_src (fst ?d) = src" "ip_dest (fst ?d) = dest"
    using h by (simp_all add: set_chksum_def Let_def)
  ultimately obtain q where "ip4_dispatch inp (raw_input (dgram_pkt ?d)) (fst ?d) 20 (dgram_pkt ?d) = Ip4_To_Udp (fst ?d) q" "pdata q = bs"
      "pkt_first q = pkt_first (dgram_pkt ?d) - 20"
    using ip4_dispatch_udp [of "fst ?d" "raw_input (dgram_pkt ?d)" "dgram_pkt ?d" "fst ?d" bs inp] raw by (auto simp: dgram_pkt_def)
  with \<open>ip_src (fst ?d) = src\<close> \<open>ip_dest (fst ?d) = dest\<close> fst_len(1) show ?thesis unfolding run d
    by (intro exI [of _ "fst ?d"] exI [of _ q]) simp
qed

lemma transfer_whole:
  fixes src dest tt ts ident and bs :: "u8 list"
  defines "h \<equiv> datagram_header src dest tt ts IP_PROTO_UDP ident (length bs)"
  assumes p: "pdata p = hdr_bytes h @ bs" "20 \<le> pkt_first p" and len: "length bs \<le> 65515" and addr: "addrs_accepted inp src dest"
    and raw: "\<forall>p. raw_input p \<noteq> RAW_INPUT_EATEN"
  shows "\<exists>h q. ip4_input raw_input inp p s = Some (Ip4_To_Udp h q, s) \<and> pdata q = bs \<and> ip_src h = src \<and> ip_dest h = dest
     \<and> pkt_first q = pkt_first p - 20"
proof -
  note hf = header_facts [of src dest tt ts ident "length bs", folded h_def]
  have "arrives p h bs" using len p by (simp add: arrives_def h_def datagram_header_def add.commute)
  from ip4_input_arrives [OF this, of inp raw_input s] addr
  have "ip4_input raw_input inp p s = Some (ip4_dispatch inp (raw_input p) h 20 p, s)" by (simp add: hf)
  with ip4_dispatch_udp [OF hf(5) _ p(2,1), of "raw_input p" inp] raw hf show ?thesis by auto
qed

lemma output_input:
  assumes mtu: "nif_mtu n = 0 \<or> 28 \<le> nif_mtu n \<and> 8 dvd (unat (nif_mtu n) - 20)"
    and addr: "dest \<noteq> nif_ip n" "addrs_accepted inp src dest" and len: "length bs \<le> 65515"
    and out: "ip4_output_if_src n True [] bs src dest tt ts IP_PROTO_UDP ident = Some (ERR_OK, out, ident')"
    and ps: "map (Out_Netif \<circ> pdata) ps = out" "\<forall>p\<in>set ps. 20 \<le> pkt_first p" and qs: "mset qs = mset ps"
    and raw: "\<forall>p. raw_input p \<noteq> RAW_INPUT_EATEN"
    and s: "reass_mallocs s = []" "(src, dest, lwip_htons ident) \<notin> (dgram_key \<circ> iphdr) ` set (reassdatagrams s)"
      "unat (ip_reass_pbufcount s) + (\<Sum>p\<leftarrow>ps. length (plens p)) \<le> 10"
  shows "\<exists>h q. ip4_run raw_input inp qs s = Some (replicate (length qs - 1) Ip4_Queued @ [Ip4_To_Udp h q], s)
     \<and> pdata q = bs \<and> ip_src h = src \<and> ip_dest h = dest \<and> pkt_first q = pkt_first (hd ps) - 20"
proof (cases "nif_mtu n \<noteq> 0 \<and> 20 + length bs > unat (nif_mtu n)")
  case False
  then have "out = [Out_Netif (hdr_bytes (datagram_header src dest tt ts IP_PROTO_UDP ident (length bs)) @ bs)]"
    using out addr(1) unfolding ip4_output_eq [OF len] by (auto simp: ip4_send_def header_facts)
  then obtain p where "qs = [p]" "ps = [p]" "pdata p = hdr_bytes (datagram_header src dest tt ts IP_PROTO_UDP ident (length bs)) @ bs" "20 \<le> pkt_first p"
    using ps qs by auto
  with transfer_whole [OF this(3,4) len addr(2) raw, of s] show ?thesis by auto
next
  case True
  then obtain os where "ip4_frag (nif_mtu n) (datagram_header src dest tt ts IP_PROTO_UDP ident (length bs)) bs [] = Some (ERR_OK, os)"
      "out = map (\<lambda>(h, d). Out_Netif (hdr_bytes h @ d)) os"
    using out addr(1) unfolding ip4_output_eq [OF len] by (auto simp: ip4_send_def header_facts bind_eq_Some_conv)
  with transfer_frags [OF _ _ _ len addr(2) this(1) _ ps(2) qs raw s] mtu True ps(1) show ?thesis by auto
qed

text \<open>
  C20. A UDP datagram that \<^verbatim>\<open>ip4_output_if_src\<close> sends, whole or in fragments, reaches \<^verbatim>\<open>udp_input\<close> of the receiving stack with
  exactly its bytes and its addresses, in whatever order the packets arrive and however they are cut into pbufs: every packet
  but the last is queued, and the queue is as before.
\<close>

theorem ip4_output_input:
  assumes mtu: "nif_mtu n = 0 \<or> 28 \<le> nif_mtu n \<and> 8 dvd (unat (nif_mtu n) - 20)"
    and addr: "dest \<noteq> nif_ip n" "addrs_accepted inp src dest" and len: "length bs \<le> 65515"
    and out: "ip4_output_if_src n True [] bs src dest tt ts IP_PROTO_UDP ident = Some (ERR_OK, out, ident')"
    and ps: "map (Out_Netif \<circ> pdata) ps = out" "\<forall>p\<in>set ps. 20 \<le> pkt_first p" and qs: "mset qs = mset ps"
    and raw: "\<forall>p. raw_input p \<noteq> RAW_INPUT_EATEN"
    and s: "reass_mallocs s = []" "(src, dest, lwip_htons ident) \<notin> (dgram_key \<circ> iphdr) ` set (reassdatagrams s)"
      "unat (ip_reass_pbufcount s) + (\<Sum>p\<leftarrow>ps. length (plens p)) \<le> 10"
  shows "\<exists>h q. ip4_run raw_input inp qs s = Some (replicate (length qs - 1) Ip4_Queued @ [Ip4_To_Udp h q], s)
     \<and> pdata q = bs \<and> ip_src h = src \<and> ip_dest h = dest"
  using output_input [OF assms] by blast

section \<open>Witnesses\<close>

definition loop_netif :: netif where
  "loop_netif = \<lparr>nif_ip = 0x0100007f, nif_mask = 0x000000ff, nif_mtu = 36, nif_up = True, nif_broadcast = False\<rparr>"


definition sample_out :: "ip_out list" where
  "sample_out = (case ip4_output_if_src loop_netif True [] (replicate 20 7) 0x0100000a 0x0200000a 64 0 17 5 of
     Some (e, out, i) \<Rightarrow> out | None \<Rightarrow> [])"

definition sample_pkts :: "pkt list" where
  "sample_pkts = map (\<lambda>out. case out of Out_Netif b \<Rightarrow> \<lparr>plens = [length b], pdata = b\<rparr>
     | Out_Loop b \<Rightarrow> \<lparr>plens = [length b], pdata = b\<rparr>) sample_out"

theorem ip4_output_input_witness:
  "\<exists>h q. ip4_run (\<lambda>_. RAW_INPUT_NONE) loop_netif (rev sample_pkts) reass_empty = Some ([Ip4_Queued, Ip4_To_Udp h q], reass_empty)
     \<and> pdata q = replicate 20 7 \<and> ip_src h = 0x0100000a \<and> ip_dest h = 0x0200000a"
proof -
  have o: "ip4_output_if_src loop_netif True [] (replicate 20 7) 0x0100000a 0x0200000a 64 0 17 5 = Some (ERR_OK, sample_out, 6)" by code_simp
  have p: "map (Out_Netif \<circ> pdata) sample_pkts = sample_out" "\<forall>p\<in>set sample_pkts. 20 \<le> pkt_first p" by code_simp+
  have l: "length (rev sample_pkts) = 2" "(\<Sum>p\<leftarrow>sample_pkts. length (plens p)) = 2" by code_simp+
  have a: "addrs_accepted loop_netif 0x0100000a 0x0200000a" by code_simp
  have "\<exists>h q. ip4_run (\<lambda>_. RAW_INPUT_NONE) loop_netif (rev sample_pkts) reass_empty =
      Some (replicate (length (rev sample_pkts) - 1) Ip4_Queued @ [Ip4_To_Udp h q], reass_empty)
     \<and> pdata q = replicate 20 7 \<and> ip_src h = 0x0100000a \<and> ip_dest h = 0x0200000a"
    by (rule ip4_output_input [OF _ _ a _ o p]) (simp_all add: loop_netif_def reass_empty_def l(2))
  then show ?thesis unfolding l(1) by simp
qed

end
