(* ===== verification/Icmp.thy ===== *)
theory Icmp
  imports Ip4_Theorems
begin

text \<open>
  ICMP (\<^verbatim>\<open>ipv4/icmp.c\<close>): the answer to an echo request, and the messages that report an error about a packet. The
  bytes are in the model of the theory \<open>Ip4\<close>. Whether there is room in front of a packet and whether memory is left are
  parameters.
\<close>

unbundle bit_operations_syntax

section \<open>Definitions\<close>

datatype icmp_end = ICMP_DONE | ICMP_LENERR | ICMP_ERR

abbreviation (input) ICMP_ER :: u8 where "ICMP_ER \<equiv> 0"
abbreviation (input) ICMP_DUR :: u8 where "ICMP_DUR \<equiv> 3"
abbreviation (input) ICMP_ECHO :: u8 where "ICMP_ECHO \<equiv> 8"
abbreviation (input) ICMP_TE :: u8 where "ICMP_TE \<equiv> 11"
abbreviation (input) ICMP_TTL :: u8 where "ICMP_TTL \<equiv> 64"

datatype icmp_dur_type = ICMP_DUR_NET | ICMP_DUR_HOST | ICMP_DUR_PROTO | ICMP_DUR_PORT | ICMP_DUR_FRAG | ICMP_DUR_SR

primrec icmp_dur_code :: "icmp_dur_type \<Rightarrow> u8" where
  "icmp_dur_code ICMP_DUR_NET = 0"
| "icmp_dur_code ICMP_DUR_HOST = 1"
| "icmp_dur_code ICMP_DUR_PROTO = 2"
| "icmp_dur_code ICMP_DUR_PORT = 3"
| "icmp_dur_code ICMP_DUR_FRAG = 4"
| "icmp_dur_code ICMP_DUR_SR = 5"

datatype icmp_te_type = ICMP_TE_TTL | ICMP_TE_FRAG

primrec icmp_te_code :: "icmp_te_type \<Rightarrow> u8" where
  "icmp_te_code ICMP_TE_TTL = 0"
| "icmp_te_code ICMP_TE_FRAG = 1"

text \<open>The checksum after the type has changed from 8 to 0: both are in the high byte of the first word.\<close>

definition icmp_echo_chksum :: "u16 \<Rightarrow> u16" where
  "icmp_echo_chksum c =
     (if c > lwip_htons (0xffff - push_bit 8 (ucast ICMP_ECHO)) then c + lwip_htons (push_bit 8 (ucast ICMP_ECHO)) + 1
      else c + lwip_htons (push_bit 8 (ucast ICMP_ECHO)))"

text \<open>
  The answer, written over the request: the addresses are exchanged, the type, the checksums and the time to live are set.
  \<open>opts\<close> are the options of the IP header, \<open>p\<close> begins with the ICMP header.
\<close>

definition icmp_reply :: "ip_hdr \<Rightarrow> u8 list \<Rightarrow> pkt \<Rightarrow> pkt option" where
  "icmp_reply hdr opts p = do {
     code \<leftarrow> pkt_u8 p 1;
     c \<leftarrow> pkt_u16 p 2;
     let hdr = hdr\<lparr>ip_src := ip_dest hdr, ip_dest := ip_src hdr, ttl := ICMP_TTL, ip_chksum := 0\<rparr>;
     let hdr = hdr\<lparr>ip_chksum := NOT (lwip_standard_chksum 0 (hdr_bytes hdr @ opts))\<rparr>;
     Some \<lparr>plens = (unat (IPH_HL_BYTES hdr) + pkt_first p) # drop 1 (plens p),
           pdata = hdr_bytes hdr @ opts @ [ICMP_ER, code] @ bytes16 (icmp_echo_chksum c) @ drop 4 (pdata p)\<rparr> }"

text \<open>
  \<^verbatim>\<open>icmp_input\<close>. \<open>room\<close> says that the pbuf has room for the link header as well (\<^verbatim>\<open>pbuf_add_header\<close>, which also
  refuses a packet of more than 65535 bytes), \<open>alloc\<close> that a new pbuf can be had; the new pbuf holds the whole packet.
\<close>

definition icmp_input :: "netif \<Rightarrow> bool \<Rightarrow> bool \<Rightarrow> bool list \<Rightarrow> ip_hdr \<Rightarrow> u8 list \<Rightarrow> pkt \<Rightarrow> (icmp_end \<times> ip_out list) option" where
  "icmp_input inp room alloc mems hdr opts p =
     (let hlen = IPH_HL_BYTES hdr; tot_len = of_nat (length (pdata p)) :: u16 in
      if hlen < 20 then Some (ICMP_LENERR, [])
      else if pkt_first p < 4 then Some (ICMP_LENERR, [])
      else do {
        type \<leftarrow> pkt_u8 p 0;
        if type = ICMP_ECHO then
          if ip4_addr_ismulticast (ip_dest hdr) then Some (ICMP_ERR, [])
          else if ip4_addr_isbroadcast (ip_dest hdr) inp then Some (ICMP_ERR, [])
          else if tot_len < 8 then Some (ICMP_LENERR, [])
          else
            let fits = room \<and> int (length (pdata p) + unat hlen + 14) \<le> 0xffff; alloc_len = tot_len + ucast hlen in
            if \<not> fits \<and> alloc_len < tot_len then Some (ICMP_ERR, [])
            else if \<not> fits \<and> \<not> alloc then Some (ICMP_ERR, [])
            else if \<not> fits \<and> alloc_len < ucast hlen + 8 then Some (ICMP_ERR, [])
            else do {
              r \<leftarrow> icmp_reply hdr opts (if fits then p else \<lparr>plens = [length (pdata p)], pdata = pdata p\<rparr>);
              (e, out) \<leftarrow> ip4_output_hdrincl inp mems r;
              Some (ICMP_DONE, out) }
        else Some (ICMP_DONE, []) })"

text \<open>
  The report about a packet: an ICMP header, and 28 bytes from the beginning of the packet, all read in its first pbuf. The
  message is allocated with room for the IP header.
\<close>

definition pkt_prefix :: "nat \<Rightarrow> pkt \<Rightarrow> u8 list option" where
  "pkt_prefix n p = (if n \<le> pkt_first p \<and> n \<le> length (pdata p) then Some (take n (pdata p)) else None)"

definition icmp_message :: "u8 \<Rightarrow> u8 \<Rightarrow> u8 list \<Rightarrow> u8 list" where
  "icmp_message type code bs =
     (let c = NOT (lwip_standard_chksum 0 ([type, code, 0, 0, 0, 0, 0, 0] @ bs))
      in [type, code] @ bytes16 c @ [0, 0, 0, 0] @ bs)"

definition icmp_send_response ::
    "netif list \<Rightarrow> bool \<Rightarrow> bool list \<Rightarrow> pkt \<Rightarrow> u8 \<Rightarrow> u8 \<Rightarrow> u16 \<Rightarrow> (ip_out list \<times> u16) option" where
  "icmp_send_response ns alloc mems p type code ident =
     (if \<not> alloc then Some ([], ident)
      else do {
        hdr \<leftarrow> pkt_ip_hdr p;
        bs \<leftarrow> pkt_prefix 28 p;
        case ip4_route ns of
          None \<Rightarrow> Some ([], ident)
        | Some n \<Rightarrow> do {
            (e, out, ident) \<leftarrow> ip4_output_if n True mems (icmp_message type code bs) None (ip_src hdr) ICMP_TTL 0 IP_PROTO_ICMP ident;
            Some (out, ident) } })"

definition icmp_dest_unreach ::
    "netif list \<Rightarrow> bool \<Rightarrow> bool list \<Rightarrow> pkt \<Rightarrow> icmp_dur_type \<Rightarrow> u16 \<Rightarrow> (ip_out list \<times> u16) option" where
  "icmp_dest_unreach ns alloc mems p t ident = icmp_send_response ns alloc mems p ICMP_DUR (icmp_dur_code t) ident"

definition icmp_time_exceeded ::
    "netif list \<Rightarrow> bool \<Rightarrow> bool list \<Rightarrow> pkt \<Rightarrow> icmp_te_type \<Rightarrow> u16 \<Rightarrow> (ip_out list \<times> u16) option" where
  "icmp_time_exceeded ns alloc mems p t ident = icmp_send_response ns alloc mems p ICMP_TE (icmp_te_code t) ident"

section \<open>Checksums\<close>

lemma icmp_echo_chksum_eq: "icmp_echo_chksum c = (if c > 65527 then c + 9 else c + 8)"
proof -
  have "lwip_htons (0xffff - push_bit 8 (ucast (8 :: u8))) = 65527" "lwip_htons (push_bit 8 (ucast (8 :: u8))) = 8" by code_simp+
  then show ?thesis by (simp only: icmp_echo_chksum_def add.assoc) simp
qed

lemma unat_icmp_echo_chksum:
  "unat (icmp_echo_chksum c) = (if unat c > 65527 then unat c - 65527 else unat c + 8)"
  using unat_u16_lt [of c]
  by (auto simp: icmp_echo_chksum_eq word_less_nat_alt unat_word_ariths mod_if)

lemma le_sum_head: "le_sum (a # b # bs) = unat (le16 a b) + le_sum bs"
  by (simp add: unat_le16)

lemma echo_chksum_keeps:
  assumes "length bs < 0x10000"
  shows "lwip_standard_chksum a ([0, code] @ bytes16 (icmp_echo_chksum c) @ bs) = lwip_standard_chksum a ([8, code] @ bytes16 c @ bs)"
proof -
  let ?new = "[0, code] @ bytes16 (icmp_echo_chksum c) @ bs" and ?old = "[8, code] @ bytes16 c @ bs"
  have "le_sum ?new = unat (icmp_echo_chksum c) + (256 * unat code + le_sum bs)" "le_sum ?old = unat c + 8 + (256 * unat code + le_sum bs)"
    by (simp_all add: sums_append le_sum_bytes16)
  then have "le_sum ?new = le_sum ?old \<or> le_sum ?new + 65535 = le_sum ?old \<and> 0 < le_sum ?new" using unat_u16_lt [of c]
    unfolding unat_icmp_echo_chksum by (cases "65527 < unat c") (simp_all only: if_True if_False, linarith+)
  then have "ocrep (le_sum ?new) (le_sum ?old)"
    unfolding ocrep_def by (elim disjE conjE) (simp_all only: mod_add_self2 [symmetric, of "le_sum ?new"], simp)
  moreover have "ocrep (unat (lwip_standard_chksum a ?new)) (le_sum ?new)" using assms by (intro chksum2.chk_rep) simp
  ultimately have "unat (lwip_standard_chksum a ?new) = ocval (le_sum ?old)" using ocrep_trans ocrep_unique unat_u16_lt by blast
  then show ?thesis using assms by (simp add: word_unat_eq_iff chksum2.chk_value)
qed


text \<open>A field that holds the checksum over the bytes with a zero field makes the bytes sum up to zero.\<close>

lemma header_verifies:
  assumes "length opts \<le> 40"
  shows "NOT (lwip_standard_chksum a (hdr_bytes (h\<lparr>ip_chksum := NOT (lwip_standard_chksum 0 (hdr_bytes (h\<lparr>ip_chksum := 0\<rparr>) @ opts))\<rparr>) @ opts)) = 0"
proof -
  define xs where "xs = [v_hl h, tos h] @ bytes16 (ip_len h) @ bytes16 (ip_id h) @ bytes16 (ip_offset h) @ [ttl h, proto h]"
  define ys where "ys = bytes32 (ip_src h) @ bytes32 (ip_dest h) @ opts"
  have e: "hdr_bytes (h\<lparr>ip_chksum := v\<rparr>) @ opts = xs @ bytes16 v @ ys" for v by (simp add: hdr_bytes_def xs_def ys_def)
  have z: "bytes16 0 = [0, 0]" by code_simp
  show ?thesis unfolding e
    by (rule chksum2.chk_complement [where a = 0]) (use assms in \<open>simp_all add: xs_def ys_def z\<close>)
qed

lemma icmp_message_verifies:
  assumes "length bs \<le> 65535"
  shows "NOT (lwip_standard_chksum a (icmp_message type code bs)) = 0"
proof -
  have "icmp_message type code bs = [type, code] @ bytes16 (NOT (lwip_standard_chksum 0 ([type, code] @ 0 # 0 # [0, 0, 0, 0] @ bs))) @ ([0, 0, 0, 0] @ bs)"
    by (simp add: icmp_message_def Let_def)
  then show ?thesis using assms
    by (simp only:) (rule chksum2.chk_complement [where a = 0], simp_all)
qed

section \<open>Answers\<close>

lemma hdrincl_whole:
  assumes "pdata r = hdr_bytes h @ bs" "20 \<le> pkt_first r" "ip_dest h \<noteq> nif_ip n" "nif_mtu n = 0 \<or> length (pdata r) \<le> unat (nif_mtu n)"
  shows "ip4_output_hdrincl n mems r = Some (ERR_OK, [Out_Netif (pdata r)])"
  using assms pkt_ip_hdr_parse [OF assms(1,2)] by (auto simp: ip4_output_hdrincl_def)

definition echo_header :: "ip_hdr \<Rightarrow> u8 list \<Rightarrow> ip_hdr" where
  "echo_header h opts =
     (let h = h\<lparr>ip_src := ip_dest h, ip_dest := ip_src h, ttl := 64, ip_chksum := 0\<rparr>
      in h\<lparr>ip_chksum := NOT (lwip_standard_chksum 0 (hdr_bytes h @ opts))\<rparr>)"

lemma echo_header_simps [simp]:
  "ip_src (echo_header h opts) = ip_dest h" "ip_dest (echo_header h opts) = ip_src h" "ttl (echo_header h opts) = 64"
  "proto (echo_header h opts) = proto h" "ip_len (echo_header h opts) = ip_len h" "ip_offset (echo_header h opts) = ip_offset h"
  "ip_id (echo_header h opts) = ip_id h" "v_hl (echo_header h opts) = v_hl h"
  by (simp_all add: echo_header_def Let_def)

lemma echo_header_verifies: "length opts \<le> 40 \<Longrightarrow> NOT (lwip_standard_chksum a (hdr_bytes (echo_header h opts) @ opts)) = 0"
  using header_verifies [of opts a "h\<lparr>ip_src := ip_dest h, ip_dest := ip_src h, ttl := 64, ip_chksum := 0\<rparr>"]
  by (simp add: echo_header_def Let_def)

lemma icmp_reply_eq:
  assumes "pdata p = [8, code] @ bytes16 c @ bs" "4 \<le> pkt_first p"
  shows "icmp_reply h opts p = Some \<lparr>plens = (unat (IPH_HL_BYTES h) + pkt_first p) # drop 1 (plens p),
     pdata = hdr_bytes (echo_header h opts) @ opts @ [0, code] @ bytes16 (icmp_echo_chksum c) @ bs\<rparr>"
proof -
  have "pkt_u8 p 1 = Some code" "pkt_u16 p 2 = Some c"
    using assms(2) by (simp_all add: pkt_u8_def pkt_u16_def assms(1) bytes16_def le16_bytes16)
  moreover have "drop 4 (pdata p) = bs" by (simp add: assms(1))
  ultimately show ?thesis by (simp add: icmp_reply_def echo_header_def Let_def IPH_HL_BYTES_def)
qed

lemma icmp_input_echo:
  fixes p hdr
  defines "tlen \<equiv> of_nat (length (pdata p)) :: u16" and "hlen \<equiv> IPH_HL_BYTES hdr"
  assumes "\<not> hlen < 20" "4 \<le> pkt_first p" "pkt_u8 p 0 = Some 8" "\<not> ip4_addr_ismulticast (ip_dest hdr)"
    "\<not> ip4_addr_isbroadcast (ip_dest hdr) inp" "\<not> tlen < 8" "\<not> tlen + ucast hlen < tlen" "\<not> tlen + ucast hlen < ucast hlen + 8"
    "alloc \<or> room \<and> int (length (pdata p) + unat hlen + 14) \<le> 0xffff"
  obtains q where "pdata q = pdata p" "pkt_first q \<ge> 4" "icmp_input inp room alloc mems hdr opts p = do {
     r \<leftarrow> icmp_reply hdr opts q;
     (e, out) \<leftarrow> ip4_output_hdrincl inp mems r;
     Some (ICMP_DONE, out) }"
proof
  let ?q = "if room \<and> int (length (pdata p) + unat hlen + 14) \<le> 0xffff then p else \<lparr>plens = [length (pdata p)], pdata = pdata p\<rparr>"
  show "pdata ?q = pdata p" by simp
  have "unat tlen \<ge> 8" using assms(8) by (simp add: word_less_nat_alt)
  moreover have "unat tlen \<le> length (pdata p)" by (simp add: tlen_def unat_of_nat)
  ultimately show "pkt_first ?q \<ge> 4" using assms(4) by (simp add: pkt_first_def)
  show "icmp_input inp room alloc mems hdr opts p = do {
     r \<leftarrow> icmp_reply hdr opts ?q;
     (e, out) \<leftarrow> ip4_output_hdrincl inp mems r;
     Some (ICMP_DONE, out) }"
    using assms(3-) unfolding icmp_input_def Let_def tlen_def hlen_def
    by (simp only: bind.bind_lunit not_less [symmetric] if_False if_True simp_thms de_Morgan_conj) auto
qed

lemma of_nat_lens:
  assumes "8 \<le> n" "20 \<le> unat hl" "n + unat hl < 65536"
  shows "\<not> (of_nat n :: u16) < 8" "\<not> (of_nat n + ucast (hl :: u8) :: u16) < of_nat n" "\<not> (of_nat n + ucast hl :: u16) < ucast hl + 8"
proof -
  have u: "unat (of_nat n :: u16) = n" "unat (ucast hl :: u16) = unat hl" using assms by (simp_all add: unat_of_nat_u16 unat_ucast_up)
  have s: "unat (of_nat n + ucast hl :: u16) = n + unat hl" "unat (ucast hl + 8 :: u16) = unat hl + 8"
    using assms by (simp_all add: unat_word_ariths u)
  show "\<not> (of_nat n :: u16) < 8" "\<not> (of_nat n + ucast (hl :: u8) :: u16) < of_nat n" "\<not> (of_nat n + ucast hl :: u16) < ucast hl + 8"
    unfolding word_less_nat_alt s u using assms by simp_all
qed

text \<open>
  C25. An echo request of up to the size of the interface is answered: the packet that leaves goes back to where the request came from,
  carries the same identifier, sequence number and data, has the type of a reply, a correct header checksum, and an ICMP
  checksum that is right exactly when the one of the request was.
\<close>

theorem icmp_echo_answered:
  assumes p: "pdata p = [8, code] @ bytes16 c @ bs" "4 \<le> pkt_first p" "pkt_ok p" "4 \<le> length bs"
    and h: "unat (IPH_HL_BYTES h) = 20 + length opts" "length opts \<le> 40"
    and dest: "\<not> ip4_addr_ismulticast (ip_dest h)" "\<not> ip4_addr_isbroadcast (ip_dest h) inp" "ip_src h \<noteq> nif_ip inp"
    and fits: "24 + length opts + length bs \<le> unat (nif_mtu inp)" "alloc \<or> room \<and> nif_mtu inp \<le> 65521"
  shows "\<exists>r. icmp_input inp room alloc mems h opts p = Some (ICMP_DONE, [Out_Netif (hdr_bytes r @ opts @ [0, code] @ bytes16 (icmp_echo_chksum c) @ bs)])
     \<and> r = h\<lparr>ip_src := ip_dest h, ip_dest := ip_src h, ttl := 64, ip_chksum := ip_chksum r\<rparr>
     \<and> NOT (lwip_standard_chksum a (hdr_bytes r @ opts)) = 0
     \<and> lwip_standard_chksum a ([0, code] @ bytes16 (icmp_echo_chksum c) @ bs) = lwip_standard_chksum a (pdata p)"
proof -
  let ?r = "echo_header h opts"
  let ?out = "hdr_bytes ?r @ opts @ [0, code] @ bytes16 (icmp_echo_chksum c) @ bs"
  have len: "length (pdata p) = 4 + length bs" "4 + length bs \<le> 65535" using p(1,3) by (simp_all add: pkt_ok_def)
  have hl: "\<not> IPH_HL_BYTES h < 20" using h(1) by (simp add: word_less_nat_alt)
  have t: "pkt_u8 p 0 = Some 8" using pkt_u8_0 [of p] p(2) by (simp add: p(1))
  have n: "8 \<le> length (pdata p)" "20 \<le> unat (IPH_HL_BYTES h)" "length (pdata p) + unat (IPH_HL_BYTES h) < 65536"
    using p(4) h(1) fits(1) unat_u16_lt [of "nif_mtu inp"] unfolding len(1) by linarith+
  have mem: "alloc \<or> room \<and> int (length (pdata p) + unat (IPH_HL_BYTES h) + 14) \<le> 0xffff"
    using fits unfolding len(1) h(1) by (auto simp: word_le_nat_alt)
  obtain q where q: "pdata q = pdata p" "4 \<le> pkt_first q" and i: "icmp_input inp room alloc mems h opts p = do {
     r \<leftarrow> icmp_reply h opts q;
     (e, out) \<leftarrow> ip4_output_hdrincl inp mems r;
     Some (ICMP_DONE, out) }"
    by (rule icmp_input_echo [OF hl p(2) t dest(1,2) of_nat_lens [OF n] mem])
  let ?p = "\<lparr>plens = (unat (IPH_HL_BYTES h) + pkt_first q) # drop 1 (plens q), pdata = ?out\<rparr>"
  have "ip4_output_hdrincl inp mems ?p = Some (ERR_OK, [Out_Netif (pdata ?p)])"
    by (rule hdrincl_whole [where h = ?r and bs = "opts @ [0, code] @ bytes16 (icmp_echo_chksum c) @ bs"])
      (use dest(3) fits(1) h(1) in \<open>simp_all add: pkt_first_def hdr_bytes_def\<close>)
  then have "icmp_input inp room alloc mems h opts p = Some (ICMP_DONE, [Out_Netif ?out])"
    unfolding i using icmp_reply_eq [of q code c bs h opts] q p(1) by simp
  moreover have "?r = h\<lparr>ip_src := ip_dest h, ip_dest := ip_src h, ttl := 64, ip_chksum := ip_chksum ?r\<rparr>"
    by (simp add: echo_header_def Let_def)
  moreover have "lwip_standard_chksum a ([0, code] @ bytes16 (icmp_echo_chksum c) @ bs) = lwip_standard_chksum a (pdata p)"
    unfolding p(1) using len by (intro echo_chksum_keeps) simp
  ultimately show ?thesis using echo_header_verifies [OF h(2)] by blast
qed

section \<open>Reports\<close>

lemma datagram_header_chksum:
  "datagram_header src dest tt ts pr ident n =
     (datagram_header src dest tt ts pr ident n)\<lparr>ip_chksum := NOT (lwip_standard_chksum 0 (hdr_bytes ((datagram_header src dest tt ts pr ident n)\<lparr>ip_chksum := 0\<rparr>)))\<rparr>"
  using ip4_inline_chksum_value [of "datagram_header src dest tt ts pr ident n" 0] by (simp add: datagram_header_def)

lemma datagram_header_verifies: "NOT (lwip_standard_chksum a (hdr_bytes (datagram_header src dest tt ts pr ident n))) = 0"
  by (subst datagram_header_chksum) (use header_verifies [of "[]" a "datagram_header src dest tt ts pr ident n"] in simp)

lemma ip4_send_whole:
  "ip_dest h \<noteq> nif_ip n \<Longrightarrow> nif_mtu n = 0 \<or> 20 + length bs \<le> unat (nif_mtu n) \<Longrightarrow> ip4_send n h bs mems = Some (ERR_OK, [Out_Netif (hdr_bytes h @ bs)])"
  by (auto simp: ip4_send_def)

text \<open>
  C26. The report about a packet whose first pbuf holds the header and eight more bytes goes to the sender of that packet in
  one packet with correct checksums, and quotes exactly these 28 bytes.
\<close>

theorem icmp_dest_unreach_quotes:
  assumes p: "28 \<le> pkt_first p" "28 \<le> length (pdata p)" "pkt_ip_hdr p = Some hdr"
    and n: "ip_src hdr \<noteq> nif_ip n" "nif_mtu n = 0 \<or> 56 \<le> nif_mtu n"
  shows "\<exists>h c. icmp_dest_unreach (n # ns) True mems p t ident
        = Some ([Out_Netif (hdr_bytes h @ [3, icmp_dur_code t] @ bytes16 c @ [0, 0, 0, 0] @ take 28 (pdata p))], ident + 1)
     \<and> ip_src h = nif_ip n \<and> ip_dest h = ip_src hdr \<and> proto h = 1 \<and> ip_len h = lwip_htons 56
     \<and> NOT (lwip_standard_chksum a (hdr_bytes h)) = 0
     \<and> NOT (lwip_standard_chksum a ([3, icmp_dur_code t] @ bytes16 c @ [0, 0, 0, 0] @ take 28 (pdata p))) = 0"
proof -
  let ?msg = "icmp_message 3 (icmp_dur_code t) (take 28 (pdata p))"
  let ?c = "NOT (lwip_standard_chksum 0 ([3, icmp_dur_code t, 0, 0, 0, 0, 0, 0] @ take 28 (pdata p)))"
  have m: "?msg = [3, icmp_dur_code t] @ bytes16 ?c @ [0, 0, 0, 0] @ take 28 (pdata p)" by (simp add: icmp_message_def Let_def)
  then have len: "length ?msg = 36" using p(2) by simp
  let ?h = "datagram_header (nif_ip n) (ip_src hdr) 64 0 1 ident 36"
  have "ip4_send n ?h ?msg mems = Some (ERR_OK, [Out_Netif (hdr_bytes ?h @ ?msg)])"
    by (rule ip4_send_whole) (use n len in \<open>auto simp: datagram_header_def word_le_nat_alt\<close>)
  then have "ip4_output_if n True mems ?msg None (ip_src hdr) 64 0 1 ident = Some (ERR_OK, [Out_Netif (hdr_bytes ?h @ ?msg)], ident + 1)"
    by (simp add: ip4_output_if_def ip4_output_eq len)
  then have "icmp_dest_unreach (n # ns) True mems p t ident = Some ([Out_Netif (hdr_bytes ?h @ ?msg)], ident + 1)"
    using p by (simp add: icmp_dest_unreach_def icmp_send_response_def pkt_prefix_def ip4_route_def)
  moreover have "NOT (lwip_standard_chksum a ?msg) = 0" by (rule icmp_message_verifies) simp
  ultimately show ?thesis unfolding m
    by (intro exI [of _ ?h] exI [of _ ?c]) (simp add: datagram_header_verifies, simp add: datagram_header_def)
qed

section \<open>Witnesses and counterexamples\<close>

definition tun_netif :: netif where
  "tun_netif = \<lparr>nif_ip = 0x0100007f, nif_mask = 0x000000ff, nif_mtu = 1500, nif_up = True, nif_broadcast = False\<rparr>"

definition echo_request :: pkt where
  "echo_request = \<lparr>plens = [8], pdata = [8, 0, 0xf7, 0xff, 0, 0, 0, 0]\<rparr>"

theorem icmp_echo_answered_witness:
  "\<exists>r. icmp_input tun_netif False True [] (datagram_header 0x0100000a 0x0200000a 9 0 1 7 8) [] echo_request
      = Some (ICMP_DONE, [Out_Netif (hdr_bytes r @ [] @ [0, 0] @ bytes16 (icmp_echo_chksum 0xfff7) @ [0, 0, 0, 0])])
     \<and> r = (datagram_header 0x0100000a 0x0200000a 9 0 1 7 8)\<lparr>ip_src := ip_dest (datagram_header 0x0100000a 0x0200000a 9 0 1 7 8),
         ip_dest := ip_src (datagram_header 0x0100000a 0x0200000a 9 0 1 7 8), ttl := 64, ip_chksum := ip_chksum r\<rparr>
     \<and> NOT (lwip_standard_chksum 0 (hdr_bytes r @ [])) = 0
     \<and> lwip_standard_chksum 0 ([0, 0] @ bytes16 (icmp_echo_chksum 0xfff7) @ [0, 0, 0, 0]) = lwip_standard_chksum 0 (pdata echo_request)"
proof (rule icmp_echo_answered)
  show "pdata echo_request = [8, 0] @ bytes16 0xfff7 @ [0, 0, 0, 0]" by code_simp
  show "\<not> ip4_addr_ismulticast (ip_dest (datagram_header 0x0100000a 0x0200000a 9 0 1 7 8))" by code_simp
  show "\<not> ip4_addr_isbroadcast (ip_dest (datagram_header 0x0100000a 0x0200000a 9 0 1 7 8)) tun_netif" by code_simp
qed (simp_all add: echo_request_def pkt_first_def pkt_ok_def tun_netif_def datagram_header_def IPH_HL_BYTES_def)

text \<open>A packet of a protocol that the stack does not know.\<close>

definition gre_packet :: "u8 list \<Rightarrow> pkt" where
  "gre_packet bs = \<lparr>plens = [20 + length bs], pdata = hdr_bytes (datagram_header 0x0100000a 0x0200000a 9 0 47 7 (length bs)) @ bs\<rparr>"

theorem icmp_dest_unreach_quotes_witness:
  "\<exists>h c. icmp_dest_unreach [tun_netif] True [] (gre_packet [1, 2, 3, 4, 5, 6, 7, 8, 9]) ICMP_DUR_PROTO 5
        = Some ([Out_Netif (hdr_bytes h @ [3, icmp_dur_code ICMP_DUR_PROTO] @ bytes16 c @ [0, 0, 0, 0] @ take 28 (pdata (gre_packet [1, 2, 3, 4, 5, 6, 7, 8, 9])))], 5 + 1)
     \<and> ip_src h = nif_ip tun_netif \<and> ip_dest h = ip_src (datagram_header 0x0100000a 0x0200000a 9 0 47 7 9) \<and> proto h = 1 \<and> ip_len h = lwip_htons 56
     \<and> NOT (lwip_standard_chksum 0 (hdr_bytes h)) = 0
     \<and> NOT (lwip_standard_chksum 0 ([3, icmp_dur_code ICMP_DUR_PROTO] @ bytes16 c @ [0, 0, 0, 0] @ take 28 (pdata (gre_packet [1, 2, 3, 4, 5, 6, 7, 8, 9])))) = 0"
proof (rule icmp_dest_unreach_quotes)
  show "pkt_ip_hdr (gre_packet [1, 2, 3, 4, 5, 6, 7, 8, 9]) = Some (datagram_header 0x0100000a 0x0200000a 9 0 47 7 9)"
    using pkt_ip_hdr_parse [of "gre_packet [1, 2, 3, 4, 5, 6, 7, 8, 9]" "datagram_header 0x0100000a 0x0200000a 9 0 47 7 (length [1, 2, 3, 4, 5, 6, 7, 8, 9 :: u8])"]
    by (simp add: gre_packet_def pkt_first_def numeral_eq_Suc)
qed (simp_all add: gre_packet_def pkt_first_def tun_netif_def datagram_header_def hdr_bytes_def)

text \<open>
  The quoted bytes are read without a look at the length of the packet: a packet that consists of a header only, of a protocol
  that the stack does not know, makes the program read eight bytes behind the packet, and send them to the peer.
\<close>

theorem icmp_unreach_reads_behind:
  "\<exists>h. ip4_input (\<lambda>_. RAW_INPUT_NONE) tun_netif (gre_packet []) reass_empty = Some (Ip4_Unreachable h (gre_packet []), reass_empty)
     \<and> icmp_dest_unreach [tun_netif] True [] (gre_packet []) ICMP_DUR_PROTO 5 = None"
proof -
  let ?h = "datagram_header 0x0100000a 0x0200000a 9 0 47 7 0"
  have "ip4_input (\<lambda>_. RAW_INPUT_NONE) tun_netif (gre_packet []) reass_empty = Some (ip4_dispatch tun_netif RAW_INPUT_NONE ?h 20 (gre_packet []), reass_empty)"
  proof -
    have "addrs_accepted tun_netif (ip_src ?h) (ip_dest ?h)" by code_simp
    then show ?thesis using ip4_input_arrives [of "gre_packet []" ?h "[]" tun_netif "\<lambda>_. RAW_INPUT_NONE" reass_empty]
      by (simp add: arrives_def gre_packet_def pkt_first_def datagram_header_def)
  qed
  moreover have "ip4_dispatch tun_netif RAW_INPUT_NONE ?h 20 (gre_packet []) = Ip4_Unreachable ?h (gre_packet [])"
  proof -
    have "\<not> ip4_addr_isbroadcast (ip_dest ?h) tun_netif" "\<not> ip4_addr_ismulticast (ip_dest ?h)" by code_simp+
    then show ?thesis by (simp add: ip4_dispatch_def datagram_header_def)
  qed
  moreover have "pkt_prefix 28 (gre_packet []) = None" by (simp add: pkt_prefix_def gre_packet_def pkt_first_def)
  ultimately show ?thesis by (simp add: icmp_dest_unreach_def icmp_send_response_def)
qed

end
