(* ===== verification/Udp.thy ===== *)
theory Udp
  imports Ip_Any Ip4_Theorems Port_Search
begin

text \<open>
  UDP (\<^verbatim>\<open>udp.c\<close>) as this port has it: every datagram goes to the first control block, and the callback learns the
  destination too; a datagram can be sent with any source address and port. Control blocks live in memory, the list of the
  active ones is the list of their addresses. Access to a block that is not allocated is \<open>None\<close>.
\<close>

unbundle bit_operations_syntax

section \<open>State\<close>

record udp_pcb =
  udp_local_ip :: ip_addr_t
  udp_remote_ip :: ip_addr_t
  udp_netif_idx :: u8
  udp_tos :: u8
  udp_ttl :: u8
  udp_flags :: u8
  udp_local_port :: u16
  udp_remote_port :: u16
  udp_recv_fn :: "nat option"
  udp_recv_arg :: nat

record udp =
  udp_mem :: "nat \<Rightarrow> udp_pcb option"
  udp_pcbs :: "nat list"
  udp_port :: u16

abbreviation (input) UDP_FLAGS_NOCHKSUM :: u8 where "UDP_FLAGS_NOCHKSUM \<equiv> 1"
abbreviation (input) UDP_FLAGS_CONNECTED :: u8 where "UDP_FLAGS_CONNECTED \<equiv> 4"
abbreviation (input) UDP_LOCAL_PORT_RANGE_START :: u16 where "UDP_LOCAL_PORT_RANGE_START \<equiv> 0xc000"
abbreviation (input) UDP_LOCAL_PORT_RANGE_END :: u16 where "UDP_LOCAL_PORT_RANGE_END \<equiv> 0xffff"
abbreviation (input) UDP_TTL :: u8 where "UDP_TTL \<equiv> 64"

definition set_pcb :: "nat \<Rightarrow> udp_pcb \<Rightarrow> udp \<Rightarrow> udp" where
  "set_pcb pcb q s = s\<lparr>udp_mem := (udp_mem s)(pcb \<mapsto> q)\<rparr>"

definition IP_ADDR_PCB_VERSION_MATCH :: "udp_pcb \<Rightarrow> ip_addr_t \<Rightarrow> bool" where
  "IP_ADDR_PCB_VERSION_MATCH q a \<longleftrightarrow> IP_IS_ANY_TYPE (udp_local_ip q) \<or> iptype (udp_local_ip q) = iptype a"

section \<open>Ports\<close>

text \<open>\<open>r\<close> is the value of \<^verbatim>\<open>rand()\<close>.\<close>

definition UDP_ENSURE_LOCAL_PORT_RANGE :: "u32 \<Rightarrow> u16" where
  "UDP_ENSURE_LOCAL_PORT_RANGE r = ucast ((r AND ucast (NOT UDP_LOCAL_PORT_RANGE_START)) + ucast UDP_LOCAL_PORT_RANGE_START)"

definition udp_init :: "u32 \<Rightarrow> udp \<Rightarrow> udp" where
  "udp_init r s = s\<lparr>udp_port := UDP_ENSURE_LOCAL_PORT_RANGE r\<rparr>"

fun port_in_use :: "(nat \<Rightarrow> udp_pcb option) \<Rightarrow> u16 \<Rightarrow> nat list \<Rightarrow> bool option" where
  "port_in_use m port [] = Some False"
| "port_in_use m port (pcb # pcbs) = do {
     q \<leftarrow> m pcb;
     if udp_local_port q = port then Some True else port_in_use m port pcbs }"

definition next_port :: "u16 \<Rightarrow> u16" where
  "next_port port = (if port = UDP_LOCAL_PORT_RANGE_END then UDP_LOCAL_PORT_RANGE_START else port + 1)"

definition udp_new_port :: "udp \<Rightarrow> (u16 \<times> udp) option" where
  "udp_new_port s = do {
     (r, port) \<leftarrow> port_loop next_port (\<lambda>p. port_in_use (udp_mem s) p (udp_pcbs s)) 0 (udp_port s);
     Some (r, s\<lparr>udp_port := port\<rparr>) }"

section \<open>Control blocks\<close>

text \<open>Another block of the list is bound to the port, and the addresses are equal or one of them is \<open>any\<close>.\<close>

fun bind_conflict :: "(nat \<Rightarrow> udp_pcb option) \<Rightarrow> nat \<Rightarrow> ip_addr_t \<Rightarrow> u16 \<Rightarrow> nat list \<Rightarrow> bool option" where
  "bind_conflict m pcb ip port [] = Some False"
| "bind_conflict m pcb ip port (ipcb # pcbs) =
     (if pcb = ipcb then bind_conflict m pcb ip port pcbs
      else do {
        q \<leftarrow> m ipcb;
        if udp_local_port q = port \<and> (ip_addr_cmp (udp_local_ip q) ip \<or> ip_addr_isany ip \<or> ip_addr_isany (udp_local_ip q))
        then Some True
        else bind_conflict m pcb ip port pcbs })"

definition zoned_ipaddr :: "xnetif list \<Rightarrow> ip_addr_t \<Rightarrow> ip_addr_t" where
  "zoned_ipaddr ns a =
     (if IP_IS_V6 a \<and> ip6_addr_lacks_zone (ip_2_ip6 a) then (ip_addr_set a)\<lparr>u_addr := ip6_addr_select_zone ns (ip_2_ip6 a)\<rparr> else a)"

definition udp_bind :: "xnetif list \<Rightarrow> nat \<Rightarrow> ip_addr_t option \<Rightarrow> u16 \<Rightarrow> udp \<Rightarrow> (err_t \<times> udp) option" where
  "udp_bind ns pcb ipaddr port s = do {
     let ipaddr = (case ipaddr of None \<Rightarrow> IP4_ADDR_ANY | Some a \<Rightarrow> a);
     let rebind = pcb \<in> set (udp_pcbs s);
     let ipaddr = zoned_ipaddr ns ipaddr;
     (fail, port, s) \<leftarrow>
       (if port = 0 then do { (p, s) \<leftarrow> udp_new_port s; Some (p = 0, p, s) }
        else do { c \<leftarrow> bind_conflict (udp_mem s) pcb ipaddr port (udp_pcbs s); Some (c, port, s) });
     if fail then Some (ERR_USE, s)
     else do {
       q \<leftarrow> udp_mem s pcb;
       let s = set_pcb pcb (q\<lparr>udp_local_ip := ip_addr_set ipaddr, udp_local_port := port\<rparr>) s;
       Some (ERR_OK, if rebind then s else s\<lparr>udp_pcbs := pcb # udp_pcbs s\<rparr>) } }"

definition udp_bind_netif :: "nat \<Rightarrow> xnetif option \<Rightarrow> udp \<Rightarrow> udp option" where
  "udp_bind_netif pcb n s = do {
     q \<leftarrow> udp_mem s pcb;
     Some (set_pcb pcb (q\<lparr>udp_netif_idx := (case n of None \<Rightarrow> 0 | Some n \<Rightarrow> xif_idx n)\<rparr>) s) }"

definition udp_connect :: "xnetif list \<Rightarrow> nat \<Rightarrow> ip_addr_t \<Rightarrow> u16 \<Rightarrow> udp \<Rightarrow> (err_t \<times> udp) option" where
  "udp_connect ns pcb ipaddr port s = do {
     q \<leftarrow> udp_mem s pcb;
     (err, s) \<leftarrow> (if udp_local_port q = 0 then udp_bind ns pcb (Some (udp_local_ip q)) 0 s else Some (ERR_OK, s));
     if err \<noteq> ERR_OK then Some (err, s)
     else do {
       q \<leftarrow> udp_mem s pcb;
       let s = set_pcb pcb (q\<lparr>udp_remote_ip := zoned_ipaddr ns (ip_addr_set ipaddr), udp_remote_port := port,
                 udp_flags := udp_flags q OR UDP_FLAGS_CONNECTED\<rparr>) s;
       Some (ERR_OK, if pcb \<in> set (udp_pcbs s) then s else s\<lparr>udp_pcbs := pcb # udp_pcbs s\<rparr>) } }"

definition udp_disconnect :: "nat \<Rightarrow> udp \<Rightarrow> udp option" where
  "udp_disconnect pcb s = do {
     q \<leftarrow> udp_mem s pcb;
     let ip = (if IP_IS_ANY_TYPE (udp_local_ip q) then ip_addr_set IP_ANY_TYPE else ip_addr_set_any (IP_IS_V6 (udp_remote_ip q)));
     Some (set_pcb pcb (q\<lparr>udp_remote_ip := ip, udp_remote_port := 0, udp_netif_idx := 0,
       udp_flags := udp_flags q AND NOT UDP_FLAGS_CONNECTED\<rparr>) s) }"

definition udp_recv :: "nat \<Rightarrow> nat option \<Rightarrow> nat \<Rightarrow> udp \<Rightarrow> udp option" where
  "udp_recv pcb f arg s = do { q \<leftarrow> udp_mem s pcb; Some (set_pcb pcb (q\<lparr>udp_recv_fn := f, udp_recv_arg := arg\<rparr>) s) }"

definition udp_remove :: "nat \<Rightarrow> udp \<Rightarrow> udp option" where
  "udp_remove pcb s = do {
     q \<leftarrow> udp_mem s pcb;
     Some (s\<lparr>udp_pcbs := remove1 pcb (udp_pcbs s), udp_mem := (udp_mem s)(pcb := None)\<rparr>) }"

text \<open>The allocator returns the address of a free block, or nothing.\<close>

definition udp_new :: "nat option \<Rightarrow> udp \<Rightarrow> (nat option \<times> udp) option" where
  "udp_new a s =
     (case a of
        None \<Rightarrow> Some (None, s)
      | Some pcb \<Rightarrow>
          if udp_mem s pcb \<noteq> None then None
          else Some (Some pcb, set_pcb pcb \<lparr>udp_local_ip = IP4_ADDR_ANY, udp_remote_ip = IP4_ADDR_ANY, udp_netif_idx = 0, udp_tos = 0,
            udp_ttl = UDP_TTL, udp_flags = 0, udp_local_port = 0, udp_remote_port = 0, udp_recv_fn = None, udp_recv_arg = 0\<rparr> s))"

definition udp_new_ip_type :: "u8 \<Rightarrow> nat option \<Rightarrow> udp \<Rightarrow> (nat option \<times> udp) option" where
  "udp_new_ip_type type a s = do {
     (r, s) \<leftarrow> udp_new a s;
     case r of
       None \<Rightarrow> Some (None, s)
     | Some pcb \<Rightarrow> do {
         q \<leftarrow> udp_mem s pcb;
         Some (Some pcb, set_pcb pcb (q\<lparr>udp_local_ip := (udp_local_ip q)\<lparr>iptype := type\<rparr>,
           udp_remote_ip := (udp_remote_ip q)\<lparr>iptype := type\<rparr>\<rparr>) s) } }"

fun addr_changed_loop :: "ip_addr_t \<Rightarrow> ip_addr_t \<Rightarrow> nat list \<Rightarrow> udp \<Rightarrow> udp option" where
  "addr_changed_loop old_addr new_addr [] s = Some s"
| "addr_changed_loop old_addr new_addr (upcb # pcbs) s = do {
     q \<leftarrow> udp_mem s upcb;
     addr_changed_loop old_addr new_addr pcbs
       (if ip_addr_cmp (udp_local_ip q) old_addr then set_pcb upcb (q\<lparr>udp_local_ip := ip_addr_set new_addr\<rparr>) s else s) }"

definition udp_netif_ip_addr_changed :: "ip_addr_t \<Rightarrow> ip_addr_t \<Rightarrow> udp \<Rightarrow> udp option" where
  "udp_netif_ip_addr_changed old_addr new_addr s =
     (if \<not> ip_addr_isany old_addr \<and> \<not> ip_addr_isany new_addr then addr_changed_loop old_addr new_addr (udp_pcbs s) s else Some s)"

section \<open>Input\<close>

text \<open>
  What becomes of a datagram: it is dropped, handed to the callback of a control block (with its argument, the data, and
  both addresses and ports), or answered with a port unreachable message.
\<close>

datatype udp_result =
    Udp_Dropped
  | Udp_Recv nat nat nat pkt ip_addr_t u16 ip_addr_t u16
  | Udp_Unreachable

text \<open>\<open>src\<close> and \<open>dest\<close> are the addresses of the packet, which begins with the UDP header.\<close>

definition udp_input :: "xnetif \<Rightarrow> ip_addr_t \<Rightarrow> ip_addr_t \<Rightarrow> pkt \<Rightarrow> udp \<Rightarrow> udp_result option" where
  "udp_input inp src dest p s =
     (if pkt_first p < 8 then Some Udp_Dropped
      else do {
        sport \<leftarrow> pkt_u16 p 0;
        dport \<leftarrow> pkt_u16 p 2;
        let broadcast = ip_addr_isbroadcast dest (xif inp);
        let pcb = (case udp_pcbs s of [] \<Rightarrow> None | pcb # _ \<Rightarrow> Some pcb);
        let for_us = (pcb \<noteq> None \<or> (if IP_IS_V6 dest then netif_get_ip6_addr_match inp (ip_2_ip6 dest) \<ge> 0
                                       else nif_ip (xif inp) = ip_2_ip4 dest));
        if \<not> for_us then Some Udp_Dropped
        else do {
          d \<leftarrow> pkt_remove_header 8 p;
          case pcb of
            Some pcb \<Rightarrow> do {
              q \<leftarrow> udp_mem s pcb;
              case udp_recv_fn q of
                None \<Rightarrow> Some Udp_Dropped
              | Some f \<Rightarrow> Some (Udp_Recv pcb f (udp_recv_arg q) d src (lwip_htons sport) dest (lwip_htons dport)) }
          | None \<Rightarrow> if \<not> broadcast \<and> \<not> ip_addr_ismulticast dest then Some Udp_Unreachable else Some Udp_Dropped } })"

section \<open>Output\<close>

text \<open>What is sent: packets of IPv4 and the error code, or the arguments with which \<^verbatim>\<open>ip6_output_if_src\<close> is called.\<close>

datatype udp_sent =
    Udp_Sent err_t "ip_out list"
  | Udp_To_Ip6 ip6_addr_t ip6_addr_t u8 u8 u8 "u8 list"

text \<open>The checksums of \<^verbatim>\<open>inet_chksum.c\<close>, on the bytes.\<close>

definition pkt_chksum_pseudo :: "u8 list \<Rightarrow> u8 \<Rightarrow> u16 \<Rightarrow> ip_addr_t \<Rightarrow> ip_addr_t \<Rightarrow> u16" where
  "pkt_chksum_pseudo bs pr len src dest =
     NOT (lwip_standard_chksum 0
       ((if IP_IS_V6 dest then pseudo6_header (ip_2_ip6 src) (ip_2_ip6 dest) pr len else pseudo4_header (ip_2_ip4 src) (ip_2_ip4 dest) pr len) @ bs))"

definition udp_hdr_bytes :: "u16 \<Rightarrow> u16 \<Rightarrow> u16 \<Rightarrow> u16 \<Rightarrow> u8 list" where
  "udp_hdr_bytes sport dport len chk = bytes16 (lwip_htons sport) @ bytes16 (lwip_htons dport) @ bytes16 (lwip_htons len) @ bytes16 chk"

text \<open>\<open>given\<close> is the checksum of the data when the caller has it.\<close>

definition udp_chksum :: "u16 \<Rightarrow> u16 \<Rightarrow> u8 list \<Rightarrow> u16 option \<Rightarrow> ip_addr_t \<Rightarrow> ip_addr_t \<Rightarrow> u16" where
  "udp_chksum sport dport bs given src dest =
     (let len = of_nat (8 + length bs);
          hdr = udp_hdr_bytes sport dport len 0;
          c = (case given of
                 Some chksum \<Rightarrow> ucast (FOLD_U32T (ucast (pkt_chksum_pseudo hdr IP_PROTO_UDP len src dest) + ucast (NOT chksum)))
               | None \<Rightarrow> pkt_chksum_pseudo (hdr @ bs) IP_PROTO_UDP len src dest)
      in if c = 0 then 0xffff else c)"

text \<open>
  \<^verbatim>\<open>udp_sendto_if_src_chksum\<close>. \<open>room\<close>: there is room for the UDP header in front of the data, \<open>ip_room\<close>: for the IP header
  as well; a header pbuf of its own (if \<open>alloc\<close>) has room for both. \<open>mems\<close> and \<open>ident\<close> are those of \<^verbatim>\<open>ip4.c\<close>.
\<close>

record udp_env =
  env_netifs :: "xnetif list"
  env_room :: bool
  env_ip_room :: bool
  env_alloc :: bool
  env_mems :: "bool list"

definition udp_sendto_if_src_chksum ::
    "udp_env \<Rightarrow> nat \<Rightarrow> u8 list \<Rightarrow> ip_addr_t \<Rightarrow> u16 \<Rightarrow> xnetif \<Rightarrow> u16 option \<Rightarrow> ip_addr_t \<Rightarrow> u16 \<Rightarrow> udp \<Rightarrow> u16
       \<Rightarrow> (udp_sent \<times> udp \<times> u16) option" where
  "udp_sendto_if_src_chksum env pcb bs dst_ip dst_port n given src_ip src_port s ident = do {
     q \<leftarrow> udp_mem s pcb;
     if \<not> IP_ADDR_PCB_VERSION_MATCH q src_ip \<or> \<not> IP_ADDR_PCB_VERSION_MATCH q dst_ip then Some (Udp_Sent ERR_VAL [], s, ident)
     else do {
       (err, s) \<leftarrow> (if udp_local_port q = 0 then udp_bind (env_netifs env) pcb (Some (udp_local_ip q)) 0 s else Some (ERR_OK, s));
       q \<leftarrow> udp_mem s pcb;
       if err \<noteq> ERR_OK then Some (Udp_Sent err [], s, ident)
       else if (of_nat (length bs) + 8 :: u16) < of_nat (length bs) then Some (Udp_Sent ERR_MEM [], s, ident)
       else if \<not> env_room env \<and> \<not> env_alloc env then Some (Udp_Sent ERR_MEM [], s, ident)
       else do {
         let chk = (if IP_IS_V6 dst_ip \<or> udp_flags q AND UDP_FLAGS_NOCHKSUM = 0
                    then udp_chksum src_port dst_port bs given src_ip dst_ip else 0);
         let dgram = udp_hdr_bytes src_port dst_port (of_nat (8 + length bs)) chk @ bs;
         if IP_IS_V6 dst_ip
         then Some (Udp_To_Ip6 (ip_2_ip6 src_ip) (ip_2_ip6 dst_ip) (udp_ttl q) (udp_tos q) IP_PROTO_UDP dgram, s, ident)
         else do {
           (e, out, ident) \<leftarrow> ip4_output_if_src (xif n) (env_room env \<longrightarrow> env_ip_room env) (env_mems env) dgram
                                 (ip_2_ip4 src_ip) (ip_2_ip4 dst_ip) (udp_ttl q) (udp_tos q) IP_PROTO_UDP ident;
           Some (Udp_Sent e out, s, ident) } } } }"

definition udp_sendto_if_src where
  "udp_sendto_if_src env pcb bs dst_ip dst_port n src_ip src_port s ident =
     udp_sendto_if_src_chksum env pcb bs dst_ip dst_port n None src_ip src_port s ident"

definition udp_sendto_if_chksum ::
    "udp_env \<Rightarrow> nat \<Rightarrow> u8 list \<Rightarrow> ip_addr_t \<Rightarrow> u16 \<Rightarrow> xnetif \<Rightarrow> u16 option \<Rightarrow> ip_addr_t \<Rightarrow> u16 \<Rightarrow> udp \<Rightarrow> u16
       \<Rightarrow> (udp_sent \<times> udp \<times> u16) option" where
  "udp_sendto_if_chksum env pcb bs dst_ip dst_port n given src_ip src_port s ident = do {
     q \<leftarrow> udp_mem s pcb;
     if \<not> IP_ADDR_PCB_VERSION_MATCH q dst_ip then Some (Udp_Sent ERR_VAL [], s, ident)
     else udp_sendto_if_src_chksum env pcb bs dst_ip dst_port n given src_ip src_port s ident }"

definition udp_sendto_if where
  "udp_sendto_if env pcb bs dst_ip dst_port n src_ip src_port s ident =
     udp_sendto_if_chksum env pcb bs dst_ip dst_port n None src_ip src_port s ident"

definition udp_sendto_chksum ::
    "udp_env \<Rightarrow> nat \<Rightarrow> u8 list \<Rightarrow> ip_addr_t \<Rightarrow> u16 \<Rightarrow> u16 option \<Rightarrow> ip_addr_t \<Rightarrow> u16 \<Rightarrow> udp \<Rightarrow> u16
       \<Rightarrow> (udp_sent \<times> udp \<times> u16) option" where
  "udp_sendto_chksum env pcb bs dst_ip dst_port given src_ip src_port s ident = do {
     q \<leftarrow> udp_mem s pcb;
     if \<not> IP_ADDR_PCB_VERSION_MATCH q dst_ip then Some (Udp_Sent ERR_VAL [], s, ident)
     else
       case (if udp_netif_idx q \<noteq> 0 then netif_get_by_index (env_netifs env) (udp_netif_idx q) else ip6_route (env_netifs env)) of
         None \<Rightarrow> Some (Udp_Sent ERR_RTE [], s, ident)
       | Some n \<Rightarrow> udp_sendto_if_chksum env pcb bs dst_ip dst_port n given src_ip src_port s ident }"

definition udp_sendto where
  "udp_sendto env pcb bs dst_ip dst_port src_ip src_port s ident =
     udp_sendto_chksum env pcb bs dst_ip dst_port None src_ip src_port s ident"

text \<open>\<^verbatim>\<open>udp_send\<close> and \<^verbatim>\<open>udp_send_chksum\<close> do nothing in this port.\<close>

definition udp_send :: "nat \<Rightarrow> udp \<Rightarrow> err_t option" where
  "udp_send pcb s = do { q \<leftarrow> udp_mem s pcb; Some (if IP_IS_ANY_TYPE (udp_remote_ip q) then ERR_VAL else ERR_OK) }"

end
