(* ===== verification/Udp_Inv.thy ===== *)
theory Udp_Inv
  imports Udp
begin

text \<open>
  The control blocks of UDP: the search for a port, and the invariant that every operation keeps. The blocks on the list are
  allocated, different and bound, and no two of them clash: two blocks on the same port are bound to different addresses,
  neither of which is the wildcard.
\<close>

unbundle bit_operations_syntax

section \<open>Ports\<close>

abbreviation dynamic_ports :: "u16 set" where
  "dynamic_ports \<equiv> {p. 0xc000 \<le> p}"

lemma unat_next_port: "0xc000 \<le> p \<Longrightarrow> unat (next_port p) = 49152 + (unat p - 49152 + 1) mod 16384"
proof -
  assume "0xc000 \<le> p"
  then have p: "49152 \<le> unat p" "unat p < 65536" using unat_u16_lt [of p] by (simp_all add: word_le_nat_alt)
  show ?thesis
  proof (cases "p = 0xffff")
    case False
    then have "unat p \<noteq> 65535" by (simp add: word_unat_eq_iff)
    then have "unat p < 65535" using p by simp
    then show ?thesis using False p by (simp add: next_port_def unat_word_ariths)
  qed (simp add: next_port_def)
qed

lemma next_port_range: "0xc000 \<le> p \<Longrightarrow> 0xc000 \<le> next_port p"
  using unat_next_port [of p] by (simp add: word_le_nat_alt)

lemma unat_next_ports: "0xc000 \<le> p \<Longrightarrow> unat ((next_port ^^ k) p) = 49152 + (unat p - 49152 + k) mod 16384 \<and> 0xc000 \<le> (next_port ^^ k) p"
proof (induction k)
  case 0
  then show ?case using unat_u16_lt [of p] by (simp add: word_le_nat_alt)
next
  case (Suc k)
  then show ?case by (simp add: unat_next_port next_port_range mod_Suc_eq)
qed

interpretation udp_ports: port_range next_port dynamic_ports
proof
  fix p q :: u16 assume p: "p \<in> dynamic_ports" and q: "q \<in> dynamic_ports"
  let ?a = "unat (next_port p) - 49152" and ?b = "unat q - 49152"
  have n: "0xc000 \<le> next_port p" using p next_port_range by simp
  then have a: "?a < 16384" "unat (next_port p) = 49152 + ?a" using unat_u16_lt [of "next_port p"] by (simp_all add: word_le_nat_alt)
  have b: "?b < 16384" "unat q = 49152 + ?b" using q unat_u16_lt [of q] by (simp_all add: word_le_nat_alt)
  let ?k = "(?b + 16384 - ?a) mod 16384"
  have "(?a + ?k) mod 16384 = (?a + (?b + 16384 - ?a)) mod 16384" by (simp only: mod_add_right_eq)
  also have "\<dots> = ?b" using a(1) b(1) by simp
  finally have "unat ((next_port ^^ ?k) (next_port p)) = unat q" using unat_next_ports [OF n, of ?k] b(2) by simp
  then have "(next_port ^^ ?k) (next_port p) = q" by (simp only: word_unat_eq_iff)
  moreover have "?k < 16384" by simp
  ultimately show "\<exists>k < 16384. (next_port ^^ k) (next_port p) = q" by blast
qed (simp_all add: next_port_range)

definition bound_ports :: "udp \<Rightarrow> u16 set" where
  "bound_ports s = (\<lambda>a. udp_local_port (the (udp_mem s a))) ` set (udp_pcbs s)"

lemma port_in_use_eq:
  "(\<And>a. a \<in> set as \<Longrightarrow> m a \<noteq> None) \<Longrightarrow> port_in_use m p as = Some (p \<in> (\<lambda>a. udp_local_port (the (m a))) ` set as)"
proof (induction as)
  case (Cons a as)
  then obtain q where "m a = Some q" by fastforce
  with Cons show ?case by auto
qed simp

lemma udp_new_port_search:
  assumes "\<forall>a \<in> set (udp_pcbs s). udp_mem s a \<noteq> None" and "0xc000 \<le> udp_port s"
  shows "\<exists>r p. udp_new_port s = Some (r, s\<lparr>udp_port := p\<rparr>) \<and> 0xc000 \<le> p
    \<and> (if dynamic_ports \<subseteq> bound_ports s then r = 0 else r \<in> dynamic_ports - bound_ports s)"
proof -
  have t: "port_in_use (udp_mem s) p (udp_pcbs s) = Some (p \<in> bound_ports s)" for p
    unfolding bound_ports_def by (rule port_in_use_eq) (use assms(1) in blast)
  show ?thesis
    using udp_ports.search [of "\<lambda>p. port_in_use (udp_mem s) p (udp_pcbs s)" "bound_ports s" "udp_port s"] t assms(2)
    unfolding udp_new_port_def by (fastforce split: if_splits)
qed

section \<open>The invariant\<close>

definition clash :: "udp_pcb \<Rightarrow> udp_pcb \<Rightarrow> bool" where
  "clash q r \<longleftrightarrow> udp_local_port q = udp_local_port r
     \<and> (ip_addr_cmp (udp_local_ip q) (udp_local_ip r) \<or> ip_addr_isany (udp_local_ip q) \<or> ip_addr_isany (udp_local_ip r))"

definition udp_ok :: "udp \<Rightarrow> bool" where
  "udp_ok s \<longleftrightarrow> distinct (udp_pcbs s) \<and> 0xc000 \<le> udp_port s
     \<and> (\<forall>a \<in> set (udp_pcbs s). \<exists>q. udp_mem s a = Some q \<and> udp_local_port q \<noteq> 0)
     \<and> (\<forall>a q. udp_mem s a = Some q \<longrightarrow> a \<notin> set (udp_pcbs s) \<longrightarrow> udp_local_port q = 0)
     \<and> (\<forall>a b q r. a \<in> set (udp_pcbs s) \<longrightarrow> b \<in> set (udp_pcbs s) \<longrightarrow> a \<noteq> b \<longrightarrow> udp_mem s a = Some q \<longrightarrow> udp_mem s b = Some r \<longrightarrow> \<not> clash q r)"

lemma clash_sym: "clash q r \<longleftrightarrow> clash r q"
  by (auto simp: clash_def ip_addr_cmp_sym)

lemma clash_cong: "udp_local_port q = udp_local_port q' \<Longrightarrow> udp_local_ip q = udp_local_ip q' \<Longrightarrow> clash q r \<longleftrightarrow> clash q' r"
  by (simp add: clash_def)

lemma set_pcb_simps [simp]: "udp_mem (set_pcb a q s) = (udp_mem s)(a \<mapsto> q)" "udp_pcbs (set_pcb a q s) = udp_pcbs s" "udp_port (set_pcb a q s) = udp_port s"
  by (simp_all add: set_pcb_def)

text \<open>A block may change in everything but its address and port.\<close>

lemma udp_ok_set_pcb:
  assumes "udp_ok s" "udp_mem s a = Some q" "udp_local_port q' = udp_local_port q" "udp_local_ip q' = udp_local_ip q"
  shows "udp_ok (set_pcb a q' s)"
  using assms unfolding udp_ok_def by (auto simp: clash_def)

lemma udp_ok_pcb: "udp_ok s \<Longrightarrow> a \<in> set (udp_pcbs s) \<Longrightarrow> \<exists>q. udp_mem s a = Some q \<and> udp_local_port q \<noteq> 0"
  by (simp add: udp_ok_def)

text \<open>Binding a block to an address and a port that clash with no other block.\<close>

lemma udp_ok_bound:
  assumes "udp_ok s" "udp_mem s a = Some q" "udp_local_port q' \<noteq> 0"
    and "\<And>b r. b \<in> set (udp_pcbs s) \<Longrightarrow> b \<noteq> a \<Longrightarrow> udp_mem s b = Some r \<Longrightarrow> \<not> clash q' r"
  shows "udp_ok (if a \<in> set (udp_pcbs s) then set_pcb a q' s else (set_pcb a q' s)\<lparr>udp_pcbs := a # udp_pcbs (set_pcb a q' s)\<rparr>)"
  using assms unfolding udp_ok_def by (auto simp: clash_sym [of _ q'])

definition collides :: "udp_pcb \<Rightarrow> ip_addr_t \<Rightarrow> u16 \<Rightarrow> bool" where
  "collides r ip port \<longleftrightarrow> udp_local_port r = port \<and> (ip_addr_cmp (udp_local_ip r) ip \<or> ip_addr_isany ip \<or> ip_addr_isany (udp_local_ip r))"

lemma bind_conflict_eq:
  assumes "\<And>b. b \<in> set as \<Longrightarrow> m b \<noteq> None"
  shows "bind_conflict m a ip port as = Some (\<exists>b \<in> set as - {a}. collides (the (m b)) ip port)"
  using assms
proof (induction as)
  case (Cons b as)
  then obtain r where "m b = Some r" by fastforce
  with Cons show ?case by (auto simp: collides_def insert_Diff_if)
qed simp

lemma bind_ok:
  assumes ok: "udp_ok s" and q: "udp_mem s a = Some q"
  shows "\<exists>e s'. udp_bind ns a ip port s = Some (e, s') \<and> udp_ok s' \<and> (e = ERR_OK \<or> e = ERR_USE)
    \<and> (e = ERR_OK \<longrightarrow> a \<in> set (udp_pcbs s') \<and> (port \<noteq> 0 \<longrightarrow> (\<exists>q'. udp_mem s' a = Some q' \<and> udp_local_port q' = port)))
    \<and> (\<forall>b. udp_mem s' b = None \<longleftrightarrow> udp_mem s b = None)
    \<and> (e = ERR_USE \<longrightarrow> udp_mem s' = udp_mem s \<and> udp_pcbs s' = udp_pcbs s)"
proof -
  define addr where "addr = zoned_ipaddr ns (case ip of None \<Rightarrow> IP4_ADDR_ANY | Some a \<Rightarrow> a)"
  have alloc: "\<forall>a \<in> set (udp_pcbs s). udp_mem s a \<noteq> None" using udp_ok_pcb [OF ok] by fastforce
  let ?bound = "\<lambda>p s. if a \<in> set (udp_pcbs s) then set_pcb a (q\<lparr>udp_local_ip := ip_addr_set addr, udp_local_port := p\<rparr>) s
      else (set_pcb a (q\<lparr>udp_local_ip := ip_addr_set addr, udp_local_port := p\<rparr>) s)
        \<lparr>udp_pcbs := a # udp_pcbs (set_pcb a (q\<lparr>udp_local_ip := ip_addr_set addr, udp_local_port := p\<rparr>) s)\<rparr>"
  show ?thesis
  proof (cases "port = 0")
    case True
    obtain r p where r: "udp_new_port s = Some (r, s\<lparr>udp_port := p\<rparr>)" "0xc000 \<le> p" "r = 0 \<or> r \<in> dynamic_ports - bound_ports s"
      using udp_new_port_search [OF alloc] ok by (auto simp: udp_ok_def split: if_splits)
    have ok': "udp_ok (s\<lparr>udp_port := p\<rparr>)" using ok r(2) by (simp add: udp_ok_def)
    have bind: "udp_bind ns a ip port s = (if r = 0 then Some (ERR_USE, s\<lparr>udp_port := p\<rparr>) else Some (ERR_OK, ?bound r (s\<lparr>udp_port := p\<rparr>)))"
      using True r(1) q by (simp add: udp_bind_def addr_def Let_def)
    show ?thesis
    proof (cases "r = 0")
      case False
      then have fresh: "r \<notin> bound_ports s" using r(3) by simp
      have "udp_ok (?bound r (s\<lparr>udp_port := p\<rparr>))"
        by (rule udp_ok_bound [OF ok', of a q]) (use q False fresh in \<open>force simp: clash_def bound_ports_def\<close>)+
      then show ?thesis using bind False True q by auto
    qed (use bind ok' in auto)
  next
    case False
    let ?c = "\<exists>b \<in> set (udp_pcbs s) - {a}. collides (the (udp_mem s b)) addr port"
    have c: "bind_conflict (udp_mem s) a addr port (udp_pcbs s) = Some ?c" by (rule bind_conflict_eq) (use alloc in blast)
    have bind: "udp_bind ns a ip port s = (if ?c then Some (ERR_USE, s) else Some (ERR_OK, ?bound port s))"
      using False q c by (simp add: udp_bind_def addr_def [symmetric] Let_def)
    show ?thesis
    proof (cases ?c)
      case c: False
      have "udp_ok (?bound port s)"
        by (rule udp_ok_bound [OF ok q]) (use False c in \<open>force simp: clash_def collides_def ip_addr_cmp_sym [of addr]\<close>)+
      then show ?thesis using bind c q by auto
    qed (use bind ok in auto)
  qed
qed

section \<open>The other operations\<close>

lemma bind_keeps: "udp_ok s \<Longrightarrow> udp_mem s a \<noteq> None \<Longrightarrow> udp_bind ns a ip port s = Some (e, s') \<Longrightarrow> udp_ok s'"
  using bind_ok by (metis not_None_eq option.inject prod.inject)

text \<open>A block that is used before it is bound is bound to a port of the dynamic range.\<close>

lemma auto_bind_ok:
  assumes ok: "udp_ok s" and q: "udp_mem s a = Some q"
  obtains e s' q' where "(if udp_local_port q = 0 then udp_bind ns a (Some (udp_local_ip q)) 0 s else Some (ERR_OK, s)) = Some (e, s')"
    "udp_ok s'" "e = ERR_OK \<longrightarrow> a \<in> set (udp_pcbs s')" "udp_mem s' a = Some q'"
proof (cases "udp_local_port q = 0")
  case True
  obtain e s' where b: "udp_bind ns a (Some (udp_local_ip q)) 0 s = Some (e, s')" "udp_ok s'" "e = ERR_OK \<longrightarrow> a \<in> set (udp_pcbs s')"
      "\<forall>b. udp_mem s' b = None \<longleftrightarrow> udp_mem s b = None"
    using bind_ok [OF ok q, of ns "Some (udp_local_ip q)" 0] by blast
  then obtain q' where "udp_mem s' a = Some q'" using q by fastforce
  with b True that show ?thesis by simp
next
  case False
  then have "a \<in> set (udp_pcbs s)" using ok q unfolding udp_ok_def by blast
  then show ?thesis using False ok q that by simp
qed

lemma udp_connect_ok:
  assumes ok: "udp_ok s" and q: "udp_mem s a = Some q"
  shows "\<exists>e s'. udp_connect ns a ip port s = Some (e, s') \<and> udp_ok s' \<and> (e = ERR_OK \<longrightarrow> a \<in> set (udp_pcbs s'))"
proof -
  obtain e s' q' where b: "(if udp_local_port q = 0 then udp_bind ns a (Some (udp_local_ip q)) 0 s else Some (ERR_OK, s)) = Some (e, s')"
    "udp_ok s'" "e = ERR_OK \<longrightarrow> a \<in> set (udp_pcbs s')" "udp_mem s' a = Some q'" by (rule auto_bind_ok [OF ok q, where ns = ns])
  let ?s = "set_pcb a (q'\<lparr>udp_remote_ip := zoned_ipaddr ns (ip_addr_set ip), udp_remote_port := port,
      udp_flags := udp_flags q' OR UDP_FLAGS_CONNECTED\<rparr>) s'"
  have "udp_connect ns a ip port s = Some (if e = ERR_OK then (ERR_OK, ?s) else (e, s'))"
    using q b(3,4) by (simp add: udp_connect_def b(1) Let_def)
  moreover have "udp_ok ?s" by (rule udp_ok_set_pcb [OF b(2,4)]) simp_all
  ultimately show ?thesis using b by (cases "e = ERR_OK") auto
qed

lemma udp_remove_ok: "udp_ok s \<Longrightarrow> udp_mem s a = Some q \<Longrightarrow> \<exists>s'. udp_remove a s = Some s' \<and> udp_ok s' \<and> a \<notin> set (udp_pcbs s') \<and> udp_mem s' a = None"
  unfolding udp_remove_def udp_ok_def by (auto simp: set_remove1_eq)

lemma udp_new_ok: "udp_ok s \<Longrightarrow> (\<And>a. x = Some a \<Longrightarrow> udp_mem s a = None) \<Longrightarrow> \<exists>s'. udp_new_ip_type type x s = Some (x, s') \<and> udp_ok s'"
  by (cases x) (auto simp: udp_new_ip_type_def udp_new_def udp_ok_def)

lemma udp_sendto_src_ok:
  assumes "udp_ok s" "udp_sendto_if_src_chksum env a bs dst dport n given src sport s ident = Some (r, s', ident')"
  shows "udp_ok s'"
proof -
  obtain q where q: "udp_mem s a = Some q" using assms(2) by (cases "udp_mem s a") (simp_all add: udp_sendto_if_src_chksum_def)
  obtain e s1 q' where b: "(if udp_local_port q = 0 then udp_bind (env_netifs env) a (Some (udp_local_ip q)) 0 s else Some (ERR_OK, s)) = Some (e, s1)"
    "udp_ok s1" "e = ERR_OK \<longrightarrow> a \<in> set (udp_pcbs s1)" "udp_mem s1 a = Some q'" by (rule auto_bind_ok [OF assms(1) q, where ns = "env_netifs env"])
  show ?thesis using assms b(2) unfolding udp_sendto_if_src_chksum_def q bind.bind_lunit b(1) prod.case b(4) Let_def
    by (auto simp: bind_eq_Some_conv split: if_splits)
qed

lemma udp_sendto_ok:
  assumes "udp_ok s" "udp_sendto_chksum env a bs dst dport given src sport s ident = Some (r, s', ident')"
  shows "udp_ok s'"
  using assms udp_sendto_src_ok [OF assms(1)]
  by (auto simp: udp_sendto_chksum_def udp_sendto_if_chksum_def bind_eq_Some_conv split: if_splits option.splits)

section \<open>Runs\<close>

text \<open>The calls of an application, each on a control block that it has not given back.\<close>

inductive udp_call :: "xnetif list \<Rightarrow> udp \<Rightarrow> udp \<Rightarrow> bool" for ns where
  new: "(\<And>a. x = Some a \<Longrightarrow> udp_mem s a = None) \<Longrightarrow> udp_new_ip_type type x s = Some (y, s') \<Longrightarrow> udp_call ns s s'"
| bind: "udp_mem s a \<noteq> None \<Longrightarrow> udp_bind ns a ip port s = Some (e, s') \<Longrightarrow> udp_call ns s s'"
| bind_netif: "udp_mem s a \<noteq> None \<Longrightarrow> udp_bind_netif a n s = Some s' \<Longrightarrow> udp_call ns s s'"
| connect: "udp_mem s a \<noteq> None \<Longrightarrow> udp_connect ns a ip' port s = Some (e, s') \<Longrightarrow> udp_call ns s s'"
| disconnect: "udp_mem s a \<noteq> None \<Longrightarrow> udp_disconnect a s = Some s' \<Longrightarrow> udp_call ns s s'"
| recv: "udp_mem s a \<noteq> None \<Longrightarrow> udp_recv a f arg s = Some s' \<Longrightarrow> udp_call ns s s'"
| remove: "udp_mem s a \<noteq> None \<Longrightarrow> udp_remove a s = Some s' \<Longrightarrow> udp_call ns s s'"
| send: "udp_mem s a \<noteq> None \<Longrightarrow> udp_sendto_chksum env a bs dst dport given src sport s ident = Some (r, s', ident') \<Longrightarrow> udp_call ns s s'"

definition udp_start :: udp where
  "udp_start = \<lparr>udp_mem = (\<lambda>_. None), udp_pcbs = [], udp_port = 0xc000\<rparr>"

inductive udp_reach :: "xnetif list \<Rightarrow> udp \<Rightarrow> bool" for ns where
  start: "udp_reach ns (udp_init r udp_start)"
| step: "udp_reach ns s \<Longrightarrow> udp_call ns s s' \<Longrightarrow> udp_reach ns s'"

lemma ensure_range: "0xc000 \<le> UDP_ENSURE_LOCAL_PORT_RANGE r"
proof -
  have "unat (r AND 0x3fff) < 16384" using unat_take_bit_word [of 14 r] by (simp add: take_bit_eq_mask mask_eq_exp_minus_1)
  then have "unat ((r AND 0x3fff) + 0xc000) = unat (r AND 0x3fff) + 49152" by (simp add: unat_add_u32)
  with \<open>unat (r AND 0x3fff) < 16384\<close> have "unat (ucast ((r AND 0x3fff) + 0xc000) :: u16) = unat (r AND 0x3fff) + 49152"
    by (simp add: unsigned_ucast_eq take_bit_nat_eq_self)
  moreover have "UDP_ENSURE_LOCAL_PORT_RANGE r = ucast ((r AND 0x3fff) + 0xc000)"
  proof -
    have "ucast (NOT (0xc000 :: u16)) = (0x3fff :: u32)" by simp
    then show ?thesis by (simp add: UDP_ENSURE_LOCAL_PORT_RANGE_def)
  qed
  ultimately show ?thesis by (simp add: word_le_nat_alt)
qed

lemma udp_call_ok:
  assumes "udp_call ns s s'" "udp_ok s"
  shows "udp_ok s'"
  using assms
proof cases
  case (new x type y)
  then show ?thesis using udp_new_ok [OF assms(2), of x type] by auto
next
  case (bind a ip port e)
  then show ?thesis using bind_keeps [OF assms(2)] by blast
next
  case (connect a ip port e)
  then show ?thesis using udp_connect_ok [OF assms(2)] by (metis not_None_eq option.inject prod.inject)
next
  case (remove a)
  then show ?thesis using udp_remove_ok [OF assms(2)] by (metis not_None_eq option.inject)
next
  case (send a)
  then show ?thesis using udp_sendto_ok [OF assms(2)] by blast
qed (auto simp: udp_bind_netif_def udp_disconnect_def udp_recv_def bind_eq_Some_conv Let_def intro: udp_ok_set_pcb [OF assms(2)])

lemma udp_reach_ok: "udp_reach ns s \<Longrightarrow> udp_ok s"
proof (induction rule: udp_reach.induct)
  case (start r)
  then show ?case using ensure_range by (simp add: udp_ok_def udp_init_def udp_start_def)
qed (rule udp_call_ok)

end
