(* ===== verification/Udp_Theorems.thy ===== *)
theory Udp_Theorems
  imports Udp_Inv
begin

text \<open>
  What UDP promises: ports and control blocks, the checksum of a datagram, and the way of a datagram from one stack through IP,
  in fragments or not, to the application on top of another one.
\<close>

unbundle bit_operations_syntax

section \<open>Ports and control blocks\<close>

text \<open>
  C29. The search for a local port ends for every list of control blocks. It fails (with the port 0) exactly when all 16384 ports of the
  dynamic range are in use; otherwise the port found belongs to the range and no control block is bound to it.
\<close>

theorem udp_new_port_finds:
  assumes "\<forall>a \<in> set (udp_pcbs s). udp_mem s a \<noteq> None" and "0xc000 \<le> udp_port s"
  shows "\<exists>r p. udp_new_port s = Some (r, s\<lparr>udp_port := p\<rparr>) \<and> 0xc000 \<le> p
    \<and> (if dynamic_ports \<subseteq> bound_ports s then r = 0 else r \<in> dynamic_ports - bound_ports s)"
  by (rule udp_new_port_search [OF assms])


section \<open>The checksum\<close>

lemma length_udp_hdr [simp]: "length (udp_hdr_bytes sport dport len c) = 8"
  by (simp add: udp_hdr_bytes_def)

definition pseudo_header :: "ip_addr_t \<Rightarrow> ip_addr_t \<Rightarrow> u8 \<Rightarrow> u16 \<Rightarrow> u8 list" where
  "pseudo_header src dest pr len =
     (if IP_IS_V6 dest then pseudo6_header (ip_2_ip6 src) (ip_2_ip6 dest) pr len else pseudo4_header (ip_2_ip4 src) (ip_2_ip4 dest) pr len)"

lemma pseudo_header_length: "length (pseudo_header src dest pr len) = (if IP_IS_V6 dest then 40 else 12)"
  by (simp add: pseudo_header_def pseudo4_header_def pseudo6_header_def ip6_words_def)

text \<open>A field that holds 0xffff instead of 0 is right as well.\<close>

lemma chksum_not_zero:
  assumes "even (length xs)" "length (xs @ 0 # 0 # ys) \<le> 0x20000"
    and v: "v = NOT (lwip_standard_chksum a (xs @ 0 # 0 # ys))"
  shows "NOT (lwip_standard_chksum b (xs @ bytes16 (if v = 0 then 0xffff else v) @ ys)) = 0"
proof (cases "v = 0")
  case True
  let ?S = "le_sum (xs @ 0 # 0 # ys)"
  have "65535 - unat (lwip_standard_chksum a (xs @ 0 # 0 # ys)) = 0" using v True unat_not16 by (metis unat_0)
  then have c: "unat (lwip_standard_chksum a (xs @ 0 # 0 # ys)) = 65535" using unat_u16_lt [of "lwip_standard_chksum a (xs @ 0 # 0 # ys)"] by simp
  have "le_sum (xs @ bytes16 0xffff @ ys) = ?S + 65535" using assms(1) by (simp add: sums_append le_sum_bytes16)
  moreover have "ocrep 65535 ?S" using chksum2.chk_rep [OF assms(2), of a] c by simp
  ultimately have "ocrep 65535 (le_sum (xs @ bytes16 0xffff @ ys))" by (simp add: ocrep_def)
  then have "unat (lwip_standard_chksum b (xs @ bytes16 0xffff @ ys)) = 65535"
    using ocrep_unique [of 65535] chksum2.chk_value [of "xs @ bytes16 0xffff @ ys" b] assms(2) by simp
  then have "lwip_standard_chksum b (xs @ bytes16 0xffff @ ys) = 0xffff" by (simp add: word_unat_eq_iff)
  then show ?thesis using True by simp
next
  case False
  then show ?thesis using chksum2.chk_complement [OF assms, of b] by simp
qed

lemma udp_chksum_verifies:
  assumes "length bs \<le> 65507"
  shows "NOT (lwip_standard_chksum b (pseudo_header src dest 17 (of_nat (8 + length bs))
      @ udp_hdr_bytes sport dport (of_nat (8 + length bs)) (udp_chksum sport dport bs None src dest) @ bs)) = 0"
proof -
  let ?len = "of_nat (8 + length bs) :: u16"
  define xs where "xs = pseudo_header src dest 17 ?len @ bytes16 (lwip_htons sport) @ bytes16 (lwip_htons dport) @ bytes16 (lwip_htons ?len)"
  define v where "v = NOT (lwip_standard_chksum 0 (xs @ 0 # 0 # bs))"
  have z: "bytes16 0 = [0, 0]" by code_simp
  have "pkt_chksum_pseudo (udp_hdr_bytes sport dport ?len 0 @ bs) 17 ?len src dest = v"
    unfolding pkt_chksum_pseudo_def v_def xs_def udp_hdr_bytes_def z pseudo_header_def by (simp only: append.assoc append.simps)
  then have c: "udp_chksum sport dport bs None src dest = (if v = 0 then 0xffff else v)"
    unfolding udp_chksum_def Let_def option.case by (simp only:)
  have e: "pseudo_header src dest 17 ?len @ udp_hdr_bytes sport dport ?len (udp_chksum sport dport bs None src dest) @ bs
      = xs @ bytes16 (if v = 0 then 0xffff else v) @ bs"
    unfolding c xs_def udp_hdr_bytes_def by (simp only: append.assoc)
  show ?thesis unfolding e by (rule chksum_not_zero [OF _ _ v_def]) (use assms in \<open>simp_all add: xs_def pseudo_header_length\<close>)
qed

section \<open>From application to application\<close>

definition udp_datagram :: "ip4_addr_t \<Rightarrow> u16 \<Rightarrow> ip4_addr_t \<Rightarrow> u16 \<Rightarrow> u8 list \<Rightarrow> u8 list" where
  "udp_datagram a sport b dport bs = udp_hdr_bytes sport dport (of_nat (8 + length bs))
     (udp_chksum sport dport bs None (ip_addr_copy_from_ip4 a) (ip_addr_copy_from_ip4 b)) @ bs"

text \<open>A control block that can send over IPv4, and memory for the header.\<close>

definition can_send :: "udp_env \<Rightarrow> udp_pcb \<Rightarrow> bool" where
  "can_send env q \<longleftrightarrow> udp_local_port q \<noteq> 0 \<and> udp_netif_idx q = 0 \<and> udp_flags q AND UDP_FLAGS_NOCHKSUM = 0
     \<and> (IP_IS_V4 (udp_local_ip q) \<or> IP_IS_ANY_TYPE (udp_local_ip q))
     \<and> (env_room env \<or> env_alloc env) \<and> (env_room env \<longrightarrow> env_ip_room env) \<and> env_mems env = []"

lemma udp_sendto_eq:
  assumes "udp_mem s pcb = Some q" "can_send env q" "env_netifs env = n # ns" "length bs \<le> 65507"
  shows "udp_sendto env pcb bs (ip_addr_copy_from_ip4 b) dport (ip_addr_copy_from_ip4 a) sport s ident =
    map_option (\<lambda>(e, out, i). (Udp_Sent e out, s, i))
      (ip4_output_if_src (xif n) True [] (udp_datagram a sport b dport bs) a b (udp_ttl q) (udp_tos q) IP_PROTO_UDP ident)"
proof -
  have v: "IP_ADDR_PCB_VERSION_MATCH q (ip_addr_copy_from_ip4 x)" for x
    using assms(2) by (auto simp: can_send_def IP_ADDR_PCB_VERSION_MATCH_def IP_IS_V4_def)
  have u: "unat (of_nat (length bs) :: u16) = length bs" using assms(4) by (intro unat_of_nat_u16) simp
  have "unat (of_nat (length bs) + 8 :: u16) = length bs + 8" using assms(4) by (simp add: unat_word_ariths u)
  then have l: "\<not> (of_nat (length bs) + 8 :: u16) < of_nat (length bs)" by (simp add: word_less_nat_alt u)
  have idx: "udp_netif_idx q = 0" "udp_local_port q \<noteq> 0" "udp_flags q AND 1 = 0" "\<not> (\<not> env_room env \<and> \<not> env_alloc env)"
      "env_room env \<longrightarrow> env_ip_room env" "env_mems env = []"
    using assms(2) by (auto simp: can_send_def)
  show ?thesis
    unfolding udp_sendto_def udp_sendto_chksum_def udp_sendto_if_chksum_def udp_sendto_if_src_chksum_def assms(1,3) bind.bind_lunit
    using idx l
    by (cases "ip4_output_if_src (xif n) True [] (udp_datagram a sport b dport bs) a b (udp_ttl q) (udp_tos q) IP_PROTO_UDP ident")
      (auto simp: v ip6_route_def Let_def udp_datagram_def assms(1))
qed

lemma udp_input_delivers:
  assumes p: "pdata p = udp_hdr_bytes sport dport len c @ bs" "8 \<le> pkt_first p"
    and r: "udp_pcbs r = rcv # rs" "udp_mem r rcv = Some q" "udp_recv_fn q = Some f"
  shows "\<exists>d. udp_input inp src dest p r = Some (Udp_Recv rcv f (udp_recv_arg q) d src sport dest dport) \<and> pdata d = bs"
proof -
  have len: "8 \<le> length (pdata p)" by (simp add: p(1))
  have "pkt_u16 p 0 = Some (lwip_htons sport)" "pkt_u16 p 2 = Some (lwip_htons dport)"
    using p(2) len by (simp_all add: pkt_u16_def pkt_u8_def) (simp_all add: p(1) udp_hdr_bytes_def bytes16_def le16_bytes16)
  moreover obtain d where "pkt_remove_header 8 p = Some d" "pdata d = bs"
    using p by (cases "plens p") (auto simp: pkt_remove_header_def pkt_first_def)
  ultimately show ?thesis using p(2) r by (simp add: udp_input_def lwip_htons_invol Let_def)
qed

text \<open>
  C27. A datagram that an application sends with \<^verbatim>\<open>udp_sendto\<close> arrives at the application on top of the other stack: through
  IP, whole or in fragments, in any order and cut into any pbufs, the callback of the first control block gets exactly the
  bytes, both addresses and both ports, and the checksum of the datagram is right.
\<close>

theorem udp_sendto_received:
  assumes snd: "udp_mem s pcb = Some q" "can_send env q" "env_netifs env = n # ns" and len: "length bs \<le> 65507"
    and out: "udp_sendto env pcb bs (ip_addr_copy_from_ip4 b) dport (ip_addr_copy_from_ip4 a) sport s ident = Some (Udp_Sent ERR_OK out, s', ident')"
    and mtu: "nif_mtu (xif n) = 0 \<or> 28 \<le> nif_mtu (xif n) \<and> 8 dvd (unat (nif_mtu (xif n)) - 20)"
    and addr: "b \<noteq> nif_ip (xif n)" "addrs_accepted (xif inp) a b"
    and ps: "map (Out_Netif \<circ> pdata) ps = out" "\<forall>p\<in>set ps. 20 \<le> pkt_first p" "28 \<le> pkt_first (hd ps)" and qs: "mset qs = mset ps"
    and raw: "\<forall>p. raw_input p \<noteq> RAW_INPUT_EATEN"
    and t: "reass_mallocs t = []" "(a, b, lwip_htons ident) \<notin> (dgram_key \<circ> iphdr) ` set (reassdatagrams t)"
      "unat (ip_reass_pbufcount t) + (\<Sum>p\<leftarrow>ps. length (plens p)) \<le> 10"
    and r: "udp_pcbs r = rcv # rs" "udp_mem r rcv = Some q'" "udp_recv_fn q' = Some f"
  shows "\<exists>h p d. ip4_run raw_input (xif inp) qs t = Some (replicate (length qs - 1) Ip4_Queued @ [Ip4_To_Udp h p], t)
     \<and> udp_input inp (ip_addr_copy_from_ip4 (ip_src h)) (ip_addr_copy_from_ip4 (ip_dest h)) p r
         = Some (Udp_Recv rcv f (udp_recv_arg q') d (ip_addr_copy_from_ip4 a) sport (ip_addr_copy_from_ip4 b) dport)
     \<and> pdata d = bs
     \<and> NOT (lwip_standard_chksum 0 (pseudo4_header a b 17 (of_nat (8 + length bs)) @ pdata p)) = 0"
proof -
  have l: "length (udp_datagram a sport b dport bs) \<le> 65515" using len by (simp add: udp_datagram_def)
  have "ip4_output_if_src (xif n) True [] (udp_datagram a sport b dport bs) a b (udp_ttl q) (udp_tos q) 17 ident = Some (ERR_OK, out, ident')"
    using out unfolding udp_sendto_eq [OF snd len] by auto
  from output_input [OF mtu addr l this ps(1,2) qs raw t]
  obtain h p where p: "ip4_run raw_input (xif inp) qs t = Some (replicate (length qs - 1) Ip4_Queued @ [Ip4_To_Udp h p], t)"
    "pdata p = udp_datagram a sport b dport bs" "ip_src h = a" "ip_dest h = b" "pkt_first p = pkt_first (hd ps) - 20" by blast
  obtain d where "udp_input inp (ip_addr_copy_from_ip4 a) (ip_addr_copy_from_ip4 b) p r
      = Some (Udp_Recv rcv f (udp_recv_arg q') d (ip_addr_copy_from_ip4 a) sport (ip_addr_copy_from_ip4 b) dport)" "pdata d = bs"
    using udp_input_delivers [OF p(2) [unfolded udp_datagram_def] _ r] p(5) ps(3) by fastforce
  moreover have "NOT (lwip_standard_chksum 0 (pseudo4_header a b 17 (of_nat (8 + length bs)) @ pdata p)) = 0"
    using udp_chksum_verifies [OF len, of 0 "ip_addr_copy_from_ip4 a" "ip_addr_copy_from_ip4 b" sport dport]
    unfolding pseudo_header_def p(2) udp_datagram_def by (simp only: ip_addr_from_ip4_simps if_False)
  ultimately show ?thesis using p by blast
qed

text \<open>
  C30. The control block of the Go layer is made by \<^verbatim>\<open>udp_new\<close> and bound to \<^verbatim>\<open>IP_ADDR_ANY\<close>. It gets the datagrams of both IP versions
  (as the first of the list, once a callback is set), but it cannot answer over IPv6: every \<^verbatim>\<open>udp_sendto\<close> to an IPv6 address ends with
  \<open>ERR_VAL\<close> and sends nothing.
\<close>

theorem udp_default_pcb_no_ipv6:
  assumes "udp_new (Some pcb) s = Some (Some pcb, s1)" "udp_bind ns pcb (Some IP4_ADDR_ANY) 0 s1 = Some (ERR_OK, s2)"
    "udp_recv pcb (Some f) arg s2 = Some s3" "pcb \<notin> set (udp_pcbs s)" "IP_IS_V6 peer"
    and p: "pdata p = udp_hdr_bytes sport dport len c @ bs" "8 \<le> pkt_first p"
  shows "(\<exists>d. udp_input inp peer dest p s3 = Some (Udp_Recv pcb f arg d peer sport dest dport) \<and> pdata d = bs)
    \<and> udp_sendto env pcb answer peer sport dest dport s3 ident = Some (Udp_Sent ERR_VAL [], s3, ident)"
proof -
  let ?q = "\<lparr>udp_local_ip = IP4_ADDR_ANY, udp_remote_ip = IP4_ADDR_ANY, udp_netif_idx = 0, udp_tos = 0,
      udp_ttl = UDP_TTL, udp_flags = 0, udp_local_port = 0, udp_remote_port = 0, udp_recv_fn = None, udp_recv_arg = 0\<rparr>"
  have s1: "s1 = set_pcb pcb ?q s" using assms(1) by (simp add: udp_new_def split: if_splits)
  have "zoned_ipaddr ns IP4_ADDR_ANY = IP4_ADDR_ANY" "ip_addr_set IP4_ADDR_ANY = IP4_ADDR_ANY"
    by (simp_all add: zoned_ipaddr_def ip_addr_set_def IP_IS_V6_def IP4_ADDR_ANY_def ip_2_ip4_def)
  then obtain q where q: "udp_mem s2 pcb = Some q" "udp_local_ip q = IP4_ADDR_ANY" "udp_pcbs s2 = pcb # udp_pcbs s"
    using assms(2,4) s1 by (auto simp: udp_bind_def udp_new_port_def Let_def bind_eq_Some_conv split: if_splits)
  then have s3: "udp_mem s3 pcb = Some (q\<lparr>udp_recv_fn := Some f, udp_recv_arg := arg\<rparr>)" "udp_pcbs s3 = pcb # udp_pcbs s"
    using assms(3) by (auto simp: udp_recv_def)
  have "\<not> IP_ADDR_PCB_VERSION_MATCH (q\<lparr>udp_recv_fn := Some f, udp_recv_arg := arg\<rparr>) peer"
    using assms(5) q(2) by (simp add: IP_ADDR_PCB_VERSION_MATCH_def IP_IS_ANY_TYPE_def IP_IS_V6_def IP4_ADDR_ANY_def)
  then have "udp_sendto env pcb answer peer sport dest dport s3 ident = Some (Udp_Sent ERR_VAL [], s3, ident)"
    by (simp add: udp_sendto_def udp_sendto_chksum_def s3(1))
  moreover have "\<exists>d. udp_input inp peer dest p s3 = Some (Udp_Recv pcb f arg d peer sport dest dport) \<and> pdata d = bs"
    using udp_input_delivers [OF p s3(2,1), of f inp peer dest] by simp
  ultimately show ?thesis by blast
qed

section \<open>Witnesses\<close>

definition one_pcb :: udp where
  "one_pcb = \<lparr>udp_mem = [1 \<mapsto> \<lparr>udp_local_ip = IP4_ADDR_ANY, udp_remote_ip = IP4_ADDR_ANY, udp_netif_idx = 0, udp_tos = 0, udp_ttl = 64,
     udp_flags = 0, udp_local_port = 0xc001, udp_remote_port = 0, udp_recv_fn = Some 5, udp_recv_arg = 6\<rparr>], udp_pcbs = [1], udp_port = 0xc000\<rparr>"

theorem udp_new_port_finds_witness:
  "\<exists>r p. udp_new_port one_pcb = Some (r, one_pcb\<lparr>udp_port := p\<rparr>) \<and> 0xc000 \<le> p
    \<and> (if dynamic_ports \<subseteq> bound_ports one_pcb then r = 0 else r \<in> dynamic_ports - bound_ports one_pcb)"
  by (rule udp_new_port_finds) (simp_all add: one_pcb_def)

definition new_pcb :: "nat \<Rightarrow> udp" where
  "new_pcb a = (case udp_new_ip_type 0 (Some a) (udp_init 9 udp_start) of Some (_, s) \<Rightarrow> s | None \<Rightarrow> udp_start)"


definition sample_xnetif :: xnetif where
  "sample_xnetif = \<lparr>xif = loop_netif, xif_idx = 1, xif_ip6 = []\<rparr>"

definition sample_udp_env :: udp_env where
  "sample_udp_env = \<lparr>env_netifs = [sample_xnetif], env_room = False, env_ip_room = False, env_alloc = True, env_mems = []\<rparr>"

definition udp_out :: "ip_out list" where
  "udp_out = (case udp_sendto sample_udp_env 1 (replicate 12 7) (ip_addr_copy_from_ip4 0x0200000a) 53 (ip_addr_copy_from_ip4 0x0100000a) 99 one_pcb 5 of
     Some (Udp_Sent e out, i) \<Rightarrow> out | _ \<Rightarrow> [])"

definition udp_pkts :: "pkt list" where
  "udp_pkts = map (\<lambda>out. case out of Out_Netif b \<Rightarrow> \<lparr>plens = [length b], pdata = b\<rparr>
     | Out_Loop b \<Rightarrow> \<lparr>plens = [length b], pdata = b\<rparr>) udp_out"

theorem udp_sendto_received_witness:
  "\<exists>h p d. ip4_run (\<lambda>_. RAW_INPUT_NONE) (xif sample_xnetif) (rev udp_pkts) reass_empty
       = Some (replicate (length (rev udp_pkts) - 1) Ip4_Queued @ [Ip4_To_Udp h p], reass_empty)
     \<and> udp_input sample_xnetif (ip_addr_copy_from_ip4 (ip_src h)) (ip_addr_copy_from_ip4 (ip_dest h)) p one_pcb
         = Some (Udp_Recv 1 5 (udp_recv_arg (the (udp_mem one_pcb 1))) d (ip_addr_copy_from_ip4 0x0100000a) 99 (ip_addr_copy_from_ip4 0x0200000a) 53)
     \<and> pdata d = replicate 12 7
     \<and> NOT (lwip_standard_chksum 0 (pseudo4_header 0x0100000a 0x0200000a 17 (of_nat (8 + length (replicate 12 (7 :: u8)))) @ pdata p)) = 0"
proof (rule udp_sendto_received [where n = sample_xnetif and ns = "[]"])
  show "udp_sendto sample_udp_env 1 (replicate 12 7) (ip_addr_copy_from_ip4 0x0200000a) 53 (ip_addr_copy_from_ip4 0x0100000a) 99 one_pcb 5
      = Some (Udp_Sent ERR_OK udp_out, one_pcb, 6)"
  proof -
    have "map_option (\<lambda>(r, s, i). (r, i)) (udp_sendto sample_udp_env 1 (replicate 12 7) (ip_addr_copy_from_ip4 0x0200000a) 53 (ip_addr_copy_from_ip4 0x0100000a) 99 one_pcb 5)
      = Some (Udp_Sent ERR_OK udp_out, 6)" by code_simp
    moreover have "can_send sample_udp_env (the (udp_mem one_pcb 1))" by code_simp
    ultimately show ?thesis
      using udp_sendto_eq [of one_pcb 1 "the (udp_mem one_pcb 1)" sample_udp_env sample_xnetif "[]" "replicate 12 7"]
      by (auto simp: one_pcb_def sample_udp_env_def)
  qed
  show "can_send sample_udp_env (the (udp_mem one_pcb 1))" by code_simp
  show "map (Out_Netif \<circ> pdata) udp_pkts = udp_out" by code_simp
  show "\<forall>p\<in>set udp_pkts. 20 \<le> pkt_first p" by code_simp
  show "28 \<le> pkt_first (hd udp_pkts)" by code_simp
  show "addrs_accepted (xif sample_xnetif) 0x0100000a 0x0200000a" by code_simp
  have "(\<Sum>p\<leftarrow>udp_pkts. length (plens p)) = 2" by code_simp
  then show "unat (ip_reass_pbufcount reass_empty) + (\<Sum>p\<leftarrow>udp_pkts. length (plens p)) \<le> 10" by (simp add: reass_empty_def)
qed (simp_all add: one_pcb_def sample_udp_env_def sample_xnetif_def loop_netif_def reass_empty_def)

definition ip6_peer :: ip_addr_t where
  "ip6_peer = \<lparr>u_addr = \<lparr>addr0 = 0xb80d0120, addr1 = 0, addr2 = 0, addr3 = 0x01000000, zone = 0\<rparr>, iptype = 6\<rparr>"

definition bound_pcb :: udp where
  "bound_pcb = (case udp_bind [] 3 (Some IP4_ADDR_ANY) 0 (snd (the (udp_new (Some 3) udp_start))) of Some (_, s) \<Rightarrow> s | None \<Rightarrow> udp_start)"

theorem udp_default_pcb_no_ipv6_witness:
  "(\<exists>d. udp_input sample_xnetif ip6_peer ip6_peer \<lparr>plens = [9], pdata = udp_hdr_bytes 53 99 9 0 @ [4]\<rparr> (the (udp_recv 3 (Some 5) 6 bound_pcb))
        = Some (Udp_Recv 3 5 6 d ip6_peer 53 ip6_peer 99) \<and> pdata d = [4])
    \<and> udp_sendto sample_udp_env 3 [4] ip6_peer 53 ip6_peer 99 (the (udp_recv 3 (Some 5) 6 bound_pcb)) 7
        = Some (Udp_Sent ERR_VAL [], the (udp_recv 3 (Some 5) 6 bound_pcb), 7)"
proof (rule udp_default_pcb_no_ipv6)
  have p: "udp_new_port (snd (the (udp_new (Some 3) udp_start))) = Some (0xc001, (snd (the (udp_new (Some 3) udp_start)))\<lparr>udp_port := 0xc001\<rparr>)"
    by (simp add: udp_new_port_def udp_new_def udp_start_def port_loop.simps next_port_def)
  show "udp_new (Some 3) udp_start = Some (Some 3, snd (the (udp_new (Some 3) udp_start)))" by (simp add: udp_new_def udp_start_def)
  show "udp_bind [] 3 (Some IP4_ADDR_ANY) 0 (snd (the (udp_new (Some 3) udp_start))) = Some (ERR_OK, bound_pcb)"
    unfolding bound_pcb_def by (simp add: udp_bind_def p) (simp add: udp_new_def udp_start_def)
  have "udp_mem bound_pcb 3 \<noteq> None" unfolding bound_pcb_def by (simp add: udp_bind_def p Let_def) (simp add: udp_new_def udp_start_def)
  then show "udp_recv 3 (Some 5) 6 bound_pcb = Some (the (udp_recv 3 (Some 5) 6 bound_pcb))" by (auto simp: udp_recv_def)
qed (simp_all add: udp_start_def ip6_peer_def IP_IS_V6_def pkt_first_def)

end
