(* ===== verification/Spec2Isabelle.thy ===== *)
theory Spec2Isabelle
  imports Pbuf_Theorems Inet_Chksum Ip4_Addr Timeouts Tcp_Send Tcp_Stack_App Icmp Udp_Theorems
begin

text \<open>
  A verification development for the lwIP TCP/IP stack that this repository embeds.

  \<^bold>\<open>The program.\<close> The repository turns the packets of a TUN device into connections of a
  proxy. Go code (\<^verbatim>\<open>core/*.go\<close>, \<^verbatim>\<open>stack\<close>) feeds IP packets to a C stack
  (\<^verbatim>\<open>core/c/core\<close>), which reassembles them into TCP streams and UDP datagrams and calls back. The C
  stack is compiled with \<^verbatim>\<open>core/custom/lwipopts.h\<close>: no operating system, one thread, memory from
  \<^verbatim>\<open>malloc\<close>, little-endian, \<^verbatim>\<open>TCP_MSS\<close> 1460, \<^verbatim>\<open>TCP_WND\<close> 32768, no window scaling, no
  timestamps, no selective acknowledgements, out-of-sequence queueing on. \<^verbatim>\<open>LWIP_ASSERT\<close> and
  \<^verbatim>\<open>LWIP_ERROR\<close> call \<^verbatim>\<open>abort\<close>. The model follows this configuration; code it leaves out of the
  build is not modelled.

  \<^bold>\<open>Conventions.\<close> C integers are words of their width (\<open>u8\<close>, \<open>u16\<close>, \<open>u32\<close>), structs are records with
  the names of the C fields, enums are datatypes. An operation is a function on an explicit state. \<open>None\<close> is a
  stop of the program: a failed assertion, a read outside allocated memory, a use of freed memory, or a loop that does
  not end (\<^verbatim>\<open>while\<close> loops over pointers are \<^verbatim>\<open>partial_function (option)\<close>); that an operation
  returns is always proved as an equation \<open>f x = Some y\<close>. Error codes are the values of \<open>err_t\<close>.

  \<^bold>\<open>Theories.\<close>

  \<^item> \<open>Lwip_Prelude\<close>: integer types, byte order (\<^verbatim>\<open>def.c\<close>), error codes (\<^verbatim>\<open>err.h\<close>), generic lemmas.

  \<^item> \<open>C_Memory\<close>: allocated blocks, pointers, \<^verbatim>\<open>mem.c\<close> and \<^verbatim>\<open>memp.c\<close> over \<^verbatim>\<open>malloc\<close>; the
    allocator's answers are given by the state, so every allocation may fail.

  \<^item> \<open>Pbuf\<close>, \<open>Pbuf_Data\<close>, \<open>Pbuf_Chain\<close>, \<open>Pbuf_Search\<close>, \<open>Pbuf_Write\<close>, \<open>Pbuf_Struct\<close>, \<open>Pbuf_Alloc\<close>,
    \<open>Pbuf_Theorems\<close>: packet buffers (\<^verbatim>\<open>pbuf.c\<close>). The heap maps addresses to \<^verbatim>\<open>struct pbuf\<close>s that are
    chained by \<^verbatim>\<open>next\<close>; \<open>packet h p as\<close> says that \<open>p\<close> is a well-formed packet with the pbufs \<open>as\<close>
    (lengths add up, payloads are allocated, references are counted), and \<open>content h as\<close> is its list of bytes. The
    lemmas relate each operation to the contents: allocation and release, headers, truncation, concatenation, reading,
    writing and searching at an offset. The locale \<open>byte_source\<close> is the interface between the byte-wise readers and
    the search functions, interpreted on packets.

  \<^item> \<open>Chksum_Algorithms\<close>, \<open>Inet_Chksum\<close>, \<open>Ip_Addr\<close>: the Internet checksum (\<^verbatim>\<open>inet_chksum.c\<close>). The three
    selectable algorithms satisfy the locale \<open>lwip_chksum\<close> (the result is determined by the one's-complement sum);
    the callers, over chains and with pseudo headers, are proved in terms of that interface.

  \<^item> \<open>Ip4_Addr\<close>: IPv4 addresses as text, netmasks, broadcast addresses (\<^verbatim>\<open>ipv4/ip4_addr.c\<close>), over C strings as
    lists of bytes: printing and parsing are inverse, stay within their buffers, and end.

  \<^item> \<open>Serial_Numbers\<close>: comparison of wrapping 32-bit counters; the locale \<open>serial_order\<close> is interpreted for the clock
    and for TCP sequence numbers.

  \<^item> \<open>Timeouts\<close>: the timer list (\<^verbatim>\<open>timeouts.c\<close>). Handlers outside the file are the parameter
    \<open>timer_env\<close>.

  \<^item> \<open>Tcp_Pcb\<close>, \<open>Tcp_Opt\<close>, \<open>Tcp_In\<close>, \<open>Tcp_Process\<close>: a TCP connection (\<^verbatim>\<open>struct tcp_pcb\<close>), options,
    \<^verbatim>\<open>tcp_receive\<close> and the state machine \<^verbatim>\<open>tcp_process\<close> (\<^verbatim>\<open>tcp_in.c\<close>, and what they call of
    \<^verbatim>\<open>tcp.c\<close> and \<^verbatim>\<open>tcp_out.c\<close>). Segments carry their bytes as a list and the number of their pbufs; the
    static variables of \<^verbatim>\<open>tcp_in.c\<close> are the record \<open>tcp_in\<close>, together with the answers of the layers below (memory
    for a copied segment, the fate of each control segment) and a trace of what leaves the connection.

  \<^item> \<open>Tcp_Oos\<close>, \<open>Tcp_Rcv\<close>, \<open>Tcp_Ack\<close>, \<open>Tcp_Theorems\<close>, \<open>Tcp_Machine\<close>: the sender as an abstract stream of
    bytes with positions in the natural numbers; \<open>rcv_state st n hi C p\<close> says that \<open>p\<close> expects position \<open>n\<close>, has a
    window up to \<open>hi\<close> and holds the positions \<open>C\<close> on its queue. \<^verbatim>\<open>tcp_receive\<close> refines the delivery of that stream;
    acknowledgements free what they cover; the states follow RFC 793; \<open>tcp_run\<close> are the runs of a connection.

  \<^item> \<open>Tcp_Out\<close>, \<open>Tcp_Send\<close>: sending (\<^verbatim>\<open>tcp_output\<close>, \<^verbatim>\<open>tcp_output_segment\<close>, \<^verbatim>\<open>tcp_enqueue_flags\<close>,
    \<^verbatim>\<open>tcp_send_fin\<close> of \<^verbatim>\<open>tcp_out.c\<close>): what is sent and why sending stops, and that a connection with something to
    send has a timer running.

  \<^item> \<open>Tcp_Conn\<close>, \<open>Tcp_Open\<close>: the control blocks of TCP and their lists (\<^verbatim>\<open>tcp.c\<close>): ports, allocation, binding,
    listening, opening, closing, aborting. The record \<open>tcp_stack\<close> holds the static variables of the file, with the
    blocks at addresses; the record \<open>tcp_world\<close> is what is outside.

  \<^item> \<open>Tcp_Conn_Ok\<close>, \<open>Tcp_Stack_Ok\<close>, \<open>Tcp_Stack_Calls\<close>, \<open>Tcp_Stack_Open\<close>, \<open>Tcp_Stack_Reach\<close>, \<open>Tcp_Stack_App\<close>: the
    invariant \<open>stack_ok\<close> of the blocks and lists, and that every call returns and keeps it. The locale
    \<open>tcp_application\<close> is the contract of the application's callbacks (they may call everything, and leave the
    invariant intact); it is interpreted for the default callbacks of the stack. \<open>tcp_reach\<close> are the states after any
    sequence of calls.

  \<^item> \<open>Ip4_Frag\<close>, \<open>Ip4_Reass\<close>, \<open>Ip4_Train\<close>, \<open>Ip4_Cut\<close>: fragmentation and reassembly (\<^verbatim>\<open>ipv4/ip4_frag.c\<close>). The queue
    keeps its invariant for every fragment, the fragments of a datagram may come in any order, incomplete datagrams
    time out, and reassembly undoes fragmentation.

  \<^item> \<open>Ip4\<close>, \<open>Ip4_Theorems\<close>: input, output and the dispatcher (\<^verbatim>\<open>ipv4/ip4.c\<close>). A packet is the lengths of its pbufs and
    its bytes; reads outside the first pbuf are \<open>None\<close>. Input is safe for every packet, and what is sent is received.

  \<^item> \<open>Icmp\<close>: echo replies and error messages (\<^verbatim>\<open>ipv4/icmp.c\<close>).

  \<^item> \<open>Port_Search\<close>, \<open>Ip_Any\<close>, \<open>Udp\<close>, \<open>Udp_Inv\<close>, \<open>Udp_Theorems\<close>: UDP (\<^verbatim>\<open>udp.c\<close>) and the macros for addresses of either
    version. The locale \<open>port_range\<close> is what the search for a free port needs of the step from a port to the next;
    \<open>udp_reach\<close> are the states after any sequence of calls of the application.

  \<^bold>\<open>How the parts interact.\<close> The TCP theories use packets through their contents; the theorem of this theory
  joins checksums and packet buffers: what a sender stores in a packet is accepted by a receiver. The IP theories join
  output, fragmentation, reassembly and input, and hand the datagram to the protocol above;
  the UDP theories carry this on from \<^verbatim>\<open>udp_sendto\<close> of one stack to the receive callback of the other.

  \<^bold>\<open>Parameters.\<close> The application's callbacks and the route of a connection are the record \<open>tcp_env\<close>; the theorems
  that need it assume that callbacks do not change the state themselves. While a segment is processed,
  \<^verbatim>\<open>tcp_output\<close> returns at once for the connection in hand (\<^verbatim>\<open>tcp_input_pcb\<close>), so it has no effect
  there. Of the control blocks, the record \<open>tcp_world\<close> gives the interfaces, the choice of IPv6 source addresses
  (\<^verbatim>\<open>ip6_select_source_address\<close>), the path MTU of IPv6 and the application. The hint to the IPv6 neighbour cache (\<^verbatim>\<open>nd6_reachability_hint\<close>) does not concern the connection.

  \<^bold>\<open>Not modelled\<close> so far: \<^verbatim>\<open>tcp_write\<close> and \<^verbatim>\<open>tcp_split_unsent_seg\<close>, the TCP timers,
  and the demultiplexer \<^verbatim>\<open>tcp_input\<close>; IPv6 beyond its addresses (\<^verbatim>\<open>udp_sendto\<close> over IPv6 ends with the call
  of \<^verbatim>\<open>ip6_output_if_src\<close>), neighbour discovery, the configuration of interfaces; parsing and printing of IPv6 addresses.
  Out of the build: DNS, DHCP, AutoIP, ARP, IGMP, MLD, the \<^verbatim>\<open>altcp\<close> layer, PPP. The Go code is outside the C stack.
\<close>

section \<open>Checksums of packets\<close>

lemma bytes16_overlay:
  assumes "i + 2 \<le> length c" and "take 2 (drop i c) = [0, 0]"
  shows "c = take i c @ 0 # 0 # drop (i + 2) c"
proof -
  have "drop i c = take 2 (drop i c) @ drop 2 (drop i c)" by (rule append_take_drop_id [symmetric])
  then have "drop i c = 0 # 0 # drop (i + 2) c" unfolding assms(2) by (simp add: add.commute)
  then show ?thesis by (metis append_take_drop_id)
qed

text \<open>
  C31. A sender computes the checksum of a TCP or UDP packet with a zero checksum field, at an
  even offset, and stores the result there with \<^verbatim>\<open>pbuf_take_at\<close>. A receiver that
  checksums the packet with the same pseudo header then obtains 0, the value that means
  \<open>correct\<close>.
\<close>

theorem checksum_verifies:
  assumes "packet h (Some a) as" and "separate h as"
    and "even (unat off)" and "unat off + 2 \<le> length (content h as)"
    and "take 2 (drop (unat off) (content h as)) = [0, 0]"
    and "inet_chksum_pseudo lwip_standard_chksum (Some a) pr len src dest h = Some v"
    and "d \<noteq> None" and "ptr_block d \<notin> blocks h as" and "load h d (unat (2 :: u16)) = Some (bytes16 v)"
  shows "\<exists>h'. pbuf_take_at (Some a) d 2 off h = Some (ERR_OK, h')
           \<and> inet_chksum_pseudo lwip_standard_chksum (Some a) pr len src dest h' = Some 0"
proof -
  let ?c = "content h as" and ?hdr = "pseudo4_header src dest pr len"
  have lt: "unat off < length ?c" "unat off + unat (2 :: u16) \<le> length ?c" using assms(4) by simp_all
  obtain h' where tk: "pbuf_take_at (Some a) d 2 off h = Some (ERR_OK, h')"
    and w: "writes_only (blocks h as) h h'" and c: "content h' as = overlay (unat off) (bytes16 v) ?c"
    using pbuf_take_at_eq [OF assms(1,2,8,7,9) lt(2,1)] by blast
  have pk: "packet h' (Some a) as" using assms(1) by (simp only: writes_only_packet [OF w])
  define xs ys where "xs = ?hdr @ take (unat off) ?c" and "ys = drop (unat off + 2) ?c"
  have split: "?hdr @ ?c = xs @ 0 # 0 # ys"
    using bytes16_overlay [OF assms(4,5)] by (simp add: xs_def ys_def)
  have hdr: "length ?hdr = 12" by (simp add: pseudo4_header_def)
  have "v = NOT (lwip_standard_chksum 0 (xs @ 0 # 0 # ys))"
    using assms(6) chksum2.inet_chksum_pseudo_eq [OF assms(1), of pr len src dest 0] by (simp add: split)
  moreover have "even (length xs)" using assms(3,4) by (simp add: xs_def hdr)
  moreover have "length (xs @ 0 # 0 # ys) \<le> 0x20000"
    using packet_length [OF assms(1)] unfolding split [symmetric] by (simp add: hdr)
  ultimately have "NOT (lwip_standard_chksum 0 (xs @ bytes16 v @ ys)) = 0"
    by (intro chksum2.chk_complement [of xs ys v 0 0]) simp_all
  moreover have "?hdr @ content h' as = xs @ bytes16 v @ ys"
    by (simp add: c overlay_def xs_def ys_def)
  ultimately show ?thesis
    using tk chksum2.inet_chksum_pseudo_eq [OF pk, of pr len src dest 0] by simp
qed

definition udp_heap :: pheap where
  "udp_heap = sample_heap\<lparr>mem := (mem sample_heap)(1 \<mapsto> [2, 0, 0, 4], 2 \<mapsto> [249, 224])\<rparr>"

lemma udp_heap_packet: "packet udp_heap (Some 0) [0, 1]"
  by (simp add: udp_heap_def sample_heap_def content_def pbytes_def in_block_def)

lemma udp_heap_content: "content udp_heap [0, 1] = [1, 2, 3, 2, 0, 0, 4]"
  by (simp add: udp_heap_def sample_heap_def content_def pbytes_def in_block_def)

lemma udp_heap_separate: "separate udp_heap [0, 1]" "blocks udp_heap [0, 1] = {Some 0, Some 1}"
  by (simp_all add: separate_def blocks_def pblock_def udp_heap_def sample_heap_def)

theorem checksum_verifies_witness:
  "\<exists>h'. pbuf_take_at (Some 0) (Some (2, 0)) 2 4 udp_heap = Some (ERR_OK, h')
     \<and> inet_chksum_pseudo lwip_standard_chksum (Some 0) 17 7 0x0100007f 0x0100007f h' = Some 0"
proof (rule checksum_verifies [OF udp_heap_packet udp_heap_separate(1), where v = 57593])
  have "NOT (lwip_standard_chksum 0 (pseudo4_header 0x0100007f 0x0100007f 17 7 @ [1, 2, 3, 2, 0, 0, 4])) = 57593"
    by code_simp
  then show "inet_chksum_pseudo lwip_standard_chksum (Some 0) 17 7 0x0100007f 0x0100007f udp_heap = Some 57593"
    using chksum2.inet_chksum_pseudo_eq [OF udp_heap_packet, of 17 7 "0x0100007f" "0x0100007f" 0]
    unfolding udp_heap_content by simp
  have "bytes16 57593 = [249, 224]" by code_simp
  then show "load udp_heap (Some (2, 0)) (unat (2 :: u16)) = Some (bytes16 57593)"
    by (simp add: udp_heap_def in_block_def)
qed (unfold udp_heap_content udp_heap_separate(2), simp_all add: ptr_block_def)

end
